(* ===== verification/Marlin_Prelude.thy ===== *)
theory Marlin_Prelude
  imports Main "HOL-Library.Word" "HOL-Library.Monad_Syntax"
begin

unbundle bit_operations_syntax

text \<open>
  Shared vocabulary of the development: machine integers, byte strings and their
  little-endian reading, checked memory accesses on a packet buffer, and the generic
  lemmas the component theories rest on.

  A packet is the byte string between \<^verbatim>\<open>data\<close> and \<^verbatim>\<open>data_end\<close>. A load or a store
  outside it is undefined behaviour in C (and a program the kernel refuses), so loads and
  stores return an option: \<^const>\<open>None\<close> is the illegal access. That no operation of the
  data plane ever produces it is a theorem about each of them, never an assumption.

  Integers are read in the byte order of a little-endian host, the one the BPF object and
  the daemon are deployed on: a \<^verbatim>\<open>__be16\<close> field is the value a plain 16-bit load of its
  two bytes gives, and \<^verbatim>\<open>bpf_htons\<close> is the byte swap.
\<close>

section \<open>Machine integers\<close>

type_synonym u8 = "8 word"
type_synonym u16 = "16 word"
type_synonym u32 = "32 word"
type_synonym u64 = "64 word"

text \<open>A six-byte array (a MAC address) and a sixteen-byte array (a key), each held as the
  word whose little-endian bytes are the elements of the array.\<close>

type_synonym mac = "48 word"
type_synonym key128 = "128 word"

text \<open>A \<^verbatim>\<open>__be32[4]\<close> array: an IPv6 address, or an IPv4 one in the first element.\<close>

type_synonym quad = "u32 \<times> u32 \<times> u32 \<times> u32"

type_synonym bytes = "u8 list"

named_theorems mem_simps \<open>checked loads and stores\<close>
named_theorems safe_intros \<open>operations that never make an illegal access\<close>

section \<open>Little-endian reading of byte strings\<close>

fun le_val :: "bytes \<Rightarrow> 'a::len word" where
  "le_val [] = 0"
| "le_val (b # bs) = ucast b OR push_bit 8 (le_val bs)"

fun le_bytes :: "nat \<Rightarrow> 'a::len word \<Rightarrow> bytes" where
  "le_bytes 0 w = []"
| "le_bytes (Suc n) w = ucast w # le_bytes n (drop_bit 8 w)"

lemma length_le_bytes [simp]: "length (le_bytes n w) = n"
  by (induction n arbitrary: w) auto

lemma nth_le_bytes: "k < n \<Longrightarrow> le_bytes n w ! k = ucast (drop_bit (8 * k) w)"
proof (induction n arbitrary: w k)
  case 0
  then show ?case by simp
next
  case (Suc n)
  then show ?case by (cases k) (auto simp: drop_bit_drop_bit ac_simps)
qed

lemma bit_le_val:
  "bit (le_val bs :: 'a::len word) i \<longleftrightarrow>
    i < LENGTH('a) \<and> i < 8 * length bs \<and> bit (bs ! (i div 8)) (i mod 8)"
proof (induction bs arbitrary: i)
  case Nil
  then show ?case by simp
next
  case (Cons b bs)
  show ?case
  proof (cases "i < 8")
    case True
    then show ?thesis by (auto simp: bit_simps)
  next
    case False
    then have "i div 8 = Suc ((i - 8) div 8)" and "(i - 8) mod 8 = i mod 8"
      by (simp_all add: le_div_geq le_mod_geq)
    with False Cons [of "i - 8"] show ?thesis
      by (auto simp: bit_simps dest: bit_imp_le_length)
  qed
qed

lemma le_val_le_bytes: "le_val (le_bytes n w) = take_bit (8 * n) w"
proof (rule bit_word_eqI)
  fix i
  assume "i < LENGTH('a)"
  moreover have "8 * (i div 8) + i mod 8 = i" by simp
  ultimately show "bit (le_val (le_bytes n w) :: 'a word) i = bit (take_bit (8 * n) w) i"
    by (auto simp: bit_le_val nth_le_bytes bit_simps less_mult_imp_div_less mult.commute)
qed

lemma le_val_le_bytes_full [simp]:
  "LENGTH('a) \<le> 8 * n \<Longrightarrow> le_val (le_bytes n w) = (w :: 'a::len word)"
  by (simp add: le_val_le_bytes take_bit_word_eq_self)

lemma le_bytes_le_val:
  assumes "8 * length bs \<le> LENGTH('a::len)"
  shows "le_bytes (length bs) (le_val bs :: 'a word) = bs"
proof (rule nth_equalityI)
  fix k
  assume k: "k < length (le_bytes (length bs) (le_val bs :: 'a word))"
  show "le_bytes (length bs) (le_val bs :: 'a word) ! k = bs ! k"
  proof (rule bit_word_eqI)
    fix i
    assume "i < LENGTH(8)"
    with k assms show "bit (le_bytes (length bs) (le_val bs :: 'a word) ! k) i = bit (bs ! k) i"
      by (auto simp: nth_le_bytes bit_simps bit_le_val)
  qed
qed simp

text \<open>\<^verbatim>\<open>bpf_htons\<close>, \<^verbatim>\<open>bpf_ntohs\<close>, \<^verbatim>\<open>htons\<close> and \<^verbatim>\<open>bpf_htonl\<close> on a little-endian host.\<close>

definition bswap16 :: "u16 \<Rightarrow> u16" where
  "bswap16 x = le_val (rev (le_bytes 2 x))"

definition bswap32 :: "u32 \<Rightarrow> u32" where
  "bswap32 x = le_val (rev (le_bytes 4 x))"

lemma le_bytes_bswap16: "le_bytes 2 (bswap16 x) = rev (le_bytes 2 x)"
  using le_bytes_le_val [where 'a = 16 and bs = "rev (le_bytes 2 x)"] by (simp add: bswap16_def)

lemma le_bytes_bswap32: "le_bytes 4 (bswap32 x) = rev (le_bytes 4 x)"
  using le_bytes_le_val [where 'a = 32 and bs = "rev (le_bytes 4 x)"] by (simp add: bswap32_def)

lemma bswap16_bswap16 [simp]: "bswap16 (bswap16 x) = x"
  by (simp add: bswap16_def [of "bswap16 x"] le_bytes_bswap16)

lemma bswap32_bswap32 [simp]: "bswap32 (bswap32 x) = x"
  by (simp add: bswap32_def [of "bswap32 x"] le_bytes_bswap32)

section \<open>Checked loads and stores on a byte buffer\<close>

definition rd :: "nat \<Rightarrow> nat \<Rightarrow> bytes \<Rightarrow> bytes option" where
  "rd n off f = (if off + n \<le> length f then Some (take n (drop off f)) else None)"

definition rd8 :: "nat \<Rightarrow> bytes \<Rightarrow> u8 option" where
  "rd8 off f = (if off < length f then Some (f ! off) else None)"

definition rd16 :: "nat \<Rightarrow> bytes \<Rightarrow> u16 option" where
  "rd16 off f = map_option le_val (rd 2 off f)"

definition rd32 :: "nat \<Rightarrow> bytes \<Rightarrow> u32 option" where
  "rd32 off f = map_option le_val (rd 4 off f)"

definition rd_mac :: "nat \<Rightarrow> bytes \<Rightarrow> mac option" where
  "rd_mac off f = map_option le_val (rd 6 off f)"

definition rd_quad :: "nat \<Rightarrow> bytes \<Rightarrow> quad option" where
  "rd_quad off f = do {
     a \<leftarrow> rd32 off f; b \<leftarrow> rd32 (off + 4) f; c \<leftarrow> rd32 (off + 8) f; d \<leftarrow> rd32 (off + 12) f;
     Some (a, b, c, d) }"

definition wr :: "nat \<Rightarrow> bytes \<Rightarrow> bytes \<Rightarrow> bytes option" where
  "wr off bs f =
     (if off + length bs \<le> length f then Some (take off f @ bs @ drop (off + length bs) f) else None)"

lemma rd_Some [mem_simps]: "off + n \<le> length f \<Longrightarrow> rd n off f = Some (take n (drop off f))"
  by (simp add: rd_def)

lemma rd8_Some [mem_simps]: "off < length f \<Longrightarrow> rd8 off f = Some (f ! off)"
  by (simp add: rd8_def)

lemma rd16_Some [mem_simps]: "off + 2 \<le> length f \<Longrightarrow> rd16 off f = Some (le_val (take 2 (drop off f)))"
  by (simp add: rd16_def rd_def)

lemma rd32_Some [mem_simps]: "off + 4 \<le> length f \<Longrightarrow> rd32 off f = Some (le_val (take 4 (drop off f)))"
  by (simp add: rd32_def rd_def)

lemma rd_mac_Some [mem_simps]: "off + 6 \<le> length f \<Longrightarrow> rd_mac off f = Some (le_val (take 6 (drop off f)))"
  by (simp add: rd_mac_def rd_def)

lemma rd_quad_defined [mem_simps]: "off + 16 \<le> length f \<Longrightarrow> \<exists>q. rd_quad off f = Some q"
  by (simp add: rd_quad_def mem_simps)

lemma wr_Some [mem_simps]:
  "off + length bs \<le> length f \<Longrightarrow> wr off bs f = Some (take off f @ bs @ drop (off + length bs) f)"
  by (simp add: wr_def)

lemma wr_length: "wr off bs f = Some g \<Longrightarrow> length g = length f"
  by (auto simp: wr_def split: if_splits)

lemma wr_None_iff: "wr off bs f = None \<longleftrightarrow> length f < off + length bs"
  by (auto simp: wr_def)

text \<open>A buffer made of consecutive pieces: a store into one of them replaces that piece.\<close>

lemma wr_middle [mem_simps]:
  "length a = off \<Longrightarrow> length b = length bs \<Longrightarrow> wr off bs (a @ b @ c) = Some (a @ bs @ c)"
  by (simp add: wr_def)

lemma wr_front [mem_simps]: "length b = length bs \<Longrightarrow> wr 0 bs (b @ c) = Some (bs @ c)"
  by (simp add: wr_def)

lemma rd_middle [mem_simps]: "length a = off \<Longrightarrow> length b = n \<Longrightarrow> rd n off (a @ b @ c) = Some b"
  by (simp add: rd_def)

section \<open>Unsigned arithmetic that does not wrap\<close>

lemma unat_add_nowrap: "unat a + unat b < 2 ^ LENGTH('a) \<Longrightarrow> unat (a + b :: 'a::len word) = unat a + unat b"
  by (rule unat_add_lem [THEN iffD1])

lemma unat_mult_nowrap: "unat a * unat b < 2 ^ LENGTH('a) \<Longrightarrow> unat (a * b :: 'a::len word) = unat a * unat b"
  by (rule unat_mult_lem [THEN iffD1])

lemma unat_ucast_up_le: "LENGTH('a) \<le> LENGTH('b) \<Longrightarrow> unat (ucast (x :: 'a::len word) :: 'b::len word) = unat x"
  by (simp add: unsigned_ucast_eq take_bit_nat_eq_self order.strict_trans2 [OF unsigned_less])

lemma unat_u8_le: "unat (x :: u8) \<le> 255"
  using unsigned_less [where 'a = nat, of x] by simp

lemma unat_u16_le: "unat (x :: u16) \<le> 65535"
  using unsigned_less [where 'a = nat, of x] by simp

section \<open>Safety\<close>

text \<open>A computation is safe when it makes no illegal access.\<close>

definition safe :: "'a option \<Rightarrow> bool" where
  "safe x \<longleftrightarrow> x \<noteq> None"

lemma safe_Some [simp, intro]: "safe (Some x)"
  by (simp add: safe_def)

lemma safe_None [simp]: "\<not> safe None"
  by (simp add: safe_def)

lemma safe_iff: "safe x \<longleftrightarrow> (\<exists>y. x = Some y)"
  by (auto simp: safe_def)

lemma safe_bind: "safe x \<Longrightarrow> (\<And>y. x = Some y \<Longrightarrow> safe (f y)) \<Longrightarrow> safe (x \<bind> f)"
  by (cases x) auto

end
