(* ===== verification/Marlin_Abi.thy ===== *)
theory Marlin_Abi
  imports Marlin_Prelude
begin

text \<open>
  The types and constants shared by the data plane and the daemon: the map keys and values
  of \<^verbatim>\<open>abi/types.h\<close>, the sizes, flag bits and modes of \<^verbatim>\<open>abi/defines.h\<close>, the per-packet
  context and the verdicts of \<^verbatim>\<open>marlin.h\<close>, the wire constants of \<^verbatim>\<open>proto.h\<close> and the BPF maps
  of \<^verbatim>\<open>maps.h\<close>.

  A map is its content, a partial function from keys to values; a map key is compared byte for
  byte, which for these padding-free structs is equality of records. The 16-byte address union
  of \<^verbatim>\<open>struct vip_key\<close> is the four words it overlays, \<^verbatim>\<open>addr4\<close> being the first.
\<close>

section \<open>Sizes, flag bits, modes (abi/defines.h)\<close>

definition MAX_EXT_HDRS :: nat where [simp]: "MAX_EXT_HDRS = 8"
definition TABLE_SIZE :: u32 where [simp]: "TABLE_SIZE = 65536"
definition MAX_VIPS :: u32 where [simp]: "MAX_VIPS = 100"
definition MAX_BACKENDS :: u32 where [simp]: "MAX_BACKENDS = 4096"
definition MAX_TX_PORTS :: nat where [simp]: "MAX_TX_PORTS = 64"
definition MAX_ACL_ENTRIES :: nat where [simp]: "MAX_ACL_ENTRIES = 65536"
definition DROP_REASON_MAX :: nat where [simp]: "DROP_REASON_MAX = 48"

definition AF_INET :: u8 where [simp]: "AF_INET = 2"
definition AF_INET6 :: u8 where [simp]: "AF_INET6 = 10"

definition MARLIN_BE_F_ENCAP_MODE_MASK :: u8 where [simp]: "MARLIN_BE_F_ENCAP_MODE_MASK = 0x0f"
definition MARLIN_BE_F_ENCAP_REQUIRED :: u8 where [simp]: "MARLIN_BE_F_ENCAP_REQUIRED = 0x10"
definition MARLIN_BE_F_FIB :: u8 where [simp]: "MARLIN_BE_F_FIB = 0x20"
definition MARLIN_BE_F_STATE :: u8 where [simp]: "MARLIN_BE_F_STATE = 0x40"

definition ENCAP_MODE :: "u8 \<Rightarrow> u8" where
  "ENCAP_MODE f = f AND MARLIN_BE_F_ENCAP_MODE_MASK"

definition MARLIN_MODE_L2DSR :: u8 where [simp]: "MARLIN_MODE_L2DSR = 0"
definition MARLIN_MODE_IPIP :: u8 where [simp]: "MARLIN_MODE_IPIP = 1"
definition MARLIN_MODE_GUE :: u8 where [simp]: "MARLIN_MODE_GUE = 2"
definition MARLIN_MODE_VXLAN :: u8 where [simp]: "MARLIN_MODE_VXLAN = 3"

definition CFG_ACL_ENABLE :: u32 where [simp]: "CFG_ACL_ENABLE = 1"
definition CFG_RL_ENABLE :: u32 where [simp]: "CFG_RL_ENABLE = 2"

definition VIP_ACL :: u32 where [simp]: "VIP_ACL = 1"
definition VIP_RATELIMIT :: u32 where [simp]: "VIP_RATELIMIT = 2"
definition VIP_HASH_5TUPLE :: u32 where [simp]: "VIP_HASH_5TUPLE = 4"
definition VIP_QUIC :: u32 where [simp]: "VIP_QUIC = 8"
definition VIP_HASH_PORTS :: u32 where [simp]: "VIP_HASH_PORTS = 16"

definition VIP_QUIC_CID_LEN_MASK :: u32 where
  "VIP_QUIC_CID_LEN_MASK = push_bit 8 0x1f"

definition VIP_QUIC_CID_LEN :: "u32 \<Rightarrow> u32" where
  "VIP_QUIC_CID_LEN f = drop_bit 8 (f AND VIP_QUIC_CID_LEN_MASK)"

definition VIP_DSCP_MASK :: u32 where
  "VIP_DSCP_MASK = push_bit 16 0x3f"

definition VIP_DSCP :: "u32 \<Rightarrow> u32" where
  "VIP_DSCP f = drop_bit 16 (f AND VIP_DSCP_MASK)"

definition RL_TOKEN_SHIFT :: nat where [simp]: "RL_TOKEN_SHIFT = 8"
definition RL_TICK_SHIFT :: nat where [simp]: "RL_TICK_SHIFT = 20"
definition RL_CAS_RETRIES :: nat where [simp]: "RL_CAS_RETRIES = 4"

definition MARLIN_GUE_DPORT_DEFAULT :: u16 where [simp]: "MARLIN_GUE_DPORT_DEFAULT = 6080"
definition MARLIN_VXLAN_DPORT_DEFAULT :: u16 where [simp]: "MARLIN_VXLAN_DPORT_DEFAULT = 4789"
definition MARLIN_VNI_MASK :: u32 where [simp]: "MARLIN_VNI_MASK = 0x00ffffff"
definition MARLIN_VNI_RESERVED :: u32 where "MARLIN_VNI_RESERVED = NOT MARLIN_VNI_MASK"

definition MARLIN_OVERHEAD_IPIP :: nat where [simp]: "MARLIN_OVERHEAD_IPIP = 20"
definition MARLIN_OVERHEAD_GUE :: nat where [simp]: "MARLIN_OVERHEAD_GUE = 32"
definition MARLIN_OVERHEAD_VXLAN :: nat where [simp]: "MARLIN_OVERHEAD_VXLAN = 50"

datatype acl_list = ACL_LIST_ALLOW | ACL_LIST_BLOCK
datatype acl_family = ACL_FAMILY_V4 | ACL_FAMILY_V6

definition ACL_LISTS_BIT :: "acl_list \<Rightarrow> acl_family \<Rightarrow> u16" where
  "ACL_LISTS_BIT l fam =
     push_bit ((case l of ACL_LIST_ALLOW \<Rightarrow> 0 | ACL_LIST_BLOCK \<Rightarrow> 2) +
               (case fam of ACL_FAMILY_V4 \<Rightarrow> 0 | ACL_FAMILY_V6 \<Rightarrow> 1)) 1"

section \<open>Wire constants (proto.h and the UAPI headers it completes)\<close>

definition ETH_HLEN :: nat where [simp]: "ETH_HLEN = 14"
definition ETH_P_IP :: u16 where [simp]: "ETH_P_IP = 0x0800"
definition ETH_P_IPV6 :: u16 where [simp]: "ETH_P_IPV6 = 0x86DD"

definition IP_OFFSET :: u16 where [simp]: "IP_OFFSET = 0x1fff"
definition IP_MF :: u16 where [simp]: "IP_MF = 0x2000"
definition IP_DF :: u16 where [simp]: "IP_DF = 0x4000"
definition MARLIN_IPV4_IHL_MIN :: u8 where [simp]: "MARLIN_IPV4_IHL_MIN = 5"
definition IP6_MF :: u16 where [simp]: "IP6_MF = 0x0001"
definition IP6_OFFSET :: u16 where [simp]: "IP6_OFFSET = 0xfff8"

definition IPPROTO_HOPOPTS :: u8 where [simp]: "IPPROTO_HOPOPTS = 0"
definition IPPROTO_ICMP :: u8 where [simp]: "IPPROTO_ICMP = 1"
definition IPPROTO_IPIP :: u8 where [simp]: "IPPROTO_IPIP = 4"
definition IPPROTO_TCP :: u8 where [simp]: "IPPROTO_TCP = 6"
definition IPPROTO_UDP :: u8 where [simp]: "IPPROTO_UDP = 17"
definition IPPROTO_IPV6 :: u8 where [simp]: "IPPROTO_IPV6 = 41"
definition IPPROTO_ROUTING :: u8 where [simp]: "IPPROTO_ROUTING = 43"
definition IPPROTO_FRAGMENT :: u8 where [simp]: "IPPROTO_FRAGMENT = 44"
definition IPPROTO_ESP :: u8 where [simp]: "IPPROTO_ESP = 50"
definition IPPROTO_AH :: u8 where [simp]: "IPPROTO_AH = 51"
definition IPPROTO_ICMPV6 :: u8 where [simp]: "IPPROTO_ICMPV6 = 58"
definition IPPROTO_DSTOPTS :: u8 where [simp]: "IPPROTO_DSTOPTS = 60"
definition IPPROTO_SCTP :: u8 where [simp]: "IPPROTO_SCTP = 132"

definition ICMP_ECHOREPLY :: u8 where [simp]: "ICMP_ECHOREPLY = 0"
definition ICMP_DEST_UNREACH :: u8 where [simp]: "ICMP_DEST_UNREACH = 3"
definition ICMP_ECHO :: u8 where [simp]: "ICMP_ECHO = 8"
definition ICMP_TIME_EXCEEDED :: u8 where [simp]: "ICMP_TIME_EXCEEDED = 11"
definition ICMP_PARAMETERPROB :: u8 where [simp]: "ICMP_PARAMETERPROB = 12"
definition ICMPV6_DEST_UNREACH :: u8 where [simp]: "ICMPV6_DEST_UNREACH = 1"
definition ICMPV6_PKT_TOOBIG :: u8 where [simp]: "ICMPV6_PKT_TOOBIG = 2"
definition ICMPV6_TIME_EXCEED :: u8 where [simp]: "ICMPV6_TIME_EXCEED = 3"
definition ICMPV6_PARAMPROB :: u8 where [simp]: "ICMPV6_PARAMPROB = 4"
definition ICMPV6_ECHO_REQUEST :: u8 where [simp]: "ICMPV6_ECHO_REQUEST = 128"
definition ICMPV6_ECHO_REPLY :: u8 where [simp]: "ICMPV6_ECHO_REPLY = 129"

definition MARLIN_UDP_HLEN :: nat where [simp]: "MARLIN_UDP_HLEN = 8"
definition MARLIN_OUTER_TTL :: u8 where [simp]: "MARLIN_OUTER_TTL = 64"
definition MARLIN_VXLAN_FLAG_VNI :: u8 where [simp]: "MARLIN_VXLAN_FLAG_VNI = 0x08"
definition MARLIN_QUIC_LONG_HEADER :: u8 where [simp]: "MARLIN_QUIC_LONG_HEADER = 0x80"
definition MARLIN_QUIC_CID_MIN :: u32 where [simp]: "MARLIN_QUIC_CID_MIN = 7"
definition MARLIN_QUIC_CID_MAX :: u32 where [simp]: "MARLIN_QUIC_CID_MAX = 20"
definition MARLIN_QUIC_CID_GEN_MASK :: u8 where [simp]: "MARLIN_QUIC_CID_GEN_MASK = 0xc0"
definition MARLIN_QUIC_CID_CHECK_MASK :: u8 where [simp]: "MARLIN_QUIC_CID_CHECK_MASK = 0x3f"
definition MARLIN_QUIC_CID_ENTROPY_OFF :: u32 where [simp]: "MARLIN_QUIC_CID_ENTROPY_OFF = 3"
definition MARLIN_QUIC_SIPHASH_DOMAIN :: u8 where [simp]: "MARLIN_QUIC_SIPHASH_DOMAIN = 0x51"
definition MARLIN_NO_BACKEND :: u32 where [simp]: "MARLIN_NO_BACKEND = 0"

section \<open>Map keys and values (abi/types.h)\<close>

record vip_key =
  vk_addr :: quad
  vk_port :: u16
  vk_proto :: u8
  vk_family :: u8

record vip_meta =
  vm_vip_num :: u32
  vm_flags :: u32
  vm_hash_key :: key128

record backend =
  be_addr :: u32
  be_mac :: mac
  be_encap_dport :: u16
  be_flags :: u8
  be_egress_ifindex :: u32
  be_vni :: u32
  be_inner_mac :: mac
  be_id :: u16

record stats =
  st_packets :: u64
  st_bytes :: u64

record marlin_config =
  cfg_tunnel_src :: u32
  cfg_flags :: u32
  cfg_max_frame :: u16
  cfg_acl_lists :: u16
  cfg_rl_refill :: u32
  cfg_rl_burst :: u32

record acl_key4 =
  ak4_prefixlen :: u32
  ak4_addr :: u32

record acl_key6 =
  ak6_prefixlen :: u32
  ak6_addr :: quad

record rl_key =
  rk_addr :: quad
  rk_family :: u8
  rk_pad :: "24 word"

record rl_bucket =
  rl_state :: u64

text \<open>The all-zero values \<^verbatim>\<open>memset\<close> and an untouched array slot produce.\<close>

definition zero_backend :: backend where
  "zero_backend = \<lparr>be_addr = 0, be_mac = 0, be_encap_dport = 0, be_flags = 0,
     be_egress_ifindex = 0, be_vni = 0, be_inner_mac = 0, be_id = 0\<rparr>"

definition zero_config :: marlin_config where
  "zero_config = \<lparr>cfg_tunnel_src = 0, cfg_flags = 0, cfg_max_frame = 0, cfg_acl_lists = 0,
     cfg_rl_refill = 0, cfg_rl_burst = 0\<rparr>"

section \<open>The per-packet context and the verdicts (marlin.h, acl.h)\<close>

record packet_tuple =
  pt_src :: quad
  pt_dst :: quad
  pt_sport :: u16
  pt_dport :: u16
  pt_proto :: u8
  pt_family :: u8
  pt_pad :: u16

definition MARLIN_CTX_F_ICMP :: u32 where [simp]: "MARLIN_CTX_F_ICMP = 1"
definition MARLIN_CTX_F_FRAG :: u32 where [simp]: "MARLIN_CTX_F_FRAG = 2"
definition MARLIN_CTX_F_FRAG_FIRST :: u32 where [simp]: "MARLIN_CTX_F_FRAG_FIRST = 4"
definition MARLIN_CTX_F_QUIC :: u32 where [simp]: "MARLIN_CTX_F_QUIC = 8"
definition MARLIN_CTX_F_FRAG_ANY :: u32 where
  "MARLIN_CTX_F_FRAG_ANY = MARLIN_CTX_F_FRAG OR MARLIN_CTX_F_FRAG_FIRST"

definition MARLIN_CTX_DSCP_MASK :: u32 where
  "MARLIN_CTX_DSCP_MASK = push_bit 16 0x3f"

definition MARLIN_CTX_DSCP :: "u32 \<Rightarrow> u32" where
  "MARLIN_CTX_DSCP f = drop_bit 16 (f AND MARLIN_CTX_DSCP_MASK)"

datatype marlin_acl_verdict = MARLIN_ACL_NONE | MARLIN_ACL_ALLOW | MARLIN_ACL_BLOCK | MARLIN_ACL_ABORT

record marlin_ctx =
  mc_tuple :: packet_tuple
  mc_backend :: backend
  mc_cfg :: marlin_config
  mc_flags :: u32
  mc_l3_off :: u16
  mc_l4_off :: u16
  mc_pkt_len :: u16
  mc_acl_verdict :: marlin_acl_verdict
  mc_udp_payload_len :: u8

definition zero_tuple :: packet_tuple where
  "zero_tuple = \<lparr>pt_src = (0, 0, 0, 0), pt_dst = (0, 0, 0, 0), pt_sport = 0, pt_dport = 0,
     pt_proto = 0, pt_family = 0, pt_pad = 0\<rparr>"

definition zero_ctx :: marlin_ctx where
  "zero_ctx = \<lparr>mc_tuple = zero_tuple, mc_backend = zero_backend, mc_cfg = zero_config, mc_flags = 0,
     mc_l3_off = 0, mc_l4_off = 0, mc_pkt_len = 0, mc_acl_verdict = MARLIN_ACL_NONE,
     mc_udp_payload_len = 0\<rparr>"

definition marlin_outer_tos :: "marlin_ctx \<Rightarrow> u8" where
  "marlin_outer_tos mctx = ucast (push_bit 2 (MARLIN_CTX_DSCP (mc_flags mctx)))"

datatype marlin_ret =
    MARLIN_OK | MARLIN_OK_TX | MARLIN_OK_REDIRECT
  | MARLIN_PASS_VIP_MISS | MARLIN_PASS_ICMP_ECHO
  | MARLIN_DROP_NO_BACKEND | MARLIN_DROP_BACKEND_DOWN | MARLIN_DROP_BACKEND_UNRESOLVED
  | MARLIN_DROP_PARSE_ERROR | MARLIN_DROP_UNSUPPORTED_PROTO | MARLIN_DROP_EXT_HDR_LIMIT
  | MARLIN_DROP_ICMP_UNPARSEABLE
  | MARLIN_DROP_FIB_NO_NEIGH | MARLIN_DROP_FIB_FWD_DISABLED | MARLIN_DROP_FIB_BLACKHOLE
  | MARLIN_DROP_FIB_UNREACHABLE | MARLIN_DROP_FIB_PROHIBIT | MARLIN_DROP_FIB_GATEWAYED
  | MARLIN_DROP_FIB_UNSPEC
  | MARLIN_DROP_FRAG_NEEDED | MARLIN_DROP_ADJUST_HEAD | MARLIN_DROP_ENCAP_LENGTH
  | MARLIN_DROP_FRAME_TOO_BIG | MARLIN_DROP_MAP_BOUNDS | MARLIN_DROP_NO_TX_PORT
  | MARLIN_DROP_ACL_BLOCKED | MARLIN_DROP_RATELIMITED
  | MARLIN_COUNT_MAC_FALLBACK | MARLIN_COUNT_NEIGH_FALLBACK | MARLIN_COUNT_EGRESS_MISMATCH
  | MARLIN_COUNT_RL_CAS_EXHAUSTED
  | MARLIN_DROP_FRAG_UNSUPPORTED | MARLIN_PASS_NOT_FORWARDED | MARLIN_ABORT_NULLREF
  | MARLIN_COUNT_RL_INSERT_FAILED
  | MARLIN_COUNT_QUIC_CID_ROUTED | MARLIN_COUNT_QUIC_CID_CHECK_FAILED
  | MARLIN_RET_MAX

text \<open>The value of each enumerator: the index of its counter in \<^verbatim>\<open>drop_stats\<close>.\<close>

fun ret_val :: "marlin_ret \<Rightarrow> nat" where
  "ret_val MARLIN_OK = 0"
| "ret_val MARLIN_OK_TX = 1"
| "ret_val MARLIN_OK_REDIRECT = 2"
| "ret_val MARLIN_PASS_VIP_MISS = 3"
| "ret_val MARLIN_PASS_ICMP_ECHO = 4"
| "ret_val MARLIN_DROP_NO_BACKEND = 5"
| "ret_val MARLIN_DROP_BACKEND_DOWN = 6"
| "ret_val MARLIN_DROP_BACKEND_UNRESOLVED = 7"
| "ret_val MARLIN_DROP_PARSE_ERROR = 8"
| "ret_val MARLIN_DROP_UNSUPPORTED_PROTO = 9"
| "ret_val MARLIN_DROP_EXT_HDR_LIMIT = 10"
| "ret_val MARLIN_DROP_ICMP_UNPARSEABLE = 11"
| "ret_val MARLIN_DROP_FIB_NO_NEIGH = 12"
| "ret_val MARLIN_DROP_FIB_FWD_DISABLED = 13"
| "ret_val MARLIN_DROP_FIB_BLACKHOLE = 14"
| "ret_val MARLIN_DROP_FIB_UNREACHABLE = 15"
| "ret_val MARLIN_DROP_FIB_PROHIBIT = 16"
| "ret_val MARLIN_DROP_FIB_GATEWAYED = 17"
| "ret_val MARLIN_DROP_FIB_UNSPEC = 18"
| "ret_val MARLIN_DROP_FRAG_NEEDED = 19"
| "ret_val MARLIN_DROP_ADJUST_HEAD = 20"
| "ret_val MARLIN_DROP_ENCAP_LENGTH = 21"
| "ret_val MARLIN_DROP_FRAME_TOO_BIG = 22"
| "ret_val MARLIN_DROP_MAP_BOUNDS = 23"
| "ret_val MARLIN_DROP_NO_TX_PORT = 24"
| "ret_val MARLIN_DROP_ACL_BLOCKED = 25"
| "ret_val MARLIN_DROP_RATELIMITED = 26"
| "ret_val MARLIN_COUNT_MAC_FALLBACK = 27"
| "ret_val MARLIN_COUNT_NEIGH_FALLBACK = 28"
| "ret_val MARLIN_COUNT_EGRESS_MISMATCH = 29"
| "ret_val MARLIN_COUNT_RL_CAS_EXHAUSTED = 30"
| "ret_val MARLIN_DROP_FRAG_UNSUPPORTED = 31"
| "ret_val MARLIN_PASS_NOT_FORWARDED = 32"
| "ret_val MARLIN_ABORT_NULLREF = 33"
| "ret_val MARLIN_COUNT_RL_INSERT_FAILED = 34"
| "ret_val MARLIN_COUNT_QUIC_CID_ROUTED = 35"
| "ret_val MARLIN_COUNT_QUIC_CID_CHECK_FAILED = 36"
| "ret_val MARLIN_RET_MAX = 37"

lemma ret_val_less: "ret_val r \<le> 37"
  by (cases r) simp_all

lemma nth_ret_val:
  "[MARLIN_OK, MARLIN_OK_TX, MARLIN_OK_REDIRECT, MARLIN_PASS_VIP_MISS, MARLIN_PASS_ICMP_ECHO,
     MARLIN_DROP_NO_BACKEND, MARLIN_DROP_BACKEND_DOWN, MARLIN_DROP_BACKEND_UNRESOLVED,
     MARLIN_DROP_PARSE_ERROR, MARLIN_DROP_UNSUPPORTED_PROTO, MARLIN_DROP_EXT_HDR_LIMIT,
     MARLIN_DROP_ICMP_UNPARSEABLE, MARLIN_DROP_FIB_NO_NEIGH, MARLIN_DROP_FIB_FWD_DISABLED,
     MARLIN_DROP_FIB_BLACKHOLE, MARLIN_DROP_FIB_UNREACHABLE, MARLIN_DROP_FIB_PROHIBIT,
     MARLIN_DROP_FIB_GATEWAYED, MARLIN_DROP_FIB_UNSPEC, MARLIN_DROP_FRAG_NEEDED,
     MARLIN_DROP_ADJUST_HEAD, MARLIN_DROP_ENCAP_LENGTH, MARLIN_DROP_FRAME_TOO_BIG,
     MARLIN_DROP_MAP_BOUNDS, MARLIN_DROP_NO_TX_PORT, MARLIN_DROP_ACL_BLOCKED,
     MARLIN_DROP_RATELIMITED, MARLIN_COUNT_MAC_FALLBACK, MARLIN_COUNT_NEIGH_FALLBACK,
     MARLIN_COUNT_EGRESS_MISMATCH, MARLIN_COUNT_RL_CAS_EXHAUSTED, MARLIN_DROP_FRAG_UNSUPPORTED,
     MARLIN_PASS_NOT_FORWARDED, MARLIN_ABORT_NULLREF, MARLIN_COUNT_RL_INSERT_FAILED,
     MARLIN_COUNT_QUIC_CID_ROUTED, MARLIN_COUNT_QUIC_CID_CHECK_FAILED, MARLIN_RET_MAX] ! ret_val r = r"
  by (cases r) simp_all

lemma ret_val_inject: "ret_val r = ret_val s \<longleftrightarrow> r = s"
  by (metis nth_ret_val)

text \<open>C compares enumerators by value.\<close>

instantiation marlin_ret :: linorder
begin

definition less_eq_marlin_ret :: "marlin_ret \<Rightarrow> marlin_ret \<Rightarrow> bool" where
  "less_eq_marlin_ret r s \<longleftrightarrow> ret_val r \<le> ret_val s"

definition less_marlin_ret :: "marlin_ret \<Rightarrow> marlin_ret \<Rightarrow> bool" where
  "less_marlin_ret r s \<longleftrightarrow> ret_val r < ret_val s"

instance
  by standard (auto simp: less_eq_marlin_ret_def less_marlin_ret_def ret_val_inject)

end

text \<open>The enumerators the rest of the program tests for.\<close>

lemma ret_val_ge_VIP_MISS: "MARLIN_PASS_VIP_MISS \<le> r \<longleftrightarrow> r \<notin> {MARLIN_OK, MARLIN_OK_TX, MARLIN_OK_REDIRECT}"
  by (cases r) (simp_all add: less_eq_marlin_ret_def)

datatype xdp_action = XDP_ABORTED | XDP_DROP | XDP_PASS | XDP_TX | XDP_REDIRECT

section \<open>The BPF maps (maps.h)\<close>

record bpf_maps =
  m_config :: "u32 \<rightharpoonup> marlin_config"
  m_mctx_scratch :: "u32 \<rightharpoonup> marlin_ctx"
  m_backends :: "u32 \<rightharpoonup> backend"
  m_fwd_table :: "u32 \<rightharpoonup> u32"
  m_vip_map :: "vip_key \<rightharpoonup> vip_meta"
  m_tx_ports :: "u32 \<rightharpoonup> u32"
  m_acl_allow_v4 :: "acl_key4 \<rightharpoonup> u32"
  m_acl_block_v4 :: "acl_key4 \<rightharpoonup> u32"
  m_acl_allow_v6 :: "acl_key6 \<rightharpoonup> u32"
  m_acl_block_v6 :: "acl_key6 \<rightharpoonup> u32"
  m_ratelimit :: "rl_key \<rightharpoonup> rl_bucket"
  m_vip_stats :: "u32 \<rightharpoonup> stats"
  m_backend_stats :: "u32 \<rightharpoonup> stats"
  m_drop_stats :: "u32 \<rightharpoonup> u64"

text \<open>An ARRAY map has every index below its size and no other.\<close>

definition array_map :: "nat \<Rightarrow> (u32 \<rightharpoonup> 'v) \<Rightarrow> bool" where
  "array_map n m \<longleftrightarrow> (\<forall>k. m k \<noteq> None \<longleftrightarrow> unat k < n)"

end
