(* ===== verification/Marlin_Kernel.thy ===== *)
theory Marlin_Kernel
  imports Marlin_Abi
begin

text \<open>
  The kernel the data plane calls. Its helpers are not part of the program: each is a field of
  the record \<open>kernel\<close>, an argument of the operations that call it, and what the operations rely
  on of a helper is a predicate with a name, taken from the documentation of that helper.

  \<^item> \<^verbatim>\<open>bpf_xdp_adjust_head\<close>: \<open>k_adjust_head\<close>, \<^const>\<open>None\<close> for a non-zero return.
  \<^item> \<^verbatim>\<open>bpf_xdp_get_buff_len\<close>: \<open>k_get_buff_len\<close>.
  \<^item> \<^verbatim>\<open>bpf_xdp_load_bytes\<close>: \<open>k_load_bytes\<close>, \<^const>\<open>None\<close> for a negative return.
  \<^item> \<^verbatim>\<open>bpf_fib_lookup\<close>: \<open>k_fib_lookup\<close>, the return code and the parameter block it leaves behind.
  \<^item> \<^verbatim>\<open>bpf_redirect_map\<close>: \<open>k_redirect_map\<close>, given the content of the map.
  \<^item> \<^verbatim>\<open>bpf_ktime_get_ns\<close>: \<open>k_ktime i\<close>, the value of the \<open>i\<close>-th reading in one invocation.
  \<^item> the lookup of an LPM trie: \<open>k_lpm4\<close> and \<open>k_lpm6\<close>, given the content of the trie.
  \<^item> \<^verbatim>\<open>bpf_map_update_elem\<close> on the LRU hash \<^verbatim>\<open>ratelimit\<close>: \<open>k_rl_insert\<close>, \<^const>\<open>None\<close> for a
    non-zero return; the content it leaves may lack entries the LRU evicted.
  \<^item> the other CPUs: \<open>k_interfere i\<close> is what they turn a bucket's state word into just before
    this CPU's \<open>i\<close>-th compare-and-swap on it (the identity where nobody interferes).
\<close>

text \<open>\<^verbatim>\<open>struct xdp_md\<close>: the bytes between \<^verbatim>\<open>data\<close> and \<^verbatim>\<open>data_end\<close>, and the ingress interface.\<close>

record xdp_md =
  xdp_data :: bytes
  xdp_ingress_ifindex :: u32

text \<open>The members of \<^verbatim>\<open>struct bpf_fib_lookup\<close> the program writes or reads.\<close>

record bpf_fib =
  fib_family :: u8
  fib_tot_len :: u16
  fib_ifindex :: u32
  fib_tos :: u8
  fib_ipv4_dst :: u32
  fib_smac :: mac
  fib_dmac :: mac

datatype fib_ret =
    BPF_FIB_LKUP_RET_SUCCESS | BPF_FIB_LKUP_RET_BLACKHOLE | BPF_FIB_LKUP_RET_UNREACHABLE
  | BPF_FIB_LKUP_RET_PROHIBIT | BPF_FIB_LKUP_RET_NOT_FWDED | BPF_FIB_LKUP_RET_FWD_DISABLED
  | BPF_FIB_LKUP_RET_UNSUPP_LWT | BPF_FIB_LKUP_RET_NO_NEIGH | BPF_FIB_LKUP_RET_FRAG_NEEDED
  | BPF_FIB_LKUP_ERROR

record kernel =
  k_adjust_head :: "xdp_md \<Rightarrow> int \<Rightarrow> xdp_md option"
  k_get_buff_len :: "xdp_md \<Rightarrow> u64"
  k_load_bytes :: "xdp_md \<Rightarrow> u32 \<Rightarrow> nat \<Rightarrow> bytes option"
  k_fib_lookup :: "xdp_md \<Rightarrow> bpf_fib \<Rightarrow> fib_ret \<times> bpf_fib"
  k_redirect_map :: "(u32 \<rightharpoonup> u32) \<Rightarrow> u32 \<Rightarrow> xdp_action"
  k_ktime :: "nat \<Rightarrow> u64"
  k_lpm4 :: "(acl_key4 \<rightharpoonup> u32) \<Rightarrow> acl_key4 \<Rightarrow> u32 option"
  k_lpm6 :: "(acl_key6 \<rightharpoonup> u32) \<Rightarrow> acl_key6 \<Rightarrow> u32 option"
  k_rl_insert :: "(rl_key \<rightharpoonup> rl_bucket) \<Rightarrow> rl_key \<Rightarrow> rl_bucket \<Rightarrow> (rl_key \<rightharpoonup> rl_bucket) option"
  k_interfere :: "nat \<Rightarrow> u64 \<Rightarrow> u64"

section \<open>Documented behaviour of the helpers\<close>

text \<open>A successful \<^verbatim>\<open>bpf_xdp_adjust_head\<close> by \<open>- n\<close> moves \<^verbatim>\<open>data\<close> back by \<open>n\<close> bytes: \<open>n\<close> bytes of
  unspecified content appear before the frame, and nothing else changes.\<close>

definition adjust_head_ok :: "kernel \<Rightarrow> bool" where
  "adjust_head_ok k \<longleftrightarrow> (\<forall>md n md'. k_adjust_head k md (- int n) = Some md' \<longrightarrow>
     (\<exists>junk. length junk = n \<and> md' = md\<lparr>xdp_data := junk @ xdp_data md\<rparr>))"

text \<open>\<^verbatim>\<open>bpf_xdp_get_buff_len\<close> of a single-buffer frame is its length.\<close>

definition buff_len_ok :: "kernel \<Rightarrow> bool" where
  "buff_len_ok k \<longleftrightarrow> (\<forall>md. k_get_buff_len k md = of_nat (length (xdp_data md)))"

text \<open>\<^verbatim>\<open>bpf_xdp_load_bytes\<close> copies exactly the bytes asked for, or fails.\<close>

definition load_bytes_ok :: "kernel \<Rightarrow> bool" where
  "load_bytes_ok k \<longleftrightarrow> (\<forall>md off n. k_load_bytes k md off n = rd n (unat off) (xdp_data md))"

text \<open>\<^verbatim>\<open>bpf_redirect_map\<close> with zero flags succeeds exactly for a key of the map.\<close>

definition redirect_map_ok :: "kernel \<Rightarrow> bool" where
  "redirect_map_ok k \<longleftrightarrow>
     (\<forall>m i. k_redirect_map k m i = (if m i = None then XDP_ABORTED else XDP_REDIRECT))"

definition kernel_ok :: "kernel \<Rightarrow> bool" where
  "kernel_ok k \<longleftrightarrow> adjust_head_ok k \<and> buff_len_ok k \<and> load_bytes_ok k \<and> redirect_map_ok k"

text \<open>
  A lookup with a full-width key in an LPM trie hits exactly when a stored prefix covers the
  address: the first \<open>prefixlen\<close> bits in memory order, that is the high bits of each byte, byte
  by byte.
\<close>

definition prefix_bits_eq :: "nat \<Rightarrow> bytes \<Rightarrow> bytes \<Rightarrow> bool" where
  "prefix_bits_eq p a b \<longleftrightarrow> (\<forall>i<p. bit (a ! (i div 8)) (7 - i mod 8) = bit (b ! (i div 8)) (7 - i mod 8))"

definition quad_bytes :: "quad \<Rightarrow> bytes" where
  "quad_bytes q = (case q of (a, b, c, d) \<Rightarrow> le_bytes 4 a @ le_bytes 4 b @ le_bytes 4 c @ le_bytes 4 d)"

lemma length_quad_bytes [simp]: "length (quad_bytes q) = 16"
  by (cases q) (simp add: quad_bytes_def)

definition lpm4_ok :: "kernel \<Rightarrow> bool" where
  "lpm4_ok k \<longleftrightarrow> (\<forall>m a. k_lpm4 k m \<lparr>ak4_prefixlen = 32, ak4_addr = a\<rparr> \<noteq> None \<longleftrightarrow>
     (\<exists>r\<in>dom m. unat (ak4_prefixlen r) \<le> 32 \<and>
        prefix_bits_eq (unat (ak4_prefixlen r)) (le_bytes 4 (ak4_addr r)) (le_bytes 4 a)))"

definition lpm6_ok :: "kernel \<Rightarrow> bool" where
  "lpm6_ok k \<longleftrightarrow> (\<forall>m a. k_lpm6 k m \<lparr>ak6_prefixlen = 128, ak6_addr = a\<rparr> \<noteq> None \<longleftrightarrow>
     (\<exists>r\<in>dom m. unat (ak6_prefixlen r) \<le> 128 \<and>
        prefix_bits_eq (unat (ak6_prefixlen r)) (quad_bytes (ak6_addr r)) (quad_bytes a)))"

section \<open>A concrete kernel\<close>

text \<open>
  A kernel that satisfies every contract above, for concrete runs: it has headroom for any
  push and fills it with zeros, resolves every route to a fixed neighbour on the ingress
  interface, reads a clock that stands still, and no other CPU interferes.
\<close>

definition demo_kernel :: kernel where
  "demo_kernel = \<lparr>
     k_adjust_head = (\<lambda>md d. if d \<le> 0
        then Some (md\<lparr>xdp_data := replicate (nat (- d)) 0 @ xdp_data md\<rparr>)
        else if nat d \<le> length (xdp_data md) then Some (md\<lparr>xdp_data := drop (nat d) (xdp_data md)\<rparr>)
        else None),
     k_get_buff_len = (\<lambda>md. of_nat (length (xdp_data md))),
     k_load_bytes = (\<lambda>md off n. rd n (unat off) (xdp_data md)),
     k_fib_lookup = (\<lambda>md fib. (BPF_FIB_LKUP_RET_SUCCESS, fib\<lparr>fib_smac := 0x0a, fib_dmac := 0x0b\<rparr>)),
     k_redirect_map = (\<lambda>m i. if m i = None then XDP_ABORTED else XDP_REDIRECT),
     k_ktime = (\<lambda>_. 0),
     k_lpm4 = (\<lambda>m key. if ak4_prefixlen key = 32 \<and>
        (\<exists>r\<in>dom m. unat (ak4_prefixlen r) \<le> 32 \<and>
           prefix_bits_eq (unat (ak4_prefixlen r)) (le_bytes 4 (ak4_addr r)) (le_bytes 4 (ak4_addr key)))
        then Some 0 else None),
     k_lpm6 = (\<lambda>m key. if ak6_prefixlen key = 128 \<and>
        (\<exists>r\<in>dom m. unat (ak6_prefixlen r) \<le> 128 \<and>
           prefix_bits_eq (unat (ak6_prefixlen r)) (quad_bytes (ak6_addr r)) (quad_bytes (ak6_addr key)))
        then Some 0 else None),
     k_rl_insert = (\<lambda>m key b. Some (m(key \<mapsto> b))),
     k_interfere = (\<lambda>_ s. s) \<rparr>"

lemma adjust_head_okD:
  "adjust_head_ok k \<Longrightarrow> k_adjust_head k md (- int n) = Some md' \<Longrightarrow>
    \<exists>junk. length junk = n \<and> md' = md\<lparr>xdp_data := junk @ xdp_data md\<rparr>"
  by (simp add: adjust_head_ok_def)

lemma kernel_okD:
  "kernel_ok k \<Longrightarrow> adjust_head_ok k"
  "kernel_ok k \<Longrightarrow> buff_len_ok k"
  "kernel_ok k \<Longrightarrow> load_bytes_ok k"
  "kernel_ok k \<Longrightarrow> redirect_map_ok k"
  by (simp_all add: kernel_ok_def)

lemma demo_kernel_adjust_head: "adjust_head_ok demo_kernel"
  unfolding adjust_head_ok_def
proof (intro allI impI)
  fix md :: xdp_md and n md'
  assume "k_adjust_head demo_kernel md (- int n) = Some md'"
  then have "md' = md\<lparr>xdp_data := replicate n 0 @ xdp_data md\<rparr>"
    by (simp add: demo_kernel_def)
  then show "\<exists>junk. length junk = n \<and> md' = md\<lparr>xdp_data := junk @ xdp_data md\<rparr>"
    by (intro exI [of _ "replicate n 0"]) simp
qed

lemma demo_kernel_ok: "kernel_ok demo_kernel"
  using demo_kernel_adjust_head
  by (simp add: kernel_ok_def buff_len_ok_def load_bytes_ok_def redirect_map_ok_def demo_kernel_def)

lemma demo_kernel_lpm: "lpm4_ok demo_kernel" "lpm6_ok demo_kernel"
  by (simp_all add: lpm4_ok_def lpm6_ok_def demo_kernel_def)

end
