(* ===== verification/Marlin_Acl.thy ===== *)
theory Marlin_Acl
  imports Marlin_Kernel
begin

text \<open>
  The source filter of \<^verbatim>\<open>acl.c\<close>: an allow list and a block list per address family, each an LPM
  trie that is consulted only when the configuration says it is non-empty. The locale
  \<open>source_filter\<close> states what one family's check promises about its two lists; both families
  implement it.
\<close>

section \<open>Definitions\<close>

definition acl_check_v4 :: "kernel \<Rightarrow> bpf_maps \<Rightarrow> marlin_ctx \<Rightarrow> marlin_acl_verdict" where
  "acl_check_v4 k m mctx =
    (let key = \<lparr>ak4_prefixlen = 32, ak4_addr = fst (pt_src (mc_tuple mctx))\<rparr>;
         lists = cfg_acl_lists (mc_cfg mctx) in
     if lists AND ACL_LISTS_BIT ACL_LIST_ALLOW ACL_FAMILY_V4 \<noteq> 0 \<and> k_lpm4 k (m_acl_allow_v4 m) key \<noteq> None
     then MARLIN_ACL_ALLOW
     else if lists AND ACL_LISTS_BIT ACL_LIST_BLOCK ACL_FAMILY_V4 \<noteq> 0 \<and> k_lpm4 k (m_acl_block_v4 m) key \<noteq> None
     then MARLIN_ACL_BLOCK
     else MARLIN_ACL_NONE)"

definition acl_check_v6 :: "kernel \<Rightarrow> bpf_maps \<Rightarrow> marlin_ctx \<Rightarrow> marlin_acl_verdict" where
  "acl_check_v6 k m mctx =
    (let key = \<lparr>ak6_prefixlen = 128, ak6_addr = pt_src (mc_tuple mctx)\<rparr>;
         lists = cfg_acl_lists (mc_cfg mctx) in
     if lists AND ACL_LISTS_BIT ACL_LIST_ALLOW ACL_FAMILY_V6 \<noteq> 0 \<and> k_lpm6 k (m_acl_allow_v6 m) key \<noteq> None
     then MARLIN_ACL_ALLOW
     else if lists AND ACL_LISTS_BIT ACL_LIST_BLOCK ACL_FAMILY_V6 \<noteq> 0 \<and> k_lpm6 k (m_acl_block_v6 m) key \<noteq> None
     then MARLIN_ACL_BLOCK
     else MARLIN_ACL_NONE)"

definition marlin_acl_check :: "kernel \<Rightarrow> bpf_maps \<Rightarrow> marlin_ctx option \<Rightarrow> marlin_acl_verdict" where
  "marlin_acl_check k m mctx =
    (case mctx of
       None \<Rightarrow> MARLIN_ACL_ABORT
     | Some mctx \<Rightarrow>
         if cfg_flags (mc_cfg mctx) AND CFG_ACL_ENABLE = 0 then MARLIN_ACL_NONE
         else if pt_family (mc_tuple mctx) = AF_INET then acl_check_v4 k m mctx
         else if pt_family (mc_tuple mctx) = AF_INET6 then acl_check_v6 k m mctx
         else MARLIN_ACL_NONE)"

section \<open>What the lists say\<close>

text \<open>A set of prefixes covers an address when one of them agrees with it on its whole length.\<close>

definition covers4 :: "(acl_key4 \<rightharpoonup> u32) \<Rightarrow> u32 \<Rightarrow> bool" where
  "covers4 rules a \<longleftrightarrow> (\<exists>r\<in>dom rules. unat (ak4_prefixlen r) \<le> 32 \<and>
     prefix_bits_eq (unat (ak4_prefixlen r)) (le_bytes 4 (ak4_addr r)) (le_bytes 4 a))"

definition covers6 :: "(acl_key6 \<rightharpoonup> u32) \<Rightarrow> quad \<Rightarrow> bool" where
  "covers6 rules a \<longleftrightarrow> (\<exists>r\<in>dom rules. unat (ak6_prefixlen r) \<le> 128 \<and>
     prefix_bits_eq (unat (ak6_prefixlen r)) (quad_bytes (ak6_addr r)) (quad_bytes a))"

definition rules_cover :: "acl_list \<Rightarrow> bpf_maps \<Rightarrow> packet_tuple \<Rightarrow> bool" where
  "rules_cover l m t \<longleftrightarrow>
     (if pt_family t = AF_INET then
        covers4 (case l of ACL_LIST_ALLOW \<Rightarrow> m_acl_allow_v4 m | ACL_LIST_BLOCK \<Rightarrow> m_acl_block_v4 m) (fst (pt_src t))
      else
        covers6 (case l of ACL_LIST_ALLOW \<Rightarrow> m_acl_allow_v6 m | ACL_LIST_BLOCK \<Rightarrow> m_acl_block_v6 m) (pt_src t))"

text \<open>The hint in the configuration is right when no non-empty trie has its bit clear.\<close>

definition acl_lists_cover :: "bpf_maps \<Rightarrow> u16 \<Rightarrow> bool" where
  "acl_lists_cover m hints \<longleftrightarrow>
     (m_acl_allow_v4 m \<noteq> Map.empty \<longrightarrow> hints AND ACL_LISTS_BIT ACL_LIST_ALLOW ACL_FAMILY_V4 \<noteq> 0) \<and>
     (m_acl_block_v4 m \<noteq> Map.empty \<longrightarrow> hints AND ACL_LISTS_BIT ACL_LIST_BLOCK ACL_FAMILY_V4 \<noteq> 0) \<and>
     (m_acl_allow_v6 m \<noteq> Map.empty \<longrightarrow> hints AND ACL_LISTS_BIT ACL_LIST_ALLOW ACL_FAMILY_V6 \<noteq> 0) \<and>
     (m_acl_block_v6 m \<noteq> Map.empty \<longrightarrow> hints AND ACL_LISTS_BIT ACL_LIST_BLOCK ACL_FAMILY_V6 \<noteq> 0)"

lemma covers4_empty [simp]: "\<not> covers4 Map.empty a"
  by (simp add: covers4_def)

lemma covers6_empty [simp]: "\<not> covers6 Map.empty a"
  by (simp add: covers6_def)

lemma lpm_covers:
  "lpm4_ok k \<Longrightarrow> k_lpm4 k rules \<lparr>ak4_prefixlen = 32, ak4_addr = a\<rparr> \<noteq> None \<longleftrightarrow> covers4 rules a"
  "lpm6_ok k \<Longrightarrow> k_lpm6 k rules6 \<lparr>ak6_prefixlen = 128, ak6_addr = q\<rparr> \<noteq> None \<longleftrightarrow> covers6 rules6 q"
  unfolding lpm4_ok_def lpm6_ok_def covers4_def covers6_def by blast+

section \<open>The contract of one family's check\<close>

locale source_filter =
  fixes check :: "kernel \<Rightarrow> bpf_maps \<Rightarrow> marlin_ctx \<Rightarrow> marlin_acl_verdict"
    and lpm_ok :: "kernel \<Rightarrow> bool"
    and rules :: "acl_list \<Rightarrow> bpf_maps \<Rightarrow> 'r set"
    and matches :: "'r \<Rightarrow> packet_tuple \<Rightarrow> bool"
    and hint :: "acl_list \<Rightarrow> u16"
  assumes verdict: "lpm_ok k \<Longrightarrow> check k m p =
    (if cfg_acl_lists (mc_cfg p) AND hint ACL_LIST_ALLOW \<noteq> 0 \<and> (\<exists>r\<in>rules ACL_LIST_ALLOW m. matches r (mc_tuple p))
     then MARLIN_ACL_ALLOW
     else if cfg_acl_lists (mc_cfg p) AND hint ACL_LIST_BLOCK \<noteq> 0 \<and> (\<exists>r\<in>rules ACL_LIST_BLOCK m. matches r (mc_tuple p))
     then MARLIN_ACL_BLOCK else MARLIN_ACL_NONE)"
begin

lemma check_exact:
  assumes "lpm_ok k" "\<And>l. rules l m \<noteq> {} \<Longrightarrow> cfg_acl_lists (mc_cfg p) AND hint l \<noteq> 0"
  shows "check k m p =
    (if \<exists>r\<in>rules ACL_LIST_ALLOW m. matches r (mc_tuple p) then MARLIN_ACL_ALLOW
     else if \<exists>r\<in>rules ACL_LIST_BLOCK m. matches r (mc_tuple p) then MARLIN_ACL_BLOCK else MARLIN_ACL_NONE)"
  using assms(2) [of ACL_LIST_ALLOW] assms(2) [of ACL_LIST_BLOCK] by (auto simp: verdict [OF assms(1)])

text \<open>A larger block list lets nobody in, and a larger allow list shuts nobody out.\<close>

lemma block_antimono:
  assumes "lpm_ok k" "rules ACL_LIST_ALLOW m' = rules ACL_LIST_ALLOW m" "rules ACL_LIST_BLOCK m \<subseteq> rules ACL_LIST_BLOCK m'"
    and "check k m p = MARLIN_ACL_BLOCK"
  shows "check k m' p = MARLIN_ACL_BLOCK"
  using assms by (auto simp: verdict split: if_splits)

lemma allow_mono:
  assumes "lpm_ok k" "rules ACL_LIST_ALLOW m \<subseteq> rules ACL_LIST_ALLOW m'"
    and "check k m p = MARLIN_ACL_ALLOW"
  shows "check k m' p = MARLIN_ACL_ALLOW"
  using assms by (auto simp: verdict split: if_splits)

lemma no_abort: "lpm_ok k \<Longrightarrow> check k m p \<noteq> MARLIN_ACL_ABORT"
  by (simp add: verdict)

end

definition rules4 :: "acl_list \<Rightarrow> bpf_maps \<Rightarrow> acl_key4 set" where
  "rules4 l m = dom (case l of ACL_LIST_ALLOW \<Rightarrow> m_acl_allow_v4 m | ACL_LIST_BLOCK \<Rightarrow> m_acl_block_v4 m)"

definition matches4 :: "acl_key4 \<Rightarrow> packet_tuple \<Rightarrow> bool" where
  "matches4 r t \<longleftrightarrow> unat (ak4_prefixlen r) \<le> 32 \<and>
     prefix_bits_eq (unat (ak4_prefixlen r)) (le_bytes 4 (ak4_addr r)) (le_bytes 4 (fst (pt_src t)))"

definition rules6 :: "acl_list \<Rightarrow> bpf_maps \<Rightarrow> acl_key6 set" where
  "rules6 l m = dom (case l of ACL_LIST_ALLOW \<Rightarrow> m_acl_allow_v6 m | ACL_LIST_BLOCK \<Rightarrow> m_acl_block_v6 m)"

definition matches6 :: "acl_key6 \<Rightarrow> packet_tuple \<Rightarrow> bool" where
  "matches6 r t \<longleftrightarrow> unat (ak6_prefixlen r) \<le> 128 \<and>
     prefix_bits_eq (unat (ak6_prefixlen r)) (quad_bytes (ak6_addr r)) (quad_bytes (pt_src t))"

lemma covers_rules:
  "(\<exists>r\<in>rules4 l m. matches4 r t) \<longleftrightarrow>
     covers4 (case l of ACL_LIST_ALLOW \<Rightarrow> m_acl_allow_v4 m | ACL_LIST_BLOCK \<Rightarrow> m_acl_block_v4 m) (fst (pt_src t))"
  "(\<exists>r\<in>rules6 l m. matches6 r t) \<longleftrightarrow>
     covers6 (case l of ACL_LIST_ALLOW \<Rightarrow> m_acl_allow_v6 m | ACL_LIST_BLOCK \<Rightarrow> m_acl_block_v6 m) (pt_src t)"
  by (simp_all add: rules4_def matches4_def covers4_def rules6_def matches6_def covers6_def)

interpretation v4: source_filter acl_check_v4 lpm4_ok rules4 matches4 "\<lambda>l. ACL_LISTS_BIT l ACL_FAMILY_V4"
proof
  fix k m p
  assume "lpm4_ok k"
  then show "acl_check_v4 k m p =
    (if cfg_acl_lists (mc_cfg p) AND ACL_LISTS_BIT ACL_LIST_ALLOW ACL_FAMILY_V4 \<noteq> 0 \<and>
        (\<exists>r\<in>rules4 ACL_LIST_ALLOW m. matches4 r (mc_tuple p))
     then MARLIN_ACL_ALLOW
     else if cfg_acl_lists (mc_cfg p) AND ACL_LISTS_BIT ACL_LIST_BLOCK ACL_FAMILY_V4 \<noteq> 0 \<and>
        (\<exists>r\<in>rules4 ACL_LIST_BLOCK m. matches4 r (mc_tuple p))
     then MARLIN_ACL_BLOCK else MARLIN_ACL_NONE)"
    unfolding acl_check_v4_def Let_def covers_rules by (simp only: lpm_covers acl_list.case)
qed

interpretation v6: source_filter acl_check_v6 lpm6_ok rules6 matches6 "\<lambda>l. ACL_LISTS_BIT l ACL_FAMILY_V6"
proof
  fix k m p
  assume "lpm6_ok k"
  then show "acl_check_v6 k m p =
    (if cfg_acl_lists (mc_cfg p) AND ACL_LISTS_BIT ACL_LIST_ALLOW ACL_FAMILY_V6 \<noteq> 0 \<and>
        (\<exists>r\<in>rules6 ACL_LIST_ALLOW m. matches6 r (mc_tuple p))
     then MARLIN_ACL_ALLOW
     else if cfg_acl_lists (mc_cfg p) AND ACL_LISTS_BIT ACL_LIST_BLOCK ACL_FAMILY_V6 \<noteq> 0 \<and>
        (\<exists>r\<in>rules6 ACL_LIST_BLOCK m. matches6 r (mc_tuple p))
     then MARLIN_ACL_BLOCK else MARLIN_ACL_NONE)"
    unfolding acl_check_v6_def Let_def covers_rules by (simp only: lpm_covers acl_list.case)
qed

section \<open>Properties\<close>

text \<open>C28: With the tries behaving as documented and the \<^verbatim>\<open>acl_lists\<close> hint clear only for empty
  tries, the verdict on a packet of either family is exactly the one the rules give: allowed when
  an allow rule covers its source, blocked when only a block rule does, neither otherwise. The
  hint saves lookups and never changes a verdict; a disabled filter has no verdict.\<close>

theorem marlin_acl_check_exact:
  assumes lpm: "lpm4_ok k" "lpm6_ok k" and hint: "acl_lists_cover m (cfg_acl_lists (mc_cfg p))"
    and fam: "pt_family (mc_tuple p) \<in> {AF_INET, AF_INET6}"
  shows "marlin_acl_check k m (Some p) =
    (if cfg_flags (mc_cfg p) AND CFG_ACL_ENABLE = 0 then MARLIN_ACL_NONE
     else if rules_cover ACL_LIST_ALLOW m (mc_tuple p) then MARLIN_ACL_ALLOW
     else if rules_cover ACL_LIST_BLOCK m (mc_tuple p) then MARLIN_ACL_BLOCK
     else MARLIN_ACL_NONE)"
proof -
  have h4: "rules4 l m \<noteq> {} \<Longrightarrow> cfg_acl_lists (mc_cfg p) AND ACL_LISTS_BIT l ACL_FAMILY_V4 \<noteq> 0"
    and h6: "rules6 l m \<noteq> {} \<Longrightarrow> cfg_acl_lists (mc_cfg p) AND ACL_LISTS_BIT l ACL_FAMILY_V6 \<noteq> 0" for l
    using hint by (cases l; simp add: rules4_def rules6_def acl_lists_cover_def)+
  show ?thesis
    using fam v4.check_exact [OF lpm(1) h4] v6.check_exact [OF lpm(2) h6]
    by (auto simp: marlin_acl_check_def covers_rules rules_cover_def)
qed

text \<open>Maps with a single rule: block 10.0.0.0/8.\<close>

definition acl_sample_maps :: bpf_maps where
  "acl_sample_maps = \<lparr>m_config = Map.empty, m_mctx_scratch = Map.empty, m_backends = Map.empty, m_fwd_table = Map.empty,
     m_vip_map = Map.empty, m_tx_ports = Map.empty, m_acl_allow_v4 = Map.empty,
     m_acl_block_v4 = [\<lparr>ak4_prefixlen = 8, ak4_addr = 0x0000000a\<rparr> \<mapsto> 1], m_acl_allow_v6 = Map.empty,
     m_acl_block_v6 = Map.empty, m_ratelimit = Map.empty, m_vip_stats = Map.empty, m_backend_stats = Map.empty,
     m_drop_stats = Map.empty\<rparr>"

definition acl_sample_ctx :: marlin_ctx where
  "acl_sample_ctx = zero_ctx\<lparr>mc_tuple := zero_tuple\<lparr>pt_src := (0x0403020a, 0, 0, 0), pt_family := AF_INET\<rparr>,
     mc_cfg := zero_config\<lparr>cfg_flags := CFG_ACL_ENABLE, cfg_acl_lists := 4\<rparr>\<rparr>"

theorem marlin_acl_check_exact_witness:
  "marlin_acl_check demo_kernel acl_sample_maps (Some acl_sample_ctx) = MARLIN_ACL_BLOCK"
proof -
  have "prefix_bits_eq 8 (le_bytes 4 (0x0000000a :: u32)) (le_bytes 4 (0x0403020a :: u32))" by code_simp
  then have "rules_cover ACL_LIST_BLOCK acl_sample_maps (mc_tuple acl_sample_ctx)"
      "\<not> rules_cover ACL_LIST_ALLOW acl_sample_maps (mc_tuple acl_sample_ctx)"
    by (simp_all add: rules_cover_def covers4_def acl_sample_maps_def acl_sample_ctx_def)
  moreover have "acl_lists_cover acl_sample_maps 4"
    by (simp add: acl_lists_cover_def acl_sample_maps_def ACL_LISTS_BIT_def)
  ultimately show ?thesis
    using marlin_acl_check_exact [OF demo_kernel_lpm, of acl_sample_maps acl_sample_ctx]
    by (simp add: acl_sample_ctx_def zero_tuple_def)
qed

end
