(* ===== verification/Marlin_Stats.thy ===== *)
theory Marlin_Stats
  imports Marlin_Kernel
begin

text \<open>
  The statistics helpers of \<^verbatim>\<open>stats.h\<close>: one counter per counted verdict, packets and bytes per
  VIP and per backend. Each is a guarded lookup and an update of one slot. The lemmas say which
  maps each leaves alone and which slot it moves, and by how much.
\<close>

definition marlin_stats_reason :: "marlin_ret \<Rightarrow> bpf_maps \<Rightarrow> bpf_maps" where
  "marlin_stats_reason rc m =
     (if rc < MARLIN_PASS_VIP_MISS \<or> MARLIN_RET_MAX \<le> rc then m
      else let key = of_nat (ret_val rc) :: u32 in
        case m_drop_stats m key of
          None \<Rightarrow> m
        | Some n \<Rightarrow> m\<lparr>m_drop_stats := (m_drop_stats m)(key \<mapsto> n + 1)\<rparr>)"

definition marlin_stats_add :: "(u32 \<rightharpoonup> stats) \<Rightarrow> u32 \<Rightarrow> u32 \<Rightarrow> (u32 \<rightharpoonup> stats)" where
  "marlin_stats_add mp key len =
     (case mp key of
        None \<Rightarrow> mp
      | Some s \<Rightarrow> mp(key \<mapsto> s\<lparr>st_packets := st_packets s + 1, st_bytes := st_bytes s + ucast len\<rparr>))"

definition marlin_stats_vip :: "u32 \<Rightarrow> u32 \<Rightarrow> bpf_maps \<Rightarrow> bpf_maps" where
  "marlin_stats_vip vip_num len m =
     (if MAX_VIPS \<le> vip_num then m
      else m\<lparr>m_vip_stats := marlin_stats_add (m_vip_stats m) vip_num len\<rparr>)"

definition marlin_stats_backend :: "u32 \<Rightarrow> u32 \<Rightarrow> bpf_maps \<Rightarrow> bpf_maps" where
  "marlin_stats_backend backend_id len m =
     (if MAX_BACKENDS \<le> backend_id then m
      else m\<lparr>m_backend_stats := marlin_stats_add (m_backend_stats m) backend_id len\<rparr>)"

text \<open>
  The three helpers write statistics and nothing else. \<open>same_tables\<close> relates two states of the
  maps that agree on everything packet processing reads; \<open>same_config\<close> on everything the control
  plane owns.
\<close>

definition same_config :: "bpf_maps \<Rightarrow> bpf_maps \<Rightarrow> bool" where
  "same_config m m' \<longleftrightarrow>
     m_config m' = m_config m \<and> m_backends m' = m_backends m \<and> m_fwd_table m' = m_fwd_table m \<and>
     m_vip_map m' = m_vip_map m \<and> m_tx_ports m' = m_tx_ports m \<and>
     m_acl_allow_v4 m' = m_acl_allow_v4 m \<and> m_acl_block_v4 m' = m_acl_block_v4 m \<and>
     m_acl_allow_v6 m' = m_acl_allow_v6 m \<and> m_acl_block_v6 m' = m_acl_block_v6 m"

definition same_tables :: "bpf_maps \<Rightarrow> bpf_maps \<Rightarrow> bool" where
  "same_tables m m' \<longleftrightarrow> same_config m m' \<and> m_ratelimit m' = m_ratelimit m"

lemma same_config_refl [simp, intro]: "same_config m m"
  by (simp add: same_config_def)

lemma same_config_trans [trans]: "same_config a b \<Longrightarrow> same_config b c \<Longrightarrow> same_config a c"
  by (simp add: same_config_def)

lemma same_tables_refl [simp, intro]: "same_tables m m"
  by (simp add: same_tables_def)

lemma same_tables_trans [trans]: "same_tables a b \<Longrightarrow> same_tables b c \<Longrightarrow> same_tables a c"
  by (auto simp: same_tables_def intro: same_config_trans)

lemma same_tables_config: "same_tables a b \<Longrightarrow> same_config a b"
  by (simp add: same_tables_def)

lemma stats_reason_tables [simp]: "same_tables m (marlin_stats_reason rc m)"
  by (simp add: marlin_stats_reason_def same_tables_def same_config_def Let_def split: option.split)

lemma stats_vip_tables [simp]: "same_tables m (marlin_stats_vip v len m)"
  by (simp add: marlin_stats_vip_def same_tables_def same_config_def)

lemma stats_backend_tables [simp]: "same_tables m (marlin_stats_backend b len m)"
  by (simp add: marlin_stats_backend_def same_tables_def same_config_def)

text \<open>Projections the pipeline needs after a counter moved.\<close>

lemma stats_reason_sel [simp]:
  "m_config (marlin_stats_reason rc m) = m_config m"
  "m_backends (marlin_stats_reason rc m) = m_backends m"
  "m_fwd_table (marlin_stats_reason rc m) = m_fwd_table m"
  "m_vip_map (marlin_stats_reason rc m) = m_vip_map m"
  "m_tx_ports (marlin_stats_reason rc m) = m_tx_ports m"
  "m_ratelimit (marlin_stats_reason rc m) = m_ratelimit m"
  "m_vip_stats (marlin_stats_reason rc m) = m_vip_stats m"
  "m_backend_stats (marlin_stats_reason rc m) = m_backend_stats m"
  by (simp_all add: marlin_stats_reason_def Let_def split: option.split)

lemma stats_vip_sel [simp]:
  "m_config (marlin_stats_vip v len m) = m_config m"
  "m_backends (marlin_stats_vip v len m) = m_backends m"
  "m_fwd_table (marlin_stats_vip v len m) = m_fwd_table m"
  "m_vip_map (marlin_stats_vip v len m) = m_vip_map m"
  "m_tx_ports (marlin_stats_vip v len m) = m_tx_ports m"
  "m_ratelimit (marlin_stats_vip v len m) = m_ratelimit m"
  "m_backend_stats (marlin_stats_vip v len m) = m_backend_stats m"
  "m_drop_stats (marlin_stats_vip v len m) = m_drop_stats m"
  by (simp_all add: marlin_stats_vip_def)

lemma stats_backend_sel [simp]:
  "m_config (marlin_stats_backend b len m) = m_config m"
  "m_backends (marlin_stats_backend b len m) = m_backends m"
  "m_fwd_table (marlin_stats_backend b len m) = m_fwd_table m"
  "m_vip_map (marlin_stats_backend b len m) = m_vip_map m"
  "m_tx_ports (marlin_stats_backend b len m) = m_tx_ports m"
  "m_ratelimit (marlin_stats_backend b len m) = m_ratelimit m"
  "m_vip_stats (marlin_stats_backend b len m) = m_vip_stats m"
  "m_drop_stats (marlin_stats_backend b len m) = m_drop_stats m"
  by (simp_all add: marlin_stats_backend_def)

text \<open>The value of a counter, zero where the map has no such slot.\<close>

definition drop_count :: "bpf_maps \<Rightarrow> marlin_ret \<Rightarrow> u64" where
  "drop_count m r = (case m_drop_stats m (of_nat (ret_val r)) of None \<Rightarrow> 0 | Some n \<Rightarrow> n)"

lemma ret_key_inject: "(of_nat (ret_val r) :: u32) = of_nat (ret_val s) \<longleftrightarrow> r = s"
proof -
  have "unat (of_nat (ret_val t) :: u32) = ret_val t" for t
    using ret_val_less [of t] by (simp add: unat_of_nat)
  then show ?thesis by (metis ret_val_inject)
qed

text \<open>With the map at its declared size, counting a verdict moves its own counter by one and no
  other counter; the three outcomes that are not counted move none.\<close>

lemma drop_count_reason:
  assumes "array_map DROP_REASON_MAX (m_drop_stats m)"
  shows "drop_count (marlin_stats_reason rc m) r =
    (if r = rc \<and> MARLIN_PASS_VIP_MISS \<le> rc \<and> rc \<noteq> MARLIN_RET_MAX then drop_count m r + 1 else drop_count m r)"
proof -
  have "unat (of_nat (ret_val rc) :: u32) = ret_val rc"
    using ret_val_less [of rc] by (simp add: unat_of_nat)
  with assms have "\<exists>n. m_drop_stats m (of_nat (ret_val rc)) = Some n"
    using ret_val_less [of rc] by (auto simp: array_map_def)
  moreover have "MARLIN_RET_MAX \<le> rc \<longleftrightarrow> rc = MARLIN_RET_MAX"
    by (cases rc) (simp_all add: less_eq_marlin_ret_def)
  ultimately show ?thesis
    by (auto simp: marlin_stats_reason_def drop_count_def Let_def ret_key_inject not_less)
qed

lemma drop_stats_array:
  "array_map n (m_drop_stats m) \<Longrightarrow> array_map n (m_drop_stats (marlin_stats_reason rc m))"
  by (auto simp: marlin_stats_reason_def Let_def array_map_def split: option.split)

text \<open>
  \<open>counted R m m'\<close>: a step that leaves the control plane's maps alone, moves no counter outside
  \<open>R\<close> and keeps the counters' array whole. What every part of the packet path promises.
\<close>

definition counted :: "marlin_ret set \<Rightarrow> bpf_maps \<Rightarrow> bpf_maps \<Rightarrow> bool" where
  "counted R m m' \<longleftrightarrow> same_config m m' \<and> (\<forall>r. r \<notin> R \<longrightarrow> drop_count m' r = drop_count m r) \<and>
     (\<forall>n. array_map n (m_drop_stats m) \<longrightarrow> array_map n (m_drop_stats m'))"

named_theorems counted_intros \<open>steps that only count\<close>

lemma counted_refl [simp, intro, counted_intros]: "counted R m m"
  by (simp add: counted_def)

lemma counted_trans: "counted R a b \<Longrightarrow> counted R b c \<Longrightarrow> counted R a c"
  by (auto simp: counted_def intro: same_config_trans)

lemma counted_mono: "counted R a b \<Longrightarrow> R \<subseteq> S \<Longrightarrow> counted S a b"
  by (auto simp: counted_def)

lemma drop_count_other: "r \<noteq> rc \<Longrightarrow> drop_count (marlin_stats_reason rc m) r = drop_count m r"
  by (auto simp: marlin_stats_reason_def drop_count_def Let_def ret_key_inject split: option.split)

lemma counted_reason [counted_intros]: "rc \<in> R \<Longrightarrow> counted R m (marlin_stats_reason rc m)"
  using stats_reason_tables [of m rc] drop_stats_array [of _ m rc] drop_count_other [of _ rc m]
  unfolding counted_def same_tables_def by metis

lemma counted_vip [counted_intros]: "counted R m (marlin_stats_vip v len m)"
  using stats_vip_tables [of m v len] by (auto simp: counted_def same_tables_def drop_count_def)

lemma counted_backend [counted_intros]: "counted R m (marlin_stats_backend b len m)"
  using stats_backend_tables [of m b len] by (auto simp: counted_def same_tables_def drop_count_def)

lemma counted_ratelimit [counted_intros]: "counted R m (m\<lparr>m_ratelimit := rl\<rparr>)"
  by (simp add: counted_def same_config_def drop_count_def)

end
