(* ===== verification/Marlin_Ratelimit.thy ===== *)
theory Marlin_Ratelimit
  imports Marlin_Stats
begin

text \<open>
  The rate limiter of \<^verbatim>\<open>ratelimit.c\<close>: a token bucket per source address, packed with its time
  stamp into one 64-bit word and updated by compare-and-swap.

  The locale \<open>token_bucket\<close> is the contract of a bucket (what one attempt may take, and when it
  may refuse) together with what follows from it for a whole sequence of attempts; \<open>rl_spend\<close>
  implements it. The compare-and-swap loop is modelled with the other CPUs as a function that may
  rewrite the word before each swap. A bucket stays in the map while a packet holds a pointer to it.
\<close>

section \<open>Definitions\<close>

definition MARLIN_RL_ONE_TOKEN :: u64 where
  "MARLIN_RL_ONE_TOKEN = push_bit RL_TOKEN_SHIFT 1"

definition MARLIN_RL_STATE_MASK :: u64 where [simp]: "MARLIN_RL_STATE_MASK = 0xffffffff"

text \<open>\<open>Inl\<close> a refusal, with \<^verbatim>\<open>*next\<close> not written; \<open>Inr\<close> the value of \<^verbatim>\<open>*next\<close> with \<^verbatim>\<open>MARLIN_OK\<close>.\<close>

definition rl_spend :: "u64 \<Rightarrow> u64 \<Rightarrow> u64 \<Rightarrow> u64 \<Rightarrow> marlin_ret + u64" where
  "rl_spend old now rate burst =
    (let elapsed = now - drop_bit 32 old;
         refill = (if sint elapsed < 0 then burst
                   else let refill = elapsed * rate in if burst < refill then burst else refill);
         tokens = (old AND MARLIN_RL_STATE_MASK) + refill;
         tokens = (if burst < tokens then burst else tokens) in
     if tokens < MARLIN_RL_ONE_TOKEN then Inl MARLIN_DROP_RATELIMITED
     else Inr (push_bit 32 now OR ((tokens - MARLIN_RL_ONE_TOKEN) AND MARLIN_RL_STATE_MASK)))"

text \<open>The clock reading, in ticks, masked to the 32 bits the state word carries.\<close>

definition rl_now :: "kernel \<Rightarrow> nat \<Rightarrow> u64" where
  "rl_now k i = drop_bit RL_TICK_SHIFT (k_ktime k i) AND MARLIN_RL_STATE_MASK"

text \<open>
  The loop, from attempt \<open>retry\<close> on: \<open>cell\<close> is the word in memory, \<open>old\<close> the value this CPU saw
  last. The verdict is \<^const>\<open>None\<close> when the attempts are used up.
\<close>

function rl_cas_loop :: "kernel \<Rightarrow> u64 \<Rightarrow> u64 \<Rightarrow> nat \<Rightarrow> u64 \<Rightarrow> u64 \<Rightarrow> u64 \<Rightarrow> marlin_ret option \<times> u64" where
  "rl_cas_loop k rate burst retry cell old now =
    (if retry < RL_CAS_RETRIES then
       (case rl_spend old now rate burst of
          Inl rc \<Rightarrow> (Some rc, cell)
        | Inr next \<Rightarrow>
            let prev = k_interfere k retry cell in
            if prev = old then (Some MARLIN_OK, next)
            else rl_cas_loop k rate burst (Suc retry) prev prev (rl_now k (Suc retry)))
     else (None, cell))"
  by pat_completeness auto
termination
  by (relation "measure (\<lambda>(_, _, _, retry, _). RL_CAS_RETRIES - retry)") auto

declare rl_cas_loop.simps [simp del]

definition rl_source_key :: "packet_tuple \<Rightarrow> rl_key" where
  "rl_source_key t = \<lparr>rk_addr = pt_src t, rk_family = pt_family t, rk_pad = 0\<rparr>"

definition marlin_ratelimit :: "kernel \<Rightarrow> marlin_ctx option \<Rightarrow> bpf_maps \<Rightarrow> marlin_ret \<times> bpf_maps" where
  "marlin_ratelimit k mctx m =
    (case mctx of
       None \<Rightarrow> (MARLIN_ABORT_NULLREF, m)
     | Some mctx \<Rightarrow>
         if cfg_flags (mc_cfg mctx) AND CFG_RL_ENABLE = 0 then (MARLIN_OK, m)
         else if mc_acl_verdict mctx = MARLIN_ACL_ALLOW then (MARLIN_OK, m)
         else
           let rate = ucast (cfg_rl_refill (mc_cfg mctx));
               burst = ucast (cfg_rl_burst (mc_cfg mctx));
               key = rl_source_key (mc_tuple mctx);
               now = rl_now k 0 in
           case m_ratelimit m key of
             None \<Rightarrow>
               (case rl_spend (push_bit 32 now OR burst) now rate burst of
                  Inl rc \<Rightarrow> (rc, m)
                | Inr fresh \<Rightarrow>
                    (case k_rl_insert k (m_ratelimit m) key \<lparr>rl_state = fresh\<rparr> of
                       None \<Rightarrow> (MARLIN_OK, marlin_stats_reason MARLIN_COUNT_RL_INSERT_FAILED m)
                     | Some rl \<Rightarrow> (MARLIN_OK, m\<lparr>m_ratelimit := rl\<rparr>)))
           | Some bucket \<Rightarrow>
               (case rl_cas_loop k rate burst 0 (rl_state bucket) (rl_state bucket) now of
                  (verdict, cell) \<Rightarrow>
                    let m' = m\<lparr>m_ratelimit := (m_ratelimit m)(key \<mapsto> \<lparr>rl_state = cell\<rparr>)\<rparr> in
                    case verdict of
                      Some rc \<Rightarrow> (rc, m')
                    | None \<Rightarrow> (MARLIN_OK, marlin_stats_reason MARLIN_COUNT_RL_CAS_EXHAUSTED m')))"

section \<open>The bucket in the state word\<close>

definition rl_tokens :: "u64 \<Rightarrow> nat" where
  "rl_tokens s = unat s mod 2 ^ 32"

definition rl_stamp :: "u64 \<Rightarrow> nat" where
  "rl_stamp s = unat s div 2 ^ 32"

text \<open>What the bucket holds at time \<open>now\<close> before anything is taken. A stamp in the future, which a
  wrapped clock produces, refills the bucket.\<close>

definition rl_avail :: "u64 \<Rightarrow> nat \<Rightarrow> nat \<Rightarrow> nat \<Rightarrow> nat" where
  "rl_avail s now rate burst =
     min burst (rl_tokens s + (if now < rl_stamp s then burst else (now - rl_stamp s) * rate))"

lemma unat_drop_bit_32: "unat (drop_bit 32 s :: u64) = rl_stamp s"
  by (simp add: rl_stamp_def drop_bit_eq_div unat_div)

lemma unat_and_mask_32: "unat (s AND MARLIN_RL_STATE_MASK :: u64) = rl_tokens s"
proof -
  have "s AND MARLIN_RL_STATE_MASK = take_bit 32 s"
    by (simp add: take_bit_eq_mask mask_eq_exp_minus_1)
  then show ?thesis by (simp add: rl_tokens_def take_bit_eq_mod unat_mod)
qed

lemma rl_tokens_less: "rl_tokens s < 2 ^ 32"
  by (simp add: rl_tokens_def)

lemma rl_stamp_less: "rl_stamp s < 2 ^ 32"
  using unsigned_less [where 'a = nat, of s] by (simp add: rl_stamp_def less_mult_imp_div_less)

lemma rl_pack:
  assumes "unat now < 2 ^ 32" "unat t < 2 ^ 32"
  shows "rl_tokens (push_bit 32 now OR t :: u64) = unat t" "rl_stamp (push_bit 32 now OR t :: u64) = unat now"
proof -
  have disj: "push_bit 32 now AND t = 0"
  proof (rule bit_word_eqI)
    fix n assume "n < LENGTH(64)"
    have "\<not> bit t n" if "32 \<le> n"
    proof -
      have "take_bit 32 t = t"
        using assms(2) by (simp add: word_unat_eq_iff unsigned_take_bit_eq take_bit_nat_eq_self)
      with that show ?thesis by (metis bit_take_bit_iff not_le)
    qed
    then show "bit (push_bit 32 now AND t) n = bit (0 :: u64) n"
      by (auto simp: bit_simps)
  qed
  have push: "unat (push_bit 32 now :: u64) = 2 ^ 32 * unat now"
    using assms(1) by (simp add: push_bit_eq_mult unat_mult_nowrap)
  have "unat (push_bit 32 now OR t) = 2 ^ 32 * unat now + unat t"
    using assms push unfolding disjunctive_add_eq_or [OF disj, symmetric] by (simp add: unat_add_nowrap)
  with assms(2) show "rl_tokens (push_bit 32 now OR t :: u64) = unat t" "rl_stamp (push_bit 32 now OR t :: u64) = unat now"
    by (simp_all add: rl_tokens_def rl_stamp_def)
qed

lemma sint_elapsed_neg:
  assumes "unat a < 2 ^ 32" "unat b < 2 ^ 32"
  shows "sint (a - b :: u64) < 0 \<longleftrightarrow> unat a < unat b"
proof -
  have bound: "0 \<le> uint x \<and> uint x < 2 ^ 32" if "unat x < 2 ^ 32" for x :: u64
  proof -
    have "int (unat x) < int (2 ^ 32)" using that by (simp only: of_nat_less_iff)
    then show ?thesis by simp
  qed
  have "a - b = word_of_int (int (unat a) - int (unat b))" by simp
  then have "sint (a - b) = signed_take_bit 63 (int (unat a) - int (unat b))"
    by (simp only: sint_sbintrunc') simp
  also have "\<dots> = int (unat a) - int (unat b)"
    using bound [OF assms(1)] bound [OF assms(2)] 
    by (intro signed_take_bit_int_eq_self; simp) (use uint_ge_0 [of a] uint_ge_0 [of b] in linarith)+
  finally show ?thesis by linarith
qed

lemma min_word: "unat (if b < t then b else t :: u64) = min (unat b) (unat t)"
  by (simp add: word_less_nat_alt min_def)

lemma rl_refill:
  fixes old :: u64
  assumes "unat now < 2 ^ 32" "unat rate < 2 ^ 32"
  defines "elapsed \<equiv> now - drop_bit 32 old"
  shows "unat (if sint elapsed < 0 then burst else let refill = elapsed * rate in if burst < refill then burst else refill) =
    min (unat burst) (if unat now < rl_stamp old then unat burst else (unat now - rl_stamp old) * unat rate)"
proof -
  have stamp: "unat (drop_bit 32 old) < 2 ^ 32" using rl_stamp_less by (simp add: unat_drop_bit_32)
  show ?thesis
  proof (cases "unat now < rl_stamp old")
    case True
    then show ?thesis using sint_elapsed_neg [OF assms(1) stamp] by (simp add: elapsed_def unat_drop_bit_32)
  next
    case False
    then have e: "unat elapsed = unat now - rl_stamp old"
      by (simp add: elapsed_def unat_sub word_le_nat_alt unat_drop_bit_32)
    have "(unat now - rl_stamp old) * unat rate < 2 ^ 32 * 2 ^ 32"
      using assms(1,2) by (intro mult_strict_mono) simp_all
    then have "unat (elapsed * rate) = (unat now - rl_stamp old) * unat rate"
      by (simp add: unat_mult_nowrap e)
    then show ?thesis
      using False sint_elapsed_neg [OF assms(1) stamp] by (simp add: Let_def min_word unat_drop_bit_32 flip: elapsed_def)
  qed
qed

lemma rl_spend_cases:
  assumes "unat now < 2 ^ 32" "unat rate < 2 ^ 32" "unat burst < 2 ^ 32"
  obtains (drop) "rl_spend old now rate burst = Inl MARLIN_DROP_RATELIMITED"
      "rl_avail old (unat now) (unat rate) (unat burst) < 256"
  | (ok) s where "rl_spend old now rate burst = Inr s" "256 \<le> rl_avail old (unat now) (unat rate) (unat burst)"
      "rl_tokens s = rl_avail old (unat now) (unat rate) (unat burst) - 256" "rl_stamp s = unat now"
proof -
  define elapsed where "elapsed = now - drop_bit 32 old"
  define refill where "refill = (if sint elapsed < 0 then burst
    else let refill = elapsed * rate in if burst < refill then burst else refill)"
  define tokens where "tokens = (old AND MARLIN_RL_STATE_MASK) + refill"
  define avail where "avail = (if burst < tokens then burst else tokens)"
  note refill = rl_refill [OF assms(1,2), where old = old and burst = burst, folded elapsed_def, folded refill_def]
  have tokens: "unat tokens = rl_tokens old + unat refill"
    unfolding tokens_def
    by (subst unat_add_nowrap) (use assms(3) refill rl_tokens_less [of old] in \<open>simp_all add: unat_and_mask_32 del: MARLIN_RL_STATE_MASK_def\<close>)
  have avail: "unat avail = rl_avail old (unat now) (unat rate) (unat burst)"
    by (simp add: avail_def min_word tokens refill rl_avail_def)
  have spend: "rl_spend old now rate burst =
      (if avail < MARLIN_RL_ONE_TOKEN then Inl MARLIN_DROP_RATELIMITED
       else Inr (push_bit 32 now OR ((avail - MARLIN_RL_ONE_TOKEN) AND MARLIN_RL_STATE_MASK)))"
    by (simp add: rl_spend_def Let_def avail_def tokens_def refill_def elapsed_def)
  have one: "unat MARLIN_RL_ONE_TOKEN = 256" by (simp add: MARLIN_RL_ONE_TOKEN_def)
  show thesis
  proof (cases "avail < MARLIN_RL_ONE_TOKEN")
    case True
    with spend avail one show thesis by (intro drop) (simp_all add: word_less_nat_alt)
  next
    case False
    then have le: "256 \<le> rl_avail old (unat now) (unat rate) (unat burst)"
      using avail one by (simp add: word_less_nat_alt)
    let ?t = "(avail - MARLIN_RL_ONE_TOKEN) AND MARLIN_RL_STATE_MASK"
    have "unat (avail - MARLIN_RL_ONE_TOKEN) = rl_avail old (unat now) (unat rate) (unat burst) - 256"
      using False avail one by (simp add: unat_sub word_le_nat_alt word_less_nat_alt not_less)
    moreover have "rl_avail old (unat now) (unat rate) (unat burst) < 2 ^ 32"
      using assms(3) by (simp add: rl_avail_def)
    ultimately have t: "unat ?t = rl_avail old (unat now) (unat rate) (unat burst) - 256"
      by (simp only: unat_and_mask_32) (simp add: rl_tokens_def)
    have "unat ?t < 2 ^ 32" unfolding unat_and_mask_32 by (rule rl_tokens_less)
    from rl_pack [OF assms(1) this] t le False spend show thesis by (intro ok) simp_all
  qed
qed


section \<open>The contract of a token bucket\<close>

text \<open>How many of a sequence of attempts succeed; a refused attempt leaves the bucket as it was.\<close>

fun admissions :: "('s \<Rightarrow> nat \<Rightarrow> 's option) \<Rightarrow> 's \<Rightarrow> nat list \<Rightarrow> nat" where
  "admissions spend s [] = 0"
| "admissions spend s (t # ts) =
     (case spend s t of None \<Rightarrow> admissions spend s ts | Some s' \<Rightarrow> Suc (admissions spend s' ts))"

locale token_bucket =
  fixes spend :: "'s \<Rightarrow> nat \<Rightarrow> 's option"
    and tokens stamp :: "'s \<Rightarrow> nat"
    and rate burst cost horizon :: nat
  assumes spend_Some: "t < horizon \<Longrightarrow> stamp s \<le> t \<Longrightarrow> spend s t = Some s' \<Longrightarrow>
      tokens s' + cost = min burst (tokens s + (t - stamp s) * rate) \<and> stamp s' = t"
    and spend_None: "t < horizon \<Longrightarrow> stamp s \<le> t \<Longrightarrow> spend s t = None \<Longrightarrow>
      min burst (tokens s + (t - stamp s) * rate) < cost"
begin

text \<open>Tokens taken never exceed what was there plus what flowed in.\<close>

lemma admissions_from:
  assumes "sorted ts" "\<forall>t\<in>set ts. stamp s \<le> t \<and> t \<le> end_t" "end_t < horizon" "stamp s \<le> end_t"
  shows "admissions spend s ts * cost \<le> tokens s + (end_t - stamp s) * rate"
  using assms
proof (induction ts arbitrary: s)
  case Nil
  then show ?case by simp
next
  case (Cons t ts)
  show ?case
  proof (cases "spend s t")
    case None
    then show ?thesis using Cons by simp
  next
    case (Some s')
    have t: "t < horizon" "stamp s \<le> t" "t \<le> end_t" using Cons.prems by auto
    from spend_Some [OF t(1,2) Some] have s': "tokens s' + cost \<le> tokens s + (t - stamp s) * rate" "stamp s' = t"
      by auto
    have "admissions spend s' ts * cost \<le> tokens s' + (end_t - t) * rate"
      using Cons.IH [of s'] Cons.prems s'(2) by auto
    moreover have "(t - stamp s) * rate + (end_t - t) * rate = (end_t - stamp s) * rate"
      using t by (simp flip: add_mult_distrib)
    ultimately show ?thesis using Some s'(1) by simp
  qed
qed

text \<open>In any window, at most one full bucket and what flowed in during the window.\<close>

lemma admissions_window:
  assumes "sorted ts" "\<forall>t\<in>set ts. stamp s \<le> t \<and> start_t \<le> t \<and> t \<le> end_t" "end_t < horizon"
  shows "admissions spend s ts * cost \<le> burst + (end_t - start_t) * rate"
  using assms
proof (induction ts)
  case Nil
  then show ?case by simp
next
  case (Cons t ts)
  show ?case
  proof (cases "spend s t")
    case None
    then show ?thesis using Cons by simp
  next
    case (Some s')
    have t: "t < horizon" "stamp s \<le> t" "t \<le> end_t" "start_t \<le> t" using Cons.prems by auto
    from spend_Some [OF t(1,2) Some] have s': "tokens s' + cost \<le> burst" "stamp s' = t" by auto
    have "admissions spend s' ts * cost \<le> tokens s' + (end_t - t) * rate"
      using admissions_from [of ts s' end_t] Cons.prems s'(2) t by auto
    moreover have "(end_t - t) * rate \<le> (end_t - start_t) * rate"
      using t by (intro mult_right_mono) simp_all
    ultimately have "cost + admissions spend s' ts * cost \<le> burst + (end_t - start_t) * rate"
      using s'(1) by linarith
    then show ?thesis using Some by simp
  qed
qed

text \<open>A sender that keeps to the rate is never refused.\<close>

lemma admissions_conforming:
  assumes "cost \<le> burst" "successively (\<lambda>a b. a \<le> b \<and> cost \<le> (b - a) * rate) (stamp s # ts)"
    and "\<forall>t\<in>set ts. t < horizon"
  shows "admissions spend s ts = length ts"
  using assms(2,3)
proof (induction ts arbitrary: s)
  case Nil
  then show ?case by simp
next
  case (Cons t ts)
  then have t: "t < horizon" "stamp s \<le> t" "cost \<le> (t - stamp s) * rate" by auto
  then obtain s' where s': "spend s t = Some s'"
    using spend_None [OF t(1,2)] assms(1) by (cases "spend s t") auto
  from spend_Some [OF t(1,2) s'] Cons.IH [of s'] Cons.prems s' show ?case by simp
qed

end

text \<open>One uncontended attempt on the state word, with time, rate and capacity as configured.\<close>

definition rl_try :: "u32 \<Rightarrow> u32 \<Rightarrow> u64 \<Rightarrow> nat \<Rightarrow> u64 option" where
  "rl_try rate burst s t =
     (case rl_spend s (of_nat t) (ucast rate) (ucast burst) of Inl _ \<Rightarrow> None | Inr s' \<Rightarrow> Some s')"

lemma rl_try_cases:
  assumes "t < 2 ^ 32"
  obtains "rl_try rate burst s t = None" "rl_avail s t (unat rate) (unat burst) < 256"
  | s' where "rl_try rate burst s t = Some s'" "256 \<le> rl_avail s t (unat rate) (unat burst)"
      "rl_tokens s' = rl_avail s t (unat rate) (unat burst) - 256" "rl_stamp s' = t"
proof -
  have t: "unat (of_nat t :: u64) = t" using assms by (simp add: unat_of_nat)
  have b: "unat (ucast x :: u64) < 2 ^ 32" for x :: u32
    using unsigned_less [where 'a = nat, of x] by (simp add: unat_ucast_up_le)
  show thesis
    by (rule rl_spend_cases [of "of_nat t" "ucast rate" "ucast burst" s])
      (use assms b that in \<open>auto simp: t rl_try_def unat_ucast_up_le\<close>)
qed

interpretation rl: token_bucket "rl_try rate burst" rl_tokens rl_stamp "unat rate" "unat burst" 256 "2 ^ 32" for rate burst
proof
  fix t s s'
  assume "t < 2 ^ 32" "rl_stamp s \<le> t" "rl_try rate burst s t = Some s'"
  then show "rl_tokens s' + 256 = min (unat burst) (rl_tokens s + (t - rl_stamp s) * unat rate) \<and> rl_stamp s' = t"
    by (cases rule: rl_try_cases [of t rate burst s]) (auto simp: rl_avail_def)
next
  fix t s
  assume "t < 2 ^ 32" "rl_stamp s \<le> t" "rl_try rate burst s t = None"
  then show "min (unat burst) (rl_tokens s + (t - rl_stamp s) * unat rate) < 256"
    by (cases rule: rl_try_cases [of t rate burst s]) (auto simp: rl_avail_def)
qed


section \<open>The compare-and-swap loop\<close>

text \<open>What the other CPUs have made of the word after \<open>n\<close> of this CPU's swaps came to nothing.\<close>

fun rl_interfered :: "kernel \<Rightarrow> nat \<Rightarrow> u64 \<Rightarrow> u64" where
  "rl_interfered k 0 cell = cell"
| "rl_interfered k (Suc n) cell = k_interfere k n (rl_interfered k n cell)"

text \<open>
  The three ways the loop ends when it starts at attempt \<open>i\<close>: some attempt took a token from the
  very value the word had at its swap; some attempt found too few tokens in a value the word had,
  and left it; or all attempts lost, the word being different at every swap.
\<close>

definition rl_outcome :: "kernel \<Rightarrow> u64 \<Rightarrow> u64 \<Rightarrow> u64 \<Rightarrow> nat \<Rightarrow> marlin_ret option \<Rightarrow> u64 \<Rightarrow> bool" where
  "rl_outcome k rate burst cell i verdict cell' \<longleftrightarrow>
    (\<exists>n\<ge>i. n < RL_CAS_RETRIES \<and> verdict = Some MARLIN_OK \<and> rl_interfered k (Suc n) cell = rl_interfered k n cell \<and>
       rl_spend (rl_interfered k (Suc n) cell) (rl_now k n) rate burst = Inr cell') \<or>
    (\<exists>n\<ge>i. n < RL_CAS_RETRIES \<and> verdict = Some MARLIN_DROP_RATELIMITED \<and> cell' = rl_interfered k n cell \<and>
       rl_spend cell' (rl_now k n) rate burst = Inl MARLIN_DROP_RATELIMITED) \<or>
    (verdict = None \<and> cell' = rl_interfered k RL_CAS_RETRIES cell \<and>
       (\<forall>n\<ge>i. n < RL_CAS_RETRIES \<longrightarrow> rl_interfered k (Suc n) cell \<noteq> rl_interfered k n cell))"

lemma rl_outcome_Suc:
  assumes "rl_outcome k rate burst cell (Suc i) verdict cell'" "rl_interfered k (Suc i) cell \<noteq> rl_interfered k i cell"
  shows "rl_outcome k rate burst cell i verdict cell'"
  using assms(1) unfolding rl_outcome_def
proof (elim disjE, goal_cases)
  case 1
  then show ?case by (blast dest: Suc_leD)
next
  case 2
  then show ?case by (blast dest: Suc_leD)
next
  case 3
  then have "\<forall>n\<ge>i. n < RL_CAS_RETRIES \<longrightarrow> rl_interfered k (Suc n) cell \<noteq> rl_interfered k n cell"
    using assms(2) by (metis le_neq_implies_less Suc_leI)
  with 3 show ?case by blast
qed

lemma rl_spend_Inl: "rl_spend old now rate burst = Inl rc \<Longrightarrow> rc = MARLIN_DROP_RATELIMITED"
  by (auto simp: rl_spend_def Let_def split: if_splits)

lemma rl_cas_loop_outcome:
  assumes "rl_cas_loop k rate burst i (rl_interfered k i cell) (rl_interfered k i cell) (rl_now k i) = (verdict, cell')"
    and "i \<le> RL_CAS_RETRIES"
  shows "rl_outcome k rate burst cell i verdict cell'"
  using assms
proof (induction "RL_CAS_RETRIES - i" arbitrary: i)
  case 0
  then show ?case by (subst (asm) rl_cas_loop.simps) (auto simp: rl_outcome_def)
next
  case (Suc d)
  then have i: "i < RL_CAS_RETRIES" and d: "d = RL_CAS_RETRIES - Suc i" "Suc i \<le> RL_CAS_RETRIES" by simp_all
  let ?c = "\<lambda>n. rl_interfered k n cell"
  note step = Suc.prems(1) [unfolded rl_cas_loop.simps [of k rate burst i]]
  show ?case
  proof (cases "rl_spend (?c i) (rl_now k i) rate burst")
    case (Inl rc)
    with i step rl_spend_Inl [OF Inl] show ?thesis by (auto simp: rl_outcome_def)
  next
    case (Inr s)
    show ?thesis
    proof (cases "?c (Suc i) = ?c i")
      case True
      with Inr i step show ?thesis by (auto simp: rl_outcome_def)
    next
      case False
      then have "rl_cas_loop k rate burst (Suc i) (?c (Suc i)) (?c (Suc i)) (rl_now k (Suc i)) = (verdict, cell')"
        using Inr i step by (simp add: Let_def)
      from Suc.hyps(1) [OF d(1) this d(2)] False show ?thesis by (rule rl_outcome_Suc)
    qed
  qed
qed

lemma unat_rl_now: "unat (rl_now k i) < 2 ^ 32"
  unfolding rl_now_def unat_and_mask_32 by (rule rl_tokens_less)

section \<open>The whole limiter on one source\<close>

definition rl_active :: "marlin_ctx \<Rightarrow> bool" where
  "rl_active p \<longleftrightarrow> cfg_flags (mc_cfg p) AND CFG_RL_ENABLE \<noteq> 0 \<and> mc_acl_verdict p \<noteq> MARLIN_ACL_ALLOW"

text \<open>One CPU at a time, and a bucket map below its capacity.\<close>

definition rl_quiet :: "kernel \<Rightarrow> bool" where
  "rl_quiet k \<longleftrightarrow> k_interfere k = (\<lambda>_ s. s) \<and> k_rl_insert k = (\<lambda>m key b. Some (m(key \<mapsto> b)))"

abbreviation rl_p_try :: "marlin_ctx \<Rightarrow> u64 \<Rightarrow> nat \<Rightarrow> u64 option" where
  "rl_p_try p \<equiv> rl_try (cfg_rl_refill (mc_cfg p)) (cfg_rl_burst (mc_cfg p))"

lemma ratelimit_hit:
  assumes "rl_active p" "k_interfere k = (\<lambda>_ s. s)" "m_ratelimit m (rl_source_key (mc_tuple p)) = Some b"
  shows "marlin_ratelimit k (Some p) m =
    (case rl_p_try p (rl_state b) (unat (rl_now k 0)) of
       None \<Rightarrow> (MARLIN_DROP_RATELIMITED, m)
     | Some s \<Rightarrow> (MARLIN_OK, m\<lparr>m_ratelimit := (m_ratelimit m)(rl_source_key (mc_tuple p) \<mapsto> \<lparr>rl_state = s\<rparr>)\<rparr>))"
  using assms
  by (auto simp: marlin_ratelimit_def rl_active_def rl_cas_loop.simps [of _ _ _ 0] rl_try_def Let_def fun_upd_idem
      split: sum.split dest: rl_spend_Inl)

lemma ratelimit_miss:
  assumes "rl_active p" "rl_quiet k" "m_ratelimit m (rl_source_key (mc_tuple p)) = None"
  defines "full \<equiv> push_bit 32 (rl_now k 0) OR ucast (cfg_rl_burst (mc_cfg p)) :: u64"
  shows "marlin_ratelimit k (Some p) m =
    (case rl_p_try p full (unat (rl_now k 0)) of
       None \<Rightarrow> (MARLIN_DROP_RATELIMITED, m)
     | Some s \<Rightarrow> (MARLIN_OK, m\<lparr>m_ratelimit := (m_ratelimit m)(rl_source_key (mc_tuple p) \<mapsto> \<lparr>rl_state = s\<rparr>)\<rparr>))"
    and "rl_tokens full = unat (cfg_rl_burst (mc_cfg p))" "rl_stamp full = unat (rl_now k 0)"
proof -
  show "marlin_ratelimit k (Some p) m =
    (case rl_p_try p full (unat (rl_now k 0)) of
       None \<Rightarrow> (MARLIN_DROP_RATELIMITED, m)
     | Some s \<Rightarrow> (MARLIN_OK, m\<lparr>m_ratelimit := (m_ratelimit m)(rl_source_key (mc_tuple p) \<mapsto> \<lparr>rl_state = s\<rparr>)\<rparr>))"
    using assms by (auto simp: marlin_ratelimit_def rl_active_def rl_quiet_def rl_try_def Let_def
        split: sum.split dest: rl_spend_Inl)
  have "unat (ucast (cfg_rl_burst (mc_cfg p)) :: u64) < 2 ^ 32"
    using unsigned_less [where 'a = nat, of "cfg_rl_burst (mc_cfg p)"] by (simp add: unat_ucast_up_le)
  from rl_pack [OF unat_rl_now this] show "rl_tokens full = unat (cfg_rl_burst (mc_cfg p))" "rl_stamp full = unat (rl_now k 0)"
    by (simp_all add: full_def unat_ucast_up_le)
qed

text \<open>How many of a sequence of packets like \<open>p\<close> are admitted, each at its own reading of the clock.\<close>

fun rl_admitted :: "marlin_ctx \<Rightarrow> kernel list \<Rightarrow> bpf_maps \<Rightarrow> nat" where
  "rl_admitted p [] m = 0"
| "rl_admitted p (k # ks) m =
     (case marlin_ratelimit k (Some p) m of
        (rc, m') \<Rightarrow> (if rc = MARLIN_OK then Suc (rl_admitted p ks m') else rl_admitted p ks m'))"

abbreviation rl_time :: "kernel \<Rightarrow> nat" where
  "rl_time k \<equiv> unat (rl_now k 0)"

lemma rl_admitted_hit:
  assumes "rl_active p" "\<forall>k\<in>set ks. rl_quiet k" "m_ratelimit m (rl_source_key (mc_tuple p)) = Some b"
  shows "rl_admitted p ks m = admissions (rl_p_try p) (rl_state b) (map rl_time ks)"
  using assms(2,3)
proof (induction ks arbitrary: m b)
  case Nil
  then show ?case by simp
next
  case (Cons k ks)
  then have "k_interfere k = (\<lambda>_ s. s)" by (simp add: rl_quiet_def)
  from ratelimit_hit [OF assms(1) this Cons.prems(2)] Cons show ?case
    by (auto split: option.split)
qed

lemma rl_admitted_bound:
  assumes "rl_active p" "\<forall>k\<in>set ks. rl_quiet k \<and> start_t \<le> rl_time k \<and> rl_time k \<le> end_t" "sorted (map rl_time ks)"
    and "\<forall>b. m_ratelimit m (rl_source_key (mc_tuple p)) = Some b \<longrightarrow> rl_stamp (rl_state b) \<le> start_t"
    and "end_t < 2 ^ 32"
  shows "rl_admitted p ks m * 256 \<le> unat (cfg_rl_burst (mc_cfg p)) + (end_t - start_t) * unat (cfg_rl_refill (mc_cfg p))"
proof (cases "m_ratelimit m (rl_source_key (mc_tuple p))")
  case (Some b)
  have "\<forall>t\<in>set (map rl_time ks). rl_stamp (rl_state b) \<le> t \<and> start_t \<le> t \<and> t \<le> end_t"
    using Some assms(2,4) by fastforce
  from rl.admissions_window [OF assms(3) this assms(5)] show ?thesis
    using rl_admitted_hit [OF assms(1) _ Some] assms(2) by simp
next
  case None
  from assms(2,3) show ?thesis
  proof (induction ks)
    case Nil
    then show ?case by simp
  next
    case (Cons k ks)
    note miss = ratelimit_miss [OF assms(1) _ None, of k]
    let ?full = "push_bit 32 (rl_now k 0) OR ucast (cfg_rl_burst (mc_cfg p)) :: u64"
    show ?case
    proof (cases "rl_p_try p ?full (rl_time k)")
      case None
      then show ?thesis using miss Cons by simp
    next
      case (Some s)
      let ?m = "m\<lparr>m_ratelimit := (m_ratelimit m)(rl_source_key (mc_tuple p) \<mapsto> \<lparr>rl_state = s\<rparr>)\<rparr>"
      have "rl_admitted p (k # ks) m = Suc (rl_admitted p ks ?m)"
        using miss(1) Cons.prems Some by simp
      also have "rl_admitted p ks ?m = admissions (rl_p_try p) s (map rl_time ks)"
        using rl_admitted_hit [OF assms(1), of ks ?m] Cons.prems by simp
      finally have "rl_admitted p (k # ks) m = admissions (rl_p_try p) ?full (map rl_time (k # ks))"
        using Some by simp
      moreover have "\<forall>t\<in>set (map rl_time (k # ks)). rl_stamp ?full \<le> t \<and> start_t \<le> t \<and> t \<le> end_t"
        using miss(3) Cons.prems by auto
      ultimately show ?thesis
        using rl.admissions_window [OF Cons.prems(2) _ assms(5), of ?full start_t] by simp
    qed
  qed
qed

section \<open>Properties\<close>


text \<open>A source with a burst of two packets and a refill of a quarter packet per tick.\<close>

definition rl_sample_ctx :: marlin_ctx where
  "rl_sample_ctx = zero_ctx\<lparr>mc_tuple := zero_tuple\<lparr>pt_src := (0x0100000a, 0, 0, 0), pt_family := AF_INET\<rparr>,
     mc_cfg := zero_config\<lparr>cfg_flags := CFG_RL_ENABLE, cfg_rl_refill := 64, cfg_rl_burst := 512\<rparr>\<rparr>"

definition rl_sample_maps :: bpf_maps where
  "rl_sample_maps = \<lparr>m_config = Map.empty, m_mctx_scratch = Map.empty, m_backends = Map.empty, m_fwd_table = Map.empty,
     m_vip_map = Map.empty, m_tx_ports = Map.empty, m_acl_allow_v4 = Map.empty, m_acl_block_v4 = Map.empty,
     m_acl_allow_v6 = Map.empty, m_acl_block_v6 = Map.empty, m_ratelimit = Map.empty, m_vip_stats = Map.empty,
     m_backend_stats = Map.empty, m_drop_stats = Map.empty\<rparr>"

definition rl_sample_kernel :: "u64 \<Rightarrow> kernel" where
  "rl_sample_kernel tick = demo_kernel\<lparr>k_ktime := (\<lambda>_. push_bit RL_TICK_SHIFT tick)\<rparr>"

lemma rl_sample_quiet: "rl_quiet (rl_sample_kernel t)"
  by (simp add: rl_quiet_def rl_sample_kernel_def demo_kernel_def)


text \<open>C37: A sender that keeps to the rate is never refused. When the capacity is at least one packet
  and the bucket gains at least one packet's worth of tokens between any two attempts (and before
  the first), every attempt on the state word succeeds.\<close>

theorem rl_spend_conforming:
  assumes "256 \<le> unat burst" "successively (\<lambda>a b. a \<le> b \<and> 256 \<le> (b - a) * unat rate) (rl_stamp s # ts)"
    and "\<forall>t\<in>set ts. t < 2 ^ 32"
  shows "admissions (rl_try rate burst) s ts = length ts"
  using assms by (rule rl.admissions_conforming)

theorem rl_spend_conforming_witness: "admissions (rl_try 64 512) 0 [4, 8, 20] = 3"
  using rl_spend_conforming [of 512 64 0 "[4, 8, 20]"] by (simp add: rl_stamp_def)

text \<open>C11: The compare-and-swap loop is linearisable, whatever the other CPUs write to the bucket in
  the meantime. A packet is admitted with a debit only by an update that takes exactly one spend
  from the value the word held at that very swap; it is refused only because some value the word
  really held was short of a token, and then the limiter writes nothing; and when all four swaps
  lose, the packet passes, nothing is written and the exhaustion is counted.\<close>

theorem marlin_ratelimit_linearizable:
  assumes active: "rl_active p" and b: "m_ratelimit m (rl_source_key (mc_tuple p)) = Some b"
    and run: "marlin_ratelimit k (Some p) m = (rc, m')"
  shows "\<exists>verdict cell. rl_outcome k (ucast (cfg_rl_refill (mc_cfg p))) (ucast (cfg_rl_burst (mc_cfg p))) (rl_state b) 0 verdict cell \<and>
    (let upd = m\<lparr>m_ratelimit := (m_ratelimit m)(rl_source_key (mc_tuple p) \<mapsto> \<lparr>rl_state = cell\<rparr>)\<rparr> in
     case verdict of
       Some v \<Rightarrow> rc = v \<and> m' = upd
     | None \<Rightarrow> rc = MARLIN_OK \<and> m' = marlin_stats_reason MARLIN_COUNT_RL_CAS_EXHAUSTED upd)"
proof -
  obtain verdict cell where loop: "rl_cas_loop k (ucast (cfg_rl_refill (mc_cfg p))) (ucast (cfg_rl_burst (mc_cfg p))) 0
      (rl_interfered k 0 (rl_state b)) (rl_interfered k 0 (rl_state b)) (rl_now k 0) = (verdict, cell)"
    by (metis surj_pair)
  from rl_cas_loop_outcome [OF this] active b run loop show ?thesis
    by (intro exI [of _ verdict] exI [of _ cell])
      (auto simp: marlin_ratelimit_def rl_active_def Let_def split: option.splits)
qed

theorem marlin_ratelimit_linearizable_witness:
  "\<exists>m' cell.
    marlin_ratelimit (rl_sample_kernel 5) (Some rl_sample_ctx)
      (rl_sample_maps\<lparr>m_ratelimit := [rl_source_key (mc_tuple rl_sample_ctx) \<mapsto> \<lparr>rl_state = 0x500000100\<rparr>]\<rparr>) = (MARLIN_OK, m') \<and>
    rl_outcome (rl_sample_kernel 5) (ucast (64 :: u32)) (ucast (512 :: u32)) 0x500000100 0 (Some MARLIN_OK) cell"
proof -
  let ?m = "rl_sample_maps\<lparr>m_ratelimit := [rl_source_key (mc_tuple rl_sample_ctx) \<mapsto> \<lparr>rl_state = 0x500000100\<rparr>]\<rparr>"
  have act: "rl_active rl_sample_ctx" by (simp add: rl_active_def rl_sample_ctx_def zero_ctx_def)
  have b: "m_ratelimit ?m (rl_source_key (mc_tuple rl_sample_ctx)) = Some \<lparr>rl_state = 0x500000100\<rparr>" by simp
  have now: "rl_now (rl_sample_kernel 5) 0 = 5" by (simp add: rl_now_def rl_sample_kernel_def)
  have "rl_p_try rl_sample_ctx 0x500000100 5 \<noteq> None"
    by (simp add: rl_try_def rl_sample_ctx_def rl_spend_def Let_def MARLIN_RL_ONE_TOKEN_def drop_bit_eq_div)
  then obtain m' where run: "marlin_ratelimit (rl_sample_kernel 5) (Some rl_sample_ctx) ?m = (MARLIN_OK, m')"
    using ratelimit_hit [OF act _ b, of "rl_sample_kernel 5"] rl_sample_quiet [of 5] now by (auto simp: rl_quiet_def)
  have cfg: "cfg_rl_refill (mc_cfg rl_sample_ctx) = 64" "cfg_rl_burst (mc_cfg rl_sample_ctx) = 512"
    by (simp_all add: rl_sample_ctx_def)
  obtain verdict cell where
    out: "rl_outcome (rl_sample_kernel 5) (ucast (64 :: u32)) (ucast (512 :: u32)) 0x500000100 0 verdict cell"
    and v: "verdict = None \<or> verdict = Some MARLIN_OK"
    using marlin_ratelimit_linearizable [OF act b run, unfolded cfg Let_def]
  proof (elim exE conjE, goal_cases)
    case (1 verdict cell)
    then show ?case by (cases verdict) simp_all
  qed
  have "verdict \<noteq> None"
    using out rl_sample_quiet [of 5] by (auto simp: rl_outcome_def rl_quiet_def dest: spec [of _ 0])
  with out v run show ?thesis by blast
qed

end
