(* ===== verification/Marlin_Csum.thy ===== *)
theory Marlin_Csum
  imports Marlin_Abi
begin

text \<open>
  The IPv4 header the encapsulation units build, its checksum (\<^verbatim>\<open>csum.h\<close>) and the frame-size
  check (\<^verbatim>\<open>mtu.h\<close>). The checksum is right when the receiver's RFC 1071 sum over the finished
  header folds to zero; the proof goes through the sum modulo 65535.
\<close>

section \<open>Definitions\<close>

text \<open>\<^verbatim>\<open>struct iphdr\<close>; the two bit fields of its first byte are kept apart.\<close>

record iphdr =
  ip_version :: u8
  ip_ihl :: u8
  ip_tos :: u8
  ip_tot_len :: u16
  ip_id :: u16
  ip_frag_off :: u16
  ip_ttl :: u8
  ip_protocol :: u8
  ip_check :: u16
  ip_saddr :: u32
  ip_daddr :: u32

definition zero_iphdr :: iphdr where
  "zero_iphdr = \<lparr>ip_version = 0, ip_ihl = 0, ip_tos = 0, ip_tot_len = 0, ip_id = 0, ip_frag_off = 0, ip_ttl = 0,
     ip_protocol = 0, ip_check = 0, ip_saddr = 0, ip_daddr = 0\<rparr>"

definition iphdr_bytes :: "iphdr \<Rightarrow> bytes" where
  "iphdr_bytes h = [push_bit 4 (ip_version h) OR ip_ihl h, ip_tos h] @ le_bytes 2 (ip_tot_len h) @ le_bytes 2 (ip_id h) @
     le_bytes 2 (ip_frag_off h) @ [ip_ttl h, ip_protocol h] @ le_bytes 2 (ip_check h) @ le_bytes 4 (ip_saddr h) @
     le_bytes 4 (ip_daddr h)"

lemma length_iphdr_bytes [simp]: "length (iphdr_bytes h) = 20"
  by (simp add: iphdr_bytes_def)

text \<open>The loop of \<^verbatim>\<open>marlin_csum_words\<close> from index \<open>idx\<close> on.\<close>

function csum_words_loop :: "bytes \<Rightarrow> nat \<Rightarrow> nat \<Rightarrow> u32 \<Rightarrow> u32" where
  "csum_words_loop buf len idx acc =
    (if idx + 1 < len
     then csum_words_loop buf len (idx + 2) (acc + (push_bit 8 (ucast (buf ! idx)) OR ucast (buf ! (idx + 1))))
     else acc)"
  by pat_completeness auto
termination
  by (relation "measure (\<lambda>(_, len, idx, _). len - idx)") auto

declare csum_words_loop.simps [simp del]

definition marlin_csum_words :: "bytes \<Rightarrow> nat \<Rightarrow> u32 \<Rightarrow> u32" where
  "marlin_csum_words buf len acc =
    (let acc = csum_words_loop buf len 0 acc in
     if odd len then acc + push_bit 8 (ucast (buf ! (len - 1))) else acc)"

definition csum_fold_once :: "u32 \<Rightarrow> u32" where
  "csum_fold_once acc = (acc AND 0xffff) + drop_bit 16 acc"

definition marlin_csum_fold :: "u32 \<Rightarrow> u16" where
  "marlin_csum_fold acc = bswap16 (ucast (NOT (csum_fold_once (csum_fold_once acc))))"

text \<open>The 16-bit words of a header as the host loads them.\<close>

definition hdr_word :: "bytes \<Rightarrow> nat \<Rightarrow> u16" where
  "hdr_word bs i = le_val (take 2 (drop (2 * i) bs))"

definition marlin_ipv4_csum :: "iphdr \<Rightarrow> u16" where
  "marlin_ipv4_csum iph =
    (let word = (\<lambda>i. ucast (hdr_word (iphdr_bytes iph) i) :: u32);
         acc = word 0 + word 1 + word 2 + word 3 + word 4 + word 6 + word 7 + word 8 + word 9
     in ucast (NOT (csum_fold_once (csum_fold_once acc))))"

definition marlin_frame_fits :: "marlin_ctx \<Rightarrow> u16 \<Rightarrow> marlin_ret" where
  "marlin_frame_fits mctx overhead =
    (if cfg_max_frame (mc_cfg mctx) = 0 then MARLIN_OK
     else if (ucast (cfg_max_frame (mc_cfg mctx)) :: u32) < ucast (mc_pkt_len mctx) + ucast overhead
     then MARLIN_DROP_FRAME_TOO_BIG
     else MARLIN_OK)"

section \<open>Folding\<close>

definition fold_nat :: "nat \<Rightarrow> nat" where
  "fold_nat n = n mod 65536 + n div 65536"

lemma fold_nat_mod: "fold_nat n mod 65535 = n mod 65535"
proof -
  have "n = 65535 * (n div 65536) + fold_nat n"
    by (simp add: fold_nat_def)
  then show ?thesis by (metis mod_mult_self4)
qed

lemma fold_nat_pos: "0 < n \<Longrightarrow> 0 < fold_nat n"
  by (cases "n < 65536") (auto simp: fold_nat_def div_greater_zero_iff)

lemma fold_nat_small: "n \<le> 65535 \<Longrightarrow> fold_nat n = n"
  by (simp add: fold_nat_def)

lemma fold_nat_twice:
  assumes "n \<le> 700000"
  shows "fold_nat (fold_nat n) \<le> 65535"
proof -
  have "n div 65536 \<le> 10" using assms by (simp add: div_le_mono [of n 700000 65536, simplified])
  then have le: "fold_nat n \<le> 65545" unfolding fold_nat_def using mod_less_divisor [of 65536 n] by linarith
  show ?thesis
  proof (cases "fold_nat n \<le> 65535")
    case True
    then show ?thesis by (simp add: fold_nat_small)
  next
    case False
    with le show ?thesis unfolding fold_nat_def [of "fold_nat n"] by (auto simp: mod_if le_div_geq)
  qed
qed

lemma unat_fold_once: "unat (csum_fold_once s) = fold_nat (unat s)"
proof -
  have low: "unat (s AND 0xffff) = unat s mod 65536"
  proof -
    have "s AND 0xffff = take_bit 16 s" by (simp add: take_bit_eq_mask mask_eq_exp_minus_1)
    then show ?thesis by (simp add: take_bit_eq_mod unat_mod)
  qed
  have high: "unat (drop_bit 16 s) = unat s div 65536"
    by (simp add: drop_bit_eq_div unat_div)
  have "unat s mod 65536 + unat s div 65536 < 2 ^ 32"
    using unsigned_less [where 'a = nat, of s] mod_less_divisor [of 65536 "unat s"] div_le_dividend [of "unat s" 65536]
      less_mult_imp_div_less [of "unat s" 65536 65536] by simp
  then show ?thesis
    unfolding csum_fold_once_def by (subst unat_add_nowrap) (simp_all add: low high fold_nat_def)
qed

lemma unat_ucast_not:
  assumes "unat (s :: u32) \<le> 65535"
  shows "unat (ucast (NOT s) :: u16) = 65535 - unat s"
proof -
  have "(ucast (NOT s) :: u16) = NOT (ucast s)"
    by (rule bit_word_eqI) (simp add: bit_simps)
  then have "(ucast (NOT s) :: u16) = - 1 - ucast s"
    by (simp add: not_eq_complement)
  moreover have "unat (ucast s :: u16) = unat s"
    using assms by (simp add: unsigned_ucast_eq take_bit_nat_eq_self)
  moreover have "unat (- 1 :: u16) = 65535" by (simp add: unsigned_minus_1_eq_mask mask_eq_exp_minus_1)
  ultimately show ?thesis by (simp add: unat_sub)
qed

lemma csum_fold_cases:
  assumes "unat s \<le> 700000"
  obtains f where "unat (ucast (NOT (csum_fold_once (csum_fold_once s))) :: u16) = 65535 - f"
    "f \<le> 65535" "f mod 65535 = unat s mod 65535" "0 < unat s \<Longrightarrow> 0 < f"
proof
  let ?f = "fold_nat (fold_nat (unat s))"
  show "unat (ucast (NOT (csum_fold_once (csum_fold_once s))) :: u16) = 65535 - ?f"
    using fold_nat_twice [OF assms] by (subst unat_ucast_not) (simp_all add: unat_fold_once)
  show "?f \<le> 65535" using fold_nat_twice [OF assms] .
  show "?f mod 65535 = unat s mod 65535" by (simp add: fold_nat_mod)
  show "0 < unat s \<Longrightarrow> 0 < ?f" by (intro fold_nat_pos)
qed

section \<open>The receiver's check\<close>

text \<open>The same word in the other byte order is 256 times it, modulo 65535.\<close>

lemma unat_le_pair: "unat (le_val [a, b] :: u16) = unat a + 256 * unat b"
proof -
  have "(ucast a :: u16) AND push_bit 8 (ucast b) = 0"
    by (rule bit_word_eqI) (auto simp: bit_simps dest: bit_imp_le_length)
  then have "(le_val [a, b] :: u16) = ucast a + push_bit 8 (ucast b)"
    by (simp add: disjunctive_add_eq_or)
  moreover have "unat (push_bit 8 (ucast b) :: u16) = 256 * unat b"
    using unat_u8_le [of b] by (simp add: push_bit_eq_mult unat_mult_nowrap unat_ucast_up_le)
  ultimately show ?thesis
    using unat_u8_le [of a] unat_u8_le [of b] by (simp add: unat_add_nowrap unat_ucast_up_le)
qed

lemma unat_be_pair: "unat (push_bit 8 (ucast a) OR ucast b :: u32) = 256 * unat (a :: u8) + unat (b :: u8)"
proof -
  have "push_bit 8 (ucast a) AND (ucast b :: u32) = 0"
    by (rule bit_word_eqI) (auto simp: bit_simps dest: bit_imp_le_length)
  then have "push_bit 8 (ucast a) OR (ucast b :: u32) = push_bit 8 (ucast a) + ucast b"
    by (simp add: disjunctive_add_eq_or)
  moreover have "unat (push_bit 8 (ucast a) :: u32) = 256 * unat a"
    using unat_u8_le [of a] by (simp add: push_bit_eq_mult unat_mult_nowrap unat_ucast_up_le)
  ultimately show ?thesis
    using unat_u8_le [of a] unat_u8_le [of b] by (simp add: unat_add_nowrap unat_ucast_up_le)
qed

lemma swap_mod: "(256 * a + b :: nat) mod 65535 = 256 * (a + 256 * b) mod 65535"
proof -
  have "256 * (a + 256 * b) = 65535 * b + (256 * a + b)" by simp
  then show ?thesis by (metis mod_mult_self4)
qed

text \<open>The sums of the 16-bit words of a byte string, read in either byte order.\<close>

fun be_sum :: "bytes \<Rightarrow> nat" where
  "be_sum (a # b # bs) = 256 * unat a + unat b + be_sum bs"
| "be_sum _ = 0"

fun le_sum :: "bytes \<Rightarrow> nat" where
  "le_sum (a # b # bs) = unat a + 256 * unat b + le_sum bs"
| "le_sum _ = 0"

lemma be_le_sum_mod: "be_sum bs mod 65535 = 256 * le_sum bs mod 65535"
proof (induction bs rule: be_sum.induct)
  case (1 a b bs)
  have "be_sum (a # b # bs) mod 65535 = ((256 * unat a + unat b) mod 65535 + be_sum bs mod 65535) mod 65535"
    by (simp only: be_sum.simps mod_add_eq)
  also have "\<dots> = (256 * (unat a + 256 * unat b) + 256 * le_sum bs) mod 65535"
    by (simp only: swap_mod 1 mod_add_eq)
  finally show ?case by (simp add: algebra_simps)
qed simp_all

lemma be_sum_pos: "0 < be_sum bs \<longleftrightarrow> 0 < le_sum bs"
  by (induction bs rule: be_sum.induct) auto

lemma be_sum_le: "be_sum bs \<le> 32768 * length bs"
proof (induction bs rule: be_sum.induct)
  case (1 a b bs)
  then show ?case using unat_u8_le [of a] unat_u8_le [of b] by simp
qed simp_all

lemma csum_words_loop_sum:
  assumes "even len" "even idx" "len \<le> length buf" "unat acc + be_sum (drop idx (take len buf)) < 2 ^ 32"
  shows "unat (csum_words_loop buf len idx acc) = unat acc + be_sum (drop idx (take len buf))"
  using assms
proof (induction buf len idx acc rule: csum_words_loop.induct)
  case (1 buf len idx acc)
  show ?case
  proof (cases "idx + 1 < len")
    case True
    then have split: "drop idx (take len buf) = buf ! idx # buf ! (idx + 1) # drop (idx + 2) (take len buf)"
      using "1.prems"(3) by (simp add: Cons_nth_drop_Suc [symmetric] add.commute)
    let ?w = "push_bit 8 (ucast (buf ! idx)) OR ucast (buf ! (idx + 1)) :: u32"
    have "unat (acc + ?w) = unat acc + (256 * unat (buf ! idx) + unat (buf ! (idx + 1)))"
      using "1.prems"(4) split by (subst unat_add_nowrap) (simp_all add: unat_be_pair)
    with 1 True split show ?thesis by (subst csum_words_loop.simps) simp
  next
    case False
    with "1.prems"(1,2) have "len \<le> idx" by presburger
    with False show ?thesis by (subst csum_words_loop.simps) simp
  qed
qed

lemma le_val_pair_bytes: "unat (ucast (le_val [a, b] :: u16) :: u32) = unat a + 256 * unat b"
  by (simp add: unat_ucast_up_le unat_le_pair del: le_val.simps)

lemma ipv4_csum_words:
  "\<exists>s. marlin_ipv4_csum h = ucast (NOT (csum_fold_once (csum_fold_once s))) \<and>
    unat s = le_sum (iphdr_bytes (h\<lparr>ip_check := 0\<rparr>)) \<and> unat s \<le> 700000"
proof -
  obtain b0 b1 b2 b3 b4 b5 b6 b7 b8 b9 b10 b11 b12 b13 b14 b15 b16 b17 b18 b19 where
    bs: "iphdr_bytes h = [b0, b1, b2, b3, b4, b5, b6, b7, b8, b9, b10, b11, b12, b13, b14, b15, b16, b17, b18, b19]"
    using length_iphdr_bytes [of h] by (auto simp: numeral_eq_Suc length_Suc_conv simp del: length_iphdr_bytes)
  have bs0: "iphdr_bytes (h\<lparr>ip_check := 0\<rparr>) =
      [b0, b1, b2, b3, b4, b5, b6, b7, b8, b9, 0, 0, b12, b13, b14, b15, b16, b17, b18, b19]"
    using bs by (simp add: iphdr_bytes_def numeral_eq_Suc)
  define w where "w i = (ucast (hdr_word (iphdr_bytes h) i) :: u32)" for i
  have w: "unat (w 0) = unat b0 + 256 * unat b1" "unat (w 1) = unat b2 + 256 * unat b3" "unat (w 2) = unat b4 + 256 * unat b5"
    "unat (w 3) = unat b6 + 256 * unat b7" "unat (w 4) = unat b8 + 256 * unat b9" "unat (w 6) = unat b12 + 256 * unat b13"
    "unat (w 7) = unat b14 + 256 * unat b15" "unat (w 8) = unat b16 + 256 * unat b17" "unat (w 9) = unat b18 + 256 * unat b19"
    by (simp_all add: w_def hdr_word_def bs le_val_pair_bytes numeral_eq_Suc del: le_val.simps)
  have le: "unat (w i) \<le> 65535" for i
    using unat_u16_le by (simp add: w_def unat_ucast_up_le)
  let ?s = "w 0 + w 1 + w 2 + w 3 + w 4 + w 6 + w 7 + w 8 + w 9"
  have s: "unat ?s = unat (w 0) + unat (w 1) + unat (w 2) + unat (w 3) + unat (w 4) + unat (w 6) + unat (w 7) + unat (w 8) + unat (w 9)"
    using le [of 0] le [of 1] le [of 2] le [of 3] le [of 4] le [of 6] le [of 7] le [of 8] le [of 9]
    by (simp add: unat_add_nowrap)
  show ?thesis
  proof (intro exI [of _ ?s] conjI)
    show "marlin_ipv4_csum h = ucast (NOT (csum_fold_once (csum_fold_once ?s)))"
      by (simp add: marlin_ipv4_csum_def w_def Let_def)
    show "unat ?s = le_sum (iphdr_bytes (h\<lparr>ip_check := 0\<rparr>))"
      unfolding s w bs0 by simp
    show "unat ?s \<le> 700000"
      using s le [of 0] le [of 1] le [of 2] le [of 3] le [of 4] le [of 6] le [of 7] le [of 8] le [of 9] by linarith
  qed
qed

lemma le_bytes_2: "le_bytes 2 w = [ucast w, ucast (drop_bit 8 w)]"
  by (simp add: numeral_2_eq_2)

lemma le_bytes_4: "le_bytes 4 w = le_bytes 2 w @ le_bytes 2 (drop_bit 16 w)"
  by (simp add: eval_nat_numeral drop_bit_drop_bit)

lemma le_sum_check: "le_sum (iphdr_bytes (h\<lparr>ip_check := c\<rparr>)) = le_sum (iphdr_bytes (h\<lparr>ip_check := 0\<rparr>)) + unat c"
proof -
  have "unat c = unat (le_val (le_bytes 2 c) :: u16)" by simp
  then have "unat c = unat (ucast c :: u8) + 256 * unat (ucast (drop_bit 8 c) :: u8)"
    by (simp only: le_bytes_2 unat_le_pair)
  then show ?thesis
    by (simp add: iphdr_bytes_def le_bytes_4 le_bytes_2)
qed

section \<open>Properties\<close>

text \<open>C36: Every header carrying the checksum \<^verbatim>\<open>marlin_ipv4_csum\<close> computes for it passes the
  receiver's test: the RFC 1071 sum over its twenty bytes, in network order, folds to zero. The
  unswapped 16-bit sum the code takes is as good as the byte-swapped one for every header.\<close>

theorem marlin_ipv4_csum_verifies:
  "marlin_csum_fold (marlin_csum_words (iphdr_bytes (h\<lparr>ip_check := marlin_ipv4_csum h\<rparr>)) 20 0) = 0"
proof -
  let ?c = "marlin_ipv4_csum h"
  let ?bs = "iphdr_bytes (h\<lparr>ip_check := ?c\<rparr>)"
  obtain s where s: "?c = ucast (NOT (csum_fold_once (csum_fold_once s)))"
      "unat s = le_sum (iphdr_bytes (h\<lparr>ip_check := 0\<rparr>))" "unat s \<le> 700000"
    using ipv4_csum_words by blast
  obtain f where f: "unat ?c = 65535 - f" "f \<le> 65535" "f mod 65535 = unat s mod 65535"
    unfolding s(1) using csum_fold_cases [OF s(3)] by metis
  have total: "le_sum ?bs = unat s + (65535 - f)"
    using le_sum_check [of ?c h] s(2) f(1) by simp
  have "(unat s + (65535 - f)) mod 65535 = (f + (65535 - f)) mod 65535"
    using f(3) by (metis mod_add_cong)
  then have zero: "le_sum ?bs mod 65535 = 0" using total f(2) by simp
  have pos: "0 < le_sum ?bs"
  proof (rule ccontr)
    assume "\<not> 0 < le_sum ?bs"
    then have "unat s = 0" "f = 65535" using total f(2) by simp_all
    moreover have "csum_fold_once 0 = 0" by (simp add: csum_fold_once_def)
    ultimately show False using s(1) f(1) unat_ucast_not [of 0] by (simp add: unat_eq_zero)
  qed
  have sum_eq: "unat (marlin_csum_words ?bs 20 0) = be_sum ?bs"
    using csum_words_loop_sum [of 20 0 ?bs 0] be_sum_le [of ?bs] by (simp add: marlin_csum_words_def Let_def)
  have be: "be_sum ?bs mod 65535 = 0" "0 < be_sum ?bs" "be_sum ?bs \<le> 700000"
    using be_le_sum_mod [of ?bs] zero pos be_sum_pos [of ?bs] be_sum_le [of ?bs] by (simp_all add: mod_mult_right_eq [symmetric, of 256])
  obtain g where g: "unat (ucast (NOT (csum_fold_once (csum_fold_once (marlin_csum_words ?bs 20 0)))) :: u16) = 65535 - g"
      "g \<le> 65535" "g mod 65535 = be_sum ?bs mod 65535" "0 < g"
    using csum_fold_cases [of "marlin_csum_words ?bs 20 0"] sum_eq be by metis
  have "65535 dvd g" using g(3) be(1) by (simp add: mod_eq_0_iff_dvd)
  then have "g = 65535" using g(2,4) dvd_imp_le by fastforce
  then have "(ucast (NOT (csum_fold_once (csum_fold_once (marlin_csum_words ?bs 20 0)))) :: u16) = 0"
    using g(1) by (simp add: unat_eq_zero)
  moreover have "bswap16 0 = 0" by code_simp
  ultimately show ?thesis by (simp add: marlin_csum_fold_def)
qed

end
