(* ===== verification/Marlin_Hash.thy ===== *)
theory Marlin_Hash
  imports Marlin_Abi
begin

text \<open>
  The hash functions: SipHash-2-4 as the data plane computes it (\<^verbatim>\<open>siphash.h\<close>), the daemon's own
  copy (\<^verbatim>\<open>hash.c\<close>), and the source-port hash of the UDP tunnels (\<^verbatim>\<open>entropy.h\<close>).

  SipHash is also written down as its authors define it, for messages of any length; the two
  copies in the program are proved equal to that on the lengths they accept.
\<close>

section \<open>SipHash in the data plane (siphash.h)\<close>

type_synonym sip = "u64 \<times> u64 \<times> u64 \<times> u64"

definition MARLIN_SIP_ROTL :: "u64 \<Rightarrow> nat \<Rightarrow> u64" where
  "MARLIN_SIP_ROTL x b = push_bit b x OR drop_bit (64 - b) x"

fun MARLIN_SIPROUND :: "sip \<Rightarrow> sip" where
  "MARLIN_SIPROUND (v0, v1, v2, v3) =
    (let v0 = v0 + v1;
         v1 = MARLIN_SIP_ROTL v1 13;
         v1 = v1 XOR v0;
         v0 = MARLIN_SIP_ROTL v0 32;
         v2 = v2 + v3;
         v3 = MARLIN_SIP_ROTL v3 16;
         v3 = v3 XOR v2;
         v0 = v0 + v3;
         v3 = MARLIN_SIP_ROTL v3 21;
         v3 = v3 XOR v0;
         v2 = v2 + v1;
         v1 = MARLIN_SIP_ROTL v1 17;
         v1 = v1 XOR v2;
         v2 = MARLIN_SIP_ROTL v2 32
     in (v0, v1, v2, v3))"

text \<open>The eight bytes of \<open>buf\<close> at index \<open>i\<close>; the callers pass buffers that have them.\<close>

definition marlin_siphash_le64 :: "bytes \<Rightarrow> nat \<Rightarrow> u64" where
  "marlin_siphash_le64 buf i =
     ucast (buf ! i) OR push_bit 8 (ucast (buf ! (i + 1))) OR push_bit 16 (ucast (buf ! (i + 2))) OR
     push_bit 24 (ucast (buf ! (i + 3))) OR push_bit 32 (ucast (buf ! (i + 4))) OR
     push_bit 40 (ucast (buf ! (i + 5))) OR push_bit 48 (ucast (buf ! (i + 6))) OR push_bit 56 (ucast (buf ! (i + 7)))"

text \<open>One pass of the block loop, and the loop from block \<open>i\<close> to block \<open>n\<close>.\<close>

fun sip_absorb :: "u64 \<Rightarrow> sip \<Rightarrow> sip" where
  "sip_absorb word (v0, v1, v2, v3) =
    (case MARLIN_SIPROUND (MARLIN_SIPROUND (v0, v1, v2, v3 XOR word)) of
       (v0, v1, v2, v3) \<Rightarrow> (v0 XOR word, v1, v2, v3))"

function sip_loop :: "bytes \<Rightarrow> nat \<Rightarrow> nat \<Rightarrow> sip \<Rightarrow> sip" where
  "sip_loop msg i n v = (if i < n then sip_loop msg (i + 1) n (sip_absorb (marlin_siphash_le64 msg (i * 8)) v) else v)"
  by pat_completeness auto
termination
  by (relation "measure (\<lambda>(_, i, n, _). n - i)") auto

declare sip_loop.simps [simp del]

fun sip_finish :: "sip \<Rightarrow> u64" where
  "sip_finish (v0, v1, v2, v3) =
    (case MARLIN_SIPROUND (MARLIN_SIPROUND (MARLIN_SIPROUND (MARLIN_SIPROUND (v0, v1, v2 XOR 0xff, v3)))) of
       (v0, v1, v2, v3) \<Rightarrow> v0 XOR v1 XOR v2 XOR v3)"

definition marlin_siphash_blocks :: "bytes \<Rightarrow> u32 \<Rightarrow> key128 \<Rightarrow> u64" where
  "marlin_siphash_blocks msg len key =
    (let key = le_bytes 16 key;
         k0 = marlin_siphash_le64 key 0;
         k1 = marlin_siphash_le64 key 8;
         v = (k0 XOR 0x736f6d6570736575, k1 XOR 0x646f72616e646f6d, k0 XOR 0x6c7967656e657261, k1 XOR 0x7465646279746573);
         v = sip_loop msg 0 (unat len div 8) v;
         tail = push_bit 56 (ucast len)
     in sip_finish (sip_absorb tail v))"

section \<open>The daemon's copy (hash.c)\<close>

definition le64 :: "bytes \<Rightarrow> nat \<Rightarrow> u64" where
  "le64 buf i =
     ucast (buf ! i) OR push_bit 8 (ucast (buf ! (i + 1))) OR push_bit 16 (ucast (buf ! (i + 2))) OR
     push_bit 24 (ucast (buf ! (i + 3))) OR push_bit 32 (ucast (buf ! (i + 4))) OR
     push_bit 40 (ucast (buf ! (i + 5))) OR push_bit 48 (ucast (buf ! (i + 6))) OR push_bit 56 (ucast (buf ! (i + 7)))"

definition ROTL :: "u64 \<Rightarrow> nat \<Rightarrow> u64" where
  "ROTL x b = push_bit b x OR drop_bit (64 - b) x"

fun siphash_round :: "sip \<Rightarrow> sip" where
  "siphash_round (v0, v1, v2, v3) =
    (let v0 = v0 + v1;
         v1 = ROTL v1 13;
         v1 = v1 XOR v0;
         v0 = ROTL v0 32;
         v2 = v2 + v3;
         v3 = ROTL v3 16;
         v3 = v3 XOR v2;
         v0 = v0 + v3;
         v3 = ROTL v3 21;
         v3 = v3 XOR v0;
         v2 = v2 + v1;
         v1 = ROTL v1 17;
         v1 = v1 XOR v2;
         v2 = ROTL v2 32
     in (v0, v1, v2, v3))"

function marlind_siphash_loop :: "bytes \<Rightarrow> nat \<Rightarrow> nat \<Rightarrow> sip \<Rightarrow> sip" where
  "marlind_siphash_loop msg i n v =
    (if i < n then
       let word = le64 msg (i * 8);
           (v0, v1, v2, v3) = v;
           (v0, v1, v2, v3) = siphash_round (siphash_round (v0, v1, v2, v3 XOR word))
       in marlind_siphash_loop msg (i + 1) n (v0 XOR word, v1, v2, v3)
     else v)"
  by pat_completeness auto
termination
  by (relation "measure (\<lambda>(_, i, n, _). n - i)") auto

declare marlind_siphash_loop.simps [simp del]

definition marlind_siphash :: "bytes \<Rightarrow> u32 \<Rightarrow> bytes \<Rightarrow> u64" where
  "marlind_siphash msg len key =
    (let k0 = le64 key 0;
         k1 = le64 key 8;
         v = (k0 XOR 0x736f6d6570736575, k1 XOR 0x646f72616e646f6d, k0 XOR 0x6c7967656e657261, k1 XOR 0x7465646279746573);
         (v0, v1, v2, v3) = marlind_siphash_loop msg 0 (unat len div 8) v;
         tail = push_bit 56 (ucast len);
         (v0, v1, v2, v3) = siphash_round (siphash_round (v0, v1, v2, v3 XOR tail));
         (v0, v1, v2, v3) = siphash_round (siphash_round (siphash_round (siphash_round (v0 XOR tail, v1, v2 XOR 0xff, v3))))
     in v0 XOR v1 XOR v2 XOR v3)"

section \<open>The outer UDP source port (entropy.h)\<close>

definition MARLIN_ENTROPY_SPORT_MIN :: u32 where [simp]: "MARLIN_ENTROPY_SPORT_MIN = 49152"
definition MARLIN_ENTROPY_SPORT_RANGE :: u32 where [simp]: "MARLIN_ENTROPY_SPORT_RANGE = 16384"

definition marlin_entropy_mix :: "u32 \<Rightarrow> u32 \<Rightarrow> u32" where
  "marlin_entropy_mix hash val =
    (let hash = hash XOR val;
         hash = hash * 0x85ebca6b
     in hash XOR drop_bit 13 hash)"

definition marlin_entropy_sport :: "packet_tuple \<Rightarrow> u16" where
  "marlin_entropy_sport tuple =
    (let (s0, s1, s2, s3) = pt_src tuple;
         (d0, d1, d2, d3) = pt_dst tuple;
         hash = foldl marlin_entropy_mix 0 [s0, s1, s2, s3];
         hash = foldl marlin_entropy_mix hash [d0, d1, d2, d3];
         hash = marlin_entropy_mix hash (push_bit 16 (ucast (pt_sport tuple)) OR ucast (pt_dport tuple));
         hash = marlin_entropy_mix hash (ucast (pt_proto tuple));
         hash = hash XOR drop_bit 16 hash;
         hash = hash * 0x85ebca6b;
         hash = hash XOR drop_bit 13 hash;
         hash = hash * 0xc2b2ae35;
         hash = hash XOR drop_bit 16 hash
     in bswap16 (ucast (MARLIN_ENTROPY_SPORT_MIN + hash mod MARLIN_ENTROPY_SPORT_RANGE)))"

section \<open>SipHash-2-4, as its authors define it\<close>

text \<open>The message is padded with zero bytes and one byte holding its length modulo 256 to a whole
  number of 64-bit words; each word goes through two rounds, and four rounds end the computation.\<close>

fun sip_round_ref :: "sip \<Rightarrow> sip" where
  "sip_round_ref (v0, v1, v2, v3) =
    (let v0 = v0 + v1; v2 = v2 + v3;
         v1 = word_rotl 13 v1; v3 = word_rotl 16 v3;
         v1 = v1 XOR v0; v3 = v3 XOR v2;
         v0 = word_rotl 32 v0;
         v2 = v2 + v1; v0 = v0 + v3;
         v1 = word_rotl 17 v1; v3 = word_rotl 21 v3;
         v1 = v1 XOR v2; v3 = v3 XOR v0;
         v2 = word_rotl 32 v2
     in (v0, v1, v2, v3))"

definition sip_pad :: "bytes \<Rightarrow> bytes" where
  "sip_pad msg = msg @ replicate (7 - length msg mod 8) 0 @ [of_nat (length msg)]"

fun words64 :: "bytes \<Rightarrow> u64 list" where
  "words64 (a # b # c # d # e # f # g # h # bs) = le_val [a, b, c, d, e, f, g, h] # words64 bs"
| "words64 _ = []"

fun sip_compress_ref :: "u64 \<Rightarrow> sip \<Rightarrow> sip" where
  "sip_compress_ref w (v0, v1, v2, v3) =
    (let (v0, v1, v2, v3) = (sip_round_ref ^^ 2) (v0, v1, v2, v3 XOR w) in (v0 XOR w, v1, v2, v3))"

definition siphash24 :: "bytes \<Rightarrow> bytes \<Rightarrow> u64" where
  "siphash24 key msg =
    (let k0 = le_val (take 8 key);
         k1 = le_val (take 8 (drop 8 key));
         v = fold sip_compress_ref (words64 (sip_pad msg))
               (k0 XOR 0x736f6d6570736575, k1 XOR 0x646f72616e646f6d, k0 XOR 0x6c7967656e657261, k1 XOR 0x7465646279746573);
         (v0, v1, v2, v3) = v;
         (v0, v1, v2, v3) = (sip_round_ref ^^ 4) (v0, v1, v2 XOR 0xff, v3)
     in v0 XOR v1 XOR v2 XOR v3)"

section \<open>Both copies compute it\<close>

lemma SIP_ROTL_word_rotl:
  assumes "0 < b" "b < 64"
  shows "MARLIN_SIP_ROTL x b = word_rotl b x"
proof (rule bit_word_eqI)
  fix n
  assume n: "n < LENGTH(64)"
  have "(n + (64 - b mod 64)) mod 64 = (if b \<le> n then n - b else n + (64 - b))"
    using assms n by (auto simp: mod_if)
  then have "bit (word_rotl b x) n = bit x (if b \<le> n then n - b else n + (64 - b))"
    using n by (simp only: bit_word_rotl_iff) simp
  moreover have "bit (MARLIN_SIP_ROTL x b) n = (b \<le> n \<and> bit x (n - b) \<or> bit x (n + (64 - b)))"
    using n by (simp add: MARLIN_SIP_ROTL_def bit_simps add.commute)
  moreover have "\<not> bit x (n + (64 - b))" if "b \<le> n"
    using that assms bit_imp_le_length [of x "n + (64 - b)"] by auto
  ultimately show "bit (MARLIN_SIP_ROTL x b) n = bit (word_rotl b x) n"
    by auto
qed

lemma ROTL_word_rotl: "0 < b \<Longrightarrow> b < 64 \<Longrightarrow> ROTL x b = word_rotl b x"
  using SIP_ROTL_word_rotl by (simp add: ROTL_def MARLIN_SIP_ROTL_def)

lemma SIPROUND_ref: "MARLIN_SIPROUND v = sip_round_ref v"
  by (cases v) (simp add: SIP_ROTL_word_rotl Let_def)

lemma siphash_round_ref: "siphash_round v = sip_round_ref v"
  by (cases v) (simp add: ROTL_word_rotl Let_def)

declare MARLIN_SIPROUND.simps [simp del] siphash_round.simps [simp del] sip_round_ref.simps [simp del]

lemma sip_absorb_ref: "sip_absorb w v = sip_compress_ref w v"
  by (cases v) (simp add: SIPROUND_ref numeral_2_eq_2 Let_def)

lemma sip_finish_ref:
  "sip_finish v = (let (v0, v1, v2, v3) = v; (v0, v1, v2, v3) = (sip_round_ref ^^ 4) (v0, v1, v2 XOR 0xff, v3)
     in v0 XOR v1 XOR v2 XOR v3)"
  by (cases v) (simp add: SIPROUND_ref eval_nat_numeral)

lemma siphash_le64_val: "i + 8 \<le> length buf \<Longrightarrow> marlin_siphash_le64 buf i = le_val (take 8 (drop i buf))"
proof -
  assume "i + 8 \<le> length buf"
  then have "take 8 (drop i buf) = map (\<lambda>k. buf ! (i + k)) [0..<8]"
    by (intro nth_equalityI) simp_all
  then show ?thesis
    by (simp add: upt_rec marlin_siphash_le64_def push_bit_or push_bit_push_bit or.assoc eval_nat_numeral)
qed

lemma le64_eq: "le64 = marlin_siphash_le64"
  by (intro ext) (simp add: le64_def marlin_siphash_le64_def)

lemma words64_append: "length a = 8 * n \<Longrightarrow> words64 (a @ b) = words64 a @ words64 b"
proof (induction n arbitrary: a)
  case 0
  then show ?case by simp
next
  case (Suc n)
  then obtain x xs where a: "a = x @ xs" "length x = 8" "length xs = 8 * n"
    by (intro that [of "take 8 a" "drop 8 a"]) simp_all
  then obtain x0 x1 x2 x3 x4 x5 x6 x7 where "x = [x0, x1, x2, x3, x4, x5, x6, x7]"
    by (auto simp: numeral_eq_Suc length_Suc_conv)
  with a Suc.IH [of xs] show ?case by simp
qed

lemma words64_cons: "length x = 8 \<Longrightarrow> words64 (x @ xs) = le_val x # words64 xs"
proof -
  assume "length x = 8"
  then obtain x0 x1 x2 x3 x4 x5 x6 x7 where "x = [x0, x1, x2, x3, x4, x5, x6, x7]"
    by (auto simp: numeral_eq_Suc length_Suc_conv)
  then show ?thesis by simp
qed

lemma sip_loop_fold:
  assumes "length msg = 8 * n" "i \<le> n"
  shows "sip_loop msg i n v = fold sip_compress_ref (words64 (drop (8 * i) msg)) v"
  using assms
proof (induction msg i n v rule: sip_loop.induct)
  case (1 msg i n v)
  show ?case
  proof (cases "i < n")
    case True
    have "drop (8 * i) msg = take 8 (drop (8 * i) msg) @ drop (8 * (i + 1)) msg"
      using append_take_drop_id [of 8 "drop (8 * i) msg"] by (simp add: add.commute)
    moreover have "length (take 8 (drop (8 * i) msg)) = 8"
      using True 1(2) by simp
    ultimately have "words64 (drop (8 * i) msg) = le_val (take 8 (drop (8 * i) msg)) # words64 (drop (8 * (i + 1)) msg)"
      using words64_cons by metis
    moreover have "marlin_siphash_le64 msg (i * 8) = le_val (take 8 (drop (8 * i) msg))"
      using True 1(2) siphash_le64_val [of "i * 8" msg] by (simp add: mult.commute)
    ultimately have "words64 (drop (8 * i) msg) = marlin_siphash_le64 msg (i * 8) # words64 (drop (8 * (i + 1)) msg)"
      by simp
    with True 1 show ?thesis by (subst sip_loop.simps) (simp add: sip_absorb_ref)
  next
    case False
    with 1 show ?thesis by (subst sip_loop.simps) simp
  qed
qed

lemma marlind_loop_eq: "marlind_siphash_loop msg i n v = sip_loop msg i n v"
proof (induction msg i n v rule: sip_loop.induct)
  case (1 msg i n v)
  have "sip_absorb w v = (let (v0, v1, v2, v3) = v; (v0, v1, v2, v3) = siphash_round (siphash_round (v0, v1, v2, v3 XOR w))
      in (v0 XOR w, v1, v2, v3))" for w
    by (cases v) (simp add: SIPROUND_ref siphash_round_ref)
  with 1 show ?case
    by (subst sip_loop.simps, subst marlind_siphash_loop.simps) (auto simp: le64_eq Let_def split: prod.splits)
qed

lemma sip_pad_words:
  assumes "length msg = 8 * n"
  shows "words64 (sip_pad msg) = words64 msg @ [push_bit 56 (of_nat (length msg))]"
proof -
  have "words64 (replicate 7 0 @ [of_nat (length msg)]) = [push_bit 56 (ucast (of_nat (length msg) :: u8))]"
    by (simp add: numeral_eq_Suc push_bit_push_bit)
  moreover have "push_bit 56 (ucast (of_nat (length msg) :: u8)) = (push_bit 56 (of_nat (length msg)) :: u64)"
    by (rule bit_word_eqI) (auto simp: bit_simps bit_unsigned_iff bit_of_nat_iff)
  ultimately show ?thesis
    using assms by (simp add: sip_pad_def words64_append)
qed

lemma siphash_blocks_ref:
  assumes "length msg = 8 * n" "unat len = length msg"
  shows "marlin_siphash_blocks msg len key = siphash24 (le_bytes 16 key) msg"
proof -
  have tail: "(ucast len :: u64) = of_nat (length msg)"
    by (simp flip: assms(2))
  have keys: "marlin_siphash_le64 (le_bytes 16 key) 0 = le_val (take 8 (le_bytes 16 key))"
    "marlin_siphash_le64 (le_bytes 16 key) 8 = le_val (take 8 (drop 8 (le_bytes 16 key)))"
    by (simp_all add: siphash_le64_val)
  have "sip_loop msg 0 (unat len div 8) v = fold sip_compress_ref (words64 msg) v" for v
    using sip_loop_fold [OF assms(1), of 0 v] assms by simp
  then show ?thesis
    unfolding marlin_siphash_blocks_def siphash24_def keys tail Let_def sip_pad_words [OF assms(1)]
    by (simp add: sip_absorb_ref sip_finish_ref Let_def split: prod.split)
qed

lemma marlind_siphash_eq: "marlind_siphash msg len (le_bytes 16 key) = marlin_siphash_blocks msg len key"
  by (simp add: marlind_siphash_def marlin_siphash_blocks_def le64_eq marlind_loop_eq Let_def SIPROUND_ref siphash_round_ref
      del: le_bytes.simps split: prod.split)

lemma siphash_vector_0:
  "marlin_siphash_blocks [] 0 0x0f0e0d0c0b0a09080706050403020100 = 0x726fdb47dd0e0e31"
  by code_simp

lemma siphash_vector_8:
  "marlin_siphash_blocks [0, 1, 2, 3, 4, 5, 6, 7] 8 0x0f0e0d0c0b0a09080706050403020100 = 0x93f5f5799a932462"
  by code_simp

section \<open>Properties\<close>

text \<open>C35: Both SipHash implementations, the data plane's and the daemon's, compute SipHash-2-4 as its
  authors define it, for every key and every message whose length is a multiple of eight and fits
  the 32-bit length argument; so the two never disagree.\<close>

theorem siphash_copies_agree:
  assumes "8 dvd length msg" "length msg < 2 ^ 32"
  shows "marlin_siphash_blocks msg (of_nat (length msg)) key = siphash24 (le_bytes 16 key) msg \<and>
    marlind_siphash msg (of_nat (length msg)) (le_bytes 16 key) = siphash24 (le_bytes 16 key) msg"
proof -
  from assms(1) obtain n where "length msg = 8 * n" by blast
  moreover have "unat (of_nat (length msg) :: u32) = length msg"
    using assms(2) by (simp add: unat_of_nat)
  ultimately show ?thesis
    using siphash_blocks_ref [of msg n "of_nat (length msg)" key] marlind_siphash_eq by simp
qed

theorem siphash_copies_agree_witness:
  "siphash24 (le_bytes 16 (0x0f0e0d0c0b0a09080706050403020100 :: key128)) [0, 1, 2, 3, 4, 5, 6, 7] = 0x93f5f5799a932462 \<and>
   marlind_siphash [0, 1, 2, 3, 4, 5, 6, 7] 8 (le_bytes 16 (0x0f0e0d0c0b0a09080706050403020100 :: key128)) = 0x93f5f5799a932462"
proof -
  let ?k = "0x0f0e0d0c0b0a09080706050403020100 :: key128"
  have len8: "length [0 :: u8, 1, 2, 3, 4, 5, 6, 7] = 8" by simp
  have "marlin_siphash_blocks [0, 1, 2, 3, 4, 5, 6, 7] 8 ?k = siphash24 (le_bytes 16 ?k) [0, 1, 2, 3, 4, 5, 6, 7] \<and>
    marlind_siphash [0, 1, 2, 3, 4, 5, 6, 7] 8 (le_bytes 16 ?k) = siphash24 (le_bytes 16 ?k) [0, 1, 2, 3, 4, 5, 6, 7]"
    using siphash_copies_agree [of "[0, 1, 2, 3, 4, 5, 6, 7]" ?k, unfolded len8] by simp
  then show ?thesis using siphash_vector_8 by simp
qed

text \<open>The implementation reproduces the published test vectors for the key 00 01 .. 0f: the empty
  message and the eight-byte message 00 01 .. 07.\<close>

theorem siphash_published_vectors:
  "marlin_siphash_blocks [] 0 0x0f0e0d0c0b0a09080706050403020100 = 0x726fdb47dd0e0e31 \<and>
   marlin_siphash_blocks [0, 1, 2, 3, 4, 5, 6, 7] 8 0x0f0e0d0c0b0a09080706050403020100 = 0x93f5f5799a932462"
  using siphash_vector_0 siphash_vector_8 by (rule conjI)

text \<open>The outer UDP source port always lies in the ephemeral range 49152..65535, and depends on the
  flow's addresses, ports and protocol only: not on the padding or the family byte of the tuple.\<close>

theorem marlin_entropy_sport_range:
  "49152 \<le> unat (bswap16 (marlin_entropy_sport t)) \<and>
   marlin_entropy_sport (t\<lparr>pt_pad := pad, pt_family := fam\<rparr>) = marlin_entropy_sport t"
proof -
  have range: "49152 \<le> unat (ucast (MARLIN_ENTROPY_SPORT_MIN + h mod MARLIN_ENTROPY_SPORT_RANGE) :: u16)" for h
  proof -
    have lt: "unat (h mod 16384) < 16384" by (simp add: unat_mod)
    then have "unat (49152 + h mod 16384) = 49152 + unat (h mod 16384)"
      by (subst unat_add_nowrap) simp_all
    with lt show ?thesis by (simp add: unsigned_ucast_eq take_bit_nat_eq_self)
  qed
  show ?thesis
    using range by (simp add: marlin_entropy_sport_def Let_def split: prod.split)
qed

end
