(* ===== verification/Marlin_Parser.thy ===== *)
theory Marlin_Parser
  imports Marlin_Kernel
begin

text \<open>
  The parser of \<^verbatim>\<open>parser.c\<close>: Ethernet, IPv4 and IPv6 with the walk over extension headers,
  fragments, ports, the QUIC header form, and the header quoted by an ICMP error.

  A pointer \<^verbatim>\<open>data + off\<close> is the offset \<open>off\<close> into the frame and the test
  \<^verbatim>\<open>(ptr + 1) > data_end\<close> compares offsets with its length. Every load is a checked one. A
  parameter the code writes through is returned.
\<close>

section \<open>Definitions\<close>

record marlin_l3 =
  l3_src :: quad
  l3_dst :: quad
  l3_l4_off :: u32
  l3_flags :: u32
  l3_proto :: u8
  l3_frag_ext :: u8

definition zero_l3 :: marlin_l3 where
  "zero_l3 = \<lparr>l3_src = (0, 0, 0, 0), l3_dst = (0, 0, 0, 0), l3_l4_off = 0, l3_flags = 0,
     l3_proto = 0, l3_frag_ext = 0\<rparr>"

definition MARLIN_L3_OFF_ETH :: u16 where [simp]: "MARLIN_L3_OFF_ETH = 14"
definition MARLIN_ICMP_EMB_EXT_HDRS :: nat where [simp]: "MARLIN_ICMP_EMB_EXT_HDRS = 2"

text \<open>\<^verbatim>\<open>NULL\<close> where the frame is too short; otherwise the header starts the frame.\<close>

definition marlin_parse_eth :: "bytes \<Rightarrow> nat option" where
  "marlin_parse_eth f = (if length f < ETH_HLEN then None else Some 0)"

definition marlin_parse_frag4 :: "u16 \<Rightarrow> u32" where
  "marlin_parse_frag4 frag_off =
     (if frag_off AND bswap16 IP_OFFSET \<noteq> 0 then MARLIN_CTX_F_FRAG
      else if frag_off AND bswap16 IP_MF \<noteq> 0 then MARLIN_CTX_F_FRAG_FIRST
      else 0)"

definition marlin_parse_frag6 :: "u16 \<Rightarrow> u32" where
  "marlin_parse_frag6 frag_off =
     (if frag_off AND bswap16 IP6_OFFSET \<noteq> 0 then MARLIN_CTX_F_FRAG
      else if frag_off AND bswap16 IP6_MF \<noteq> 0 then MARLIN_CTX_F_FRAG_FIRST
      else 0)"

definition marlin_is_ext6 :: "u8 \<Rightarrow> bool" where
  "marlin_is_ext6 nexthdr \<longleftrightarrow>
     nexthdr = IPPROTO_HOPOPTS \<or> nexthdr = IPPROTO_ROUTING \<or> nexthdr = IPPROTO_DSTOPTS \<or> nexthdr = IPPROTO_FRAGMENT"

definition marlin_proto_unsupported :: "u8 \<Rightarrow> bool" where
  "marlin_proto_unsupported proto \<longleftrightarrow> proto = IPPROTO_ESP \<or> proto = IPPROTO_AH"

definition marlin_proto_has_ports :: "u8 \<Rightarrow> bool" where
  "marlin_proto_has_ports proto \<longleftrightarrow> proto = IPPROTO_TCP \<or> proto = IPPROTO_UDP \<or> proto = IPPROTO_SCTP"

text \<open>The length in bytes an extension header announces.\<close>

definition ext6_hdr_len :: "u8 \<Rightarrow> u32" where
  "ext6_hdr_len hdrlen = (ucast hdrlen + 1) * 8"

text \<open>
  One iteration of the loop: \<open>Inl\<close> a value the function returns, or \<open>Inr\<close> the offset, next-header
  value and output the following iteration starts with. Then the loop itself.
\<close>

definition marlin_walk_ext6_step ::
  "nat \<Rightarrow> bytes \<Rightarrow> u32 \<Rightarrow> u8 \<Rightarrow> nat \<Rightarrow> marlin_l3 \<Rightarrow> (marlin_ret \<times> marlin_l3 + u32 \<times> u8 \<times> marlin_l3) option" where
  "marlin_walk_ext6_step i f off nexthdr max_hdrs out =
    (if marlin_proto_unsupported nexthdr then Some (Inl (MARLIN_DROP_UNSUPPORTED_PROTO, out))
     else if \<not> marlin_is_ext6 nexthdr then
       Some (Inl (MARLIN_OK, out\<lparr>l3_proto := nexthdr, l3_l4_off := off\<rparr>))
     else if max_hdrs \<le> i then Some (Inl (MARLIN_DROP_EXT_HDR_LIMIT, out))
     else if length f < unat off + 2 then Some (Inl (MARLIN_DROP_PARSE_ERROR, out))
     else if nexthdr = IPPROTO_FRAGMENT then
       (if length f < unat off + 8 then Some (Inl (MARLIN_DROP_PARSE_ERROR, out))
        else do {
          fh_nexthdr \<leftarrow> rd8 (unat off) f;
          fh_frag_off \<leftarrow> rd16 (unat off + 2) f;
          let out = out\<lparr>l3_flags := l3_flags out OR marlin_parse_frag6 fh_frag_off\<rparr>;
          let out = (if l3_flags out AND MARLIN_CTX_F_FRAG_ANY \<noteq> 0 \<and> marlin_is_ext6 fh_nexthdr
                     then out\<lparr>l3_frag_ext := 1\<rparr> else out);
          if l3_flags out AND MARLIN_CTX_F_FRAG \<noteq> 0 then
            Some (Inl (MARLIN_OK, out\<lparr>l3_proto := fh_nexthdr, l3_l4_off := off + 8\<rparr>))
          else Some (Inr (off + 8, fh_nexthdr, out)) })
     else do {
       eh_nexthdr \<leftarrow> rd8 (unat off) f;
       eh_hdrlen \<leftarrow> rd8 (unat off + 1) f;
       Some (Inr (off + ext6_hdr_len eh_hdrlen, eh_nexthdr, out)) })"

function marlin_walk_ext6_loop ::
  "nat \<Rightarrow> bytes \<Rightarrow> u32 \<Rightarrow> u8 \<Rightarrow> nat \<Rightarrow> marlin_l3 \<Rightarrow> (marlin_ret \<times> marlin_l3) option" where
  "marlin_walk_ext6_loop i f off nexthdr max_hdrs out =
    (if i \<le> MAX_EXT_HDRS then do {
       r \<leftarrow> marlin_walk_ext6_step i f off nexthdr max_hdrs out;
       case r of
         Inl ret \<Rightarrow> Some ret
       | Inr (off, nexthdr, out) \<Rightarrow> marlin_walk_ext6_loop (Suc i) f off nexthdr max_hdrs out }
     else Some (MARLIN_DROP_EXT_HDR_LIMIT, out))"
  by pat_completeness auto
termination
  by (relation "measure (\<lambda>(i, _). Suc MAX_EXT_HDRS - i)") auto

declare marlin_walk_ext6_loop.simps [simp del]

definition marlin_walk_ext6 ::
  "bytes \<Rightarrow> u32 \<Rightarrow> u8 \<Rightarrow> nat \<Rightarrow> marlin_l3 \<Rightarrow> (marlin_ret \<times> marlin_l3) option" where
  "marlin_walk_ext6 f off nexthdr max_hdrs out = marlin_walk_ext6_loop 0 f off nexthdr max_hdrs out"

definition marlin_parse_l3 ::
  "bytes \<Rightarrow> u32 \<Rightarrow> u8 \<Rightarrow> nat \<Rightarrow> (marlin_ret \<times> marlin_l3) option" where
  "marlin_parse_l3 f l3_off family max_hdrs =
    (let out = zero_l3; iph = unat l3_off in
     if family = AF_INET then
       (if length f < iph + 20 then Some (MARLIN_DROP_PARSE_ERROR, out)
        else do {
          b0 \<leftarrow> rd8 iph f;
          let ihl = b0 AND 0x0f;
          if ihl < MARLIN_IPV4_IHL_MIN then Some (MARLIN_DROP_PARSE_ERROR, out)
          else do {
            let hdr_len = (ucast ihl :: u32) * 4;
            if length f < iph + unat hdr_len then Some (MARLIN_DROP_PARSE_ERROR, out)
            else do {
              saddr \<leftarrow> rd32 (iph + 12) f;
              daddr \<leftarrow> rd32 (iph + 16) f;
              protocol \<leftarrow> rd8 (iph + 9) f;
              frag_off \<leftarrow> rd16 (iph + 6) f;
              Some (MARLIN_OK, out\<lparr>l3_src := (saddr, 0, 0, 0), l3_dst := (daddr, 0, 0, 0),
                 l3_proto := protocol, l3_l4_off := l3_off + hdr_len,
                 l3_flags := marlin_parse_frag4 frag_off\<rparr>) }}})
     else if length f < iph + 40 then Some (MARLIN_DROP_PARSE_ERROR, out)
     else do {
       saddr \<leftarrow> rd_quad (iph + 8) f;
       daddr \<leftarrow> rd_quad (iph + 24) f;
       nexthdr \<leftarrow> rd8 (iph + 6) f;
       marlin_walk_ext6 f (l3_off + 40) nexthdr max_hdrs (out\<lparr>l3_src := saddr, l3_dst := daddr\<rparr>) })"

definition marlin_parse_ports ::
  "bytes \<Rightarrow> u32 \<Rightarrow> u8 \<Rightarrow> u16 \<Rightarrow> u16 \<Rightarrow> (marlin_ret \<times> u16 \<times> u16) option" where
  "marlin_parse_ports f l4_off proto sport dport =
    (if marlin_proto_unsupported proto then Some (MARLIN_DROP_UNSUPPORTED_PROTO, sport, dport)
     else if \<not> marlin_proto_has_ports proto then Some (MARLIN_PASS_NOT_FORWARDED, sport, dport)
     else if length f < unat l4_off + 4 then Some (MARLIN_DROP_PARSE_ERROR, sport, dport)
     else do {
       sport' \<leftarrow> rd16 (unat l4_off) f;
       dport' \<leftarrow> rd16 (unat l4_off + 2) f;
       Some (MARLIN_OK, sport', dport') })"

definition marlin_parse_quic :: "bytes \<Rightarrow> u32 \<Rightarrow> marlin_ctx \<Rightarrow> (u32 \<times> marlin_ctx) option" where
  "marlin_parse_quic f l4_off mctx =
    (if length f < unat l4_off + 8 then Some (0, mctx)
     else do {
       len \<leftarrow> rd16 (unat l4_off + 4) f;
       let udp_len = bswap16 len;
       if udp_len < of_nat MARLIN_UDP_HLEN then Some (0, mctx\<lparr>mc_udp_payload_len := 0\<rparr>)
       else do {
         let udp_len = udp_len - of_nat MARLIN_UDP_HLEN;
         let mctx = mctx\<lparr>mc_udp_payload_len := (if 0xff < udp_len then 0xff else ucast udp_len)\<rparr>;
         if mc_udp_payload_len mctx = 0 then Some (0, mctx)
         else if length f < unat l4_off + MARLIN_UDP_HLEN + 1 then Some (0, mctx)
         else do {
           form \<leftarrow> rd8 (unat l4_off + MARLIN_UDP_HLEN) f;
           Some (if form AND MARLIN_QUIC_LONG_HEADER = 0 then MARLIN_CTX_F_QUIC else 0, mctx) }}})"

definition marlin_proto_is_icmp :: "u8 \<Rightarrow> u8 \<Rightarrow> bool" where
  "marlin_proto_is_icmp family proto \<longleftrightarrow>
     (family = AF_INET \<and> proto = IPPROTO_ICMP) \<or> (family = AF_INET6 \<and> proto = IPPROTO_ICMPV6)"

definition marlin_icmp_is_error :: "u8 \<Rightarrow> u8 \<Rightarrow> bool" where
  "marlin_icmp_is_error family ty \<longleftrightarrow>
     (if family = AF_INET then ty = ICMP_DEST_UNREACH \<or> ty = ICMP_TIME_EXCEEDED \<or> ty = ICMP_PARAMETERPROB
      else ty = ICMPV6_DEST_UNREACH \<or> ty = ICMPV6_PKT_TOOBIG \<or> ty = ICMPV6_TIME_EXCEED \<or> ty = ICMPV6_PARAMPROB)"

definition marlin_icmp_is_echo :: "u8 \<Rightarrow> u8 \<Rightarrow> bool" where
  "marlin_icmp_is_echo family ty \<longleftrightarrow>
     (if family = AF_INET then ty = ICMP_ECHO \<or> ty = ICMP_ECHOREPLY
      else ty = ICMPV6_ECHO_REQUEST \<or> ty = ICMPV6_ECHO_REPLY)"

definition marlin_parse_icmp :: "bytes \<Rightarrow> u32 \<Rightarrow> u8 \<Rightarrow> marlin_ctx \<Rightarrow> (marlin_ret \<times> marlin_ctx) option" where
  "marlin_parse_icmp f l4_off family mctx =
    (if length f < unat l4_off + 2 then Some (MARLIN_DROP_PARSE_ERROR, mctx)
     else do {
       ty \<leftarrow> rd8 (unat l4_off) f;
       if \<not> marlin_icmp_is_error family ty then
         Some (if marlin_icmp_is_echo family ty then MARLIN_PASS_ICMP_ECHO else MARLIN_PASS_NOT_FORWARDED, mctx)
       else if length f < unat l4_off + 8 then Some (MARLIN_DROP_ICMP_UNPARSEABLE, mctx)
       else do {
         (rc, emb) \<leftarrow> marlin_parse_l3 f (l4_off + 8) family MARLIN_ICMP_EMB_EXT_HDRS;
         if rc \<noteq> MARLIN_OK then Some (MARLIN_DROP_ICMP_UNPARSEABLE, mctx)
         else if l3_flags emb AND MARLIN_CTX_F_FRAG \<noteq> 0 then Some (MARLIN_DROP_ICMP_UNPARSEABLE, mctx)
         else do {
           (rc, emb_sport, emb_dport) \<leftarrow> marlin_parse_ports f (l3_l4_off emb) (l3_proto emb) 0 0;
           if rc \<noteq> MARLIN_OK then Some (MARLIN_DROP_ICMP_UNPARSEABLE, mctx)
           else Some (MARLIN_OK, mctx\<lparr>
             mc_tuple := (mc_tuple mctx)\<lparr>pt_dst := l3_src emb, pt_src := l3_dst emb,
               pt_dport := emb_sport, pt_sport := emb_dport, pt_proto := l3_proto emb\<rparr>,
             mc_flags := mc_flags mctx OR MARLIN_CTX_F_ICMP\<rparr>) }}})"

text \<open>What \<^verbatim>\<open>marlin_parse\<close> does once the IP header is parsed into \<open>l3\<close>.\<close>

definition marlin_parse_l4 :: "bytes \<Rightarrow> u8 \<Rightarrow> marlin_l3 \<Rightarrow> marlin_ctx \<Rightarrow> (marlin_ret \<times> marlin_ctx) option" where
  "marlin_parse_l4 f family l3 mctx =
    (let mctx = mctx\<lparr>
         mc_tuple := (mc_tuple mctx)\<lparr>pt_family := family, pt_proto := l3_proto l3,
           pt_src := l3_src l3, pt_dst := l3_dst l3\<rparr>,
         mc_l3_off := MARLIN_L3_OFF_ETH, mc_l4_off := ucast (l3_l4_off l3),
         mc_flags := mc_flags mctx OR l3_flags l3\<rparr>
     in if marlin_proto_unsupported (l3_proto l3) then Some (MARLIN_DROP_UNSUPPORTED_PROTO, mctx)
     else if l3_frag_ext l3 \<noteq> 0 then Some (MARLIN_DROP_UNSUPPORTED_PROTO, mctx)
     else if mc_flags mctx AND MARLIN_CTX_F_FRAG \<noteq> 0 then
       Some (if marlin_proto_is_icmp family (l3_proto l3) then MARLIN_PASS_NOT_FORWARDED else MARLIN_OK, mctx)
     else if marlin_proto_is_icmp family (l3_proto l3) then
       marlin_parse_icmp f (l3_l4_off l3) family mctx
     else do {
       (rc, sport, dport) \<leftarrow> marlin_parse_ports f (l3_l4_off l3) (l3_proto l3)
          (pt_sport (mc_tuple mctx)) (pt_dport (mc_tuple mctx));
       let mctx = mctx\<lparr>mc_tuple := (mc_tuple mctx)\<lparr>pt_sport := sport, pt_dport := dport\<rparr>\<rparr>;
       if rc = MARLIN_OK \<and> l3_proto l3 = IPPROTO_UDP then do {
         (flags, mctx) \<leftarrow> marlin_parse_quic f (l3_l4_off l3) mctx;
         Some (rc, mctx\<lparr>mc_flags := mc_flags mctx OR flags\<rparr>) }
       else Some (rc, mctx) })"

definition marlin_parse_frame :: "bytes \<Rightarrow> marlin_ctx \<Rightarrow> (marlin_ret \<times> marlin_ctx) option" where
  "marlin_parse_frame f mctx =
    (let mctx = mctx\<lparr>mc_pkt_len := of_nat (length f)\<rparr> in
     case marlin_parse_eth f of
       None \<Rightarrow> Some (MARLIN_DROP_PARSE_ERROR, mctx)
     | Some eth \<Rightarrow> do {
         h_proto \<leftarrow> rd16 (eth + 12) f;
         if h_proto \<noteq> bswap16 ETH_P_IP \<and> h_proto \<noteq> bswap16 ETH_P_IPV6 then
           Some (MARLIN_PASS_NOT_FORWARDED, mctx)
         else do {
           let family = (if h_proto = bswap16 ETH_P_IP then AF_INET else AF_INET6);
           (rc, l3) \<leftarrow> marlin_parse_l3 f (ucast MARLIN_L3_OFF_ETH) family MAX_EXT_HDRS;
           if rc \<noteq> MARLIN_OK then Some (rc, mctx)
           else marlin_parse_l4 f family l3 mctx }})"

definition marlin_parse :: "xdp_md option \<Rightarrow> marlin_ctx option \<Rightarrow> (marlin_ret \<times> marlin_ctx option) option" where
  "marlin_parse ctx mctx =
    (case (ctx, mctx) of
       (Some md, Some pkt) \<Rightarrow> do { (rc, pkt) \<leftarrow> marlin_parse_frame (xdp_data md) pkt; Some (rc, Some pkt) }
     | _ \<Rightarrow> Some (MARLIN_ABORT_NULLREF, mctx))"

section \<open>Memory safety\<close>

lemma safe_walk_ext6_step [safe_intros]: "safe (marlin_walk_ext6_step i f off nexthdr max_hdrs out)"
  by (auto simp: marlin_walk_ext6_step_def mem_simps Let_def)

lemma safe_walk_ext6_loop [safe_intros]: "safe (marlin_walk_ext6_loop i f off nexthdr max_hdrs out)"
proof (induction i f off nexthdr max_hdrs out rule: marlin_walk_ext6_loop.induct)
  case (1 i f off nexthdr max_hdrs out)
  then show ?case
    by (subst marlin_walk_ext6_loop.simps) (auto intro!: safe_bind safe_intros split: sum.split)
qed

lemma safe_parse_l3 [safe_intros]: "safe (marlin_parse_l3 f l3_off family max_hdrs)"
proof -
  have "safe (rd_quad (n + 8) f)" "safe (rd_quad (n + 24) f)" if "n + 40 \<le> length f" for n
    using that rd_quad_defined [of "n + 8" f] rd_quad_defined [of "n + 24" f] by (auto simp: safe_iff)
  then show ?thesis
    by (auto simp: marlin_parse_l3_def marlin_walk_ext6_def Let_def mem_simps
        intro!: safe_bind safe_walk_ext6_loop)
qed

lemma safe_parse_ports [safe_intros]: "safe (marlin_parse_ports f l4_off proto sport dport)"
  by (auto simp: marlin_parse_ports_def mem_simps)

lemma safe_parse_quic [safe_intros]: "safe (marlin_parse_quic f l4_off mctx)"
  by (auto simp: marlin_parse_quic_def mem_simps Let_def)

lemma safe_parse_icmp [safe_intros]: "safe (marlin_parse_icmp f l4_off family mctx)"
  by (auto simp: marlin_parse_icmp_def mem_simps intro!: safe_bind safe_intros)

lemma safe_parse_l4 [safe_intros]: "safe (marlin_parse_l4 f family l3 mctx)"
  by (auto simp: marlin_parse_l4_def Let_def intro!: safe_bind safe_intros)

lemma safe_parse_frame [safe_intros]: "safe (marlin_parse_frame f mctx)"
  by (auto simp: marlin_parse_frame_def marlin_parse_eth_def mem_simps Let_def intro!: safe_bind safe_intros)

section \<open>The extension-header walk\<close>

lemma unat_ext6_hdr_len: "unat (ext6_hdr_len h) = (unat h + 1) * 8"
proof -
  have "unat (ucast h + 1 :: u32) = unat h + 1"
    using unat_u8_le [of h] by (subst unat_add_nowrap) (simp_all add: unat_ucast_up_le)
  then show ?thesis
    using unat_u8_le [of h] unfolding ext6_hdr_len_def by (subst unat_mult_nowrap) simp_all
qed

text \<open>What holds at the head of the loop about a fragment header already passed: it ended where
  the walk stands now and announced the header the walk looks at.\<close>

definition frag_inv :: "bytes \<Rightarrow> u32 \<Rightarrow> u8 \<Rightarrow> marlin_l3 \<Rightarrow> bool" where
  "frag_inv f off nexthdr out \<longleftrightarrow>
     (l3_flags out AND MARLIN_CTX_F_FRAG_ANY \<noteq> 0 \<and> l3_frag_ext out = 0 \<longrightarrow>
        8 \<le> unat off \<and> unat off \<le> length f \<and> f ! (unat off - 8) = nexthdr \<and> \<not> marlin_is_ext6 nexthdr)"

lemma walk_ext6_step_Inr:
  assumes "marlin_walk_ext6_step i f off nexthdr max_hdrs out = Some (Inr (off', nexthdr', out'))"
    and "unat off + 2048 < 2 ^ 32"
  shows "i < max_hdrs \<and> marlin_is_ext6 nexthdr \<and> unat off < unat off' \<and> unat off' \<le> unat off + 2048 \<and>
    l3_src out' = l3_src out \<and> l3_dst out' = l3_dst out \<and> (frag_inv f off nexthdr out \<longrightarrow> frag_inv f off' nexthdr' out')"
proof -
  have len: "0 < unat (ext6_hdr_len h)" "unat (ext6_hdr_len h) \<le> 2048" for h
    using unat_u8_le [of h] by (simp_all add: unat_ext6_hdr_len)
  have adv: "unat (off + x) = unat off + unat x" if "unat x \<le> 2048" for x
    using that assms(2) by (simp add: unat_add_nowrap)
  from assms(1) show ?thesis
    by (auto simp: marlin_walk_ext6_step_def mem_simps Let_def adv len frag_inv_def marlin_is_ext6_def
        split: if_splits)
qed

lemma walk_ext6_step_Inl:
  assumes "marlin_walk_ext6_step i f off nexthdr max_hdrs out = Some (Inl (MARLIN_OK, out'))"
    and "unat off + 2048 < 2 ^ 32"
  shows "unat off \<le> unat (l3_l4_off out') \<and> unat (l3_l4_off out') \<le> unat off + 8 \<and>
    (i < max_hdrs \<or> l3_l4_off out' = off) \<and>
    l3_src out' = l3_src out \<and> l3_dst out' = l3_dst out \<and>
    (frag_inv f off nexthdr out \<longrightarrow> l3_flags out' AND MARLIN_CTX_F_FRAG_ANY \<noteq> 0 \<longrightarrow> l3_frag_ext out' = 0 \<longrightarrow>
       8 \<le> unat (l3_l4_off out') \<and> unat (l3_l4_off out') \<le> length f \<and>
       f ! (unat (l3_l4_off out') - 8) = l3_proto out')"
proof -
  have adv: "unat (off + 8) = unat off + 8"
    using assms(2) by (simp add: unat_add_nowrap)
  from assms(1) show ?thesis
    by (auto simp: marlin_walk_ext6_step_def mem_simps Let_def adv frag_inv_def split: if_splits)
qed

lemma walk_ext6_loop_OK:
  assumes "marlin_walk_ext6_loop i f off nexthdr max_hdrs out = Some (MARLIN_OK, out')"
    and "unat off + 2048 * (max_hdrs - i) + 2048 < 2 ^ 32"
  shows "unat off \<le> unat (l3_l4_off out') \<and> unat (l3_l4_off out') \<le> unat off + 2048 * (max_hdrs - i) \<and>
    l3_src out' = l3_src out \<and> l3_dst out' = l3_dst out \<and>
    (frag_inv f off nexthdr out \<longrightarrow> l3_flags out' AND MARLIN_CTX_F_FRAG_ANY \<noteq> 0 \<longrightarrow> l3_frag_ext out' = 0 \<longrightarrow>
       8 \<le> unat (l3_l4_off out') \<and> unat (l3_l4_off out') \<le> length f \<and>
       f ! (unat (l3_l4_off out') - 8) = l3_proto out')"
  using assms
proof (induction i f off nexthdr max_hdrs out rule: marlin_walk_ext6_loop.induct)
  case (1 i f off nexthdr max_hdrs out)
  then have small: "unat off + 2048 < 2 ^ 32" by simp
  from "1.prems"(1) obtain r where r: "marlin_walk_ext6_step i f off nexthdr max_hdrs out = Some r"
    and i: "i \<le> MAX_EXT_HDRS"
    by (subst (asm) marlin_walk_ext6_loop.simps) (auto split: if_splits bind_splits)
  show ?case
  proof (cases r)
    case (Inl ret)
    with r i "1.prems"(1) have "marlin_walk_ext6_step i f off nexthdr max_hdrs out = Some (Inl (MARLIN_OK, out'))"
      by (subst (asm) marlin_walk_ext6_loop.simps) simp
    from walk_ext6_step_Inl [OF this small] show ?thesis by auto
  next
    case (Inr s)
    obtain off2 nh2 out2 where s: "s = (off2, nh2, out2)" by (cases s)
    with Inr r have step: "marlin_walk_ext6_step i f off nexthdr max_hdrs out = Some (Inr (off2, nh2, out2))" by simp
    note facts = walk_ext6_step_Inr [OF step small]
    have "marlin_walk_ext6_loop (Suc i) f off2 nh2 max_hdrs out2 = Some (MARLIN_OK, out')"
      using "1.prems"(1) r i Inr s by (subst (asm) marlin_walk_ext6_loop.simps) simp
    moreover have "2048 * (max_hdrs - i) = 2048 + 2048 * (max_hdrs - Suc i)"
      using facts by (simp add: Suc_diff_Suc flip: mult_Suc_right)
    ultimately show ?thesis
      using "1.IH" [OF i r Inr s [symmetric] refl] facts "1.prems"(2) by auto
  qed
qed

text \<open>Both callers start the walk far below the point where the offset could wrap.\<close>

lemma parse_l3_OK:
  assumes "marlin_parse_l3 f l3_off family max_hdrs = Some (MARLIN_OK, l3)"
    and "unat l3_off + 2048 * max_hdrs + 4096 < 2 ^ 32"
  shows "unat l3_off + 20 \<le> unat (l3_l4_off l3)"
    and "unat (l3_l4_off l3) \<le> unat l3_off + 2048 * max_hdrs + 60"
    and "family = AF_INET \<Longrightarrow> unat (l3_l4_off l3) \<le> length f"
    and "family \<noteq> AF_INET \<Longrightarrow> l3_flags l3 AND MARLIN_CTX_F_FRAG_ANY \<noteq> 0 \<Longrightarrow> l3_frag_ext l3 = 0 \<Longrightarrow>
       8 \<le> unat (l3_l4_off l3) \<and> unat (l3_l4_off l3) \<le> length f \<and>
       f ! (unat (l3_l4_off l3) - 8) = l3_proto l3"
proof -
  have v4: "unat l3_off + 20 \<le> unat (l3_l4_off l3) \<and> unat (l3_l4_off l3) \<le> unat l3_off + 60 \<and>
      unat (l3_l4_off l3) \<le> length f" if "family = AF_INET"
  proof -
    let ?ihl = "(f ! unat l3_off) AND 0x0f :: u8"
    have ihl: "\<not> ?ihl < 5" "unat (ucast ?ihl * 4 :: u32) + unat l3_off \<le> length f"
        "l3_l4_off l3 = l3_off + ucast ?ihl * 4"
      using assms(1) that by (auto simp: marlin_parse_l3_def Let_def mem_simps split: if_splits)
    have small: "unat ?ihl \<le> 15"
      using word_and_le1 [of "f ! unat l3_off" "0x0f"] by (simp add: word_le_nat_alt)
    then have len: "unat (ucast ?ihl * 4 :: u32) = unat ?ihl * 4"
      by (subst unat_mult_nowrap) (simp_all add: unat_ucast_up_le)
    have "unat (l3_l4_off l3) = unat l3_off + unat ?ihl * 4"
      using len small assms(2) by (subst ihl(3), subst unat_add_nowrap) simp_all
    with ihl(1,2) small len show ?thesis by (simp add: word_less_nat_alt)
  qed
  have v6: "unat l3_off + 40 \<le> unat (l3_l4_off l3) \<and> unat (l3_l4_off l3) \<le> unat l3_off + 2048 * max_hdrs + 60 \<and>
      (l3_flags l3 AND MARLIN_CTX_F_FRAG_ANY \<noteq> 0 \<longrightarrow> l3_frag_ext l3 = 0 \<longrightarrow>
         8 \<le> unat (l3_l4_off l3) \<and> unat (l3_l4_off l3) \<le> length f \<and> f ! (unat (l3_l4_off l3) - 8) = l3_proto l3)"
    if fam: "family \<noteq> AF_INET"
  proof -
    obtain nh sa da where walk: "marlin_walk_ext6_loop 0 f (l3_off + 40) nh max_hdrs
        (zero_l3\<lparr>l3_src := sa, l3_dst := da\<rparr>) = Some (MARLIN_OK, l3)"
      using assms(1) fam
      by (auto simp: marlin_parse_l3_def marlin_walk_ext6_def Let_def split: if_splits bind_splits)
    have off: "unat (l3_off + 40) = unat l3_off + 40"
      using assms(2) by (subst unat_add_nowrap) simp_all
    have "frag_inv f (l3_off + 40) nh (zero_l3\<lparr>l3_src := sa, l3_dst := da\<rparr>)"
      by (simp add: frag_inv_def zero_l3_def)
    with walk_ext6_loop_OK [OF walk] off assms(2) show ?thesis by auto
  qed
  show "unat l3_off + 20 \<le> unat (l3_l4_off l3)" using v4 v6 by (cases "family = AF_INET") auto
  show "unat (l3_l4_off l3) \<le> unat l3_off + 2048 * max_hdrs + 60" using v4 v6 by (cases "family = AF_INET") auto
  show "family = AF_INET \<Longrightarrow> unat (l3_l4_off l3) \<le> length f" using v4 by simp
  show "family \<noteq> AF_INET \<Longrightarrow> l3_flags l3 AND MARLIN_CTX_F_FRAG_ANY \<noteq> 0 \<Longrightarrow> l3_frag_ext l3 = 0 \<Longrightarrow>
      8 \<le> unat (l3_l4_off l3) \<and> unat (l3_l4_off l3) \<le> length f \<and> f ! (unat (l3_l4_off l3) - 8) = l3_proto l3"
    using v6 by blast
qed

section \<open>Inversion of a successful parse\<close>

lemma parse_frame_OKE:
  assumes "marlin_parse_frame f mctx = Some (MARLIN_OK, p)"
  obtains family l3 where
    "family = AF_INET \<or> family = AF_INET6"
    "marlin_parse_l3 f 14 family MAX_EXT_HDRS = Some (MARLIN_OK, l3)"
    "marlin_parse_l4 f family l3 (mctx\<lparr>mc_pkt_len := of_nat (length f)\<rparr>) = Some (MARLIN_OK, p)"
proof -
  from assms obtain h where h: "rd16 12 f = Some h"
    and cont: "do { (rc, l3) \<leftarrow> marlin_parse_l3 f 14 (if h = bswap16 ETH_P_IP then AF_INET else AF_INET6) MAX_EXT_HDRS;
      if rc \<noteq> MARLIN_OK then Some (rc, mctx\<lparr>mc_pkt_len := of_nat (length f)\<rparr>)
      else marlin_parse_l4 f (if h = bswap16 ETH_P_IP then AF_INET else AF_INET6) l3
             (mctx\<lparr>mc_pkt_len := of_nat (length f)\<rparr>) } = Some (MARLIN_OK, p)"
    by (auto simp: marlin_parse_frame_def marlin_parse_eth_def Let_def simp del: AF_INET_def AF_INET6_def MAX_EXT_HDRS_def
        split: if_splits bind_splits)
  obtain rc l3 where l3: "marlin_parse_l3 f 14 (if h = bswap16 ETH_P_IP then AF_INET else AF_INET6) MAX_EXT_HDRS = Some (rc, l3)"
    using safe_parse_l3 unfolding safe_iff by (metis surj_pair)
  with cont show thesis
    by (intro that [of "if h = bswap16 ETH_P_IP then AF_INET else AF_INET6" l3])
      (auto simp del: MAX_EXT_HDRS_def split: if_splits)
qed

lemma parse_ports_OK:
  assumes "marlin_parse_ports f off proto sp dp = Some (MARLIN_OK, sport, dport)"
  shows "marlin_proto_has_ports proto \<and> unat off + 4 \<le> length f \<and>
    rd16 (unat off) f = Some sport \<and> rd16 (unat off + 2) f = Some dport"
  using assms by (auto simp: marlin_parse_ports_def mem_simps split: if_splits)

lemma parse_quic_sel:
  assumes "marlin_parse_quic f off m = Some (flags, m')"
  shows "m' = m\<lparr>mc_udp_payload_len := mc_udp_payload_len m'\<rparr>" "flags = 0 \<or> flags = MARLIN_CTX_F_QUIC"
  using assms by (auto simp: marlin_parse_quic_def Let_def mem_simps split: if_splits)

lemma parse_icmp_OK:
  assumes "marlin_parse_icmp f off family m = Some (MARLIN_OK, p)"
  obtains emb sp dp where
    "marlin_parse_l3 f (off + 8) family MARLIN_ICMP_EMB_EXT_HDRS = Some (MARLIN_OK, emb)"
    "marlin_parse_ports f (l3_l4_off emb) (l3_proto emb) 0 0 = Some (MARLIN_OK, sp, dp)"
    "l3_flags emb AND MARLIN_CTX_F_FRAG = 0"
    "p = m\<lparr>mc_tuple := (mc_tuple m)\<lparr>pt_dst := l3_src emb, pt_src := l3_dst emb,
               pt_dport := sp, pt_sport := dp, pt_proto := l3_proto emb\<rparr>,
           mc_flags := mc_flags m OR MARLIN_CTX_F_ICMP\<rparr>"
  using assms by (auto simp: marlin_parse_icmp_def split: if_splits bind_splits)

text \<open>The three ways the part after the IP header succeeds.\<close>

lemma parse_l4_OK_cases:
  assumes "marlin_parse_l4 f family l3 m = Some (MARLIN_OK, p)"
  defines "m1 \<equiv> m\<lparr>mc_tuple := (mc_tuple m)\<lparr>pt_family := family, pt_proto := l3_proto l3,
           pt_src := l3_src l3, pt_dst := l3_dst l3\<rparr>,
         mc_l3_off := MARLIN_L3_OFF_ETH, mc_l4_off := ucast (l3_l4_off l3),
         mc_flags := mc_flags m OR l3_flags l3\<rparr>"
  obtains
    (tail) "l3_frag_ext l3 = 0" "mc_flags m1 AND MARLIN_CTX_F_FRAG \<noteq> 0"
      "\<not> marlin_proto_is_icmp family (l3_proto l3)" "p = m1"
  | (icmp) "l3_frag_ext l3 = 0" "mc_flags m1 AND MARLIN_CTX_F_FRAG = 0"
      "marlin_proto_is_icmp family (l3_proto l3)"
      "marlin_parse_icmp f (l3_l4_off l3) family m1 = Some (MARLIN_OK, p)"
  | (ports) sport dport flags plen where "l3_frag_ext l3 = 0" "mc_flags m1 AND MARLIN_CTX_F_FRAG = 0"
      "\<not> marlin_proto_is_icmp family (l3_proto l3)"
      "marlin_parse_ports f (l3_l4_off l3) (l3_proto l3) (pt_sport (mc_tuple m)) (pt_dport (mc_tuple m)) =
         Some (MARLIN_OK, sport, dport)"
      "flags = 0 \<or> flags = MARLIN_CTX_F_QUIC"
      "p = m1\<lparr>mc_tuple := (mc_tuple m1)\<lparr>pt_sport := sport, pt_dport := dport\<rparr>,
              mc_flags := mc_flags m1 OR flags, mc_udp_payload_len := plen\<rparr>"
proof -
  have frag: "l3_frag_ext l3 = 0"
    using assms(1) by (auto simp: marlin_parse_l4_def Let_def split: if_splits)
  consider "mc_flags m1 AND MARLIN_CTX_F_FRAG \<noteq> 0"
    | "mc_flags m1 AND MARLIN_CTX_F_FRAG = 0" "marlin_proto_is_icmp family (l3_proto l3)"
    | "mc_flags m1 AND MARLIN_CTX_F_FRAG = 0" "\<not> marlin_proto_is_icmp family (l3_proto l3)" by blast
  then show thesis
  proof cases
    case 1
    with assms(1) show thesis
      by (intro tail frag 1) (auto simp: marlin_parse_l4_def m1_def Let_def split: if_splits)
  next
    case 2
    with assms(1) show thesis
      by (intro icmp frag 2) (auto simp: marlin_parse_l4_def m1_def Let_def split: if_splits)
  next
    case 3
    then obtain sport dport rc where
      pp: "marlin_parse_ports f (l3_l4_off l3) (l3_proto l3) (pt_sport (mc_tuple m)) (pt_dport (mc_tuple m)) =
         Some (rc, sport, dport)"
      using safe_parse_ports unfolding safe_iff by (metis surj_pair)
    let ?m2 = "m1\<lparr>mc_tuple := (mc_tuple m1)\<lparr>pt_sport := sport, pt_dport := dport\<rparr>\<rparr>"
    have fin: "(if rc = MARLIN_OK \<and> l3_proto l3 = IPPROTO_UDP then do {
         (flags, mctx) \<leftarrow> marlin_parse_quic f (l3_l4_off l3) ?m2;
         Some (rc, mctx\<lparr>mc_flags := mc_flags mctx OR flags\<rparr>) }
       else Some (rc, ?m2)) = Some (MARLIN_OK, p)"
      using 3 pp assms(1)
      by (auto simp: marlin_parse_l4_def m1_def Let_def simp del: IPPROTO_UDP_def split: if_splits)
    then have rc: "rc = MARLIN_OK" by (auto split: if_splits bind_splits)
    show thesis
    proof (cases "l3_proto l3 = IPPROTO_UDP")
      case False
      with fin rc have "p = ?m2" by simp
      with pp rc show thesis
        by (intro ports [of sport dport 0 "mc_udp_payload_len m1"] frag 3) simp_all
    next
      case True
      with fin rc obtain fl m3 where q: "marlin_parse_quic f (l3_l4_off l3) ?m2 = Some (fl, m3)"
        and p: "p = m3\<lparr>mc_flags := mc_flags m3 OR fl\<rparr>"
        by (auto split: bind_splits)
      from parse_quic_sel [OF q] obtain plen where m3: "m3 = ?m2\<lparr>mc_udp_payload_len := plen\<rparr>" by blast
      from parse_quic_sel(2) [OF q] p pp rc show thesis
        by (intro ports [of sport dport fl plen] frag 3) (simp_all add: m3)
    qed
  qed
qed

lemma marlin_parse_OKD:
  "marlin_parse (Some md) (Some m) = Some (MARLIN_OK, Some p) \<Longrightarrow> marlin_parse_frame (xdp_data md) m = Some (MARLIN_OK, p)"
  by (auto simp: marlin_parse_def split: bind_splits)

lemma parse_l3_v4:
  assumes "marlin_parse_l3 f off AF_INET n = Some (MARLIN_OK, l3)"
  shows "snd (l3_src l3) = (0, 0, 0) \<and> snd (l3_dst l3) = (0, 0, 0) \<and> l3_frag_ext l3 = 0"
  using assms by (auto simp: marlin_parse_l3_def Let_def zero_l3_def split: if_splits bind_splits)

lemma ucast_l4_off:
  assumes "marlin_parse_l3 f 14 family MAX_EXT_HDRS = Some (MARLIN_OK, l3)"
  shows "unat (ucast (l3_l4_off l3) :: u16) = unat (l3_l4_off l3)"
proof -
  have "unat (l3_l4_off l3) < 2 ^ 16"
    using parse_l3_OK(2) [OF assms] by simp
  then show ?thesis by (simp add: unsigned_ucast_eq take_bit_nat_eq_self)
qed

section \<open>Frames, as senders build them\<close>

text \<open>
  The wire format, written from the other side: an Ethernet frame holding an IPv4 packet with
  options, or an IPv6 packet, and the ICMP error a router sends about one. The parser is right
  when it takes such a frame apart again.
\<close>

definition eth_frame :: "bytes \<Rightarrow> u16 \<Rightarrow> bytes \<Rightarrow> bytes" where
  "eth_frame macs etype payload = macs @ rev (le_bytes 2 etype) @ payload"

definition ipv4_hdr :: "u8 \<Rightarrow> u16 \<Rightarrow> u16 \<Rightarrow> u16 \<Rightarrow> u8 \<Rightarrow> u8 \<Rightarrow> u16 \<Rightarrow> u32 \<Rightarrow> u32 \<Rightarrow> u32 list \<Rightarrow> bytes" where
  "ipv4_hdr tos tot_len ident frag ttl proto csum src dst opts =
     [0x40 OR of_nat (5 + length opts), tos] @ le_bytes 2 tot_len @ le_bytes 2 ident @ le_bytes 2 frag @
     [ttl, proto] @ le_bytes 2 csum @ le_bytes 4 src @ le_bytes 4 dst @ concat (map (le_bytes 4) opts)"

definition ipv6_hdr :: "u32 \<Rightarrow> u16 \<Rightarrow> u8 \<Rightarrow> u8 \<Rightarrow> quad \<Rightarrow> quad \<Rightarrow> bytes" where
  "ipv6_hdr flow plen proto hops src dst =
     le_bytes 4 flow @ le_bytes 2 plen @ [proto, hops] @ quad_bytes src @ quad_bytes dst"

definition ports_hdr :: "u16 \<Rightarrow> u16 \<Rightarrow> bytes" where
  "ports_hdr sport dport = le_bytes 2 sport @ le_bytes 2 dport"

lemma rd_shift [mem_simps]:
  "rd n (length a + k) (a @ f) = rd n k f"
  "rd8 (length a + k) (a @ f) = rd8 k f"
  "rd16 (length a + k) (a @ f) = rd16 k f"
  "rd32 (length a + k) (a @ f) = rd32 k f"
  by (simp_all add: rd_def rd8_def rd16_def rd32_def nth_append)

lemma rd_quad_shift [mem_simps]: "rd_quad (length a + k) (a @ f) = rd_quad k f"
  by (simp add: rd_quad_def mem_simps add.assoc)

lemma length_concat_words [simp]: "length (concat (map (le_bytes 4) (ws :: u32 list))) = 4 * length ws"
  by (induction ws) simp_all

lemma length_ipv4_hdr [simp]: "length (ipv4_hdr tos len ident frag ttl proto csum src dst opts) = 20 + 4 * length opts"
  by (simp add: ipv4_hdr_def)

lemma length_ipv6_hdr [simp]: "length (ipv6_hdr flow plen proto hops src dst) = 40"
  by (simp add: ipv6_hdr_def)

lemma ihl_nibble:
  assumes "length (opts :: u32 list) \<le> 10"
  shows "(0x40 OR of_nat (5 + length opts) :: u8) AND 0x0f = of_nat (5 + length opts)"
proof -
  have "length opts \<in> set [0..<11]" using assms by simp
  then show ?thesis by (simp add: upt_rec) (elim disjE; simp)
qed

lemma rd_ipv4_hdr:
  "rd8 0 (ipv4_hdr tos len ident frag ttl proto csum src dst opts @ r) = Some (0x40 OR of_nat (5 + length opts))"
  "rd16 6 (ipv4_hdr tos len ident frag ttl proto csum src dst opts @ r) = Some frag"
  "rd8 9 (ipv4_hdr tos len ident frag ttl proto csum src dst opts @ r) = Some proto"
  "rd32 12 (ipv4_hdr tos len ident frag ttl proto csum src dst opts @ r) = Some src"
  "rd32 16 (ipv4_hdr tos len ident frag ttl proto csum src dst opts @ r) = Some dst"
  by (simp_all add: ipv4_hdr_def rd8_def rd16_def rd32_def rd_def nth_append)

lemma parse_l3_ipv4:
  assumes "unat off = length pre" "length opts \<le> 10"
  shows "marlin_parse_l3 (pre @ ipv4_hdr tos len ident frag ttl proto csum src dst opts @ r) off AF_INET n =
    Some (MARLIN_OK, \<lparr>l3_src = (src, 0, 0, 0), l3_dst = (dst, 0, 0, 0),
       l3_l4_off = off + of_nat (20 + 4 * length opts), l3_flags = marlin_parse_frag4 frag,
       l3_proto = proto, l3_frag_ext = 0\<rparr>)"
proof -
  let ?h = "ipv4_hdr tos len ident frag ttl proto csum src dst opts"
  have ge: "\<not> (of_nat (5 + length opts) :: u8) < 5"
    using assms(2) by (simp add: word_less_nat_alt unat_of_nat del: of_nat_add)
  have len: "ucast (of_nat (5 + length opts) :: u8) * (4::u32) = of_nat (20 + 4 * length opts)"
  proof -
    have "ucast (of_nat (5 + length opts) :: u8) = (of_nat (5 + length opts) :: u32)"
      using assms(2) by (intro word_unat_eq_iff [THEN iffD2]) (simp add: unat_ucast_up_le unat_of_nat del: of_nat_add)
    then show ?thesis by (simp add: algebra_simps)
  qed
  have unat_len: "unat (of_nat (20 + 4 * length opts) :: u32) = 20 + 4 * length opts"
    using assms(2) by (simp add: unat_of_nat del: of_nat_add of_nat_mult)
  show ?thesis
    using assms(2) ge
    by (simp add: marlin_parse_l3_def assms(1) rd_ipv4_hdr mem_simps rd_shift(2) [where k = 0, simplified]
        ihl_nibble len unat_len zero_l3_def Let_def del: of_nat_add of_nat_mult)
qed

lemma rd_quad_bytes:
  "rd32 0 (quad_bytes q @ r) = Some (fst q)"
  "rd32 4 (quad_bytes q @ r) = Some (fst (snd q))"
  "rd32 8 (quad_bytes q @ r) = Some (fst (snd (snd q)))"
  "rd32 12 (quad_bytes q @ r) = Some (snd (snd (snd q)))"
  by (cases q; simp add: quad_bytes_def rd32_def rd_def)+

lemma rd_quad_quad_bytes: "rd_quad 0 (quad_bytes q @ r) = Some q"
  by (simp add: rd_quad_def rd_quad_bytes)

lemma rd_ipv6_hdr:
  "rd8 6 (ipv6_hdr flow plen proto hops src dst @ r) = Some proto"
  "rd_quad 8 (ipv6_hdr flow plen proto hops src dst @ r) = Some src"
  "rd_quad 24 (ipv6_hdr flow plen proto hops src dst @ r) = Some dst"
proof -
  show "rd8 6 (ipv6_hdr flow plen proto hops src dst @ r) = Some proto"
    by (simp add: ipv6_hdr_def rd8_def nth_append)
  show "rd_quad 8 (ipv6_hdr flow plen proto hops src dst @ r) = Some src"
    using rd_quad_shift [of "le_bytes 4 flow @ le_bytes 2 plen @ [proto, hops]" 0 "quad_bytes src @ quad_bytes dst @ r"]
    by (simp add: ipv6_hdr_def rd_quad_quad_bytes)
  show "rd_quad 24 (ipv6_hdr flow plen proto hops src dst @ r) = Some dst"
    using rd_quad_shift [of "le_bytes 4 flow @ le_bytes 2 plen @ [proto, hops] @ quad_bytes src" 0 "quad_bytes dst @ r"]
    by (simp add: ipv6_hdr_def rd_quad_quad_bytes)
qed

lemma parse_l3_ipv6:
  assumes "unat off = length pre" "\<not> marlin_proto_unsupported proto" "\<not> marlin_is_ext6 proto"
  shows "marlin_parse_l3 (pre @ ipv6_hdr flow plen proto hops src dst @ r) off AF_INET6 n =
    Some (MARLIN_OK, \<lparr>l3_src = src, l3_dst = dst, l3_l4_off = off + 40, l3_flags = 0, l3_proto = proto, l3_frag_ext = 0\<rparr>)"
  using assms
  by (simp add: marlin_parse_l3_def mem_simps rd_ipv6_hdr marlin_walk_ext6_def marlin_walk_ext6_loop.simps
      marlin_walk_ext6_step_def zero_l3_def Let_def)

lemma parse_ports_hdr:
  assumes "unat off = length pre" "marlin_proto_has_ports proto"
  shows "marlin_parse_ports (pre @ ports_hdr sport dport @ r) off proto s d = Some (MARLIN_OK, sport, dport)"
proof -
  have "\<not> marlin_proto_unsupported proto"
    using assms(2) by (auto simp: marlin_proto_unsupported_def marlin_proto_has_ports_def)
  moreover have "rd16 (length pre) (pre @ ports_hdr sport dport @ r) = Some sport"
    "rd16 (length pre + 2) (pre @ ports_hdr sport dport @ r) = Some dport"
    by (simp_all add: rd16_def rd_def ports_hdr_def)
  ultimately show ?thesis
    using assms by (simp add: marlin_parse_ports_def ports_hdr_def)
qed

text \<open>An unfragmented packet in a frame: family, addresses, protocol and ports of a flow.\<close>

definition flow_frame4 :: "bytes \<Rightarrow> u16 \<Rightarrow> u16 \<Rightarrow> u32 list \<Rightarrow> u32 \<Rightarrow> u32 \<Rightarrow> u8 \<Rightarrow> u16 \<Rightarrow> u16 \<Rightarrow> bytes \<Rightarrow> bytes" where
  "flow_frame4 macs ident frag opts src dst proto sport dport payload =
     eth_frame macs ETH_P_IP (ipv4_hdr 0 0 ident frag 64 proto 0 src dst opts @ ports_hdr sport dport @ payload)"

definition flow_frame6 :: "bytes \<Rightarrow> u32 \<Rightarrow> quad \<Rightarrow> quad \<Rightarrow> u8 \<Rightarrow> u16 \<Rightarrow> u16 \<Rightarrow> bytes \<Rightarrow> bytes" where
  "flow_frame6 macs flow src dst proto sport dport payload =
     eth_frame macs ETH_P_IPV6 (ipv6_hdr flow 0 proto 64 src dst @ ports_hdr sport dport @ payload)"

text \<open>An ICMP error from \<open>router\<close> to \<open>dst\<close>, quoting the start of an offending packet.\<close>

definition icmp_error4 :: "bytes \<Rightarrow> u16 \<Rightarrow> u32 list \<Rightarrow> u32 \<Rightarrow> u32 \<Rightarrow> u8 \<Rightarrow> bytes \<Rightarrow> bytes \<Rightarrow> bytes" where
  "icmp_error4 macs ident opts router dst ty rest quoted =
     eth_frame macs ETH_P_IP (ipv4_hdr 0 0 ident 0 64 IPPROTO_ICMP 0 router dst opts @ (ty # rest) @ quoted)"

definition icmp_error6 :: "bytes \<Rightarrow> u32 \<Rightarrow> quad \<Rightarrow> quad \<Rightarrow> u8 \<Rightarrow> bytes \<Rightarrow> bytes \<Rightarrow> bytes" where
  "icmp_error6 macs flow router dst ty rest quoted =
     eth_frame macs ETH_P_IPV6 (ipv6_hdr flow 0 IPPROTO_ICMPV6 64 router dst @ (ty # rest) @ quoted)"

lemma parse_frame_eth:
  assumes "length macs = 12" "etype = ETH_P_IP \<and> family = AF_INET \<or> etype = ETH_P_IPV6 \<and> family = AF_INET6"
    "marlin_parse_l3 (eth_frame macs etype payload) 14 family MAX_EXT_HDRS = Some (MARLIN_OK, l3)"
  shows "marlin_parse_frame (eth_frame macs etype payload) m =
    marlin_parse_l4 (eth_frame macs etype payload) family l3 (m\<lparr>mc_pkt_len := of_nat (length (eth_frame macs etype payload))\<rparr>)"
proof -
  have rd: "rd16 12 (eth_frame macs etype payload) = Some (bswap16 etype)"
    using assms(1) by (simp add: eth_frame_def rd16_def rd_def bswap16_def)
  have neq: "bswap16 ETH_P_IPV6 \<noteq> bswap16 ETH_P_IP"
    by code_simp
  have len: "\<not> length (eth_frame macs etype payload) < 14"
    using assms(1) by (simp add: eth_frame_def)
  from assms(2) show ?thesis
  proof (elim disjE conjE)
    assume "etype = ETH_P_IP" "family = AF_INET"
    with assms(3) rd len show ?thesis
      by (simp add: marlin_parse_frame_def marlin_parse_eth_def Let_def)
  next
    assume "etype = ETH_P_IPV6" "family = AF_INET6"
    with assms(3) rd len neq show ?thesis
      by (simp add: marlin_parse_frame_def marlin_parse_eth_def Let_def)
  qed
qed

lemma parse_l4_flow:
  assumes "marlin_proto_has_ports (l3_proto l3)" "l3_frag_ext l3 = 0" "(mc_flags m OR l3_flags l3) AND MARLIN_CTX_F_FRAG = 0"
    and "\<And>s d. marlin_parse_ports f (l3_l4_off l3) (l3_proto l3) s d = Some (MARLIN_OK, sport, dport)"
  shows "\<exists>p. marlin_parse_l4 f family l3 m = Some (MARLIN_OK, p) \<and>
    mc_tuple p = (mc_tuple m)\<lparr>pt_src := l3_src l3, pt_dst := l3_dst l3, pt_sport := sport, pt_dport := dport,
      pt_proto := l3_proto l3, pt_family := family\<rparr>"
proof -
  have proto: "\<not> marlin_proto_unsupported (l3_proto l3)" "\<not> marlin_proto_is_icmp family (l3_proto l3)"
    using assms(1) by (auto simp: marlin_proto_has_ports_def marlin_proto_unsupported_def marlin_proto_is_icmp_def)
  have quic: "\<exists>fl plen. marlin_parse_quic f (l3_l4_off l3) x = Some (fl, x\<lparr>mc_udp_payload_len := plen\<rparr>)" for x
    using safe_parse_quic [of f "l3_l4_off l3" x] parse_quic_sel(1) unfolding safe_iff by (metis surj_pair)
  show ?thesis
  proof (cases "l3_proto l3 = IPPROTO_UDP")
    case False
    with proto assms show ?thesis by (simp add: marlin_parse_l4_def Let_def)
  next
    case True
    let ?m = "m\<lparr>mc_l3_off := MARLIN_L3_OFF_ETH,
        mc_l4_off := ucast (l3_l4_off l3), mc_flags := mc_flags m OR l3_flags l3,
        mc_tuple := (mc_tuple m)\<lparr>pt_family := family, pt_proto := l3_proto l3, pt_src := l3_src l3,
        pt_dst := l3_dst l3, pt_sport := sport, pt_dport := dport\<rparr>\<rparr>"
    obtain fl plen where "marlin_parse_quic f (l3_l4_off l3) ?m = Some (fl, ?m\<lparr>mc_udp_payload_len := plen\<rparr>)"
      using quic by blast
    with True proto assms show ?thesis by (simp add: marlin_parse_l4_def Let_def)
  qed
qed

lemma parse_icmp_flow:
  assumes "unat off = length pre" "length rest = 7" "marlin_icmp_is_error family ty" "unat off + 8 < 2 ^ 32"
    and "marlin_parse_l3 (pre @ (ty # rest) @ quoted) (off + 8) family MARLIN_ICMP_EMB_EXT_HDRS = Some (MARLIN_OK, emb)"
    and "l3_flags emb AND MARLIN_CTX_F_FRAG = 0"
    and "marlin_parse_ports (pre @ (ty # rest) @ quoted) (l3_l4_off emb) (l3_proto emb) 0 0 = Some (MARLIN_OK, sp, dp)"
  shows "marlin_parse_icmp (pre @ (ty # rest) @ quoted) off family m = Some (MARLIN_OK, m\<lparr>
     mc_tuple := (mc_tuple m)\<lparr>pt_dst := l3_src emb, pt_src := l3_dst emb, pt_dport := sp, pt_sport := dp,
       pt_proto := l3_proto emb\<rparr>, mc_flags := mc_flags m OR MARLIN_CTX_F_ICMP\<rparr>)"
proof -
  have "rd8 (unat off) (pre @ (ty # rest) @ quoted) = Some ty"
    using assms(1) by (simp add: rd8_def)
  with assms show ?thesis by (simp add: marlin_parse_icmp_def)
qed

lemma frag4_none: "frag \<in> {0, bswap16 IP_DF} \<Longrightarrow> marlin_parse_frag4 frag = 0"
proof -
  have "marlin_parse_frag4 0 = 0 \<and> marlin_parse_frag4 (bswap16 IP_DF) = 0" by code_simp
  then show "frag \<in> {0, bswap16 IP_DF} \<Longrightarrow> marlin_parse_frag4 frag = 0" by auto
qed

lemma parse_flow_frame4:
  assumes "length macs = 12" "length opts \<le> 10" "frag \<in> {0, bswap16 IP_DF}" "marlin_proto_has_ports proto"
  shows "\<exists>p. marlin_parse_frame (flow_frame4 macs ident frag opts src dst proto sport dport payload) (zero_ctx\<lparr>mc_cfg := cfg\<rparr>) =
      Some (MARLIN_OK, p) \<and>
    mc_tuple p = \<lparr>pt_src = (src, 0, 0, 0), pt_dst = (dst, 0, 0, 0), pt_sport = sport, pt_dport = dport,
      pt_proto = proto, pt_family = AF_INET, pt_pad = 0\<rparr>"
proof -
  let ?f = "flow_frame4 macs ident frag opts src dst proto sport dport payload"
  let ?h = "ipv4_hdr 0 0 ident frag 64 proto 0 src dst opts"
  let ?l3 = "\<lparr>l3_src = (src, 0, 0, 0), l3_dst = (dst, 0, 0, 0), l3_l4_off = 14 + of_nat (20 + 4 * length opts),
       l3_flags = 0, l3_proto = proto, l3_frag_ext = 0\<rparr> :: marlin_l3"
  have l3: "marlin_parse_l3 ?f 14 AF_INET MAX_EXT_HDRS = Some (MARLIN_OK, ?l3)"
    using parse_l3_ipv4 [of 14 "macs @ rev (le_bytes 2 ETH_P_IP)" opts 0 0 ident frag 64 proto 0 src dst
        "ports_hdr sport dport @ payload"] assms(1,2) frag4_none [OF assms(3)]
    by (simp add: flow_frame4_def eth_frame_def)
  have "unat (l3_l4_off ?l3) = 34 + 4 * length opts"
    using assms(2) by (simp add: unat_word_ariths unat_of_nat)
  then have ports: "marlin_parse_ports ?f (l3_l4_off ?l3) proto s d = Some (MARLIN_OK, sport, dport)" for s d
    using parse_ports_hdr [of "l3_l4_off ?l3" "macs @ rev (le_bytes 2 ETH_P_IP) @ ?h" proto sport dport payload s d] assms(1,4)
    by (simp add: flow_frame4_def eth_frame_def)
  have frame: "marlin_parse_frame ?f (zero_ctx\<lparr>mc_cfg := cfg\<rparr>) =
      marlin_parse_l4 ?f AF_INET ?l3 (zero_ctx\<lparr>mc_cfg := cfg, mc_pkt_len := of_nat (length ?f)\<rparr>)"
    using l3 assms(1) unfolding flow_frame4_def by (intro parse_frame_eth) simp_all
  show ?thesis
    unfolding frame
    using parse_l4_flow [of ?l3 "zero_ctx\<lparr>mc_cfg := cfg, mc_pkt_len := of_nat (length ?f)\<rparr>" ?f sport dport AF_INET]
      ports assms by (simp add: zero_ctx_def zero_tuple_def)
qed

lemma parse_flow_frame6:
  assumes "length macs = 12" "marlin_proto_has_ports proto"
  shows "\<exists>p. marlin_parse_frame (flow_frame6 macs flow src dst proto sport dport payload) (zero_ctx\<lparr>mc_cfg := cfg\<rparr>) =
      Some (MARLIN_OK, p) \<and>
    mc_tuple p = \<lparr>pt_src = src, pt_dst = dst, pt_sport = sport, pt_dport = dport,
      pt_proto = proto, pt_family = AF_INET6, pt_pad = 0\<rparr>"
proof -
  let ?f = "flow_frame6 macs flow src dst proto sport dport payload"
  let ?h = "ipv6_hdr flow 0 proto 64 src dst"
  let ?l3 = "\<lparr>l3_src = src, l3_dst = dst, l3_l4_off = 54, l3_flags = 0, l3_proto = proto, l3_frag_ext = 0\<rparr> :: marlin_l3"
  have proto: "\<not> marlin_proto_unsupported proto" "\<not> marlin_is_ext6 proto"
    using assms(2) by (auto simp: marlin_proto_has_ports_def marlin_proto_unsupported_def marlin_is_ext6_def)
  have l3: "marlin_parse_l3 ?f 14 AF_INET6 MAX_EXT_HDRS = Some (MARLIN_OK, ?l3)"
    using parse_l3_ipv6 [of 14 "macs @ rev (le_bytes 2 ETH_P_IPV6)" proto flow 0 64 src dst
        "ports_hdr sport dport @ payload"] assms(1) proto
    by (simp add: flow_frame6_def eth_frame_def)
  have ports: "marlin_parse_ports ?f 54 proto s d = Some (MARLIN_OK, sport, dport)" for s d
    using parse_ports_hdr [of 54 "macs @ rev (le_bytes 2 ETH_P_IPV6) @ ?h" proto sport dport payload s d] assms
    by (simp add: flow_frame6_def eth_frame_def)
  have frame: "marlin_parse_frame ?f (zero_ctx\<lparr>mc_cfg := cfg\<rparr>) =
      marlin_parse_l4 ?f AF_INET6 ?l3 (zero_ctx\<lparr>mc_cfg := cfg, mc_pkt_len := of_nat (length ?f)\<rparr>)"
    using l3 assms(1) unfolding flow_frame6_def by (intro parse_frame_eth) simp_all
  show ?thesis
    unfolding frame
    using parse_l4_flow [of ?l3 "zero_ctx\<lparr>mc_cfg := cfg, mc_pkt_len := of_nat (length ?f)\<rparr>" ?f sport dport AF_INET6]
      ports assms by (simp add: zero_ctx_def zero_tuple_def)
qed

lemma parse_icmp_error4:
  assumes "length macs = 12" "length opts \<le> 10" "length qopts \<le> 10" "length rest = 7"
    and "marlin_icmp_is_error AF_INET ty" "marlin_parse_frag4 qfrag AND MARLIN_CTX_F_FRAG = 0" "marlin_proto_has_ports proto"
  shows "\<exists>p. marlin_parse_frame (icmp_error4 macs ident opts router to ty rest
        (ipv4_hdr qtos qlen qident qfrag qttl proto qcsum src dst qopts @ ports_hdr sport dport @ payload))
        (zero_ctx\<lparr>mc_cfg := cfg\<rparr>) = Some (MARLIN_OK, p) \<and>
    mc_flags p AND MARLIN_CTX_F_ICMP \<noteq> 0 \<and>
    mc_tuple p = \<lparr>pt_src = (dst, 0, 0, 0), pt_dst = (src, 0, 0, 0), pt_sport = dport, pt_dport = sport,
      pt_proto = proto, pt_family = AF_INET, pt_pad = 0\<rparr>"
proof -
  let ?q = "ipv4_hdr qtos qlen qident qfrag qttl proto qcsum src dst qopts"
  let ?h = "ipv4_hdr 0 0 ident 0 64 IPPROTO_ICMP 0 router to opts"
  let ?e = "macs @ rev (le_bytes 2 ETH_P_IP)"
  let ?f = "icmp_error4 macs ident opts router to ty rest (?q @ ports_hdr sport dport @ payload)"
  let ?off = "14 + of_nat (20 + 4 * length opts) :: u32"
  let ?l3 = "\<lparr>l3_src = (router, 0, 0, 0), l3_dst = (to, 0, 0, 0), l3_l4_off = ?off,
       l3_flags = 0, l3_proto = IPPROTO_ICMP, l3_frag_ext = 0\<rparr> :: marlin_l3"
  let ?emb = "\<lparr>l3_src = (src, 0, 0, 0), l3_dst = (dst, 0, 0, 0), l3_l4_off = ?off + 8 + of_nat (20 + 4 * length qopts),
       l3_flags = marlin_parse_frag4 qfrag, l3_proto = proto, l3_frag_ext = 0\<rparr> :: marlin_l3"
  have f: "?f = (?e @ ?h) @ (ty # rest) @ ?q @ ports_hdr sport dport @ payload"
    by (simp add: icmp_error4_def eth_frame_def)
  have off: "unat ?off = 34 + 4 * length opts" "unat (?off + 8) = 42 + 4 * length opts"
    "unat (l3_l4_off ?emb) = 62 + 4 * length opts + 4 * length qopts"
    using assms(2,3) by (simp_all add: unat_word_ariths unat_of_nat)
  have l3: "marlin_parse_l3 ?f 14 AF_INET MAX_EXT_HDRS = Some (MARLIN_OK, ?l3)"
    using parse_l3_ipv4 [of 14 ?e opts 0 0 ident 0 64 IPPROTO_ICMP 0 router to
        "(ty # rest) @ ?q @ ports_hdr sport dport @ payload"] assms(1,2) frag4_none [of 0]
    unfolding f by simp
  have emb: "marlin_parse_l3 ?f (?off + 8) AF_INET MARLIN_ICMP_EMB_EXT_HDRS = Some (MARLIN_OK, ?emb)"
    using parse_l3_ipv4 [of "?off + 8" "?e @ ?h @ (ty # rest)" qopts qtos qlen qident qfrag qttl proto qcsum src dst
        "ports_hdr sport dport @ payload"] assms(1,3,4) off
    unfolding f by simp
  have ports: "marlin_parse_ports ?f (l3_l4_off ?emb) proto 0 0 = Some (MARLIN_OK, sport, dport)"
    using parse_ports_hdr [of "l3_l4_off ?emb" "?e @ ?h @ (ty # rest) @ ?q" proto sport dport payload 0 0] assms(1,4,7) off
    unfolding f by simp
  have frame: "marlin_parse_frame ?f (zero_ctx\<lparr>mc_cfg := cfg\<rparr>) =
      marlin_parse_l4 ?f AF_INET ?l3 (zero_ctx\<lparr>mc_cfg := cfg, mc_pkt_len := of_nat (length ?f)\<rparr>)"
    using l3 assms(1) unfolding icmp_error4_def by (intro parse_frame_eth) simp_all
  have icmp: "marlin_parse_icmp ?f ?off AF_INET m = Some (MARLIN_OK, m\<lparr>
     mc_tuple := (mc_tuple m)\<lparr>pt_dst := l3_src ?emb, pt_src := l3_dst ?emb, pt_dport := sport, pt_sport := dport,
       pt_proto := proto\<rparr>, mc_flags := mc_flags m OR MARLIN_CTX_F_ICMP\<rparr>)" for m
    using parse_icmp_flow [of ?off "?e @ ?h" rest AF_INET ty "?q @ ports_hdr sport dport @ payload" ?emb sport dport m]
      emb ports assms(1,2,4,5,6) off
    unfolding f by simp
  show ?thesis
    unfolding frame using icmp
    by (simp add: marlin_parse_l4_def Let_def zero_ctx_def zero_tuple_def marlin_proto_unsupported_def marlin_proto_is_icmp_def)
qed

lemma parse_icmp_error6:
  assumes "length macs = 12" "length rest = 7" "marlin_icmp_is_error AF_INET6 ty" "marlin_proto_has_ports proto"
  shows "\<exists>p. marlin_parse_frame (icmp_error6 macs flow router to ty rest
        (ipv6_hdr qflow qlen proto qhops src dst @ ports_hdr sport dport @ payload))
        (zero_ctx\<lparr>mc_cfg := cfg\<rparr>) = Some (MARLIN_OK, p) \<and>
    mc_flags p AND MARLIN_CTX_F_ICMP \<noteq> 0 \<and>
    mc_tuple p = \<lparr>pt_src = dst, pt_dst = src, pt_sport = dport, pt_dport = sport,
      pt_proto = proto, pt_family = AF_INET6, pt_pad = 0\<rparr>"
proof -
  let ?q = "ipv6_hdr qflow qlen proto qhops src dst"
  let ?h = "ipv6_hdr flow 0 IPPROTO_ICMPV6 64 router to"
  let ?e = "macs @ rev (le_bytes 2 ETH_P_IPV6)"
  let ?f = "icmp_error6 macs flow router to ty rest (?q @ ports_hdr sport dport @ payload)"
  let ?l3 = "\<lparr>l3_src = router, l3_dst = to, l3_l4_off = 54,
       l3_flags = 0, l3_proto = IPPROTO_ICMPV6, l3_frag_ext = 0\<rparr> :: marlin_l3"
  let ?emb = "\<lparr>l3_src = src, l3_dst = dst, l3_l4_off = 102,
       l3_flags = 0, l3_proto = proto, l3_frag_ext = 0\<rparr> :: marlin_l3"
  have f: "?f = (?e @ ?h) @ (ty # rest) @ ?q @ ports_hdr sport dport @ payload"
    by (simp add: icmp_error6_def eth_frame_def)
  have proto: "\<not> marlin_proto_unsupported proto" "\<not> marlin_is_ext6 proto"
    using assms(4) by (auto simp: marlin_proto_has_ports_def marlin_proto_unsupported_def marlin_is_ext6_def)
  have l3: "marlin_parse_l3 ?f 14 AF_INET6 MAX_EXT_HDRS = Some (MARLIN_OK, ?l3)"
    using parse_l3_ipv6 [of 14 ?e IPPROTO_ICMPV6 flow 0 64 router to "(ty # rest) @ ?q @ ports_hdr sport dport @ payload"]
      assms(1) unfolding f by (simp add: marlin_proto_unsupported_def marlin_is_ext6_def)
  have emb: "marlin_parse_l3 ?f 62 AF_INET6 MARLIN_ICMP_EMB_EXT_HDRS = Some (MARLIN_OK, ?emb)"
    using parse_l3_ipv6 [of 62 "?e @ ?h @ (ty # rest)" proto qflow qlen qhops src dst "ports_hdr sport dport @ payload"]
      assms(1,2) proto unfolding f by simp
  have ports: "marlin_parse_ports ?f 102 proto 0 0 = Some (MARLIN_OK, sport, dport)"
    using parse_ports_hdr [of 102 "?e @ ?h @ (ty # rest) @ ?q" proto sport dport payload 0 0] assms(1,2,4)
    unfolding f by simp
  have frame: "marlin_parse_frame ?f (zero_ctx\<lparr>mc_cfg := cfg\<rparr>) =
      marlin_parse_l4 ?f AF_INET6 ?l3 (zero_ctx\<lparr>mc_cfg := cfg, mc_pkt_len := of_nat (length ?f)\<rparr>)"
    using l3 assms(1) unfolding icmp_error6_def by (intro parse_frame_eth) simp_all
  have icmp: "marlin_parse_icmp ?f 54 AF_INET6 m = Some (MARLIN_OK, m\<lparr>
     mc_tuple := (mc_tuple m)\<lparr>pt_dst := src, pt_src := dst, pt_dport := sport, pt_sport := dport,
       pt_proto := proto\<rparr>, mc_flags := mc_flags m OR MARLIN_CTX_F_ICMP\<rparr>)" for m
    using parse_icmp_flow [of 54 "?e @ ?h" rest AF_INET6 ty "?q @ ports_hdr sport dport @ payload" ?emb sport dport m]
      emb ports assms(1-3) unfolding f by simp
  show ?thesis
    unfolding frame using icmp
    by (simp add: marlin_parse_l4_def Let_def zero_ctx_def zero_tuple_def marlin_proto_unsupported_def marlin_proto_is_icmp_def)
qed

section \<open>Properties\<close>

text \<open>Concrete frames for the witnesses: a TCP segment over IPv4 and the tail of a fragmented
  TCP segment over IPv6.\<close>

definition sample_md4 :: xdp_md where
  "sample_md4 = \<lparr>xdp_data = flow_frame4 (replicate 12 2) 7 0 [] 0x0100000a 0x0200000a IPPROTO_TCP 0x3930 0x5000 [],
     xdp_ingress_ifindex = 1\<rparr>"

definition sample_tail6 :: xdp_md where
  "sample_tail6 = \<lparr>xdp_data = eth_frame (replicate 12 2) ETH_P_IPV6
     (ipv6_hdr 0x60 0 IPPROTO_FRAGMENT 64 (1, 2, 3, 4) (5, 6, 7, 8) @ [IPPROTO_TCP, 0, 0, 8, 0, 0, 0, 1] @ replicate 8 9),
     xdp_ingress_ifindex = 1\<rparr>"

lemma zero_ctx_flags [simp]: "mc_flags zero_ctx = 0"
  by (simp add: zero_ctx_def)

lemma sample_md4_parse:
  "marlin_parse (Some sample_md4) (Some (zero_ctx\<lparr>mc_cfg := zero_config\<rparr>)) = Some (MARLIN_OK, Some (zero_ctx\<lparr>
     mc_tuple := \<lparr>pt_src = (0x0100000a, 0, 0, 0), pt_dst = (0x0200000a, 0, 0, 0), pt_sport = 0x3930,
       pt_dport = 0x5000, pt_proto = 6, pt_family = 2, pt_pad = 0\<rparr>,
     mc_l3_off := 14, mc_l4_off := 34, mc_pkt_len := 38\<rparr>))"
  by code_simp

lemma sample_tail6_parse:
  "marlin_parse (Some sample_tail6) (Some (zero_ctx\<lparr>mc_cfg := zero_config\<rparr>)) = Some (MARLIN_OK, Some (zero_ctx\<lparr>
     mc_tuple := \<lparr>pt_src = (1, 2, 3, 4), pt_dst = (5, 6, 7, 8), pt_sport = 0, pt_dport = 0, pt_proto = 6,
       pt_family = 10, pt_pad = 0\<rparr>,
     mc_l3_off := 14, mc_l4_off := 62, mc_pkt_len := 70, mc_flags := 2\<rparr>))"
  by code_simp

text \<open>Parsing never reads outside the frame, whatever the frame, its length and the context,
  and always returns a verdict (for every input, no fuel and no illegal access).\<close>

theorem marlin_parse_safe: "\<exists>rc mctx'. marlin_parse ctx mctx = Some (rc, mctx')"
proof -
  have "safe (marlin_parse ctx mctx)"
    by (auto simp: marlin_parse_def split: option.split intro!: safe_bind safe_intros)
  then show ?thesis by (auto simp: safe_iff)
qed

text \<open>For a packet the parser hands on as neither a fragment tail nor an ICMP error, the 16-bit
  \<^verbatim>\<open>l4_off\<close> is not truncated: the ports of the tuple are the two words the frame holds at that
  offset, and the protocol is one of the three that have ports.\<close>

theorem marlin_parse_l4_off:
  assumes parse: "marlin_parse (Some md) (Some (zero_ctx\<lparr>mc_cfg := cfg\<rparr>)) = Some (MARLIN_OK, Some p)"
    and no_tail: "mc_flags p AND MARLIN_CTX_F_FRAG = 0" and no_icmp: "mc_flags p AND MARLIN_CTX_F_ICMP = 0"
  shows "marlin_proto_has_ports (pt_proto (mc_tuple p)) \<and>
    rd16 (unat (mc_l4_off p)) (xdp_data md) = Some (pt_sport (mc_tuple p)) \<and>
    rd16 (unat (mc_l4_off p) + 2) (xdp_data md) = Some (pt_dport (mc_tuple p))"
proof -
  obtain family l3 where l3: "marlin_parse_l3 (xdp_data md) 14 family MAX_EXT_HDRS = Some (MARLIN_OK, l3)"
    and l4: "marlin_parse_l4 (xdp_data md) family l3
      (zero_ctx\<lparr>mc_cfg := cfg, mc_pkt_len := of_nat (length (xdp_data md))\<rparr>) = Some (MARLIN_OK, p)"
    using marlin_parse_OKD [OF parse] by (elim parse_frame_OKE)
  from l4 show ?thesis
  proof (cases rule: parse_l4_OK_cases)
    case tail
    with no_tail show ?thesis by simp
  next
    case icmp
    from icmp(4) no_icmp show ?thesis by (elim parse_icmp_OK) (simp add: bit.conj_disj_distrib2)
  next
    case (ports sport dport flags plen)
    with parse_ports_OK [OF ports(4)] ucast_l4_off [OF l3] show ?thesis by simp
  qed
qed

theorem marlin_parse_l4_off_witness:
  "\<exists>p. marlin_parse (Some sample_md4) (Some (zero_ctx\<lparr>mc_cfg := zero_config\<rparr>)) = Some (MARLIN_OK, Some p) \<and>
    mc_flags p AND MARLIN_CTX_F_FRAG = 0 \<and> mc_flags p AND MARLIN_CTX_F_ICMP = 0 \<and>
    rd16 (unat (mc_l4_off p)) (xdp_data sample_md4) = Some (pt_sport (mc_tuple p))"
  using marlin_parse_l4_off [OF sample_md4_parse] by (simp add: sample_md4_parse)

text \<open>The two halves of a fragmented IPv6 datagram carry the same protocol. Whenever a first
  or later fragment is handed on, the protocol of its tuple is the Next Header value of the
  fragment header that ends where the payload starts, which all fragments of one datagram share.\<close>

theorem marlin_parse_fragment_proto:
  assumes parse: "marlin_parse (Some md) (Some (zero_ctx\<lparr>mc_cfg := cfg\<rparr>)) = Some (MARLIN_OK, Some p)"
    and v6: "pt_family (mc_tuple p) = AF_INET6"
    and frag: "mc_flags p AND MARLIN_CTX_F_FRAG_ANY \<noteq> 0" and no_icmp: "mc_flags p AND MARLIN_CTX_F_ICMP = 0"
  shows "8 \<le> unat (mc_l4_off p) \<and> unat (mc_l4_off p) \<le> length (xdp_data md) \<and>
    xdp_data md ! (unat (mc_l4_off p) - 8) = pt_proto (mc_tuple p)"
proof -
  obtain family l3 where l3: "marlin_parse_l3 (xdp_data md) 14 family MAX_EXT_HDRS = Some (MARLIN_OK, l3)"
    and l4: "marlin_parse_l4 (xdp_data md) family l3
      (zero_ctx\<lparr>mc_cfg := cfg, mc_pkt_len := of_nat (length (xdp_data md))\<rparr>) = Some (MARLIN_OK, p)"
    using marlin_parse_OKD [OF parse] by (elim parse_frame_OKE)
  have head: "8 \<le> unat (l3_l4_off l3) \<and> unat (l3_l4_off l3) \<le> length (xdp_data md) \<and>
      xdp_data md ! (unat (l3_l4_off l3) - 8) = l3_proto l3"
    if "family \<noteq> AF_INET" "l3_flags l3 AND MARLIN_CTX_F_FRAG_ANY \<noteq> 0" "l3_frag_ext l3 = 0"
    using parse_l3_OK(4) [OF l3] that by simp
  from l4 show ?thesis
  proof (cases rule: parse_l4_OK_cases)
    case tail
    with head v6 frag ucast_l4_off [OF l3] show ?thesis by (simp add: zero_ctx_def)
  next
    case icmp
    from icmp(4) no_icmp show ?thesis by (elim parse_icmp_OK) (simp add: bit.conj_disj_distrib2)
  next
    case (ports sport dport flags plen)
    then have "l3_flags l3 AND MARLIN_CTX_F_FRAG_ANY \<noteq> 0"
      using frag by (auto simp: bit.conj_disj_distrib2 zero_ctx_def MARLIN_CTX_F_FRAG_ANY_def)
    with ports head v6 ucast_l4_off [OF l3] show ?thesis by simp
  qed
qed

theorem marlin_parse_fragment_proto_witness:
  "\<exists>p. marlin_parse (Some sample_tail6) (Some (zero_ctx\<lparr>mc_cfg := zero_config\<rparr>)) = Some (MARLIN_OK, Some p) \<and>
    mc_flags p AND MARLIN_CTX_F_FRAG_ANY \<noteq> 0 \<and>
    xdp_data sample_tail6 ! (unat (mc_l4_off p) - 8) = pt_proto (mc_tuple p)"
  using marlin_parse_fragment_proto [OF sample_tail6_parse]
  by (simp add: sample_tail6_parse MARLIN_CTX_F_FRAG_ANY_def)

text \<open>The tuple is canonical, as the byte-exact hash over it needs: its padding stays zero, an
  IPv4 address leaves the other three words of its array zero, and a fragment tail has zero ports.\<close>

theorem marlin_parse_canonical:
  assumes parse: "marlin_parse (Some md) (Some (zero_ctx\<lparr>mc_cfg := cfg\<rparr>)) = Some (MARLIN_OK, Some p)"
  shows "pt_pad (mc_tuple p) = 0 \<and> pt_family (mc_tuple p) \<in> {AF_INET, AF_INET6} \<and>
    (pt_family (mc_tuple p) = AF_INET \<longrightarrow> snd (pt_src (mc_tuple p)) = (0, 0, 0) \<and> snd (pt_dst (mc_tuple p)) = (0, 0, 0)) \<and>
    (mc_flags p AND MARLIN_CTX_F_FRAG \<noteq> 0 \<longrightarrow> pt_sport (mc_tuple p) = 0 \<and> pt_dport (mc_tuple p) = 0)"
proof -
  obtain family l3 where fam: "family = AF_INET \<or> family = AF_INET6"
    and l3: "marlin_parse_l3 (xdp_data md) 14 family MAX_EXT_HDRS = Some (MARLIN_OK, l3)"
    and l4: "marlin_parse_l4 (xdp_data md) family l3
      (zero_ctx\<lparr>mc_cfg := cfg, mc_pkt_len := of_nat (length (xdp_data md))\<rparr>) = Some (MARLIN_OK, p)"
    using marlin_parse_OKD [OF parse] by (elim parse_frame_OKE)
  note v4 = parse_l3_v4 [of "xdp_data md" _ _ _]
  from l4 show ?thesis
  proof (cases rule: parse_l4_OK_cases)
    case tail
    with fam v4 l3 show ?thesis by (auto simp: zero_ctx_def zero_tuple_def)
  next
    case icmp
    from icmp(4) show ?thesis
    proof (rule parse_icmp_OK, goal_cases)
      case (1 emb sp dp)
      from 1(1) have "family = AF_INET \<longrightarrow> snd (l3_src emb) = (0, 0, 0) \<and> snd (l3_dst emb) = (0, 0, 0)"
        using v4 by blast
      with fam icmp(2) show ?case
        unfolding 1(4) by (auto simp: zero_ctx_def zero_tuple_def bit.conj_disj_distrib2)
    qed
  next
    case (ports sport dport flags plen)
    with fam v4 l3 show ?thesis
      by (auto simp: zero_ctx_def zero_tuple_def bit.conj_disj_distrib2)
  qed
qed

theorem marlin_parse_canonical_witness:
  "\<exists>p. marlin_parse (Some sample_tail6) (Some (zero_ctx\<lparr>mc_cfg := zero_config\<rparr>)) = Some (MARLIN_OK, Some p) \<and>
    pt_pad (mc_tuple p) = 0 \<and> mc_flags p AND MARLIN_CTX_F_FRAG \<noteq> 0 \<and> pt_sport (mc_tuple p) = 0 \<and> pt_dport (mc_tuple p) = 0"
  using marlin_parse_canonical [OF sample_tail6_parse] by (simp add: sample_tail6_parse)



text \<open>The same over IPv6.\<close>

theorem marlin_parse_icmp_follows_flow6:
  assumes "length macs = 12" "length macs' = 12" "length rest = 7" "marlin_icmp_is_error AF_INET6 ty"
    and "marlin_proto_has_ports proto"
  shows "\<exists>p q.
    marlin_parse (Some \<lparr>xdp_data = flow_frame6 macs flow client vip proto cport vport payload,
        xdp_ingress_ifindex = i\<rparr>) (Some (zero_ctx\<lparr>mc_cfg := cfg\<rparr>)) = Some (MARLIN_OK, Some p) \<and>
    marlin_parse (Some \<lparr>xdp_data = icmp_error6 macs' flow' router vip ty rest
          (ipv6_hdr qflow qlen proto qhops vip client @ ports_hdr vport cport @ qpayload),
        xdp_ingress_ifindex = j\<rparr>) (Some (zero_ctx\<lparr>mc_cfg := cfg\<rparr>)) = Some (MARLIN_OK, Some q) \<and>
    mc_tuple p = \<lparr>pt_src = client, pt_dst = vip, pt_sport = cport, pt_dport = vport,
      pt_proto = proto, pt_family = AF_INET6, pt_pad = 0\<rparr> \<and>
    mc_tuple q = mc_tuple p \<and> mc_flags q AND MARLIN_CTX_F_ICMP \<noteq> 0"
proof -
  obtain p where p: "marlin_parse_frame (flow_frame6 macs flow client vip proto cport vport payload)
      (zero_ctx\<lparr>mc_cfg := cfg\<rparr>) = Some (MARLIN_OK, p)"
    "mc_tuple p = \<lparr>pt_src = client, pt_dst = vip, pt_sport = cport, pt_dport = vport,
      pt_proto = proto, pt_family = AF_INET6, pt_pad = 0\<rparr>"
    using parse_flow_frame6 [OF assms(1,5)] by blast
  obtain q where "marlin_parse_frame (icmp_error6 macs' flow' router vip ty rest
      (ipv6_hdr qflow qlen proto qhops vip client @ ports_hdr vport cport @ qpayload))
      (zero_ctx\<lparr>mc_cfg := cfg\<rparr>) = Some (MARLIN_OK, q)"
    "mc_flags q AND MARLIN_CTX_F_ICMP \<noteq> 0" "mc_tuple q = mc_tuple p"
    unfolding p(2) using parse_icmp_error6 [OF assms(2,3,4,5)] by blast
  with p show ?thesis by (simp add: marlin_parse_def)
qed

theorem marlin_parse_icmp_follows_flow6_witness:
  "\<exists>p q.
    marlin_parse (Some \<lparr>xdp_data = flow_frame6 (replicate 12 2) 0x60 (1, 2, 3, 4) (5, 6, 7, 8) IPPROTO_UDP 0x3930 0x5000 [],
        xdp_ingress_ifindex = 1\<rparr>) (Some (zero_ctx\<lparr>mc_cfg := zero_config\<rparr>)) = Some (MARLIN_OK, Some p) \<and>
    marlin_parse (Some \<lparr>xdp_data = icmp_error6 (replicate 12 3) 0x60 (9, 9, 9, 9) (5, 6, 7, 8) ICMPV6_PKT_TOOBIG (replicate 7 0)
          (ipv6_hdr 0x60 0 IPPROTO_UDP 63 (5, 6, 7, 8) (1, 2, 3, 4) @ ports_hdr 0x5000 0x3930 @ []),
        xdp_ingress_ifindex = 1\<rparr>) (Some (zero_ctx\<lparr>mc_cfg := zero_config\<rparr>)) = Some (MARLIN_OK, Some q) \<and>
    mc_tuple q = mc_tuple p"
  using marlin_parse_icmp_follows_flow6 [where macs = "replicate 12 2" and macs' = "replicate 12 3" and rest = "replicate 7 0"
      and ty = ICMPV6_PKT_TOOBIG and proto = IPPROTO_UDP and flow = "0x60" and client = "(1, 2, 3, 4)" and vip = "(5, 6, 7, 8)"
      and cport = "0x3930" and vport = "0x5000" and payload = "[]" and i = 1 and cfg = zero_config and flow' = "0x60"
      and router = "(9, 9, 9, 9)" and qflow = "0x60" and qlen = 0 and qhops = 63 and qpayload = "[]" and j = 1]
  by (auto simp: marlin_icmp_is_error_def marlin_proto_has_ports_def)

end
