(* ===== verification/Marlin_Encap.thy ===== *)
theory Marlin_Encap
  imports Marlin_Csum Marlin_Hash Marlin_Parser
begin

text \<open>
  The three encapsulation units: IP-in-IP (\<^verbatim>\<open>ipip.c\<close>), GUE (\<^verbatim>\<open>gue.c\<close>) and VXLAN (\<^verbatim>\<open>vxlan.c\<close>).
  Each grows the frame at its head by the unit's overhead and writes the outer headers. The locale
  \<open>encap_unit\<close> is the promise they share; its lemmas say that the inner packet survives, that
  the lengths agree with the frame, that the outer checksum holds and that the frame limit is kept.

  An operation takes the frame and the context and returns the verdict with both; \<^const>\<open>None\<close> is
  an access outside the frame.
\<close>

section \<open>IP-in-IP (ipip.c)\<close>

definition marlin_ipip_validate :: "marlin_ctx \<Rightarrow> marlin_ret" where
  "marlin_ipip_validate mctx =
    (if mc_pkt_len mctx < of_nat ETH_HLEN then MARLIN_DROP_ENCAP_LENGTH
     else marlin_frame_fits mctx (of_nat MARLIN_OVERHEAD_IPIP))"

definition marlin_ipip_build_outer_eth :: "bytes \<Rightarrow> nat \<Rightarrow> bytes option" where
  "marlin_ipip_build_outer_eth f overhead = do {
     eth \<leftarrow> rd 14 overhead f;
     Some (take 12 eth @ le_bytes 2 (bswap16 ETH_P_IP)) }"

definition marlin_ipip_build_outer_ipv4 :: "marlin_ctx \<Rightarrow> u16 \<Rightarrow> iphdr" where
  "marlin_ipip_build_outer_ipv4 mctx inner_len =
    (let iph = zero_iphdr\<lparr>ip_version := 4, ip_ihl := MARLIN_IPV4_IHL_MIN, ip_tos := marlin_outer_tos mctx,
           ip_frag_off := bswap16 IP_DF, ip_ttl := MARLIN_OUTER_TTL,
           ip_protocol := (if pt_family (mc_tuple mctx) = AF_INET6 then IPPROTO_IPV6 else IPPROTO_IPIP),
           ip_tot_len := bswap16 (of_nat MARLIN_OVERHEAD_IPIP + inner_len),
           ip_saddr := cfg_tunnel_src (mc_cfg mctx), ip_daddr := be_addr (mc_backend mctx)\<rparr>
     in iph\<lparr>ip_check := marlin_ipv4_csum iph\<rparr>)"

definition marlin_ipip_write_outer :: "marlin_ctx \<Rightarrow> bytes \<Rightarrow> u16 \<Rightarrow> bytes option" where
  "marlin_ipip_write_outer mctx f inner_len = do {
     eth \<leftarrow> marlin_ipip_build_outer_eth f MARLIN_OVERHEAD_IPIP;
     f \<leftarrow> wr 0 eth f;
     wr ETH_HLEN (iphdr_bytes (marlin_ipip_build_outer_ipv4 mctx inner_len)) f }"

definition ipip_encap :: "kernel \<Rightarrow> xdp_md \<Rightarrow> marlin_ctx \<Rightarrow> (marlin_ret \<times> xdp_md \<times> marlin_ctx) option" where
  "ipip_encap k md mctx =
    (let rc = marlin_ipip_validate mctx in
     if rc \<noteq> MARLIN_OK then Some (rc, md, mctx)
     else let inner_len = mc_pkt_len mctx - of_nat ETH_HLEN in
       case k_adjust_head k md (- int MARLIN_OVERHEAD_IPIP) of
         None \<Rightarrow> Some (MARLIN_DROP_ADJUST_HEAD, md, mctx)
       | Some md \<Rightarrow>
           if length (xdp_data md) < ETH_HLEN + MARLIN_OVERHEAD_IPIP then Some (MARLIN_DROP_ADJUST_HEAD, md, mctx)
           else do {
             f \<leftarrow> marlin_ipip_write_outer mctx (xdp_data md) inner_len;
             Some (MARLIN_OK, md\<lparr>xdp_data := f\<rparr>,
               mctx\<lparr>mc_l3_off := of_nat ETH_HLEN, mc_pkt_len := of_nat ETH_HLEN + of_nat MARLIN_OVERHEAD_IPIP + inner_len\<rparr>) })"

text \<open>The entry point with its null checks; the same shape for the three units.\<close>

definition marlin_ipip_encap_packet ::
  "kernel \<Rightarrow> xdp_md option \<Rightarrow> marlin_ctx option \<Rightarrow> (marlin_ret \<times> xdp_md option \<times> marlin_ctx option) option" where
  "marlin_ipip_encap_packet k ctx mctx =
    (case (ctx, mctx) of
       (Some md, Some p) \<Rightarrow> map_option (\<lambda>(rc, md, p). (rc, Some md, Some p)) (ipip_encap k md p)
     | _ \<Rightarrow> Some (MARLIN_ABORT_NULLREF, ctx, mctx))"

section \<open>GUE (gue.c)\<close>

definition marlin_gue_validate :: "marlin_ctx \<Rightarrow> marlin_ret" where
  "marlin_gue_validate mctx =
    (if mc_pkt_len mctx < of_nat ETH_HLEN then MARLIN_DROP_ENCAP_LENGTH
     else marlin_frame_fits mctx (of_nat MARLIN_OVERHEAD_GUE))"

definition marlin_gue_build_outer_eth :: "bytes \<Rightarrow> nat \<Rightarrow> bytes option" where
  "marlin_gue_build_outer_eth f overhead = do {
     eth \<leftarrow> rd 14 overhead f;
     Some (take 12 eth @ le_bytes 2 (bswap16 ETH_P_IP)) }"

definition marlin_gue_build_outer_ipv4 :: "marlin_ctx \<Rightarrow> u16 \<Rightarrow> iphdr" where
  "marlin_gue_build_outer_ipv4 mctx inner_len =
    (let iph = zero_iphdr\<lparr>ip_version := 4, ip_ihl := MARLIN_IPV4_IHL_MIN, ip_tos := marlin_outer_tos mctx,
           ip_frag_off := bswap16 IP_DF, ip_ttl := MARLIN_OUTER_TTL, ip_protocol := IPPROTO_UDP,
           ip_tot_len := bswap16 (of_nat MARLIN_OVERHEAD_GUE + inner_len),
           ip_saddr := cfg_tunnel_src (mc_cfg mctx), ip_daddr := be_addr (mc_backend mctx)\<rparr>
     in iph\<lparr>ip_check := marlin_ipv4_csum iph\<rparr>)"

record udphdr =
  udp_source :: u16
  udp_dest :: u16
  udp_len :: u16
  udp_check :: u16

definition udphdr_bytes :: "udphdr \<Rightarrow> bytes" where
  "udphdr_bytes u = le_bytes 2 (udp_source u) @ le_bytes 2 (udp_dest u) @ le_bytes 2 (udp_len u) @ le_bytes 2 (udp_check u)"

definition marlin_gue_build_outer_udp :: "marlin_ctx \<Rightarrow> u16 \<Rightarrow> u16 \<Rightarrow> udphdr" where
  "marlin_gue_build_outer_udp mctx sport inner_len =
    \<lparr>udp_source = sport,
     udp_dest = (if be_encap_dport (mc_backend mctx) \<noteq> 0 then be_encap_dport (mc_backend mctx)
                 else bswap16 MARLIN_GUE_DPORT_DEFAULT),
     udp_len = bswap16 (of_nat (MARLIN_UDP_HLEN + 4) + inner_len),
     udp_check = 0\<rparr>"

text \<open>\<^verbatim>\<open>struct marlin_gue_hdr\<close> as its four bytes: \<^verbatim>\<open>vcf\<close>, \<^verbatim>\<open>proto\<close>, \<^verbatim>\<open>flags\<close>.\<close>

definition marlin_gue_build_gue_hdr :: "u8 \<Rightarrow> bytes" where
  "marlin_gue_build_gue_hdr family = [0, if family = AF_INET6 then IPPROTO_IPV6 else IPPROTO_IPIP, 0, 0]"

definition marlin_gue_write_outer_l3 :: "marlin_ctx \<Rightarrow> bytes \<Rightarrow> u16 \<Rightarrow> bytes option" where
  "marlin_gue_write_outer_l3 mctx f inner_len = do {
     eth \<leftarrow> marlin_gue_build_outer_eth f MARLIN_OVERHEAD_GUE;
     f \<leftarrow> wr 0 eth f;
     wr ETH_HLEN (iphdr_bytes (marlin_gue_build_outer_ipv4 mctx inner_len)) f }"

definition marlin_gue_write_outer_l4 :: "marlin_ctx \<Rightarrow> bytes \<Rightarrow> u16 \<Rightarrow> u16 \<Rightarrow> bytes option" where
  "marlin_gue_write_outer_l4 mctx f sport inner_len = do {
     f \<leftarrow> wr (ETH_HLEN + 20) (udphdr_bytes (marlin_gue_build_outer_udp mctx sport inner_len)) f;
     wr (ETH_HLEN + 20 + 8) (marlin_gue_build_gue_hdr (pt_family (mc_tuple mctx))) f }"

definition gue_encap :: "kernel \<Rightarrow> xdp_md \<Rightarrow> marlin_ctx \<Rightarrow> (marlin_ret \<times> xdp_md \<times> marlin_ctx) option" where
  "gue_encap k md mctx =
    (let rc = marlin_gue_validate mctx in
     if rc \<noteq> MARLIN_OK then Some (rc, md, mctx)
     else let inner_len = mc_pkt_len mctx - of_nat ETH_HLEN in
       case k_adjust_head k md (- int MARLIN_OVERHEAD_GUE) of
         None \<Rightarrow> Some (MARLIN_DROP_ADJUST_HEAD, md, mctx)
       | Some md \<Rightarrow>
           if length (xdp_data md) < ETH_HLEN + MARLIN_OVERHEAD_GUE then Some (MARLIN_DROP_ADJUST_HEAD, md, mctx)
           else do {
             f \<leftarrow> marlin_gue_write_outer_l3 mctx (xdp_data md) inner_len;
             let sport = marlin_entropy_sport (mc_tuple mctx);
             f \<leftarrow> marlin_gue_write_outer_l4 mctx f sport inner_len;
             Some (MARLIN_OK, md\<lparr>xdp_data := f\<rparr>,
               mctx\<lparr>mc_l3_off := of_nat ETH_HLEN, mc_pkt_len := of_nat ETH_HLEN + of_nat MARLIN_OVERHEAD_GUE + inner_len\<rparr>) })"

definition marlin_gue_encap_packet ::
  "kernel \<Rightarrow> xdp_md option \<Rightarrow> marlin_ctx option \<Rightarrow> (marlin_ret \<times> xdp_md option \<times> marlin_ctx option) option" where
  "marlin_gue_encap_packet k ctx mctx =
    (case (ctx, mctx) of
       (Some md, Some p) \<Rightarrow> map_option (\<lambda>(rc, md, p). (rc, Some md, Some p)) (gue_encap k md p)
     | _ \<Rightarrow> Some (MARLIN_ABORT_NULLREF, ctx, mctx))"

section \<open>VXLAN (vxlan.c)\<close>

definition marlin_vxlan_validate :: "marlin_ctx \<Rightarrow> marlin_ret" where
  "marlin_vxlan_validate mctx =
    (if mc_pkt_len mctx < of_nat ETH_HLEN then MARLIN_DROP_ENCAP_LENGTH
     else marlin_frame_fits mctx (of_nat MARLIN_OVERHEAD_VXLAN))"

text \<open>\<open>Inl\<close> the verdict of a frame with no Ethernet header, \<open>Inr\<close> the two saved addresses.\<close>

definition marlin_vxlan_save_arriving_macs :: "xdp_md \<Rightarrow> (marlin_ret + bytes \<times> bytes) option" where
  "marlin_vxlan_save_arriving_macs md =
    (if length (xdp_data md) < 14 then Some (Inl MARLIN_DROP_PARSE_ERROR)
     else do {
       arriving_dst \<leftarrow> rd 6 0 (xdp_data md);
       arriving_src \<leftarrow> rd 6 6 (xdp_data md);
       Some (Inr (arriving_dst, arriving_src)) })"

definition marlin_vxlan_fixup_inner_eth :: "marlin_ctx \<Rightarrow> bytes \<Rightarrow> bytes \<Rightarrow> bytes option" where
  "marlin_vxlan_fixup_inner_eth mctx f arriving_dst = do {
     f \<leftarrow> wr MARLIN_OVERHEAD_VXLAN (le_bytes 6 (be_inner_mac (mc_backend mctx))) f;
     wr (MARLIN_OVERHEAD_VXLAN + 6) arriving_dst f }"

definition marlin_vxlan_build_outer_eth :: "bytes \<Rightarrow> bytes \<Rightarrow> bytes \<Rightarrow> bytes option" where
  "marlin_vxlan_build_outer_eth f arriving_dst arriving_src = do {
     f \<leftarrow> wr 0 arriving_src f;
     f \<leftarrow> wr 6 arriving_dst f;
     wr 12 (le_bytes 2 (bswap16 ETH_P_IP)) f }"

definition marlin_vxlan_build_outer_ipv4 :: "marlin_ctx \<Rightarrow> u16 \<Rightarrow> iphdr" where
  "marlin_vxlan_build_outer_ipv4 mctx inner_len =
    (let iph = zero_iphdr\<lparr>ip_version := 4, ip_ihl := MARLIN_IPV4_IHL_MIN, ip_tos := marlin_outer_tos mctx,
           ip_frag_off := bswap16 IP_DF, ip_ttl := MARLIN_OUTER_TTL, ip_protocol := IPPROTO_UDP,
           ip_tot_len := bswap16 (of_nat MARLIN_OVERHEAD_VXLAN + inner_len),
           ip_saddr := cfg_tunnel_src (mc_cfg mctx), ip_daddr := be_addr (mc_backend mctx)\<rparr>
     in iph\<lparr>ip_check := marlin_ipv4_csum iph\<rparr>)"

definition marlin_vxlan_build_outer_udp :: "marlin_ctx \<Rightarrow> u16 \<Rightarrow> u16 \<Rightarrow> udphdr" where
  "marlin_vxlan_build_outer_udp mctx sport inner_len =
    \<lparr>udp_source = sport,
     udp_dest = (if be_encap_dport (mc_backend mctx) \<noteq> 0 then be_encap_dport (mc_backend mctx)
                 else bswap16 MARLIN_VXLAN_DPORT_DEFAULT),
     udp_len = bswap16 (of_nat (MARLIN_UDP_HLEN + 8 + ETH_HLEN) + inner_len),
     udp_check = 0\<rparr>"

text \<open>\<^verbatim>\<open>struct marlin_vxlan_hdr\<close> as its eight bytes.\<close>

definition marlin_vxlan_build_vxlan_hdr :: "u32 \<Rightarrow> bytes" where
  "marlin_vxlan_build_vxlan_hdr vni = [MARLIN_VXLAN_FLAG_VNI, 0, 0, 0] @ le_bytes 4 (bswap32 (push_bit 8 vni))"

definition marlin_vxlan_write_outer ::
  "marlin_ctx \<Rightarrow> bytes \<Rightarrow> bytes \<Rightarrow> bytes \<Rightarrow> u16 \<Rightarrow> u16 \<Rightarrow> bytes option" where
  "marlin_vxlan_write_outer mctx f arriving_dst arriving_src sport inner_len = do {
     f \<leftarrow> marlin_vxlan_build_outer_eth f arriving_dst arriving_src;
     f \<leftarrow> wr ETH_HLEN (iphdr_bytes (marlin_vxlan_build_outer_ipv4 mctx inner_len)) f;
     f \<leftarrow> wr (ETH_HLEN + 20) (udphdr_bytes (marlin_vxlan_build_outer_udp mctx sport inner_len)) f;
     wr (ETH_HLEN + 20 + 8) (marlin_vxlan_build_vxlan_hdr (be_vni (mc_backend mctx))) f }"

definition vxlan_encap :: "kernel \<Rightarrow> xdp_md \<Rightarrow> marlin_ctx \<Rightarrow> (marlin_ret \<times> xdp_md \<times> marlin_ctx) option" where
  "vxlan_encap k md mctx =
    (let rc = marlin_vxlan_validate mctx in
     if rc \<noteq> MARLIN_OK then Some (rc, md, mctx)
     else let inner_len = mc_pkt_len mctx - of_nat ETH_HLEN in do {
       macs \<leftarrow> marlin_vxlan_save_arriving_macs md;
       case macs of
         Inl rc \<Rightarrow> Some (rc, md, mctx)
       | Inr (arriving_dst, arriving_src) \<Rightarrow>
           (case k_adjust_head k md (- int MARLIN_OVERHEAD_VXLAN) of
              None \<Rightarrow> Some (MARLIN_DROP_ADJUST_HEAD, md, mctx)
            | Some md \<Rightarrow>
                if length (xdp_data md) < MARLIN_OVERHEAD_VXLAN + ETH_HLEN then Some (MARLIN_DROP_ADJUST_HEAD, md, mctx)
                else do {
                  f \<leftarrow> marlin_vxlan_fixup_inner_eth mctx (xdp_data md) arriving_dst;
                  let sport = marlin_entropy_sport (mc_tuple mctx);
                  f \<leftarrow> marlin_vxlan_write_outer mctx f arriving_dst arriving_src sport inner_len;
                  Some (MARLIN_OK, md\<lparr>xdp_data := f\<rparr>,
                    mctx\<lparr>mc_l3_off := of_nat ETH_HLEN,
                         mc_pkt_len := of_nat ETH_HLEN + of_nat MARLIN_OVERHEAD_VXLAN + inner_len\<rparr>) }) })"

definition marlin_vxlan_encap_packet ::
  "kernel \<Rightarrow> xdp_md option \<Rightarrow> marlin_ctx option \<Rightarrow> (marlin_ret \<times> xdp_md option \<times> marlin_ctx option) option" where
  "marlin_vxlan_encap_packet k ctx mctx =
    (case (ctx, mctx) of
       (Some md, Some p) \<Rightarrow> map_option (\<lambda>(rc, md, p). (rc, Some md, Some p)) (vxlan_encap k md p)
     | _ \<Rightarrow> Some (MARLIN_ABORT_NULLREF, ctx, mctx))"

section \<open>The contract of an encapsulation unit\<close>

text \<open>The outer IPv4 header of a tunnel packet with \<open>len\<close> bytes from that header on.\<close>

definition outer_ipv4 :: "marlin_ctx \<Rightarrow> u8 \<Rightarrow> u16 \<Rightarrow> iphdr" where
  "outer_ipv4 p proto len =
    (let h = \<lparr>ip_version = 4, ip_ihl = 5, ip_tos = marlin_outer_tos p, ip_tot_len = bswap16 len, ip_id = 0,
           ip_frag_off = bswap16 IP_DF, ip_ttl = MARLIN_OUTER_TTL, ip_protocol = proto, ip_check = 0,
           ip_saddr = cfg_tunnel_src (mc_cfg p), ip_daddr = be_addr (mc_backend p)\<rparr>
     in h\<lparr>ip_check := marlin_ipv4_csum h\<rparr>)"

lemma outer_ipv4_hdr:
  "iphdr_bytes (outer_ipv4 p proto len) = ipv4_hdr (marlin_outer_tos p) (bswap16 len) 0 (bswap16 IP_DF) MARLIN_OUTER_TTL proto
     (ip_check (outer_ipv4 p proto len)) (cfg_tunnel_src (mc_cfg p)) (be_addr (mc_backend p)) []"
  by (simp add: iphdr_bytes_def ipv4_hdr_def outer_ipv4_def Let_def)

lemma outer_ipv4_csum: "marlin_csum_fold (marlin_csum_words (iphdr_bytes (outer_ipv4 p proto len)) 20 0) = 0"
  unfolding outer_ipv4_def Let_def by (rule marlin_ipv4_csum_verifies)

lemma eth_ip_bytes [simp]: "le_bytes 2 (bswap16 0x0800) = [8, 0]"
  by code_simp

locale encap_unit =
  fixes encap :: "kernel \<Rightarrow> xdp_md \<Rightarrow> marlin_ctx \<Rightarrow> (marlin_ret \<times> xdp_md \<times> marlin_ctx) option"
    and overhead :: nat
    and proto :: "marlin_ctx \<Rightarrow> u8"
  assumes overhead: "20 \<le> overhead" "overhead \<le> 50"
    and safe: "safe (encap k md p)"
    and success: "adjust_head_ok k \<Longrightarrow> encap k md p = Some (MARLIN_OK, md', p') \<Longrightarrow>
      14 \<le> length (xdp_data md) \<and> 14 \<le> unat (mc_pkt_len p) \<and> marlin_frame_fits p (of_nat overhead) = MARLIN_OK \<and>
      p' = p\<lparr>mc_l3_off := 14, mc_pkt_len := mc_pkt_len p + of_nat overhead\<rparr> \<and>
      (\<exists>macs mid. length macs = 12 \<and> length mid = overhead - 20 \<and>
         md' = md\<lparr>xdp_data := (macs @ [8, 0]) @ iphdr_bytes (outer_ipv4 p (proto p) (mc_pkt_len p - 14 + of_nat overhead)) @
           mid @ drop 14 (xdp_data md)\<rparr>)"
    and progress: "adjust_head_ok k \<Longrightarrow> 14 \<le> length (xdp_data md) \<Longrightarrow> 14 \<le> unat (mc_pkt_len p) \<Longrightarrow>
      marlin_frame_fits p (of_nat overhead) = MARLIN_OK \<Longrightarrow> k_adjust_head k md (- int overhead) \<noteq> None \<Longrightarrow>
      \<exists>md' p'. encap k md p = Some (MARLIN_OK, md', p')"
begin

lemma payload_kept:
  assumes "adjust_head_ok k" "encap k md p = Some (MARLIN_OK, md', p')"
  shows "length (xdp_data md') = length (xdp_data md) + overhead \<and>
    drop (14 + overhead) (xdp_data md') = drop 14 (xdp_data md) \<and> xdp_ingress_ifindex md' = xdp_ingress_ifindex md"
proof -
  obtain macs mid h where "14 \<le> length (xdp_data md)" "length macs = 12" "length mid = overhead - 20" and h: "length h = 20"
    and md': "md' = md\<lparr>xdp_data := (macs @ [8, 0]) @ h @ mid @ drop 14 (xdp_data md)\<rparr>"
    using success [OF assms] length_iphdr_bytes by blast
  then show ?thesis using overhead by (simp add: md')
qed

lemma limit_kept:
  assumes "adjust_head_ok k" "encap k md p = Some (MARLIN_OK, md', p')" "cfg_max_frame (mc_cfg p) \<noteq> 0"
  shows "unat (mc_pkt_len p) + overhead \<le> unat (cfg_max_frame (mc_cfg p)) \<and>
    unat (mc_pkt_len p') = unat (mc_pkt_len p) + overhead"
proof -
  have fits: "marlin_frame_fits p (of_nat overhead) = MARLIN_OK" and p': "mc_pkt_len p' = mc_pkt_len p + of_nat overhead"
    using success [OF assms(1,2)] by auto
  have ov: "unat (of_nat overhead :: u16) = overhead" using overhead by (simp add: unat_of_nat)
  have "unat (ucast (mc_pkt_len p) + ucast (of_nat overhead :: u16) :: u32) = unat (mc_pkt_len p) + overhead"
    using unat_u16_le [of "mc_pkt_len p"] overhead by (subst unat_add_nowrap) (simp_all add: unat_ucast_up_le ov)
  with fits assms(3) have le: "unat (mc_pkt_len p) + overhead \<le> unat (cfg_max_frame (mc_cfg p))"
    by (auto simp: marlin_frame_fits_def word_less_nat_alt unat_ucast_up_le not_less split: if_splits)
  then have "unat (mc_pkt_len p) + overhead < 65536"
    using unat_u16_le [of "cfg_max_frame (mc_cfg p)"] by linarith
  then have "unat (mc_pkt_len p') = unat (mc_pkt_len p) + overhead"
    unfolding p' using ov by (subst unat_add_nowrap) simp_all
  with le show ?thesis by blast
qed

text \<open>The outer header parses as what it should be, and both its length and its checksum are right.\<close>

lemma outer_header:
  assumes "adjust_head_ok k" "encap k md p = Some (MARLIN_OK, md', p')"
    and "unat (mc_pkt_len p) = length (xdp_data md)" "length (xdp_data md) + overhead < 65536"
  shows "marlin_parse_l3 (xdp_data md') 14 AF_INET n =
      Some (MARLIN_OK, \<lparr>l3_src = (cfg_tunnel_src (mc_cfg p), 0, 0, 0), l3_dst = (be_addr (mc_backend p), 0, 0, 0),
         l3_l4_off = 34, l3_flags = 0, l3_proto = proto p, l3_frag_ext = 0\<rparr>)" (is ?parse)
    and "\<exists>len. rd16 16 (xdp_data md') = Some len \<and> unat (bswap16 len) + 14 = length (xdp_data md')" (is ?length)
    and "marlin_csum_fold (marlin_csum_words (take 20 (drop 14 (xdp_data md'))) 20 0) = 0" (is ?csum)
    and "unat (mc_pkt_len p') = length (xdp_data md')" (is ?sync)
proof -
  let ?len = "mc_pkt_len p - 14 + of_nat overhead :: u16"
  let ?h = "iphdr_bytes (outer_ipv4 p (proto p) ?len)"
  obtain macs mid where pre: "14 \<le> length (xdp_data md)" "length macs = 12" "length mid = overhead - 20"
    and md': "xdp_data md' = (macs @ [8, 0]) @ ?h @ mid @ drop 14 (xdp_data md)"
    and p': "mc_pkt_len p' = mc_pkt_len p + of_nat overhead"
    using success [OF assms(1,2)] by auto
  have ov: "unat (of_nat overhead :: u16) = overhead" using overhead by (simp add: unat_of_nat)
  have "unat (mc_pkt_len p - 14) = length (xdp_data md) - 14"
    using assms(3) pre(1) by (subst unat_sub) (simp_all add: word_le_nat_alt)
  then have len: "unat ?len = length (xdp_data md) - 14 + overhead"
    using assms(4) ov by (subst unat_add_nowrap) simp_all
  have "marlin_parse_l3 (xdp_data md') (14 :: u32) AF_INET n = Some (MARLIN_OK, \<lparr>l3_src = (cfg_tunnel_src (mc_cfg p), 0, 0, 0),
      l3_dst = (be_addr (mc_backend p), 0, 0, 0), l3_l4_off = 14 + of_nat (20 + 4 * length ([] :: u32 list)),
      l3_flags = marlin_parse_frag4 (bswap16 IP_DF), l3_proto = proto p, l3_frag_ext = 0\<rparr>)"
    unfolding md' outer_ipv4_hdr by (rule parse_l3_ipv4) (use pre in simp_all)
  then show ?parse by (simp add: frag4_none)
  have "rd16 16 (xdp_data md') = Some (bswap16 ?len)"
    using rd_shift(3) [of "macs @ [8, 0]" 2 "?h @ mid @ drop 14 (xdp_data md)"] pre
    unfolding md' by (simp add: iphdr_bytes_def outer_ipv4_def Let_def rd16_def rd_def)
  then show ?length using len pre overhead by (simp add: md')
  have "take 20 (drop 14 (xdp_data md')) = ?h" using pre by (simp add: md')
  then show ?csum by (simp add: outer_ipv4_csum)
  show ?sync
    unfolding p' using assms(3,4) ov payload_kept [OF assms(1,2)] by (subst unat_add_nowrap) simp_all
qed

end

section \<open>The three units keep it\<close>

lemma adjust_head_cases:
  assumes "adjust_head_ok k" "k_adjust_head k md (- int n) = Some md1"
  obtains junk where "length junk = n" "md1 = md\<lparr>xdp_data := junk @ xdp_data md\<rparr>"
  using adjust_head_okD [OF assms] by blast

lemma pkt_len_ge: "\<not> (l :: u16) < 14 \<longleftrightarrow> 14 \<le> unat l"
  by (simp add: word_less_nat_alt not_less)

lemma outer_ipv4_builders:
  "marlin_ipip_build_outer_ipv4 p n =
     outer_ipv4 p (if pt_family (mc_tuple p) = AF_INET6 then IPPROTO_IPV6 else IPPROTO_IPIP) (n + of_nat MARLIN_OVERHEAD_IPIP)"
  "marlin_gue_build_outer_ipv4 p n = outer_ipv4 p IPPROTO_UDP (n + of_nat MARLIN_OVERHEAD_GUE)"
  "marlin_vxlan_build_outer_ipv4 p n = outer_ipv4 p IPPROTO_UDP (n + of_nat MARLIN_OVERHEAD_VXLAN)"
  by (simp_all add: marlin_ipip_build_outer_ipv4_def marlin_gue_build_outer_ipv4_def marlin_vxlan_build_outer_ipv4_def
      outer_ipv4_def zero_iphdr_def Let_def add.commute)

text \<open>A unit keeps the contract when it emits a frame of the right shape whenever its guards pass.\<close>

lemma encap_unitI:
  assumes n: "20 \<le> n" "n \<le> 50" and safe: "\<And>k md p. safe (encap k md p)"
    and emits: "\<And>k md p junk. k_adjust_head k md (- int n) = Some (md\<lparr>xdp_data := junk @ xdp_data md\<rparr>) \<Longrightarrow>
      length junk = n \<Longrightarrow> 14 \<le> length (xdp_data md) \<Longrightarrow> 14 \<le> unat (mc_pkt_len p) \<Longrightarrow>
      marlin_frame_fits p (of_nat n) = MARLIN_OK \<Longrightarrow>
      encap k md p = Some (MARLIN_OK,
        md\<lparr>xdp_data := (macs (xdp_data md) @ [8, 0]) @ iphdr_bytes (outer_ipv4 p (proto p) (mc_pkt_len p - 14 + of_nat n)) @
          mid p (xdp_data md) @ drop 14 (xdp_data md)\<rparr>,
        p\<lparr>mc_l3_off := 14, mc_pkt_len := mc_pkt_len p + of_nat n\<rparr>)"
    and guards: "\<And>k md p md' p'. encap k md p = Some (MARLIN_OK, md', p') \<Longrightarrow> 14 \<le> unat (mc_pkt_len p) \<and>
      marlin_frame_fits p (of_nat n) = MARLIN_OK \<and>
      (\<exists>md1. k_adjust_head k md (- int n) = Some md1 \<and> n + 14 \<le> length (xdp_data md1))"
    and shape: "\<And>d. 14 \<le> length d \<Longrightarrow> length (macs d) = 12" "\<And>p d. 14 \<le> length d \<Longrightarrow> length (mid p d) = n - 20"
  shows "encap_unit encap n proto"
proof
  fix k md p md' p'
  assume k: "adjust_head_ok k" and run: "encap k md p = Some (MARLIN_OK, md', p')"
  from guards [OF run] obtain md1 where g: "14 \<le> unat (mc_pkt_len p)" "marlin_frame_fits p (of_nat n) = MARLIN_OK"
    and adj: "k_adjust_head k md (- int n) = Some md1" and len: "n + 14 \<le> length (xdp_data md1)" by blast
  from adjust_head_cases [OF k adj] obtain junk where junk: "length junk = n" "md1 = md\<lparr>xdp_data := junk @ xdp_data md\<rparr>" .
  with len have d: "14 \<le> length (xdp_data md)" by simp
  from emits [OF adj [unfolded junk(2)] junk(1) d g] run shape [OF d] d g
  show "14 \<le> length (xdp_data md) \<and> 14 \<le> unat (mc_pkt_len p) \<and> marlin_frame_fits p (of_nat n) = MARLIN_OK \<and>
      p' = p\<lparr>mc_l3_off := 14, mc_pkt_len := mc_pkt_len p + of_nat n\<rparr> \<and>
      (\<exists>macs mid. length macs = 12 \<and> length mid = n - 20 \<and>
         md' = md\<lparr>xdp_data := (macs @ [8, 0]) @ iphdr_bytes (outer_ipv4 p (proto p) (mc_pkt_len p - 14 + of_nat n)) @
           mid @ drop 14 (xdp_data md)\<rparr>)" by auto
next
  fix k md p
  assume k: "adjust_head_ok k" and pre: "14 \<le> length (xdp_data md)" "14 \<le> unat (mc_pkt_len p)"
      "marlin_frame_fits p (of_nat n) = MARLIN_OK" and "k_adjust_head k md (- int n) \<noteq> None"
  then obtain md1 where adj: "k_adjust_head k md (- int n) = Some md1" by auto
  from adjust_head_cases [OF k adj] obtain junk where "length junk = n" "md1 = md\<lparr>xdp_data := junk @ xdp_data md\<rparr>" .
  with emits [of k md junk p] adj pre show "\<exists>md' p'. encap k md p = Some (MARLIN_OK, md', p')" by simp
qed (use n safe in auto)

subsection \<open>IP-in-IP\<close>

lemma ipip_write:
  assumes "length junk = 20" "14 \<le> length d"
  shows "marlin_ipip_write_outer p (junk @ d) n =
    Some ((take 12 d @ [8, 0]) @ iphdr_bytes (marlin_ipip_build_outer_ipv4 p n) @ drop 14 d)"
  using assms by (simp add: marlin_ipip_write_outer_def marlin_ipip_build_outer_eth_def rd_def wr_def min_def)

interpretation ipip: encap_unit ipip_encap 20
  "\<lambda>p. if pt_family (mc_tuple p) = AF_INET6 then IPPROTO_IPV6 else IPPROTO_IPIP"
proof (rule encap_unitI [where macs = "take 12" and mid = "\<lambda>_ _. []"], goal_cases)
  case (3 k md p)
  show ?case
    by (auto simp: ipip_encap_def marlin_ipip_write_outer_def marlin_ipip_build_outer_eth_def Let_def mem_simps
        split: option.split intro!: safe_bind)
next
  case (4 k md p junk)
  with ipip_write [of junk "xdp_data md" p] show ?case
    by (simp add: ipip_encap_def marlin_ipip_validate_def Let_def pkt_len_ge outer_ipv4_builders)
next
  case (5 k md p md' p')
  then show ?case
    by (auto simp: ipip_encap_def marlin_ipip_validate_def Let_def pkt_len_ge split: if_splits option.splits)
qed simp_all

subsection \<open>GUE\<close>

definition gue_mid :: "marlin_ctx \<Rightarrow> bytes" where
  "gue_mid p = udphdr_bytes (marlin_gue_build_outer_udp p (marlin_entropy_sport (mc_tuple p)) (mc_pkt_len p - 14)) @
     marlin_gue_build_gue_hdr (pt_family (mc_tuple p))"

lemma length_udphdr_bytes [simp]: "length (udphdr_bytes u) = 8"
  by (simp add: udphdr_bytes_def)

lemma length_gue_hdr [simp]: "length (marlin_gue_build_gue_hdr fam) = 4"
  by (simp add: marlin_gue_build_gue_hdr_def)

lemma gue_write_l3:
  assumes "length junk = 32" "14 \<le> length d"
  shows "marlin_gue_write_outer_l3 p (junk @ d) n =
    Some (((take 12 d @ [8, 0]) @ iphdr_bytes (marlin_gue_build_outer_ipv4 p n)) @ drop 2 d)"
  using assms by (simp add: marlin_gue_write_outer_l3_def marlin_gue_build_outer_eth_def rd_def wr_def min_def)

lemma gue_write_l4:
  assumes "length a = 34" "14 \<le> length d"
  shows "marlin_gue_write_outer_l4 p (a @ drop 2 d) sport n =
    Some (a @ udphdr_bytes (marlin_gue_build_outer_udp p sport n) @ marlin_gue_build_gue_hdr (pt_family (mc_tuple p)) @ drop 14 d)"
  using assms by (simp add: marlin_gue_write_outer_l4_def wr_def)

interpretation gue: encap_unit gue_encap 32 "\<lambda>p. IPPROTO_UDP"
proof (rule encap_unitI [where macs = "take 12" and mid = "\<lambda>p _. gue_mid p"], goal_cases)
  case (3 k md p)
  have l4: "safe (marlin_gue_write_outer_l4 p f sport n)" if "46 \<le> length f" for f sport n
    using that by (auto simp: marlin_gue_write_outer_l4_def mem_simps intro!: safe_bind dest: wr_length)
  show ?case
    by (auto simp: gue_encap_def marlin_gue_write_outer_l3_def marlin_gue_build_outer_eth_def Let_def mem_simps
        split: option.split intro!: safe_bind l4)
next
  case (4 k md p junk)
  let ?a = "(take 12 (xdp_data md) @ [8, 0]) @ iphdr_bytes (marlin_gue_build_outer_ipv4 p (mc_pkt_len p - 14))"
  have "length ?a = 34" using 4 by simp
  with 4 gue_write_l3 [of junk "xdp_data md" p] gue_write_l4 [of ?a "xdp_data md" p] show ?case
    by (simp add: gue_encap_def marlin_gue_validate_def Let_def pkt_len_ge outer_ipv4_builders gue_mid_def)
next
  case (5 k md p md' p')
  then show ?case
    by (auto simp: gue_encap_def marlin_gue_validate_def Let_def pkt_len_ge split: if_splits option.splits)
qed (simp_all add: gue_mid_def)

subsection \<open>VXLAN\<close>

definition vxlan_mid :: "marlin_ctx \<Rightarrow> bytes \<Rightarrow> bytes" where
  "vxlan_mid p d = udphdr_bytes (marlin_vxlan_build_outer_udp p (marlin_entropy_sport (mc_tuple p)) (mc_pkt_len p - 14)) @
     marlin_vxlan_build_vxlan_hdr (be_vni (mc_backend p)) @ le_bytes 6 (be_inner_mac (mc_backend p)) @ take 6 d @ take 2 (drop 12 d)"

lemma length_vxlan_hdr [simp]: "length (marlin_vxlan_build_vxlan_hdr vni) = 8"
  by (simp add: marlin_vxlan_build_vxlan_hdr_def)

lemma vxlan_fixup:
  assumes "length junk = 50" "14 \<le> length d" "length dst = 6"
  shows "marlin_vxlan_fixup_inner_eth p (junk @ d) dst =
    Some (junk @ le_bytes 6 (be_inner_mac (mc_backend p)) @ dst @ drop 12 d)"
  using assms by (simp add: marlin_vxlan_fixup_inner_eth_def wr_def)

lemma vxlan_write:
  assumes "length junk = 50" "length dst = 6" "length src = 6"
  shows "marlin_vxlan_write_outer p (junk @ r) dst src sport n =
    Some (((src @ dst) @ [8, 0]) @ iphdr_bytes (marlin_vxlan_build_outer_ipv4 p n) @
      udphdr_bytes (marlin_vxlan_build_outer_udp p sport n) @ marlin_vxlan_build_vxlan_hdr (be_vni (mc_backend p)) @ r)"
  using assms by (simp add: marlin_vxlan_write_outer_def marlin_vxlan_build_outer_eth_def wr_def)

interpretation vxlan: encap_unit vxlan_encap 50 "\<lambda>p. IPPROTO_UDP"
proof (rule encap_unitI [where macs = "\<lambda>d. take 6 (drop 6 d) @ take 6 d" and mid = vxlan_mid], goal_cases)
  case (3 k md p)
  have wsafe: "safe (marlin_vxlan_write_outer p f dst src sport n)" if "64 \<le> length f" "length dst = 6" "length src = 6" for f dst src sport n
    using that by (auto simp: marlin_vxlan_write_outer_def marlin_vxlan_build_outer_eth_def mem_simps intro!: safe_bind)
  have fixup: "safe (marlin_vxlan_fixup_inner_eth p f dst)" if "64 \<le> length f" "length dst = 6" for f dst
    using that by (auto simp: marlin_vxlan_fixup_inner_eth_def mem_simps intro!: safe_bind)
  have len: "length f' = length f" if "marlin_vxlan_fixup_inner_eth p f dst = Some f'" for f f' dst
    using that by (auto simp: marlin_vxlan_fixup_inner_eth_def dest!: wr_length split: bind_splits)
  show ?case
    by (auto simp: vxlan_encap_def marlin_vxlan_save_arriving_macs_def Let_def rd_def
        split: option.split if_splits intro!: safe_bind wsafe fixup dest: len)
next
  case (4 k md p junk)
  let ?d = "xdp_data md"
  have "drop 12 ?d = take 2 (drop 12 ?d) @ drop 14 ?d"
    using append_take_drop_id [of 2 "drop 12 ?d"] by simp
  moreover have "marlin_vxlan_save_arriving_macs md = Some (Inr (take 6 ?d, take 6 (drop 6 ?d)))"
    using 4 by (simp add: marlin_vxlan_save_arriving_macs_def rd_def)
  ultimately show ?case
    using 4 vxlan_fixup [of junk ?d "take 6 ?d" p] vxlan_write [of junk "take 6 ?d" "take 6 (drop 6 ?d)" p]
    by (simp add: vxlan_encap_def marlin_vxlan_validate_def Let_def pkt_len_ge outer_ipv4_builders vxlan_mid_def)
next
  case (5 k md p md' p')
  have "marlin_vxlan_save_arriving_macs md \<noteq> Some (Inl MARLIN_OK)"
    by (auto simp: marlin_vxlan_save_arriving_macs_def split: bind_splits)
  with 5 show ?case
    by (auto simp: vxlan_encap_def marlin_vxlan_validate_def Let_def pkt_len_ge
        split: if_splits option.splits bind_splits sum.splits)
qed (simp_all add: vxlan_mid_def)

end
