(* ===== verification/Marlin_Nexthop.thy ===== *)
theory Marlin_Nexthop
  imports Marlin_Stats Marlin_Parser
begin

text \<open>
  Next-hop resolution of \<^verbatim>\<open>nexthop.c\<close>: the MAC addresses of the frame that leaves, from the stored
  backend address, the arriving frame or the kernel's FIB. The Ethernet header is the first
  fourteen bytes of the frame; an operation returns the verdict, the frame and the maps.
\<close>

section \<open>Definitions\<close>

datatype marlin_nh_discipline = MARLIN_NH_ENCAP | MARLIN_NH_L2DSR

definition marlin_nexthop_eth :: "xdp_md \<Rightarrow> nat option" where
  "marlin_nexthop_eth md = (if length (xdp_data md) < 14 then None else Some 0)"

definition marlin_backend_mac_set :: "backend \<Rightarrow> bool" where
  "marlin_backend_mac_set be \<longleftrightarrow> foldl (OR) 0 (le_bytes 6 (be_mac be)) \<noteq> 0"

definition marlin_nexthop_store_mac :: "bytes \<Rightarrow> nat \<Rightarrow> backend \<Rightarrow> bytes option" where
  "marlin_nexthop_store_mac f eth be = do {
     h_dest \<leftarrow> rd 6 eth f;
     f \<leftarrow> wr (eth + 6) h_dest f;
     wr eth (le_bytes 6 (be_mac be)) f }"

definition marlin_fib_onlink :: "bpf_fib \<Rightarrow> u32 \<Rightarrow> bool" where
  "marlin_fib_onlink fib backend_addr \<longleftrightarrow> fib_family fib = AF_INET \<and> fib_ipv4_dst fib = backend_addr"

definition marlin_nexthop_check_egress :: "backend \<Rightarrow> u32 \<Rightarrow> bpf_maps \<Rightarrow> bpf_maps" where
  "marlin_nexthop_check_egress be ifindex m =
    (if be_egress_ifindex be \<noteq> 0 \<and> be_egress_ifindex be \<noteq> ifindex
     then marlin_stats_reason MARLIN_COUNT_EGRESS_MISMATCH m else m)"

text \<open>The parameter block the lookup is given.\<close>

definition fib_request :: "xdp_md \<Rightarrow> marlin_ctx \<Rightarrow> bpf_fib" where
  "fib_request md mctx = \<lparr>fib_family = AF_INET, fib_tot_len = of_nat (length (xdp_data md)) - of_nat ETH_HLEN,
     fib_ifindex = xdp_ingress_ifindex md, fib_tos = marlin_outer_tos mctx, fib_ipv4_dst = be_addr (mc_backend mctx),
     fib_smac = 0, fib_dmac = 0\<rparr>"

text \<open>What the program does with a successful lookup.\<close>

definition nexthop_fib_success ::
  "kernel \<Rightarrow> xdp_md \<Rightarrow> marlin_ctx \<Rightarrow> nat \<Rightarrow> marlin_nh_discipline \<Rightarrow> bpf_fib \<Rightarrow> bpf_maps \<Rightarrow> (marlin_ret \<times> xdp_md \<times> bpf_maps) option" where
  "nexthop_fib_success k md mctx eth disc fib m =
    (if disc = MARLIN_NH_L2DSR \<and> \<not> marlin_fib_onlink fib (be_addr (mc_backend mctx)) then
       Some (MARLIN_DROP_FIB_GATEWAYED, md, m)
     else do {
       f \<leftarrow> wr (eth + 6) (le_bytes 6 (fib_smac fib)) (xdp_data md);
       f \<leftarrow> wr eth (le_bytes 6 (fib_dmac fib)) f;
       let md = md\<lparr>xdp_data := f\<rparr>;
       let m = marlin_nexthop_check_egress (mc_backend mctx) (fib_ifindex fib) m;
       if fib_ifindex fib = xdp_ingress_ifindex md then Some (MARLIN_OK_TX, md, m)
       else if k_redirect_map k (m_tx_ports m) (fib_ifindex fib) \<noteq> XDP_REDIRECT then Some (MARLIN_DROP_NO_TX_PORT, md, m)
       else Some (MARLIN_OK_REDIRECT, md, m) })"

definition marlin_nexthop_fib ::
  "kernel \<Rightarrow> xdp_md \<Rightarrow> marlin_ctx \<Rightarrow> nat \<Rightarrow> marlin_nh_discipline \<Rightarrow> bpf_maps \<Rightarrow> (marlin_ret \<times> xdp_md \<times> bpf_maps) option" where
  "marlin_nexthop_fib k md mctx eth disc m =
    (if be_addr (mc_backend mctx) = 0 then Some (MARLIN_DROP_BACKEND_UNRESOLVED, md, m)
     else case k_fib_lookup k md (fib_request md mctx) of
       (rc, fib) \<Rightarrow>
         (case rc of
            BPF_FIB_LKUP_RET_SUCCESS \<Rightarrow> nexthop_fib_success k md mctx eth disc fib m
          | BPF_FIB_LKUP_RET_NO_NEIGH \<Rightarrow>
              if disc = MARLIN_NH_L2DSR \<and> marlin_fib_onlink fib (be_addr (mc_backend mctx)) \<and>
                 fib_ifindex fib = xdp_ingress_ifindex md \<and> marlin_backend_mac_set (mc_backend mctx)
              then do {
                let m = marlin_nexthop_check_egress (mc_backend mctx) (fib_ifindex fib) m;
                f \<leftarrow> marlin_nexthop_store_mac (xdp_data md) eth (mc_backend mctx);
                Some (MARLIN_OK_TX, md\<lparr>xdp_data := f\<rparr>, marlin_stats_reason MARLIN_COUNT_NEIGH_FALLBACK m) }
              else Some (MARLIN_DROP_FIB_NO_NEIGH, md, m)
          | BPF_FIB_LKUP_RET_FWD_DISABLED \<Rightarrow> Some (MARLIN_DROP_FIB_FWD_DISABLED, md, m)
          | BPF_FIB_LKUP_RET_BLACKHOLE \<Rightarrow> Some (MARLIN_DROP_FIB_BLACKHOLE, md, m)
          | BPF_FIB_LKUP_RET_UNREACHABLE \<Rightarrow> Some (MARLIN_DROP_FIB_UNREACHABLE, md, m)
          | BPF_FIB_LKUP_RET_PROHIBIT \<Rightarrow> Some (MARLIN_DROP_FIB_PROHIBIT, md, m)
          | BPF_FIB_LKUP_RET_FRAG_NEEDED \<Rightarrow> Some (MARLIN_DROP_FRAG_NEEDED, md, m)
          | _ \<Rightarrow> Some (MARLIN_DROP_FIB_UNSPEC, md, m)))"

definition nexthop_l2dsr :: "kernel \<Rightarrow> xdp_md \<Rightarrow> marlin_ctx \<Rightarrow> bpf_maps \<Rightarrow> (marlin_ret \<times> xdp_md \<times> bpf_maps) option" where
  "nexthop_l2dsr k md mctx m =
    (case marlin_nexthop_eth md of
       None \<Rightarrow> Some (MARLIN_DROP_PARSE_ERROR, md, m)
     | Some eth \<Rightarrow>
         if be_flags (mc_backend mctx) AND MARLIN_BE_F_FIB = 0 then
           (if marlin_backend_mac_set (mc_backend mctx) then do {
              let m = marlin_nexthop_check_egress (mc_backend mctx) (xdp_ingress_ifindex md) m;
              f \<leftarrow> marlin_nexthop_store_mac (xdp_data md) eth (mc_backend mctx);
              Some (MARLIN_OK_TX, md\<lparr>xdp_data := f\<rparr>, m) }
            else marlin_nexthop_fib k md mctx eth MARLIN_NH_L2DSR
              (if be_addr (mc_backend mctx) \<noteq> 0 then marlin_stats_reason MARLIN_COUNT_MAC_FALLBACK m else m))
         else marlin_nexthop_fib k md mctx eth MARLIN_NH_L2DSR m)"

definition nexthop_encapsulate :: "kernel \<Rightarrow> xdp_md \<Rightarrow> marlin_ctx \<Rightarrow> bpf_maps \<Rightarrow> (marlin_ret \<times> xdp_md \<times> bpf_maps) option" where
  "nexthop_encapsulate k md mctx m =
    (case marlin_nexthop_eth md of
       None \<Rightarrow> Some (MARLIN_DROP_PARSE_ERROR, md, m)
     | Some eth \<Rightarrow>
         if be_flags (mc_backend mctx) AND MARLIN_BE_F_FIB \<noteq> 0 then marlin_nexthop_fib k md mctx eth MARLIN_NH_ENCAP m
         else do {
           let m = marlin_nexthop_check_egress (mc_backend mctx) (xdp_ingress_ifindex md) m;
           if ENCAP_MODE (be_flags (mc_backend mctx)) = MARLIN_MODE_VXLAN then Some (MARLIN_OK_TX, md, m)
           else do {
             tmp \<leftarrow> rd 6 eth (xdp_data md);
             h_source \<leftarrow> rd 6 (eth + 6) (xdp_data md);
             f \<leftarrow> wr eth h_source (xdp_data md);
             f \<leftarrow> wr (eth + 6) tmp f;
             Some (MARLIN_OK_TX, md\<lparr>xdp_data := f\<rparr>, m) }})"

text \<open>The entry points with their null checks.\<close>

definition marlin_nexthop_l2dsr ::
  "kernel \<Rightarrow> xdp_md option \<Rightarrow> marlin_ctx option \<Rightarrow> bpf_maps \<Rightarrow> (marlin_ret \<times> xdp_md option \<times> bpf_maps) option" where
  "marlin_nexthop_l2dsr k ctx mctx m =
    (case (ctx, mctx) of
       (Some md, Some p) \<Rightarrow> map_option (\<lambda>(rc, md, m). (rc, Some md, m)) (nexthop_l2dsr k md p m)
     | _ \<Rightarrow> Some (MARLIN_ABORT_NULLREF, ctx, m))"

definition marlin_nexthop_encapsulate ::
  "kernel \<Rightarrow> xdp_md option \<Rightarrow> marlin_ctx option \<Rightarrow> bpf_maps \<Rightarrow> (marlin_ret \<times> xdp_md option \<times> bpf_maps) option" where
  "marlin_nexthop_encapsulate k ctx mctx m =
    (case (ctx, mctx) of
       (Some md, Some p) \<Rightarrow> map_option (\<lambda>(rc, md, m). (rc, Some md, m)) (nexthop_encapsulate k md p m)
     | _ \<Rightarrow> Some (MARLIN_ABORT_NULLREF, ctx, m))"

section \<open>What next-hop resolution may do\<close>

text \<open>
  The promise both disciplines share: they never leave the frame's bounds, they write nothing but
  the two MAC addresses, they change no table, they keep the set of counters, and a verdict is a
  forwarding one or a drop the FIB, the frame or the port map explains.
\<close>

definition nh_verdicts :: "marlin_ret set" where
  "nh_verdicts = {MARLIN_OK_TX, MARLIN_OK_REDIRECT, MARLIN_DROP_PARSE_ERROR, MARLIN_DROP_BACKEND_UNRESOLVED,
     MARLIN_DROP_FIB_NO_NEIGH, MARLIN_DROP_FIB_FWD_DISABLED, MARLIN_DROP_FIB_BLACKHOLE, MARLIN_DROP_FIB_UNREACHABLE,
     MARLIN_DROP_FIB_PROHIBIT, MARLIN_DROP_FRAG_NEEDED, MARLIN_DROP_FIB_UNSPEC, MARLIN_DROP_FIB_GATEWAYED,
     MARLIN_DROP_NO_TX_PORT}"

definition nh_counts :: "marlin_ret set" where
  "nh_counts = {MARLIN_COUNT_MAC_FALLBACK, MARLIN_COUNT_NEIGH_FALLBACK, MARLIN_COUNT_EGRESS_MISMATCH}"

lemma counted_check_egress [counted_intros]: "counted nh_counts m (marlin_nexthop_check_egress be i m)"
  by (auto simp: marlin_nexthop_check_egress_def nh_counts_def intro: counted_intros)

text \<open>A frame with other MAC addresses and nothing else changed.\<close>

definition macs_only :: "bytes \<Rightarrow> bytes \<Rightarrow> bool" where
  "macs_only f f' \<longleftrightarrow> length f' = length f \<and> drop 12 f' = drop 12 f"

lemma macs_only_refl [simp, intro]: "macs_only f f"
  by (simp add: macs_only_def)

lemma macs_only_trans: "macs_only a b \<Longrightarrow> macs_only b c \<Longrightarrow> macs_only a c"
  by (simp add: macs_only_def)

lemma wr_macs: "wr off bs f = Some f' \<Longrightarrow> off + length bs \<le> 12 \<Longrightarrow> macs_only f f'"
  by (auto simp: wr_def macs_only_def split: if_splits)

lemma store_mac_macs: "marlin_nexthop_store_mac f 0 be = Some f' \<Longrightarrow> macs_only f f'"
  by (auto simp: marlin_nexthop_store_mac_def rd_def split: bind_splits if_splits intro: macs_only_trans dest!: wr_macs)

lemma safe_store_mac: "14 \<le> length f \<Longrightarrow> safe (marlin_nexthop_store_mac f 0 be)"
  by (auto simp: marlin_nexthop_store_mac_def mem_simps intro!: safe_bind)

definition nh_result :: "xdp_md \<Rightarrow> bpf_maps \<Rightarrow> (marlin_ret \<times> xdp_md \<times> bpf_maps) \<Rightarrow> bool" where
  "nh_result md m res \<longleftrightarrow> (case res of (rc, md', m') \<Rightarrow>
     rc \<in> nh_verdicts \<and> counted nh_counts m m' \<and> macs_only (xdp_data md) (xdp_data md') \<and>
     xdp_ingress_ifindex md' = xdp_ingress_ifindex md)"

lemma fib_success_result:
  assumes "14 \<le> length (xdp_data md)"
  shows "\<exists>res. nexthop_fib_success k md p 0 disc fib m = Some res \<and> nh_result md m res"
proof -
  obtain f where f: "wr 6 (le_bytes 6 (fib_smac fib)) (xdp_data md) = Some f" "macs_only (xdp_data md) f"
    using assms wr_macs [of 6 "le_bytes 6 (fib_smac fib)" "xdp_data md"] by (auto simp: mem_simps)
  moreover obtain f' where "wr 0 (le_bytes 6 (fib_dmac fib)) f = Some f'" "macs_only f f'"
    using assms f(2) wr_macs [of 0 "le_bytes 6 (fib_dmac fib)" f] by (auto simp: mem_simps macs_only_def)
  ultimately show ?thesis
    by (auto simp: nexthop_fib_success_def nh_result_def nh_verdicts_def Let_def
        intro: counted_check_egress macs_only_trans)
qed

lemma fib_result:
  assumes "14 \<le> length (xdp_data md)"
  shows "\<exists>res. marlin_nexthop_fib k md p 0 disc m = Some res \<and> nh_result md m res"
proof -
  obtain f where f: "marlin_nexthop_store_mac (xdp_data md) 0 (mc_backend p) = Some f" "macs_only (xdp_data md) f"
    using safe_store_mac [OF assms, of "mc_backend p"] store_mac_macs unfolding safe_iff by blast
  have count: "counted nh_counts m (marlin_stats_reason MARLIN_COUNT_NEIGH_FALLBACK (marlin_nexthop_check_egress be i m))" for be i
    by (rule counted_trans [OF counted_check_egress counted_reason]) (simp add: nh_counts_def)
  show ?thesis
    using fib_success_result [OF assms, of k p disc _ m] f count
    by (auto simp: marlin_nexthop_fib_def nh_result_def nh_verdicts_def Let_def split: prod.split fib_ret.split)
qed

section \<open>The contract, and both disciplines\<close>

locale nexthop_unit =
  fixes hop :: "kernel \<Rightarrow> xdp_md \<Rightarrow> marlin_ctx \<Rightarrow> bpf_maps \<Rightarrow> (marlin_ret \<times> xdp_md \<times> bpf_maps) option"
  assumes result: "\<exists>res. hop k md p m = Some res \<and> nh_result md m res"
begin

lemma safe_hop: "safe (hop k md p m)"
  using result [of k md p m] by (auto simp: safe_iff)

lemma hop_counted: "hop k md p m = Some (rc, md', m') \<Longrightarrow> rc \<in> nh_verdicts \<and> counted nh_counts m m'"
  using result [of k md p m] by (auto simp: nh_result_def)

lemma hop_frame:
  "hop k md p m = Some (rc, md', m') \<Longrightarrow>
    macs_only (xdp_data md) (xdp_data md') \<and> xdp_ingress_ifindex md' = xdp_ingress_ifindex md"
  using result [of k md p m] by (auto simp: nh_result_def)

end

interpretation l2dsr: nexthop_unit nexthop_l2dsr
proof
  fix k md p m
  show "\<exists>res. nexthop_l2dsr k md p m = Some res \<and> nh_result md m res"
  proof (cases "length (xdp_data md) < 14")
    case True
    then show ?thesis by (simp add: nexthop_l2dsr_def marlin_nexthop_eth_def nh_result_def nh_verdicts_def)
  next
    case False
    then have len: "14 \<le> length (xdp_data md)" by simp
    obtain f where f: "marlin_nexthop_store_mac (xdp_data md) 0 (mc_backend p) = Some f" "macs_only (xdp_data md) f"
      using safe_store_mac [OF len, of "mc_backend p"] store_mac_macs unfolding safe_iff by blast
    let ?m = "marlin_stats_reason MARLIN_COUNT_MAC_FALLBACK m"
    have "counted nh_counts m ?m" by (simp add: counted_reason nh_counts_def)
    then have "nh_result md ?m res \<Longrightarrow> nh_result md m res" for res
      by (auto simp: nh_result_def intro: counted_trans)
    then have "\<exists>res. marlin_nexthop_fib k md p 0 disc ?m = Some res \<and> nh_result md m res" for disc
      using fib_result [OF len] by blast
    with False f fib_result [OF len, of k p _ m] show ?thesis
      by (auto simp: nexthop_l2dsr_def marlin_nexthop_eth_def nh_result_def nh_verdicts_def Let_def intro: counted_check_egress)
  qed
qed

interpretation encapsulate: nexthop_unit nexthop_encapsulate
proof
  fix k md p m
  show "\<exists>res. nexthop_encapsulate k md p m = Some res \<and> nh_result md m res"
  proof (cases "length (xdp_data md) < 14")
    case True
    then show ?thesis by (simp add: nexthop_encapsulate_def marlin_nexthop_eth_def nh_result_def nh_verdicts_def)
  next
    case False
    then have len: "14 \<le> length (xdp_data md)" by simp
    let ?d = "xdp_data md"
    have swap: "\<exists>f. wr 0 (take 6 (drop 6 ?d)) ?d = Some f \<and> (\<exists>f'. wr 6 (take 6 ?d) f = Some f' \<and> macs_only ?d f')"
      using len by (simp add: wr_def macs_only_def)
    have "rd 6 0 ?d = Some (take 6 ?d)" "rd 6 6 ?d = Some (take 6 (drop 6 ?d))" using len by (simp_all add: rd_def)
    with False swap fib_result [OF len, of k p MARLIN_NH_ENCAP m] show ?thesis
      by (auto simp: nexthop_encapsulate_def marlin_nexthop_eth_def nh_result_def nh_verdicts_def Let_def
          intro: counted_check_egress)
  qed
qed

end
