(* ===== verification/Marlin_Lb.thy ===== *)
theory Marlin_Lb
  imports Marlin_Acl Marlin_Ratelimit Marlin_Encap Marlin_Nexthop
begin

text \<open>
  The load-balancing core of \<^verbatim>\<open>lb_core.c\<close>: admission, VIP resolution, backend selection by hash or
  by QUIC connection ID, encapsulation and the hand-over to next-hop resolution; and the XDP entry
  point of \<^verbatim>\<open>main.c\<close>, which frames a packet's whole run.

  \<^verbatim>\<open>marlin_lb_process\<close> has checked both its pointers before it calls anything, so the calls below it
  go to the non-null case of the other units. The maps are threaded through; a pointer into a map
  is the value found there, since nobody but the control plane writes those maps.
\<close>

section \<open>Admission and VIP resolution\<close>

definition marlin_lb_vip_key :: "marlin_ctx \<Rightarrow> vip_key" where
  "marlin_lb_vip_key pkt =
    \<lparr>vk_addr = (if pt_family (mc_tuple pkt) = AF_INET then (fst (pt_dst (mc_tuple pkt)), 0, 0, 0) else pt_dst (mc_tuple pkt)),
     vk_port = pt_dport (mc_tuple pkt), vk_proto = pt_proto (mc_tuple pkt), vk_family = pt_family (mc_tuple pkt)\<rparr>"

definition marlin_lb_filter :: "kernel \<Rightarrow> marlin_ctx \<Rightarrow> u32 \<Rightarrow> bpf_maps \<Rightarrow> marlin_ret \<times> bpf_maps" where
  "marlin_lb_filter k pkt vflags m =
    (if cfg_flags (mc_cfg pkt) AND CFG_RL_ENABLE = 0 then (MARLIN_OK, m)
     else if vflags AND VIP_RATELIMIT = 0 then (MARLIN_OK, m)
     else if mc_acl_verdict pkt = MARLIN_ACL_ALLOW then (MARLIN_OK, m)
     else marlin_ratelimit k (Some pkt) m)"

definition marlin_lb_acl_enforce :: "marlin_ctx \<Rightarrow> vip_meta option \<Rightarrow> marlin_ret" where
  "marlin_lb_acl_enforce pkt vmeta =
    (if mc_acl_verdict pkt \<noteq> MARLIN_ACL_BLOCK then MARLIN_OK
     else case vmeta of
       Some v \<Rightarrow> if vm_flags v AND VIP_ACL = 0 then MARLIN_OK else MARLIN_DROP_ACL_BLOCKED
     | None \<Rightarrow> MARLIN_DROP_ACL_BLOCKED)"

definition marlin_lb_select_vip :: "bpf_maps \<Rightarrow> marlin_ctx \<Rightarrow> vip_meta option" where
  "marlin_lb_select_vip m pkt =
    (let key = marlin_lb_vip_key pkt in
     case m_vip_map m key of
       Some hit \<Rightarrow> Some hit
     | None \<Rightarrow> m_vip_map m (key\<lparr>vk_port := 0\<rparr>))"

definition marlin_lb_admit :: "kernel \<Rightarrow> marlin_ctx \<Rightarrow> vip_meta option \<Rightarrow> bpf_maps \<Rightarrow> marlin_ret \<times> bpf_maps" where
  "marlin_lb_admit k pkt vmeta m =
    (case vmeta of
       None \<Rightarrow> (let ret = marlin_lb_acl_enforce pkt None in (if ret \<noteq> MARLIN_OK then ret else MARLIN_PASS_VIP_MISS, m))
     | Some v \<Rightarrow>
         if MAX_VIPS \<le> vm_vip_num v then (MARLIN_DROP_MAP_BOUNDS, m)
         else
           let m = marlin_stats_vip (vm_vip_num v) (ucast (mc_pkt_len pkt)) m;
               ret = marlin_lb_acl_enforce pkt (Some v) in
           if ret \<noteq> MARLIN_OK then (ret, m)
           else marlin_lb_filter k pkt (vm_flags v) m)"

definition marlin_lb_check_frag :: "marlin_ctx \<Rightarrow> vip_meta \<Rightarrow> marlin_ret" where
  "marlin_lb_check_frag pkt vmeta =
    (if vm_flags vmeta AND (VIP_HASH_5TUPLE OR VIP_HASH_PORTS) = 0 then MARLIN_OK
     else if mc_flags pkt AND MARLIN_CTX_F_FRAG_ANY = 0 then MARLIN_OK
     else MARLIN_DROP_FRAG_UNSUPPORTED)"

section \<open>Backend selection\<close>

text \<open>\<^verbatim>\<open>struct marlin_quic_input\<close> with \<open>entropy\<close> loaded into its zeroed array, as its 24 bytes.\<close>

definition quic_input_bytes :: "bytes \<Rightarrow> bytes" where
  "quic_input_bytes entropy = [MARLIN_QUIC_SIPHASH_DOMAIN] @ entropy @ replicate (17 - length entropy) 0 @ replicate 6 0"

definition marlin_lb_quic_decode :: "kernel \<Rightarrow> xdp_md \<Rightarrow> marlin_ctx \<Rightarrow> vip_meta \<Rightarrow> bpf_maps \<Rightarrow> u32 \<times> bpf_maps" where
  "marlin_lb_quic_decode k xdp pkt vmeta m =
    (if mc_flags pkt AND MARLIN_CTX_F_FRAG_ANY \<noteq> 0 then (MARLIN_NO_BACKEND, m)
     else let clen = VIP_QUIC_CID_LEN (vm_flags vmeta) in
     if clen < MARLIN_QUIC_CID_MIN \<or> MARLIN_QUIC_CID_MAX < clen then (MARLIN_NO_BACKEND, m)
     else if ucast (mc_udp_payload_len pkt) < 1 + clen then (MARLIN_NO_BACKEND, m)
     else let elen = clen - MARLIN_QUIC_CID_ENTROPY_OFF;
              pos = ucast (mc_l4_off pkt) + of_nat MARLIN_UDP_HLEN + 1 in
     case k_load_bytes k xdp pos 3 of
       None \<Rightarrow> (MARLIN_NO_BACKEND, m)
     | Some header \<Rightarrow>
         if header ! 0 AND MARLIN_QUIC_CID_GEN_MASK \<noteq> 0 then
           (MARLIN_NO_BACKEND, marlin_stats_reason MARLIN_COUNT_QUIC_CID_CHECK_FAILED m)
         else case k_load_bytes k xdp (pos + MARLIN_QUIC_CID_ENTROPY_OFF) (unat elen) of
           None \<Rightarrow> (MARLIN_NO_BACKEND, m)
         | Some entropy \<Rightarrow>
             let mix = marlin_siphash_blocks (quic_input_bytes entropy) 24 (vm_hash_key vmeta) in
             if header ! 0 AND MARLIN_QUIC_CID_CHECK_MASK \<noteq> ucast (drop_bit 16 mix AND ucast MARLIN_QUIC_CID_CHECK_MASK) then
               (MARLIN_NO_BACKEND, marlin_stats_reason MARLIN_COUNT_QUIC_CID_CHECK_FAILED m)
             else
               let bid = (push_bit 8 (ucast (header ! 1)) OR ucast (header ! 2)) XOR ucast (mix AND 0xffff) in
               (if MAX_BACKENDS \<le> bid then MARLIN_NO_BACKEND else bid, m))"

definition tuple_bytes :: "packet_tuple \<Rightarrow> bytes" where
  "tuple_bytes t = quad_bytes (pt_src t) @ quad_bytes (pt_dst t) @ le_bytes 2 (pt_sport t) @ le_bytes 2 (pt_dport t) @
     [pt_proto t, pt_family t] @ le_bytes 2 (pt_pad t)"

definition ports_input_bytes :: "packet_tuple \<Rightarrow> bytes" where
  "ports_input_bytes t = le_bytes 2 (pt_sport t) @ le_bytes 2 (pt_dport t) @ replicate 4 0"

text \<open>The digest the forwarding row is taken from, by the VIP's hash policy.\<close>

definition lb_flow_hash :: "packet_tuple \<Rightarrow> vip_meta \<Rightarrow> u64" where
  "lb_flow_hash t vmeta =
    (if vm_flags vmeta AND VIP_HASH_5TUPLE \<noteq> 0 then marlin_siphash_blocks (tuple_bytes t) 40 (vm_hash_key vmeta)
     else if vm_flags vmeta AND VIP_HASH_PORTS \<noteq> 0 then marlin_siphash_blocks (ports_input_bytes t) 8 (vm_hash_key vmeta)
     else marlin_siphash_blocks (quad_bytes (pt_src t)) 16 (vm_hash_key vmeta))"

definition marlin_lb_select_backend_by_hash :: "marlin_ctx \<Rightarrow> vip_meta \<Rightarrow> bpf_maps \<Rightarrow> backend option" where
  "marlin_lb_select_backend_by_hash pkt vmeta m =
    (if MAX_VIPS \<le> vm_vip_num vmeta then None
     else
       let mix = lb_flow_hash (mc_tuple pkt) vmeta;
           fkey = vm_vip_num vmeta * TABLE_SIZE + ucast (mix AND (ucast TABLE_SIZE - 1)) in
       case m_fwd_table m fkey of
         None \<Rightarrow> None
       | Some bid \<Rightarrow> if bid = MARLIN_NO_BACKEND \<or> MAX_BACKENDS \<le> bid then None else m_backends m bid)"

definition marlin_lb_select_backend_quic ::
  "kernel \<Rightarrow> xdp_md \<Rightarrow> marlin_ctx \<Rightarrow> vip_meta \<Rightarrow> bpf_maps \<Rightarrow> backend option \<times> bpf_maps" where
  "marlin_lb_select_backend_quic k xdp pkt vmeta m =
    (case marlin_lb_quic_decode k xdp pkt vmeta m of
       (bid, m) \<Rightarrow>
         if bid = MARLIN_NO_BACKEND then (None, m)
         else case m_backends m bid of
           None \<Rightarrow> (None, m)
         | Some be \<Rightarrow>
             if be_flags be AND MARLIN_BE_F_STATE = 0 then (None, m)
             else (Some be, marlin_stats_reason MARLIN_COUNT_QUIC_CID_ROUTED m))"

definition marlin_lb_select_backend ::
  "kernel \<Rightarrow> xdp_md \<Rightarrow> marlin_ctx \<Rightarrow> vip_meta \<Rightarrow> bpf_maps \<Rightarrow> backend option \<times> bpf_maps" where
  "marlin_lb_select_backend k md pkt vip m =
    (if vm_flags vip AND VIP_QUIC \<noteq> 0 \<and> mc_flags pkt AND MARLIN_CTX_F_QUIC \<noteq> 0 then
       (case marlin_lb_select_backend_quic k md pkt vip m of
          (Some be, m) \<Rightarrow> (Some be, m)
        | (None, m) \<Rightarrow> (marlin_lb_select_backend_by_hash pkt vip m, m))
     else (marlin_lb_select_backend_by_hash pkt vip m, m))"

definition marlin_lb_load_backend :: "marlin_ctx \<Rightarrow> backend option \<Rightarrow> bpf_maps \<Rightarrow> marlin_ret \<times> marlin_ctx \<times> bpf_maps" where
  "marlin_lb_load_backend pkt target m =
    (case target of
       None \<Rightarrow> (MARLIN_DROP_NO_BACKEND, pkt, m)
     | Some be \<Rightarrow>
         let pkt = pkt\<lparr>mc_backend := be\<rparr>;
             m = marlin_stats_backend (ucast (be_id be)) (ucast (mc_pkt_len pkt)) m in
         (if be_flags be AND MARLIN_BE_F_STATE = 0 then MARLIN_DROP_BACKEND_DOWN else MARLIN_OK, pkt, m))"

section \<open>Forwarding\<close>

definition marlin_lb_encap_packet :: "kernel \<Rightarrow> xdp_md \<Rightarrow> marlin_ctx \<Rightarrow> (marlin_ret \<times> xdp_md \<times> marlin_ctx) option" where
  "marlin_lb_encap_packet k xdp pkt =
    (let mode = ENCAP_MODE (be_flags (mc_backend pkt)) in
     if mode = MARLIN_MODE_IPIP then ipip_encap k xdp pkt
     else if mode = MARLIN_MODE_GUE then gue_encap k xdp pkt
     else if mode = MARLIN_MODE_VXLAN then vxlan_encap k xdp pkt
     else Some (MARLIN_DROP_MAP_BOUNDS, xdp, pkt))"

definition marlin_lb_validate :: "marlin_ctx \<Rightarrow> u32 \<Rightarrow> marlin_ret" where
  "marlin_lb_validate pkt len =
    (if mc_pkt_len pkt < of_nat ETH_HLEN then MARLIN_DROP_ENCAP_LENGTH
     else if len \<noteq> ucast (mc_pkt_len pkt) then MARLIN_DROP_ENCAP_LENGTH
     else MARLIN_OK)"

definition marlin_lb_process_packet ::
  "kernel \<Rightarrow> xdp_md \<Rightarrow> marlin_ctx \<Rightarrow> vip_meta \<Rightarrow> bpf_maps \<Rightarrow> (marlin_ret \<times> xdp_md \<times> marlin_ctx \<times> bpf_maps) option" where
  "marlin_lb_process_packet k md pkt vip m =
    (let rc = marlin_lb_check_frag pkt vip in
     if rc \<noteq> MARLIN_OK then Some (rc, md, pkt, m)
     else let (target, m) = marlin_lb_select_backend k md pkt vip m;
              (rc, pkt, m) = marlin_lb_load_backend pkt target m in
     if rc \<noteq> MARLIN_OK then Some (rc, md, pkt, m)
     else let rc = marlin_lb_validate pkt (ucast (k_get_buff_len k md)) in
     if rc \<noteq> MARLIN_OK then Some (rc, md, pkt, m)
     else if ENCAP_MODE (be_flags (mc_backend pkt)) \<noteq> MARLIN_MODE_L2DSR then do {
       let pkt = pkt\<lparr>mc_flags := mc_flags pkt OR (vm_flags vip AND VIP_DSCP_MASK)\<rparr>;
       (rc, md, pkt) \<leftarrow> marlin_lb_encap_packet k md pkt;
       if rc \<noteq> MARLIN_OK then Some (rc, md, pkt, m)
       else do {
         (rc, md, m) \<leftarrow> nexthop_encapsulate k md pkt m;
         Some (rc, md, pkt, m) } }
     else do {
       (rc, md, m) \<leftarrow> nexthop_l2dsr k md pkt m;
       Some (rc, md, pkt, m) })"

definition marlin_lb_process ::
  "kernel \<Rightarrow> xdp_md option \<Rightarrow> marlin_ctx option \<Rightarrow> bpf_maps \<Rightarrow> (marlin_ret \<times> xdp_md option \<times> marlin_ctx option \<times> bpf_maps) option" where
  "marlin_lb_process k ctx mctx m =
    (case (ctx, mctx) of
       (Some md, Some pkt) \<Rightarrow>
         let pkt = pkt\<lparr>mc_acl_verdict := marlin_acl_check k m (Some pkt)\<rparr>;
             vmeta = marlin_lb_select_vip m pkt;
             (rc, m) = marlin_lb_admit k pkt vmeta m in
         if rc \<noteq> MARLIN_OK then Some (rc, Some md, Some pkt, m)
         else (case vmeta of
           None \<Rightarrow> None
         | Some v \<Rightarrow> do {
             (rc, md, pkt, m) \<leftarrow> marlin_lb_process_packet k md pkt v m;
             Some (rc, Some md, Some pkt, m) })
     | _ \<Rightarrow> Some (MARLIN_ABORT_NULLREF, ctx, mctx, m))"

section \<open>The entry point (main.c)\<close>

definition xdp_load_config :: "bpf_maps \<Rightarrow> marlin_ctx \<Rightarrow> marlin_ret \<times> marlin_ctx" where
  "xdp_load_config m ctx =
    (case m_config m 0 of
       None \<Rightarrow> (MARLIN_DROP_MAP_BOUNDS, ctx)
     | Some cfg \<Rightarrow> (MARLIN_OK, ctx\<lparr>mc_cfg := cfg\<rparr>))"

fun marlin_action :: "marlin_ret \<Rightarrow> xdp_action" where
  "marlin_action MARLIN_PASS_VIP_MISS = XDP_PASS"
| "marlin_action MARLIN_PASS_ICMP_ECHO = XDP_PASS"
| "marlin_action MARLIN_PASS_NOT_FORWARDED = XDP_PASS"
| "marlin_action MARLIN_OK_TX = XDP_TX"
| "marlin_action MARLIN_OK_REDIRECT = XDP_REDIRECT"
| "marlin_action MARLIN_DROP_NO_TX_PORT = XDP_ABORTED"
| "marlin_action MARLIN_ABORT_NULLREF = XDP_ABORTED"
| "marlin_action _ = XDP_DROP"

text \<open>The scratch slot holds the context between the calls; \<open>put_ctx\<close> is what they leave in it.\<close>

definition put_ctx :: "marlin_ctx option \<Rightarrow> bpf_maps \<Rightarrow> bpf_maps" where
  "put_ctx p m = (case p of None \<Rightarrow> m | Some p \<Rightarrow> m\<lparr>m_mctx_scratch := (m_mctx_scratch m)(0 \<mapsto> p)\<rparr>)"

definition xdp_main :: "kernel \<Rightarrow> xdp_md \<Rightarrow> bpf_maps \<Rightarrow> (xdp_action \<times> xdp_md option \<times> bpf_maps) option" where
  "xdp_main k md m =
    (case m_mctx_scratch m 0 of
       None \<Rightarrow> Some (XDP_ABORTED, Some md, marlin_stats_reason MARLIN_DROP_MAP_BOUNDS m)
     | Some _ \<Rightarrow>
         case xdp_load_config m zero_ctx of
           (rc, pkt) \<Rightarrow>
             if rc \<noteq> MARLIN_OK then Some (XDP_ABORTED, Some md, marlin_stats_reason rc (put_ctx (Some pkt) m))
             else do {
               (rc, pkt) \<leftarrow> marlin_parse (Some md) (Some pkt);
               if rc \<noteq> MARLIN_OK then Some (marlin_action rc, Some md, marlin_stats_reason rc (put_ctx pkt m))
               else do {
                 (rc, md, pkt, m) \<leftarrow> marlin_lb_process k (Some md) pkt m;
                 Some (marlin_action rc, md, marlin_stats_reason rc (put_ctx pkt m)) } })"

section \<open>Each stage only counts\<close>

text \<open>The counters the packet path moves in place, besides the one of its verdict.\<close>

definition lb_counts :: "marlin_ret set" where
  "lb_counts = nh_counts \<union> {MARLIN_COUNT_RL_CAS_EXHAUSTED, MARLIN_COUNT_RL_INSERT_FAILED,
     MARLIN_COUNT_QUIC_CID_ROUTED, MARLIN_COUNT_QUIC_CID_CHECK_FAILED}"

lemma counted_lb_reason [counted_intros]:
  "counted lb_counts m (marlin_stats_reason MARLIN_COUNT_RL_CAS_EXHAUSTED m)"
  "counted lb_counts m (marlin_stats_reason MARLIN_COUNT_RL_INSERT_FAILED m)"
  "counted lb_counts m (marlin_stats_reason MARLIN_COUNT_QUIC_CID_ROUTED m)"
  "counted lb_counts m (marlin_stats_reason MARLIN_COUNT_QUIC_CID_CHECK_FAILED m)"
  by (auto simp: lb_counts_def intro!: counted_reason)

lemma ratelimit_counted:
  assumes "marlin_ratelimit k (Some pkt) m = (rc, m')"
  shows "counted lb_counts m m' \<and> rc \<in> {MARLIN_OK, MARLIN_DROP_RATELIMITED}"
proof -
  have loop: "fst (rl_cas_loop k rate burst i c old now) \<in> {None, Some MARLIN_OK, Some MARLIN_DROP_RATELIMITED}"
    for rate burst i c old now
    by (induction k rate burst i c old now rule: rl_cas_loop.induct)
      (subst rl_cas_loop.simps, auto simp: Let_def split: sum.split dest: rl_spend_Inl)
  have upd: "counted lb_counts m (marlin_stats_reason MARLIN_COUNT_RL_CAS_EXHAUSTED (m\<lparr>m_ratelimit := rl\<rparr>))" for rl
    by (rule counted_trans [OF counted_ratelimit]) (rule counted_intros)
  show ?thesis
    using assms upd loop
    by (auto simp: marlin_ratelimit_def Let_def split: option.splits if_splits sum.splits prod.splits
        intro: counted_intros dest: rl_spend_Inl) (metis fst_conv insert_iff option.inject option.distinct(1) empty_iff)+
qed

lemma admit_counted:
  assumes "marlin_lb_admit k pkt vmeta m = (rc, m')"
  shows "counted lb_counts m m' \<and>
    rc \<in> {MARLIN_OK, MARLIN_DROP_RATELIMITED, MARLIN_DROP_ACL_BLOCKED, MARLIN_PASS_VIP_MISS, MARLIN_DROP_MAP_BOUNDS} \<and>
    (rc = MARLIN_OK \<longrightarrow> (\<exists>v. vmeta = Some v \<and> vm_vip_num v < MAX_VIPS \<and> marlin_lb_acl_enforce pkt vmeta = MARLIN_OK))"
proof (cases vmeta)
  case None
  with assms show ?thesis
    by (auto simp: marlin_lb_admit_def marlin_lb_acl_enforce_def Let_def split: if_splits)
next
  case (Some v)
  show ?thesis
  proof (cases "MAX_VIPS \<le> vm_vip_num v")
    case True
    with Some assms show ?thesis by (auto simp: marlin_lb_admit_def)
  next
    case False
    let ?m = "marlin_stats_vip (vm_vip_num v) (ucast (mc_pkt_len pkt)) m"
    have enf: "marlin_lb_acl_enforce pkt (Some v) \<in> {MARLIN_OK, MARLIN_DROP_ACL_BLOCKED}"
      by (simp add: marlin_lb_acl_enforce_def)
    have fil: "marlin_lb_filter k pkt (vm_flags v) ?m = (rc, m') \<Longrightarrow>
        counted lb_counts m m' \<and> rc \<in> {MARLIN_OK, MARLIN_DROP_RATELIMITED}"
      using ratelimit_counted [of k pkt ?m rc m'] counted_trans [OF counted_vip [of lb_counts m "vm_vip_num v" "ucast (mc_pkt_len pkt)"]]
      by (auto simp: marlin_lb_filter_def intro: counted_intros split: if_splits)
    show ?thesis
      using assms Some False enf fil
      by (auto simp: marlin_lb_admit_def Let_def not_le intro: counted_intros split: if_splits)
  qed
qed

lemma quic_decode_counted: "counted lb_counts m (snd (marlin_lb_quic_decode k md pkt v m))"
  by (auto simp: marlin_lb_quic_decode_def Let_def intro: counted_intros split: option.split)

lemma select_backend_counted: "counted lb_counts m (snd (marlin_lb_select_backend k md pkt v m))"
proof -
  have "counted lb_counts m (snd (marlin_lb_select_backend_quic k md pkt v m))"
    using quic_decode_counted [of m k md pkt v]
    by (auto simp: marlin_lb_select_backend_quic_def intro: counted_intros counted_trans split: prod.split option.split)
  then show ?thesis
    by (auto simp: marlin_lb_select_backend_def split: prod.split option.split)
qed

lemma load_backend_cases:
  assumes "marlin_lb_load_backend pkt target m = (rc, pkt', m')"
  shows "counted lb_counts m m' \<and> rc \<in> {MARLIN_OK, MARLIN_DROP_NO_BACKEND, MARLIN_DROP_BACKEND_DOWN} \<and>
    (rc = MARLIN_OK \<longrightarrow> (\<exists>be. target = Some be \<and> be_flags be AND MARLIN_BE_F_STATE \<noteq> 0 \<and> pkt' = pkt\<lparr>mc_backend := be\<rparr>))"
  using assms by (auto simp: marlin_lb_load_backend_def Let_def intro: counted_intros split: option.splits if_splits)

section \<open>Encapsulation, whatever the mode\<close>

definition mode_overhead :: "u8 \<Rightarrow> nat" where
  "mode_overhead mode =
    (if mode = MARLIN_MODE_IPIP then MARLIN_OVERHEAD_IPIP
     else if mode = MARLIN_MODE_GUE then MARLIN_OVERHEAD_GUE
     else if mode = MARLIN_MODE_VXLAN then MARLIN_OVERHEAD_VXLAN else 0)"

definition be_mode :: "marlin_ctx \<Rightarrow> u8" where
  "be_mode p = ENCAP_MODE (be_flags (mc_backend p))"

definition mode_proto :: "marlin_ctx \<Rightarrow> u8" where
  "mode_proto p = (if be_mode p = MARLIN_MODE_IPIP
     then (if pt_family (mc_tuple p) = AF_INET6 then IPPROTO_IPV6 else IPPROTO_IPIP) else IPPROTO_UDP)"

lemma encap_modes:
  assumes "marlin_lb_encap_packet k md p = Some (MARLIN_OK, md', p')"
  obtains (ipip) "be_mode p = MARLIN_MODE_IPIP" "ipip_encap k md p = Some (MARLIN_OK, md', p')"
    "mode_overhead (be_mode p) = 20" "mode_proto p = (if pt_family (mc_tuple p) = AF_INET6 then IPPROTO_IPV6 else IPPROTO_IPIP)"
  | (gue) "be_mode p = MARLIN_MODE_GUE" "gue_encap k md p = Some (MARLIN_OK, md', p')" "mode_overhead (be_mode p) = 32"
      "mode_proto p = IPPROTO_UDP"
  | (vxlan) "be_mode p = MARLIN_MODE_VXLAN" "vxlan_encap k md p = Some (MARLIN_OK, md', p')" "mode_overhead (be_mode p) = 50"
      "mode_proto p = IPPROTO_UDP"
  using assms
  by (auto simp: marlin_lb_encap_packet_def be_mode_def mode_overhead_def mode_proto_def Let_def split: if_splits)

lemma safe_encap_packet: "safe (marlin_lb_encap_packet k md p)"
  using ipip.safe gue.safe vxlan.safe by (simp add: marlin_lb_encap_packet_def Let_def)

lemma encap_packet_payload:
  assumes "adjust_head_ok k" "marlin_lb_encap_packet k md p = Some (MARLIN_OK, md', p')"
  shows "length (xdp_data md') = length (xdp_data md) + mode_overhead (be_mode p) \<and>
    drop (14 + mode_overhead (be_mode p)) (xdp_data md') = drop 14 (xdp_data md) \<and>
    xdp_ingress_ifindex md' = xdp_ingress_ifindex md \<and> mc_backend p' = mc_backend p"
  using assms(2)
proof (cases rule: encap_modes)
  case ipip
  then show ?thesis using ipip.payload_kept [OF assms(1)] ipip.success [OF assms(1)] by fastforce
next
  case gue
  then show ?thesis using gue.payload_kept [OF assms(1)] gue.success [OF assms(1)] by fastforce
next
  case vxlan
  then show ?thesis using vxlan.payload_kept [OF assms(1)] vxlan.success [OF assms(1)] by fastforce
qed

lemma encap_rc:
  assumes "marlin_lb_encap_packet k md p = Some (rc, md', p')"
  shows "rc \<in> {MARLIN_OK, MARLIN_DROP_ENCAP_LENGTH, MARLIN_DROP_FRAME_TOO_BIG, MARLIN_DROP_ADJUST_HEAD, MARLIN_DROP_PARSE_ERROR,
     MARLIN_DROP_MAP_BOUNDS}"
proof -
  have fits: "marlin_frame_fits p n \<in> {MARLIN_OK, MARLIN_DROP_FRAME_TOO_BIG}" for n
    by (simp add: marlin_frame_fits_def)
  have macs: "marlin_vxlan_save_arriving_macs md = Some (Inl r) \<Longrightarrow> r = MARLIN_DROP_PARSE_ERROR" for r
    by (auto simp: marlin_vxlan_save_arriving_macs_def split: if_splits bind_splits)
  have "ipip_encap k md p = Some (rc, md', p') \<Longrightarrow> rc \<in> {MARLIN_OK, MARLIN_DROP_ENCAP_LENGTH, MARLIN_DROP_FRAME_TOO_BIG, MARLIN_DROP_ADJUST_HEAD}"
    using fits by (auto simp: ipip_encap_def marlin_ipip_validate_def Let_def split: if_splits option.splits bind_splits)
  moreover have "gue_encap k md p = Some (rc, md', p') \<Longrightarrow> rc \<in> {MARLIN_OK, MARLIN_DROP_ENCAP_LENGTH, MARLIN_DROP_FRAME_TOO_BIG, MARLIN_DROP_ADJUST_HEAD}"
    using fits by (auto simp: gue_encap_def marlin_gue_validate_def Let_def split: if_splits option.splits bind_splits)
  moreover have "vxlan_encap k md p = Some (rc, md', p') \<Longrightarrow> rc \<in> {MARLIN_OK, MARLIN_DROP_ENCAP_LENGTH, MARLIN_DROP_FRAME_TOO_BIG,
      MARLIN_DROP_ADJUST_HEAD, MARLIN_DROP_PARSE_ERROR}"
    using fits macs by (auto simp: vxlan_encap_def marlin_vxlan_validate_def Let_def split: if_splits option.splits bind_splits sum.splits)
  ultimately show ?thesis
    using assms by (auto simp: marlin_lb_encap_packet_def Let_def split: if_splits)
qed

section \<open>The whole path\<close>

text \<open>Verdicts that end a packet's run: exactly these have, or deliberately lack, a counter of their own.\<close>

definition terminal :: "marlin_ret \<Rightarrow> bool" where
  "terminal rc \<longleftrightarrow> rc \<notin> {MARLIN_OK, MARLIN_RET_MAX} \<union> lb_counts"

lemma terminal_simps [simp]:
  "rc \<in> nh_verdicts \<Longrightarrow> terminal rc"
  "terminal MARLIN_DROP_NO_BACKEND" "terminal MARLIN_DROP_BACKEND_DOWN" "terminal MARLIN_DROP_FRAG_UNSUPPORTED"
  "terminal MARLIN_DROP_ENCAP_LENGTH" "terminal MARLIN_DROP_FRAME_TOO_BIG" "terminal MARLIN_DROP_ADJUST_HEAD"
  "terminal MARLIN_DROP_PARSE_ERROR" "terminal MARLIN_DROP_MAP_BOUNDS" "terminal MARLIN_DROP_RATELIMITED"
  "terminal MARLIN_DROP_ACL_BLOCKED" "terminal MARLIN_PASS_VIP_MISS" "terminal MARLIN_ABORT_NULLREF"
  by (auto simp: terminal_def lb_counts_def nh_counts_def nh_verdicts_def)

lemma nh_counted_lb: "counted nh_counts m m' \<Longrightarrow> counted lb_counts m m'"
  by (erule counted_mono) (auto simp: lb_counts_def)

text \<open>What forwarding a frame to the backend chosen for it does to the frame.\<close>

definition delivered :: "u8 \<Rightarrow> xdp_md \<Rightarrow> xdp_md \<Rightarrow> bool" where
  "delivered mode md md' \<longleftrightarrow> length (xdp_data md') = length (xdp_data md) + mode_overhead mode \<and>
     drop (14 + mode_overhead mode) (xdp_data md') = drop 14 (xdp_data md)"

lemma delivered_macs:
  assumes "delivered mode md md1" "macs_only (xdp_data md1) (xdp_data md')"
  shows "delivered mode md md'"
proof -
  have "drop (14 + n) (xdp_data md') = drop (14 + n) (xdp_data md1)" for n
  proof -
    have "drop (2 + n) (drop 12 (xdp_data md')) = drop (2 + n) (drop 12 (xdp_data md1))"
      using assms(2) by (simp only: macs_only_def)
    then show ?thesis by (simp add: add.commute)
  qed
  with assms show ?thesis by (simp add: delivered_def macs_only_def)
qed

definition lb_result :: "kernel \<Rightarrow> xdp_md \<Rightarrow> backend option \<Rightarrow> bpf_maps \<Rightarrow> marlin_ret \<times> xdp_md \<times> marlin_ctx \<times> bpf_maps \<Rightarrow> bool" where
  "lb_result k md target m res \<longleftrightarrow> (case res of (rc, md', p', m') \<Rightarrow>
     terminal rc \<and> counted lb_counts m m' \<and>
     (rc \<in> {MARLIN_OK_TX, MARLIN_OK_REDIRECT} \<longrightarrow>
        (\<exists>be. target = Some be \<and> be_flags be AND MARLIN_BE_F_STATE \<noteq> 0 \<and>
           (adjust_head_ok k \<longrightarrow> delivered (ENCAP_MODE (be_flags be)) md md'))))"

lemma encap_forward:
  assumes up: "be_flags be AND MARLIN_BE_F_STATE \<noteq> 0" and p: "mc_backend p = be"
  shows "\<exists>res. (do { (rc, md1, p1) \<leftarrow> marlin_lb_encap_packet k md p;
       if rc \<noteq> MARLIN_OK then Some (rc, md1, p1, m)
       else do { (rc, md2, m) \<leftarrow> nexthop_encapsulate k md1 p1 m; Some (rc, md2, p1, m) } }) = Some res \<and>
     lb_result k md (Some be) m res"
proof -
  obtain rc md1 p1 where enc: "marlin_lb_encap_packet k md p = Some (rc, md1, p1)"
    using safe_encap_packet [of k md p] unfolding safe_iff by (metis surj_pair)
  show ?thesis
  proof (cases "rc = MARLIN_OK")
    case False
    with enc encap_rc [OF enc] show ?thesis by (auto simp: lb_result_def)
  next
    case True
    obtain rc2 md2 m2 where hop: "nexthop_encapsulate k md1 p1 m = Some (rc2, md2, m2)"
      using encapsulate.safe_hop [of k md1 p1 m] unfolding safe_iff by (metis surj_pair)
    note facts = encapsulate.hop_counted [OF hop] encapsulate.hop_frame [OF hop]
    have "delivered (ENCAP_MODE (be_flags be)) md md2" if "adjust_head_ok k"
    proof (rule delivered_macs)
      show "delivered (ENCAP_MODE (be_flags be)) md md1"
        using encap_packet_payload [OF that enc [unfolded True]] p by (simp add: delivered_def be_mode_def)
      show "macs_only (xdp_data md1) (xdp_data md2)" using facts by blast
    qed
    with enc True hop facts up show ?thesis
      by (auto simp: lb_result_def nh_counted_lb)
  qed
qed

lemma l2dsr_forward:
  assumes up: "be_flags be AND MARLIN_BE_F_STATE \<noteq> 0" and mode: "ENCAP_MODE (be_flags be) = MARLIN_MODE_L2DSR"
  shows "\<exists>res. (do { (rc, md1, m) \<leftarrow> nexthop_l2dsr k md p m; Some (rc, md1, p, m) }) = Some res \<and>
     lb_result k md (Some be) m res"
proof -
  obtain rc md1 m1 where hop: "nexthop_l2dsr k md p m = Some (rc, md1, m1)"
    using l2dsr.safe_hop [of k md p m] unfolding safe_iff by (metis surj_pair)
  have "delivered (ENCAP_MODE (be_flags be)) md md1"
  proof (rule delivered_macs)
    show "delivered (ENCAP_MODE (be_flags be)) md md" using mode by (simp add: delivered_def mode_overhead_def)
    show "macs_only (xdp_data md) (xdp_data md1)" using l2dsr.hop_frame [OF hop] by blast
  qed
  with hop l2dsr.hop_counted [OF hop] up show ?thesis by (auto simp: lb_result_def nh_counted_lb)
qed

lemma lb_result_counted: "counted lb_counts m0 m \<Longrightarrow> lb_result k md target m res \<Longrightarrow> lb_result k md target m0 res"
  by (auto simp: lb_result_def intro: counted_trans)

lemma process_packet_result:
  "\<exists>res. marlin_lb_process_packet k md p v m = Some res \<and>
     lb_result k md (fst (marlin_lb_select_backend k md p v m)) m res"
proof (cases "marlin_lb_check_frag p v = MARLIN_OK")
  case False
  then show ?thesis
    by (auto simp: marlin_lb_process_packet_def lb_result_def marlin_lb_check_frag_def Let_def split: if_splits)
next
  case True
  obtain target m1 where sel: "marlin_lb_select_backend k md p v m = (target, m1)" by fastforce
  obtain rc p1 m2 where load: "marlin_lb_load_backend p target m1 = (rc, p1, m2)" by (metis surj_pair)
  have c: "counted lb_counts m m2"
    using select_backend_counted [of m k md p v] load_backend_cases [OF load] sel by (auto intro: counted_trans)
  show ?thesis
  proof (cases "rc = MARLIN_OK \<and> marlin_lb_validate p1 (ucast (k_get_buff_len k md)) = MARLIN_OK")
    case False
    have "marlin_lb_validate p1 (ucast (k_get_buff_len k md)) \<in> {MARLIN_OK, MARLIN_DROP_ENCAP_LENGTH}"
      by (simp add: marlin_lb_validate_def)
    with False True sel load load_backend_cases [OF load] c show ?thesis
      by (auto simp: marlin_lb_process_packet_def lb_result_def Let_def)
  next
    case valid: True
    then obtain be where be: "target = Some be" "be_flags be AND MARLIN_BE_F_STATE \<noteq> 0" "p1 = p\<lparr>mc_backend := be\<rparr>"
      using load_backend_cases [OF load] by blast
    let ?p = "p1\<lparr>mc_flags := mc_flags p1 OR (vm_flags v AND VIP_DSCP_MASK)\<rparr>"
    show ?thesis
    proof (cases "ENCAP_MODE (be_flags be) = MARLIN_MODE_L2DSR")
      case mode: True
      with True valid sel load be l2dsr_forward [OF be(2) mode, of k md p1 m2] lb_result_counted [OF c] show ?thesis
        by (simp add: marlin_lb_process_packet_def Let_def) blast
    next
      case mode: False
      with True valid sel load be encap_forward [OF be(2), of ?p k md m2] lb_result_counted [OF c] show ?thesis
        by (simp add: marlin_lb_process_packet_def Let_def) blast
    qed
  qed
qed

text \<open>Selection reads the control plane's maps and nothing else.\<close>

lemma quic_decode_fst: "fst (marlin_lb_quic_decode k md p v m) = fst (marlin_lb_quic_decode k md p v m')"
  by (simp add: marlin_lb_quic_decode_def Let_def split: option.split)

lemma select_quic_fst:
  "fst (marlin_lb_select_backend_quic k md p v m) =
    (let bid = fst (marlin_lb_quic_decode k md p v m) in
     if bid = MARLIN_NO_BACKEND then None
     else case m_backends m bid of None \<Rightarrow> None | Some be \<Rightarrow> if be_flags be AND MARLIN_BE_F_STATE = 0 then None else Some be)"
proof -
  obtain bid m1 where dec: "marlin_lb_quic_decode k md p v m = (bid, m1)" by fastforce
  then have "m_backends m1 = m_backends m"
    using quic_decode_counted [of m k md p v] by (simp add: counted_def same_config_def)
  with dec show ?thesis
    by (simp add: marlin_lb_select_backend_quic_def Let_def split: option.split)
qed

lemma by_hash_cong:
  assumes "m_fwd_table m' = m_fwd_table m" "m_backends m' = m_backends m"
  shows "marlin_lb_select_backend_by_hash p v m' = marlin_lb_select_backend_by_hash p v m"
  unfolding marlin_lb_select_backend_by_hash_def assms by (rule refl)

lemma select_backend_fst:
  "fst (marlin_lb_select_backend k md p v m) =
    (if vm_flags v AND VIP_QUIC \<noteq> 0 \<and> mc_flags p AND MARLIN_CTX_F_QUIC \<noteq> 0 then
       (case fst (marlin_lb_select_backend_quic k md p v m) of
          Some be \<Rightarrow> Some be | None \<Rightarrow> marlin_lb_select_backend_by_hash p v m)
     else marlin_lb_select_backend_by_hash p v m)"
proof -
  obtain be m' where q: "marlin_lb_select_backend_quic k md p v m = (be, m')" by fastforce
  have "counted lb_counts m m'"
    using q quic_decode_counted [of m k md p v]
    by (auto simp: marlin_lb_select_backend_quic_def intro: counted_intros counted_trans split: prod.splits option.splits if_splits)
  then have "marlin_lb_select_backend_by_hash p v m' = marlin_lb_select_backend_by_hash p v m"
    by (intro by_hash_cong) (simp_all add: counted_def same_config_def)
  with q show ?thesis by (simp add: marlin_lb_select_backend_def split: option.split)
qed

lemma select_backend_config:
  assumes "same_config m m'"
  shows "fst (marlin_lb_select_backend k md p v m') = fst (marlin_lb_select_backend k md p v m)"
proof -
  have maps: "m_backends m' = m_backends m" "m_fwd_table m' = m_fwd_table m"
    using assms by (simp_all add: same_config_def)
  have "marlin_lb_select_backend_by_hash p v m' = marlin_lb_select_backend_by_hash p v m"
    by (intro by_hash_cong maps)
  moreover have "fst (marlin_lb_select_backend_quic k md p v m') = fst (marlin_lb_select_backend_quic k md p v m)"
    unfolding select_quic_fst maps quic_decode_fst [of k md p v m' m] by (rule refl)
  ultimately show ?thesis by (simp only: select_backend_fst)
qed

lemma select_backend_ran: "fst (marlin_lb_select_backend k md p v m) = Some be \<Longrightarrow> be \<in> ran (m_backends m)"
  by (auto simp: select_backend_fst select_quic_fst marlin_lb_select_backend_by_hash_def Let_def ran_def
      split: if_splits option.splits)

lemma lb_process_result:
  fixes k m pkt
  defines "p \<equiv> pkt\<lparr>mc_acl_verdict := marlin_acl_check k m (Some pkt)\<rparr>"
  shows "\<exists>rc md' p' m'. marlin_lb_process k (Some md) (Some pkt) m = Some (rc, Some md', Some p', m') \<and>
    terminal rc \<and> counted lb_counts m m' \<and>
    (rc \<in> {MARLIN_OK_TX, MARLIN_OK_REDIRECT} \<longrightarrow> (\<exists>v be. marlin_lb_select_vip m p = Some v \<and> vm_vip_num v < MAX_VIPS \<and>
       marlin_lb_acl_enforce p (Some v) = MARLIN_OK \<and> fst (marlin_lb_select_backend k md p v m) = Some be \<and>
       be_flags be AND MARLIN_BE_F_STATE \<noteq> 0 \<and> (adjust_head_ok k \<longrightarrow> delivered (ENCAP_MODE (be_flags be)) md md')))"
proof -
  obtain rc m1 where adm: "marlin_lb_admit k p (marlin_lb_select_vip m p) m = (rc, m1)" by fastforce
  note a = admit_counted [OF adm]
  show ?thesis
  proof (cases "rc = MARLIN_OK")
    case False
    with a adm show ?thesis by (auto simp: marlin_lb_process_def Let_def p_def [symmetric])
  next
    case True
    then obtain v where v: "marlin_lb_select_vip m p = Some v" "vm_vip_num v < MAX_VIPS" "marlin_lb_acl_enforce p (Some v) = MARLIN_OK"
      using a by auto
    obtain rc2 md2 p2 m2 where res: "marlin_lb_process_packet k md p v m1 = Some (rc2, md2, p2, m2)"
      and lb: "lb_result k md (fst (marlin_lb_select_backend k md p v m1)) m1 (rc2, md2, p2, m2)"
      using process_packet_result [of k md p v m1] by (metis surj_pair)
    have "fst (marlin_lb_select_backend k md p v m1) = fst (marlin_lb_select_backend k md p v m)"
      using a by (intro select_backend_config) (simp add: counted_def)
    with lb_result_counted [OF a [THEN conjunct1] lb]
    have lb: "lb_result k md (fst (marlin_lb_select_backend k md p v m)) m (rc2, md2, p2, m2)" by simp
    have "marlin_lb_process k (Some md) (Some pkt) m = Some (rc2, Some md2, Some p2, m2)"
      using adm True v(1) res by (simp add: marlin_lb_process_def Let_def p_def [symmetric])
    with lb v show ?thesis by (auto simp: lb_result_def)
  qed
qed

text \<open>The verdicts of the parser.\<close>

definition parse_verdicts :: "marlin_ret set" where
  "parse_verdicts = {MARLIN_OK, MARLIN_DROP_PARSE_ERROR, MARLIN_DROP_UNSUPPORTED_PROTO, MARLIN_DROP_EXT_HDR_LIMIT,
     MARLIN_DROP_ICMP_UNPARSEABLE, MARLIN_PASS_NOT_FORWARDED, MARLIN_PASS_ICMP_ECHO}"

lemma walk_step_verdict: "marlin_walk_ext6_step i f off nh n out = Some (Inl (rc, o')) \<Longrightarrow> rc \<in> parse_verdicts"
  by (auto simp: marlin_walk_ext6_step_def parse_verdicts_def Let_def split: if_splits bind_splits)

lemma walk_verdict: "marlin_walk_ext6_loop i f off nh n out = Some (rc, o') \<Longrightarrow> rc \<in> parse_verdicts"
proof (induction i f off nh n out rule: marlin_walk_ext6_loop.induct)
  case (1 i f off nh n out)
  show ?case
  proof (cases "i \<le> MAX_EXT_HDRS")
    case False
    with "1.prems" show ?thesis by (subst (asm) marlin_walk_ext6_loop.simps) (auto simp: parse_verdicts_def)
  next
    case True
    with "1.prems" show ?thesis
      by (subst (asm) marlin_walk_ext6_loop.simps)
        (auto split: bind_splits sum.splits prod.splits dest: walk_step_verdict intro: "1.IH" simp del: MAX_EXT_HDRS_def)
  qed
qed

lemma l3_verdict: "marlin_parse_l3 f off fam n = Some (rc, o') \<Longrightarrow> rc \<in> parse_verdicts"
  by (auto simp: marlin_parse_l3_def marlin_walk_ext6_def parse_verdicts_def Let_def split: if_splits bind_splits
      dest!: walk_verdict)

lemma parse_verdict: "marlin_parse_frame f p = Some (rc, p') \<Longrightarrow> rc \<in> parse_verdicts"
proof -
  have ports: "marlin_parse_ports f off proto s d = Some (r, x) \<Longrightarrow> r \<in> parse_verdicts" for off proto s d r x
    by (auto simp: marlin_parse_ports_def parse_verdicts_def split: if_splits bind_splits)
  have icmp: "marlin_parse_icmp f off fam m = Some (r, x) \<Longrightarrow> r \<in> parse_verdicts" for off fam m r x
    by (auto simp: marlin_parse_icmp_def parse_verdicts_def split: if_splits bind_splits)
  have l4: "marlin_parse_l4 f fam l3 m = Some (r, x) \<Longrightarrow> r \<in> parse_verdicts" for fam l3 m r x
    by (auto simp: marlin_parse_l4_def Let_def split: if_splits bind_splits dest: ports icmp) (simp_all add: parse_verdicts_def)
  assume "marlin_parse_frame f p = Some (rc, p')"
  then show ?thesis
    by (auto simp: marlin_parse_frame_def marlin_parse_eth_def Let_def split: if_splits bind_splits dest: l3_verdict l4)
      (simp_all add: parse_verdicts_def)
qed

lemma parse_terminal: "rc \<in> parse_verdicts \<Longrightarrow> rc \<noteq> MARLIN_OK \<Longrightarrow> terminal rc \<and> rc \<notin> {MARLIN_OK_TX, MARLIN_OK_REDIRECT}"
  by (auto simp: parse_verdicts_def terminal_def lb_counts_def nh_counts_def)

lemma counted_put_ctx [counted_intros]: "counted R m (put_ctx p m)"
  by (simp add: counted_def same_config_def put_ctx_def drop_count_def split: option.split)

text \<open>What a forwarded packet went through.\<close>

definition forwarded :: "kernel \<Rightarrow> xdp_md \<Rightarrow> bpf_maps \<Rightarrow> xdp_md \<Rightarrow> bool" where
  "forwarded k md m md' \<longleftrightarrow> (\<exists>cfg p v be. m_config m 0 = Some cfg \<and>
     marlin_parse (Some md) (Some (zero_ctx\<lparr>mc_cfg := cfg\<rparr>)) = Some (MARLIN_OK, Some p) \<and>
     (let p = p\<lparr>mc_acl_verdict := marlin_acl_check k m (Some p)\<rparr> in
      marlin_lb_select_vip m p = Some v \<and> vm_vip_num v < MAX_VIPS \<and> marlin_lb_acl_enforce p (Some v) = MARLIN_OK \<and>
      fst (marlin_lb_select_backend k md p v m) = Some be) \<and>
     be_flags be AND MARLIN_BE_F_STATE \<noteq> 0 \<and> (adjust_head_ok k \<longrightarrow> delivered (ENCAP_MODE (be_flags be)) md md'))"

lemma xdp_main_result:
  "\<exists>rc act md' m1. xdp_main k md m = Some (act, Some md', marlin_stats_reason rc m1) \<and>
     terminal rc \<and> counted lb_counts m m1 \<and>
     (act = marlin_action rc \<or> act = XDP_ABORTED \<and> rc = MARLIN_DROP_MAP_BOUNDS) \<and>
     (act \<in> {XDP_TX, XDP_REDIRECT} \<longrightarrow> forwarded k md m md')"
proof (cases "m_mctx_scratch m 0 = None \<or> m_config m 0 = None")
  case True
  then show ?thesis
    by (cases "m_mctx_scratch m 0") (auto simp: xdp_main_def xdp_load_config_def intro!: counted_intros exI [of _ MARLIN_DROP_MAP_BOUNDS])
next
  case False
  then obtain scratch cfg where maps: "m_mctx_scratch m 0 = Some scratch" "m_config m 0 = Some cfg" by auto
  obtain rc p where parse: "marlin_parse_frame (xdp_data md) (zero_ctx\<lparr>mc_cfg := cfg\<rparr>) = Some (rc, p)"
    using safe_parse_frame unfolding safe_iff by (metis surj_pair)
  then have parse': "marlin_parse (Some md) (Some (zero_ctx\<lparr>mc_cfg := cfg\<rparr>)) = Some (rc, Some p)"
    by (simp add: marlin_parse_def)
  show ?thesis
  proof (cases "rc = MARLIN_OK")
    case False
    then have "terminal rc" "rc \<notin> {MARLIN_OK_TX, MARLIN_OK_REDIRECT}"
      using parse_terminal [OF parse_verdict [OF parse]] by simp_all
    moreover from this(2) have "marlin_action rc \<notin> {XDP_TX, XDP_REDIRECT}" by (cases rc) simp_all
    moreover have "xdp_main k md m = Some (marlin_action rc, Some md, marlin_stats_reason rc (put_ctx (Some p) m))"
      using maps parse' False by (simp add: xdp_main_def xdp_load_config_def)
    ultimately show ?thesis
      by (intro exI [of _ rc] exI [of _ "marlin_action rc"] exI [of _ md] exI [of _ "put_ctx (Some p) m"]) (simp add: counted_put_ctx)
  next
    case True
    obtain rc2 md2 p2 m2 where lb: "marlin_lb_process k (Some md) (Some p) m = Some (rc2, Some md2, Some p2, m2)"
      and c: "terminal rc2" "counted lb_counts m m2"
      and fwd: "rc2 \<in> {MARLIN_OK_TX, MARLIN_OK_REDIRECT} \<longrightarrow> (\<exists>v be.
        marlin_lb_select_vip m (p\<lparr>mc_acl_verdict := marlin_acl_check k m (Some p)\<rparr>) = Some v \<and> vm_vip_num v < MAX_VIPS \<and>
        marlin_lb_acl_enforce (p\<lparr>mc_acl_verdict := marlin_acl_check k m (Some p)\<rparr>) (Some v) = MARLIN_OK \<and>
        fst (marlin_lb_select_backend k md (p\<lparr>mc_acl_verdict := marlin_acl_check k m (Some p)\<rparr>) v m) = Some be \<and>
        be_flags be AND MARLIN_BE_F_STATE \<noteq> 0 \<and> (adjust_head_ok k \<longrightarrow> delivered (ENCAP_MODE (be_flags be)) md md2))"
      using lb_process_result [of k md p m] by blast
    have run: "xdp_main k md m = Some (marlin_action rc2, Some md2, marlin_stats_reason rc2 (put_ctx (Some p2) m2))"
      using maps parse' True lb by (simp add: xdp_main_def xdp_load_config_def)
    have "marlin_action rc2 \<in> {XDP_TX, XDP_REDIRECT} \<longrightarrow> rc2 \<in> {MARLIN_OK_TX, MARLIN_OK_REDIRECT}" by (cases rc2) simp_all
    then have "marlin_action rc2 \<in> {XDP_TX, XDP_REDIRECT} \<longrightarrow> forwarded k md m md2"
      using fwd maps(2) parse' True unfolding forwarded_def Let_def by blast
    moreover have "counted lb_counts m (put_ctx (Some p2) m2)"
      using c(2) counted_put_ctx by (rule counted_trans)
    ultimately show ?thesis using run c(1) by blast
  qed
qed

end
