(* ===== verification/Marlin_Pipeline.thy ===== *)
theory Marlin_Pipeline
  imports Marlin_Lb
begin

text \<open>
  What the data plane promises for a packet as a whole: the properties of the entry point
  \<^verbatim>\<open>xdp_main\<close>, of backend selection and of the encapsulated frame.
\<close>

section \<open>Sample tables\<close>

text \<open>One VIP, 10.0.0.2:80/tcp, and one backend that is up, reached by MAC rewriting; every row of the
  forwarding table names that backend.\<close>

definition sample_backend :: backend where
  "sample_backend = zero_backend\<lparr>be_addr := 0x0900000a, be_mac := 0x060504030201, be_flags := MARLIN_BE_F_STATE, be_id := 1\<rparr>"

definition sample_vip :: vip_meta where
  "sample_vip = \<lparr>vm_vip_num = 3, vm_flags = 0, vm_hash_key = 0x0f0e0d0c0b0a09080706050403020100\<rparr>"

definition sample_maps :: bpf_maps where
  "sample_maps = \<lparr>m_config = [0 \<mapsto> zero_config], m_mctx_scratch = [0 \<mapsto> zero_ctx],
     m_backends = [1 \<mapsto> sample_backend], m_fwd_table = (\<lambda>i. if unat i < 6553600 then Some 1 else None),
     m_vip_map = [\<lparr>vk_addr = (0x0200000a, 0, 0, 0), vk_port = 0x5000, vk_proto = 6, vk_family = 2\<rparr> \<mapsto> sample_vip],
     m_tx_ports = Map.empty, m_acl_allow_v4 = Map.empty, m_acl_block_v4 = Map.empty, m_acl_allow_v6 = Map.empty,
     m_acl_block_v6 = Map.empty, m_ratelimit = Map.empty, m_vip_stats = Map.empty, m_backend_stats = Map.empty,
     m_drop_stats = (\<lambda>i. if unat i < 48 then Some 0 else None)\<rparr>"

section \<open>The row a packet is forwarded by\<close>

lemma array_mapD: "array_map n t \<Longrightarrow> unat i < n \<Longrightarrow> \<exists>v. t i = Some v"
  by (simp add: array_map_def)

text \<open>Both lookups depend on the packet through its tuple alone.\<close>

lemma select_vip_tuple: "mc_tuple q = mc_tuple p \<Longrightarrow> marlin_lb_select_vip m q = marlin_lb_select_vip m p"
  by (simp only: marlin_lb_select_vip_def marlin_lb_vip_key_def)

lemma by_hash_tuple:
  "mc_tuple q = mc_tuple p \<Longrightarrow> marlin_lb_select_backend_by_hash q v m = marlin_lb_select_backend_by_hash p v m"
  by (simp only: marlin_lb_select_backend_by_hash_def)

lemma unat_fkey:
  assumes "vip < (100 :: u32)"
  shows "unat (vip * 65536 + ucast (mix AND (0xffff :: u64)) :: u32) = unat vip * 65536 + unat mix mod 65536"
proof -
  have v: "unat vip < 100" using assms by (simp add: word_less_nat_alt)
  have "mix AND 0xffff = take_bit 16 mix" by (simp add: take_bit_eq_mask mask_eq_exp_minus_1)
  then have m: "unat (mix AND 0xffff) = unat mix mod 65536" by (simp add: take_bit_eq_mod unat_mod)
  then have "unat (ucast (mix AND 0xffff) :: u32) = unat mix mod 65536"
    by (simp add: unsigned_ucast_eq take_bit_nat_eq_self)
  with v show ?thesis
    by (subst unat_add_nowrap) (simp_all add: unat_mult_nowrap)
qed

lemma sample_forwards:
  "\<exists>md' m'. xdp_main demo_kernel sample_md4 sample_maps = Some (XDP_TX, Some md', m')"
proof -
  let ?p = "zero_ctx\<lparr>
     mc_tuple := \<lparr>pt_src = (0x0100000a, 0, 0, 0), pt_dst = (0x0200000a, 0, 0, 0), pt_sport = 0x3930,
       pt_dport = 0x5000, pt_proto = 6, pt_family = 2, pt_pad = 0\<rparr>,
     mc_l3_off := 14, mc_l4_off := 34, mc_pkt_len := 38\<rparr>"
  have len: "length (xdp_data sample_md4) = 38" by code_simp
  have hash: "marlin_lb_select_backend_by_hash q sample_vip m = Some sample_backend"
    if "m_fwd_table m = m_fwd_table sample_maps" "m_backends m = m_backends sample_maps" for q m
  proof -
    let ?h = "lb_flow_hash (mc_tuple q) sample_vip"
    have "unat ?h mod 65536 < 65536" by simp
    then have "196608 + unat ?h mod 65536 < 6553600" by linarith
    moreover have "unat (196608 + ucast (?h AND 0xffff) :: u32) = 196608 + unat ?h mod 65536"
      using unat_fkey [of 3 ?h] by (simp add: word_less_nat_alt)
    moreover have "vm_vip_num sample_vip = 3" by (simp add: sample_vip_def)
    ultimately show ?thesis
      using that by (simp add: marlin_lb_select_backend_by_hash_def sample_maps_def Let_def word_le_nat_alt)
  qed
  have mac: "marlin_backend_mac_set sample_backend" by code_simp
  obtain f where f: "marlin_nexthop_store_mac (xdp_data sample_md4) 0 sample_backend = Some f"
    using safe_store_mac [of "xdp_data sample_md4" sample_backend] len by (auto simp: safe_iff)
  have vip: "m_vip_map sample_maps (marlin_lb_vip_key (?p\<lparr>mc_acl_verdict := a\<rparr>)) = Some sample_vip" for a
    by (simp add: sample_maps_def marlin_lb_vip_key_def)
  let ?m = "marlin_stats_backend 1 38 (marlin_stats_vip 3 38 sample_maps)"
  have sel: "marlin_lb_select_backend demo_kernel sample_md4 q sample_vip m = (Some sample_backend, m)"
    if "m_fwd_table m = m_fwd_table sample_maps" "m_backends m = m_backends sample_maps" for q m
    using hash [OF that, of q] by (simp add: marlin_lb_select_backend_def sample_vip_def)
  have admit: "marlin_lb_admit demo_kernel (?p\<lparr>mc_acl_verdict := MARLIN_ACL_NONE\<rparr>) (Some sample_vip) sample_maps =
      (MARLIN_OK, marlin_stats_vip 3 38 sample_maps)"
    by (simp add: marlin_lb_admit_def marlin_lb_acl_enforce_def marlin_lb_filter_def sample_vip_def zero_ctx_def zero_config_def
        word_le_nat_alt Let_def)
  have acl: "marlin_acl_check demo_kernel sample_maps (Some ?p) = MARLIN_ACL_NONE"
    by (simp add: marlin_acl_check_def zero_ctx_def zero_config_def)
  let ?q = "?p\<lparr>mc_acl_verdict := MARLIN_ACL_NONE, mc_backend := sample_backend\<rparr>"
  have hop: "nexthop_l2dsr demo_kernel sample_md4 ?q m = Some (MARLIN_OK_TX, sample_md4\<lparr>xdp_data := f\<rparr>, m)" for m
    using mac f len by (simp add: nexthop_l2dsr_def marlin_nexthop_eth_def marlin_nexthop_check_egress_def sample_backend_def
        zero_backend_def)
  have be: "be_flags sample_backend AND MARLIN_BE_F_STATE \<noteq> 0" "be_id sample_backend = 1"
      "ENCAP_MODE (be_flags sample_backend) = MARLIN_MODE_L2DSR"
    by (simp_all add: sample_backend_def ENCAP_MODE_def)
  have frag: "marlin_lb_check_frag q sample_vip = MARLIN_OK" for q
    by (simp add: marlin_lb_check_frag_def sample_vip_def)
  have valid: "marlin_lb_validate ?q (ucast (k_get_buff_len demo_kernel sample_md4)) = MARLIN_OK"
    using len by (simp add: marlin_lb_validate_def demo_kernel_def word_less_nat_alt)
  have "marlin_lb_process_packet demo_kernel sample_md4 (?p\<lparr>mc_acl_verdict := MARLIN_ACL_NONE\<rparr>) sample_vip
      (marlin_stats_vip 3 38 sample_maps) = Some (MARLIN_OK_TX, sample_md4\<lparr>xdp_data := f\<rparr>, ?q, ?m)"
    using sel [of "marlin_stats_vip 3 38 sample_maps"] frag hop be valid
    by (simp add: marlin_lb_process_packet_def marlin_lb_load_backend_def Let_def)
  then have lb: "marlin_lb_process demo_kernel (Some sample_md4) (Some ?p) sample_maps =
      Some (MARLIN_OK_TX, Some (sample_md4\<lparr>xdp_data := f\<rparr>), Some ?q, ?m)"
    using vip admit acl by (simp add: marlin_lb_process_def marlin_lb_select_vip_def Let_def)
  have "xdp_load_config sample_maps zero_ctx = (MARLIN_OK, zero_ctx\<lparr>mc_cfg := zero_config\<rparr>)"
      "m_mctx_scratch sample_maps 0 = Some zero_ctx"
    by (simp_all add: xdp_load_config_def sample_maps_def)
  then show ?thesis
    using sample_md4_parse lb by (simp add: xdp_main_def)
qed

section \<open>Properties\<close>

text \<open>C1: The data plane is memory safe and total. Whatever the frame, the content of the maps and
  the behaviour of the kernel helpers, processing one packet reads and writes only inside the
  frame, dereferences no null pointer, and ends with an XDP action.\<close>

theorem xdp_main_safe: "\<exists>act md' m'. xdp_main k md m = Some (act, Some md', m')"
  using xdp_main_result [of k md m] by blast

text \<open>C2: Every packet is accounted for exactly once. With the counter array at its declared size, a
  packet's run has one verdict; the action is the one for that verdict (or the abort of a program
  without its maps); the verdict's counter goes up by one if it is a counted one; no other verdict's
  counter moves; and the control plane's maps are left as they were.\<close>

theorem xdp_main_accounts:
  assumes "array_map DROP_REASON_MAX (m_drop_stats m)" "xdp_main k md m = Some (act, md', m')"
  shows "\<exists>rc. (act = marlin_action rc \<or> act = XDP_ABORTED \<and> rc = MARLIN_DROP_MAP_BOUNDS) \<and>
    terminal rc \<and> same_config m m' \<and>
    (\<forall>r. r \<notin> lb_counts \<longrightarrow>
       drop_count m' r = drop_count m r + (if r = rc \<and> rc \<notin> {MARLIN_OK_TX, MARLIN_OK_REDIRECT} then 1 else 0))"
proof -
  obtain rc m1 where m': "m' = marlin_stats_reason rc m1" and t: "terminal rc" and c: "counted lb_counts m m1"
    and act: "act = marlin_action rc \<or> act = XDP_ABORTED \<and> rc = MARLIN_DROP_MAP_BOUNDS"
    using xdp_main_result [of k md m] assms(2) by auto
  have "array_map DROP_REASON_MAX (m_drop_stats m1)" using c assms(1) by (simp add: counted_def)
  note count = drop_count_reason [OF this, of rc]
  have "MARLIN_PASS_VIP_MISS \<le> rc \<longleftrightarrow> rc \<notin> {MARLIN_OK_TX, MARLIN_OK_REDIRECT}" "rc \<noteq> MARLIN_RET_MAX"
    using t by (auto simp: ret_val_ge_VIP_MISS terminal_def)
  then have "\<forall>r. r \<notin> lb_counts \<longrightarrow>
      drop_count m' r = drop_count m r + (if r = rc \<and> rc \<notin> {MARLIN_OK_TX, MARLIN_OK_REDIRECT} then 1 else 0)"
    using c count m' by (auto simp: counted_def)
  moreover have "same_config m m'"
    using c m' stats_reason_tables [of m1 rc] by (auto simp: counted_def same_tables_def intro: same_config_trans)
  ultimately show ?thesis using act t by blast
qed

theorem xdp_main_accounts_witness:
  "\<exists>act md' m' rc. xdp_main demo_kernel sample_md4 sample_maps = Some (act, md', m') \<and>
    array_map DROP_REASON_MAX (m_drop_stats sample_maps) \<and> terminal rc \<and> same_config sample_maps m' \<and>
    (act = marlin_action rc \<or> act = XDP_ABORTED \<and> rc = MARLIN_DROP_MAP_BOUNDS)"
proof -
  obtain md' m' where run: "xdp_main demo_kernel sample_md4 sample_maps = Some (XDP_TX, Some md', m')"
    using sample_forwards by blast
  have "array_map DROP_REASON_MAX (m_drop_stats sample_maps)" by (simp add: array_map_def sample_maps_def)
  with xdp_main_accounts [OF this run] run show ?thesis by blast
qed



text \<open>The forwarding row of a packet lies in the block of its VIP and inside the table. For every
  VIP number below the limit the index is the VIP's block start plus the digest modulo the table
  size, computed without wrap-around; with the table at its declared size the lookup never fails,
  and the backend is the one that row names.\<close>

theorem marlin_lb_row_in_block:
  assumes "vm_vip_num v < MAX_VIPS" "array_map (unat MAX_VIPS * unat TABLE_SIZE) (m_fwd_table m)"
  shows "\<exists>row bid. row = unat (vm_vip_num v) * 65536 + unat (lb_flow_hash (mc_tuple p) v) mod 65536 \<and>
    m_fwd_table m (of_nat row) = Some bid \<and>
    marlin_lb_select_backend_by_hash p v m = (if bid = MARLIN_NO_BACKEND \<or> MAX_BACKENDS \<le> bid then None else m_backends m bid)"
proof -
  let ?h = "lb_flow_hash (mc_tuple p) v"
  let ?fkey = "vm_vip_num v * TABLE_SIZE + ucast (?h AND (ucast TABLE_SIZE - 1)) :: u32"
  let ?row = "unat (vm_vip_num v) * 65536 + unat ?h mod 65536"
  have row: "unat ?fkey = ?row" using unat_fkey [of "vm_vip_num v" ?h] assms(1) by simp
  have key: "of_nat ?row = ?fkey" unfolding row [symmetric] by simp
  have "unat (vm_vip_num v) < 100" using assms(1) by (simp add: word_less_nat_alt)
  moreover have "unat ?h mod 65536 < 65536" by simp
  ultimately have "?row < 6553600" by linarith
  then obtain bid where "m_fwd_table m ?fkey = Some bid"
    using array_mapD [OF assms(2), of ?fkey] row by auto
  with assms(1) key show ?thesis
    by (auto simp: marlin_lb_select_backend_by_hash_def Let_def not_le)
qed

theorem marlin_lb_row_in_block_witness:
  "vm_vip_num sample_vip < MAX_VIPS \<and> array_map (unat MAX_VIPS * unat TABLE_SIZE) (m_fwd_table sample_maps) \<and>
   (\<exists>row bid. row = unat (vm_vip_num sample_vip) * 65536 + unat (lb_flow_hash (mc_tuple zero_ctx) sample_vip) mod 65536 \<and>
     m_fwd_table sample_maps (of_nat row) = Some bid)"
proof -
  have "vm_vip_num sample_vip < MAX_VIPS" "array_map (unat MAX_VIPS * unat TABLE_SIZE) (m_fwd_table sample_maps)"
    by (simp_all add: sample_vip_def sample_maps_def array_map_def word_less_nat_alt)
  with marlin_lb_row_in_block [OF this, of zero_ctx] show ?thesis by blast
qed

text \<open>C29: Fragments stay together. Take the first fragment of a datagram and any later one: same
  addresses and protocol, but the later one has no ports. If the VIP is the one for any port of that
  address, both find it, and either the VIP hashes ports and refuses both, or both are given the
  same backend, also when the VIP steers QUIC.\<close>

theorem fragments_stay_together:
  assumes "mc_tuple tail = (mc_tuple head)\<lparr>pt_sport := 0, pt_dport := 0\<rparr>"
    and "mc_flags head AND MARLIN_CTX_F_FRAG_ANY \<noteq> 0" "mc_flags tail AND MARLIN_CTX_F_FRAG_ANY \<noteq> 0"
    and "m_vip_map m (marlin_lb_vip_key head) = None"
  shows "marlin_lb_select_vip m tail = marlin_lb_select_vip m head \<and>
    (marlin_lb_check_frag head v = MARLIN_DROP_FRAG_UNSUPPORTED \<and> marlin_lb_check_frag tail v = MARLIN_DROP_FRAG_UNSUPPORTED \<or>
     fst (marlin_lb_select_backend k md tail v m) = fst (marlin_lb_select_backend k md' head v m))"
proof -
  have key: "marlin_lb_vip_key tail = (marlin_lb_vip_key head)\<lparr>vk_port := 0\<rparr>"
    using assms(1) by (simp add: marlin_lb_vip_key_def)
  have vip: "marlin_lb_select_vip m tail = marlin_lb_select_vip m head"
    using assms(4) by (simp add: marlin_lb_select_vip_def key Let_def split: option.split)
  have quic: "fst (marlin_lb_select_backend_quic k md q v m) = None" if "mc_flags q AND MARLIN_CTX_F_FRAG_ANY \<noteq> 0" for k md q
    using that by (simp add: select_quic_fst marlin_lb_quic_decode_def)
  have sel: "fst (marlin_lb_select_backend k md q v m) = marlin_lb_select_backend_by_hash q v m"
    if "mc_flags q AND MARLIN_CTX_F_FRAG_ANY \<noteq> 0" for k md q
    using quic [OF that] by (simp add: select_backend_fst)
  show ?thesis
  proof (cases "vm_flags v AND (VIP_HASH_5TUPLE OR VIP_HASH_PORTS) = 0")
    case False
    with assms(2,3) vip show ?thesis by (simp add: marlin_lb_check_frag_def)
  next
    case True
    have "vm_flags v AND VIP_HASH_5TUPLE = vm_flags v AND (VIP_HASH_5TUPLE OR VIP_HASH_PORTS) AND VIP_HASH_5TUPLE"
      "vm_flags v AND VIP_HASH_PORTS = vm_flags v AND (VIP_HASH_5TUPLE OR VIP_HASH_PORTS) AND VIP_HASH_PORTS"
      by simp_all
    then have "vm_flags v AND VIP_HASH_5TUPLE = 0" "vm_flags v AND VIP_HASH_PORTS = 0"
      using True by (simp_all only: and.assoc [symmetric] bit.conj_zero_left)
    then have "lb_flow_hash (mc_tuple tail) v = lb_flow_hash (mc_tuple head) v"
      using assms(1) by (simp add: lb_flow_hash_def)
    then have "marlin_lb_select_backend_by_hash tail v m = marlin_lb_select_backend_by_hash head v m"
      by (simp only: marlin_lb_select_backend_by_hash_def)
    with vip sel assms(2,3) show ?thesis by metis
  qed
qed

theorem fragments_stay_together_witness:
  "let head = zero_ctx\<lparr>mc_tuple := zero_tuple\<lparr>pt_src := (1, 0, 0, 0), pt_dst := (2, 0, 0, 0), pt_sport := 7, pt_dport := 8,
           pt_proto := 17, pt_family := 2\<rparr>, mc_flags := MARLIN_CTX_F_FRAG_FIRST\<rparr>;
       tail = zero_ctx\<lparr>mc_tuple := zero_tuple\<lparr>pt_src := (1, 0, 0, 0), pt_dst := (2, 0, 0, 0),
           pt_proto := 17, pt_family := 2\<rparr>, mc_flags := MARLIN_CTX_F_FRAG\<rparr> in
   fst (marlin_lb_select_backend demo_kernel sample_md4 tail sample_vip sample_maps) =
   fst (marlin_lb_select_backend demo_kernel sample_md4 head sample_vip sample_maps)"
proof -
  let ?head = "zero_ctx\<lparr>mc_tuple := zero_tuple\<lparr>pt_src := (1, 0, 0, 0), pt_dst := (2, 0, 0, 0), pt_sport := 7, pt_dport := 8,
           pt_proto := 17, pt_family := 2\<rparr>, mc_flags := MARLIN_CTX_F_FRAG_FIRST\<rparr>"
  let ?tail = "zero_ctx\<lparr>mc_tuple := zero_tuple\<lparr>pt_src := (1, 0, 0, 0), pt_dst := (2, 0, 0, 0),
           pt_proto := 17, pt_family := 2\<rparr>, mc_flags := MARLIN_CTX_F_FRAG\<rparr>"
  have "mc_tuple ?tail = (mc_tuple ?head)\<lparr>pt_sport := 0, pt_dport := 0\<rparr>" by (simp add: zero_tuple_def)
  moreover have "mc_flags ?head AND MARLIN_CTX_F_FRAG_ANY \<noteq> 0" "mc_flags ?tail AND MARLIN_CTX_F_FRAG_ANY \<noteq> 0"
    by (simp_all add: MARLIN_CTX_F_FRAG_ANY_def)
  moreover have "m_vip_map sample_maps (marlin_lb_vip_key ?head) = None"
    by (simp add: sample_maps_def marlin_lb_vip_key_def zero_tuple_def)
  ultimately have "marlin_lb_check_frag ?head sample_vip = MARLIN_DROP_FRAG_UNSUPPORTED \<or>
      fst (marlin_lb_select_backend demo_kernel sample_md4 ?tail sample_vip sample_maps) =
      fst (marlin_lb_select_backend demo_kernel sample_md4 ?head sample_vip sample_maps)"
    using fragments_stay_together [of ?tail ?head sample_maps sample_vip demo_kernel sample_md4 sample_md4] by blast
  moreover have "marlin_lb_check_frag ?head sample_vip = MARLIN_OK"
    by (simp add: marlin_lb_check_frag_def sample_vip_def)
  ultimately show ?thesis by (simp add: Let_def)
qed

section \<open>QUIC connection IDs\<close>

text \<open>A connection ID as a backend issues it: six check bits, its number in the clear XORed with the
  mask in network order, and the entropy the mask is keyed over.\<close>

definition quic_cid :: "key128 \<Rightarrow> u16 \<Rightarrow> bytes \<Rightarrow> bytes" where
  "quic_cid key bid entropy =
    (let mask = marlin_siphash_blocks (quic_input_bytes entropy) 24 key;
         num = bid XOR ucast mask
     in [ucast (drop_bit 16 mask) AND MARLIN_QUIC_CID_CHECK_MASK, ucast (drop_bit 8 num), ucast num] @ entropy)"

lemma be16_join: "(push_bit 8 (ucast (ucast (drop_bit 8 w) :: u8)) OR ucast (ucast w :: u8) :: u32) = ucast (w :: u16)"
proof (rule bit_word_eqI)
  fix n assume "n < LENGTH(32)"
  show "bit (push_bit 8 (ucast (ucast (drop_bit 8 w) :: u8)) OR ucast (ucast w :: u8) :: u32) n = bit (ucast w :: u32) n"
    by (auto simp: bit_simps dest: bit_imp_le_length)
qed

lemma unmask: "(ucast (bid XOR ucast (mix :: u64)) XOR ucast (mix AND 0xffff) :: u32) = ucast (bid :: u16)"
proof (rule bit_word_eqI)
  fix n assume n: "n < LENGTH(32)"
  have "mix AND 0xffff = take_bit 16 mix" by (simp add: take_bit_eq_mask mask_eq_exp_minus_1)
  then show "bit (ucast (bid XOR ucast mix) XOR ucast (mix AND 0xffff) :: u32) n = bit (ucast bid :: u32) n"
    using n by (auto simp: bit_simps dest: bit_imp_le_length)
qed

lemma quic_decode_cid:
  assumes k: "load_bytes_ok k" and data: "xdp_data md = pre @ quic_cid (vm_hash_key v) bid entropy @ rest"
    and pre: "length pre = unat (mc_l4_off p) + 9"
    and clen: "unat (VIP_QUIC_CID_LEN (vm_flags v)) = 3 + length entropy" "4 \<le> length entropy" "length entropy \<le> 17"
    and payload: "1 + (3 + length entropy) \<le> unat (mc_udp_payload_len p)"
    and frag: "mc_flags p AND MARLIN_CTX_F_FRAG_ANY = 0" and bid: "unat bid < 4096"
  shows "marlin_lb_quic_decode k md p v m = (ucast bid, m)"
proof -
  define mix where "mix = marlin_siphash_blocks (quic_input_bytes entropy) 24 (vm_hash_key v)"
  define num where "num = bid XOR ucast mix"
  define hdr where "hdr = ([ucast (drop_bit 16 mix) AND 0x3f, ucast (drop_bit 8 num), ucast num] :: bytes)"
  let ?pos = "ucast (mc_l4_off p) + 8 + 1 :: u32"
  have pos: "unat ?pos = length pre" "unat (?pos + 3) = length pre + 3"
    using unat_u16_le [of "mc_l4_off p"] pre by (simp_all add: unat_word_ariths unat_ucast_up_le)
  have d: "xdp_data md = pre @ hdr @ entropy @ rest" "length hdr = 3"
    unfolding data by (simp_all add: quic_cid_def mix_def num_def hdr_def Let_def)
  have load1: "k_load_bytes k md ?pos 3 = Some hdr"
    using k pos(1) d(2) by (simp add: load_bytes_ok_def d(1) rd_def)
  have elen: "unat (VIP_QUIC_CID_LEN (vm_flags v) - 3) = length entropy"
    using clen by (subst unat_sub) (simp_all add: word_le_nat_alt)
  have load2: "k_load_bytes k md (?pos + 3) (unat (VIP_QUIC_CID_LEN (vm_flags v) - 3)) = Some entropy"
    using k pos(2) d(2) unfolding elen by (simp add: load_bytes_ok_def d(1) rd_def)
  have len: "\<not> (VIP_QUIC_CID_LEN (vm_flags v) < 7 \<or> 20 < VIP_QUIC_CID_LEN (vm_flags v))"
    "\<not> ucast (mc_udp_payload_len p) < 1 + VIP_QUIC_CID_LEN (vm_flags v)"
    using clen payload by (simp_all add: word_less_nat_alt unat_ucast_up_le unat_word_ariths)
  have gen: "hdr ! 0 AND 0xc0 = 0" by (simp add: hdr_def and.assoc)
  have check: "hdr ! 0 AND 0x3f = ucast (drop_bit 16 mix AND ucast (0x3f :: u8))"
    unfolding hdr_def by (rule bit_word_eqI) (auto simp: bit_simps)
  have "(push_bit 8 (ucast (hdr ! 1)) OR ucast (hdr ! 2)) XOR ucast (mix AND 0xffff) = (ucast bid :: u32)"
    using be16_join [of num] unmask [of bid mix] by (simp add: hdr_def num_def)
  moreover have "\<not> (4096 :: u32) \<le> ucast bid" using bid by (simp add: word_le_nat_alt unat_ucast_up_le)
  ultimately show ?thesis
    unfolding marlin_lb_quic_decode_def Let_def mix_def [symmetric]
    using frag len load1 load2 gen check by (simp add: mix_def [symmetric])
qed

text \<open>C8: Connection IDs round-trip. A connection ID a backend builds in the documented format, with
  any entropy of 4 to 17 bytes, in the first bytes of the payload of an unfragmented UDP packet to a
  VIP configured for that length, decodes to that backend's number and moves no counter; and if the
  backend is known and up, a short-header packet is sent to it whatever its source address.\<close>

theorem quic_cid_roundtrip:
  assumes "load_bytes_ok k" "xdp_data md = pre @ quic_cid (vm_hash_key v) bid entropy @ rest"
    and "length pre = unat (mc_l4_off p) + 9"
    and "unat (VIP_QUIC_CID_LEN (vm_flags v)) = 3 + length entropy" "4 \<le> length entropy" "length entropy \<le> 17"
    and "1 + (3 + length entropy) \<le> unat (mc_udp_payload_len p)"
    and "mc_flags p AND MARLIN_CTX_F_FRAG_ANY = 0" "unat bid < 4096"
  shows "marlin_lb_quic_decode k md p v m = (ucast bid, m) \<and>
    (bid \<noteq> 0 \<and> m_backends m (ucast bid) = Some be \<and> be_flags be AND MARLIN_BE_F_STATE \<noteq> 0 \<and>
       vm_flags v AND VIP_QUIC \<noteq> 0 \<and> mc_flags p AND MARLIN_CTX_F_QUIC \<noteq> 0 \<longrightarrow>
     fst (marlin_lb_select_backend k md p v m) = Some be)"
proof -
  have dec: "marlin_lb_quic_decode k md p v m = (ucast bid, m)"
    using assms by (rule quic_decode_cid)
  moreover have "(ucast bid :: u32) = 0 \<longleftrightarrow> bid = 0"
    by (simp add: word_unat_eq_iff unat_ucast_up_le)
  ultimately show ?thesis by (auto simp: select_backend_fst select_quic_fst Let_def)
qed

definition quic_sample_vip :: vip_meta where
  "quic_sample_vip = sample_vip\<lparr>vm_flags := 0x708\<rparr>"

definition quic_sample_md :: xdp_md where
  "quic_sample_md = \<lparr>xdp_data = replicate 43 0 @ quic_cid (vm_hash_key quic_sample_vip) 1 [1, 2, 3, 4] @ [], xdp_ingress_ifindex = 1\<rparr>"

definition quic_sample_ctx :: marlin_ctx where
  "quic_sample_ctx = zero_ctx\<lparr>mc_l4_off := 34, mc_udp_payload_len := 8, mc_flags := MARLIN_CTX_F_QUIC\<rparr>"

theorem quic_cid_roundtrip_witness:
  "marlin_lb_quic_decode demo_kernel quic_sample_md quic_sample_ctx quic_sample_vip sample_maps = (1, sample_maps) \<and>
   fst (marlin_lb_select_backend demo_kernel quic_sample_md quic_sample_ctx quic_sample_vip sample_maps) = Some sample_backend"
proof -
  have flags: "vm_flags quic_sample_vip = 0x708" by (simp add: quic_sample_vip_def)
  have "unat (VIP_QUIC_CID_LEN 0x708) = 7" by code_simp
  moreover have "m_backends sample_maps 1 = Some sample_backend" "be_flags sample_backend AND MARLIN_BE_F_STATE \<noteq> 0"
    by (simp_all add: sample_maps_def sample_backend_def)
  ultimately show ?thesis
    using quic_cid_roundtrip [OF kernel_okD(3) [OF demo_kernel_ok], of quic_sample_md "replicate 43 0" quic_sample_vip 1 "[1, 2, 3, 4]" "[]"
        quic_sample_ctx sample_maps sample_backend]
    by (simp add: quic_sample_md_def quic_sample_ctx_def flags MARLIN_CTX_F_FRAG_ANY_def)
qed

section \<open>The encapsulated frame\<close>


text \<open>A GUE backend, for the witness.\<close>

definition gue_sample_ctx :: marlin_ctx where
  "gue_sample_ctx = zero_ctx\<lparr>mc_backend := sample_backend\<lparr>be_flags := 0x42\<rparr>, mc_pkt_len := 38,
     mc_cfg := zero_config\<lparr>cfg_tunnel_src := 0x0800000a, cfg_max_frame := 1514\<rparr>\<rparr>"


section \<open>Next hops\<close>

text \<open>C34: A frame is redirected only where it may go. When next-hop resolution redirects, the kernel's
  FIB resolved the backend to another interface, that interface is one of the configured transmit
  ports, and an L2DSR frame goes to the backend itself, never to a gateway.\<close>

theorem marlin_nexthop_redirects:
  assumes "redirect_map_ok k"
    and "nexthop_l2dsr k md p m = Some (MARLIN_OK_REDIRECT, md', m') \<and> l2dsr \<or>
         nexthop_encapsulate k md p m = Some (MARLIN_OK_REDIRECT, md', m') \<and> \<not> l2dsr"
  shows "\<exists>fib. k_fib_lookup k md (fib_request md p) = (BPF_FIB_LKUP_RET_SUCCESS, fib) \<and>
    fib_ifindex fib \<noteq> xdp_ingress_ifindex md \<and> fib_ifindex fib \<in> dom (m_tx_ports m) \<and>
    (l2dsr \<longrightarrow> fib_ipv4_dst fib = be_addr (mc_backend p))"
proof -
  have ports: "m_tx_ports (marlin_nexthop_check_egress be i m) = m_tx_ports m" for be i m
    by (simp add: marlin_nexthop_check_egress_def)
  have port: "i \<in> dom t" if "k_redirect_map k t i = XDP_REDIRECT" for t i
    using assms(1) that by (auto simp: redirect_map_ok_def split: if_splits)
  have succ: "fib_ifindex fib \<noteq> xdp_ingress_ifindex md \<and> fib_ifindex fib \<in> dom (m_tx_ports m1) \<and>
      (disc = MARLIN_NH_L2DSR \<longrightarrow> fib_ipv4_dst fib = be_addr (mc_backend p))"
    if "nexthop_fib_success k md p eth disc fib m1 = Some (MARLIN_OK_REDIRECT, md', m')" for eth disc fib m1
    using that
    by (auto simp: nexthop_fib_success_def marlin_fib_onlink_def ports Let_def split: if_splits bind_splits dest: port)
  have fib: "\<exists>fib. k_fib_lookup k md (fib_request md p) = (BPF_FIB_LKUP_RET_SUCCESS, fib) \<and>
      fib_ifindex fib \<noteq> xdp_ingress_ifindex md \<and> fib_ifindex fib \<in> dom (m_tx_ports m1) \<and>
      (disc = MARLIN_NH_L2DSR \<longrightarrow> fib_ipv4_dst fib = be_addr (mc_backend p))"
    if "marlin_nexthop_fib k md p eth disc m1 = Some (MARLIN_OK_REDIRECT, md', m')" for eth disc m1
    using that succ
    by (auto simp: marlin_nexthop_fib_def Let_def split: if_splits prod.splits fib_ret.splits bind_splits)
  from assms(2) show ?thesis
  proof
    assume "nexthop_l2dsr k md p m = Some (MARLIN_OK_REDIRECT, md', m') \<and> l2dsr"
    then show ?thesis
      using fib [of 0 MARLIN_NH_L2DSR m] fib [of 0 MARLIN_NH_L2DSR "marlin_stats_reason MARLIN_COUNT_MAC_FALLBACK m"]
      by (auto simp: nexthop_l2dsr_def marlin_nexthop_eth_def Let_def split: if_splits bind_splits)
  next
    assume "nexthop_encapsulate k md p m = Some (MARLIN_OK_REDIRECT, md', m') \<and> \<not> l2dsr"
    then show ?thesis
      using fib [of 0 MARLIN_NH_ENCAP m]
      by (auto simp: nexthop_encapsulate_def marlin_nexthop_eth_def Let_def split: if_splits bind_splits)
  qed
qed

text \<open>A kernel whose FIB resolves every backend to the second interface.\<close>

definition two_port_kernel :: kernel where
  "two_port_kernel = demo_kernel\<lparr>k_fib_lookup := (\<lambda>md fib. (BPF_FIB_LKUP_RET_SUCCESS, fib\<lparr>fib_ifindex := 2\<rparr>))\<rparr>"

definition redirect_sample_ctx :: marlin_ctx where
  "redirect_sample_ctx = zero_ctx\<lparr>mc_backend := sample_backend\<lparr>be_flags := 0x42 OR MARLIN_BE_F_FIB\<rparr>\<rparr>"

definition redirect_sample_maps :: bpf_maps where
  "redirect_sample_maps = sample_maps\<lparr>m_tx_ports := [2 \<mapsto> 2]\<rparr>"

theorem marlin_nexthop_redirects_witness:
  "fib_ifindex (snd (k_fib_lookup two_port_kernel sample_md4 (fib_request sample_md4 redirect_sample_ctx)))
     \<in> dom (m_tx_ports redirect_sample_maps)"
proof -
  let ?k = two_port_kernel and ?m = redirect_sample_maps and ?p = redirect_sample_ctx
  have k: "redirect_map_ok ?k" by (simp add: two_port_kernel_def demo_kernel_def redirect_map_ok_def)
  have len: "length (xdp_data sample_md4) = 38" "xdp_ingress_ifindex sample_md4 = 1" by code_simp+
  have "\<exists>md' m'. nexthop_encapsulate ?k sample_md4 ?p ?m = Some (MARLIN_OK_REDIRECT, md', m')"
    using len
    by (simp add: nexthop_encapsulate_def marlin_nexthop_eth_def marlin_nexthop_fib_def nexthop_fib_success_def
        marlin_nexthop_check_egress_def two_port_kernel_def demo_kernel_def redirect_sample_ctx_def sample_backend_def
        redirect_sample_maps_def fib_request_def wr_def Let_def)
  then obtain md' m' where "nexthop_encapsulate ?k sample_md4 ?p ?m = Some (MARLIN_OK_REDIRECT, md', m')" by blast
  then show ?thesis
    using marlin_nexthop_redirects [OF k, of sample_md4 ?p ?m md' m' False] by auto
qed

end
