(* ===== verification/Marlind_Conf_Value.thy ===== *)
theory Marlind_Conf_Value
  imports Marlin_Kernel
begin

text \<open>
  The coercions of configuration strings (\<^verbatim>\<open>conf_value.c\<close>): addresses, MAC addresses, keys, prefixes
  and the enumerated fields, and the scaling of the rate limit (\<^verbatim>\<open>rl_scale.h\<close>).

  A C string is a list of characters without the terminating zero. An output parameter that a
  failed call may have written is returned beside the verdict; where every caller ignores it on
  failure the result is an option. The three library functions the code relies on,
  \<^verbatim>\<open>inet_pton\<close> for both families and \<^verbatim>\<open>strtoul\<close>, are written out from their specification.
\<close>

section \<open>Library functions\<close>

abbreviation chr_nat :: "char \<Rightarrow> nat" where "chr_nat c \<equiv> of_char c"

definition isdigit :: "char \<Rightarrow> bool" where
  "isdigit c \<longleftrightarrow> 48 \<le> chr_nat c \<and> chr_nat c \<le> 57"

definition isspace :: "char \<Rightarrow> bool" where
  "isspace c \<longleftrightarrow> chr_nat c = 32 \<or> (9 \<le> chr_nat c \<and> chr_nat c \<le> 13)"

definition dec_val :: "string \<Rightarrow> int" where
  "dec_val ds = foldl (\<lambda>n c. n * 10 + (int (chr_nat c) - 48)) 0 ds"

fun split_on :: "char \<Rightarrow> string \<Rightarrow> string list" where
  "split_on c [] = [[]]"
| "split_on c (x # xs) = (if x = c then [] # split_on c xs else (x # hd (split_on c xs)) # List.tl (split_on c xs))"

text \<open>Dotted decimal: four numbers up to 255 without leading zeros.\<close>

definition pton_octet :: "string \<Rightarrow> u8 option" where
  "pton_octet s =
    (if s \<noteq> [] \<and> list_all isdigit s \<and> (length s > 1 \<longrightarrow> hd s \<noteq> CHR ''0'') \<and> dec_val s \<le> 255
     then Some (of_int (dec_val s)) else None)"

definition inet_pton4 :: "string \<Rightarrow> bytes option" where
  "inet_pton4 s =
    (case map pton_octet (split_on (CHR ''.'') s) of
       [Some a, Some b, Some c, Some d] \<Rightarrow> Some [a, b, c, d]
     | _ \<Rightarrow> None)"

section \<open>Hexadecimal digits, MAC addresses and keys\<close>

definition hex_nibble :: "char \<Rightarrow> int" where
  "hex_nibble ch =
    (if 48 \<le> chr_nat ch \<and> chr_nat ch \<le> 57 then int (chr_nat ch) - 48
     else if 97 \<le> chr_nat ch \<and> chr_nat ch \<le> 102 then int (chr_nat ch) - 97 + 10
     else if 65 \<le> chr_nat ch \<and> chr_nat ch \<le> 70 then int (chr_nat ch) - 65 + 10
     else - 1)"

text \<open>The colon-separated groups of an IPv6 address; the last may be dotted decimal.\<close>

definition pton_group :: "string \<Rightarrow> bytes option" where
  "pton_group s =
    (if s \<noteq> [] \<and> length s \<le> 4 \<and> list_all (\<lambda>c. hex_nibble c \<ge> 0) s then
       let v = foldl (\<lambda>n c. n * 16 + nat (hex_nibble c)) 0 s
       in Some [of_nat (v div 256), of_nat (v mod 256)]
     else None)"

fun pton_groups :: "bool \<Rightarrow> string list \<Rightarrow> bytes option" where
  "pton_groups v4 [] = Some []"
| "pton_groups v4 (s # ss) =
    (case (if v4 \<and> ss = [] \<and> inet_pton4 s \<noteq> None then inet_pton4 s else pton_group s) of
       None \<Rightarrow> None
     | Some bs \<Rightarrow> map_option (\<lambda>rest. bs @ rest) (pton_groups v4 ss))"

fun split_gap :: "string \<Rightarrow> (string \<times> string) option" where
  "split_gap (a # b # s) =
    (if a = CHR '':'' \<and> b = CHR '':'' then Some ([], s)
     else map_option (\<lambda>(l, r). (a # l, r)) (split_gap (b # s)))"
| "split_gap _ = None"

definition groups_of :: "bool \<Rightarrow> string \<Rightarrow> bytes option" where
  "groups_of v4 s = (if s = [] then Some [] else pton_groups v4 (split_on (CHR '':'') s))"

definition inet_pton6 :: "string \<Rightarrow> bytes option" where
  "inet_pton6 s =
    (case split_gap s of
       None \<Rightarrow>
         (case pton_groups True (split_on (CHR '':'') s) of
            Some bs \<Rightarrow> if length bs = 16 then Some bs else None
          | None \<Rightarrow> None)
     | Some (l, r) \<Rightarrow>
         (case (groups_of False l, groups_of True r) of
            (Some a, Some b) \<Rightarrow>
              if length a + length b < 16 then Some (a @ replicate (16 - (length a + length b)) 0 @ b) else None
          | _ \<Rightarrow> None))"

text \<open>\<^verbatim>\<open>strtoul\<close> in base ten: white space, a sign, digits; the value, the rest of the string and whether
  \<^verbatim>\<open>errno\<close> was set. A minus sign negates modulo \<open>2\<^sup>6\<^sup>4\<close>.\<close>

definition strtoul10 :: "string \<Rightarrow> u64 \<times> string \<times> bool" where
  "strtoul10 s =
    (let s1 = dropWhile isspace s;
         neg = (s1 \<noteq> [] \<and> hd s1 = CHR ''-'');
         s2 = (if s1 \<noteq> [] \<and> (hd s1 = CHR ''-'' \<or> hd s1 = CHR ''+'') then List.tl s1 else s1);
         ds = takeWhile isdigit s2;
         rest = dropWhile isdigit s2 in
     if ds = [] then (0, s, False)
     else if dec_val ds \<ge> 2 ^ 64 then (- 1, rest, True)
     else (if neg then - of_int (dec_val ds) else of_int (dec_val ds), rest, False))"

section \<open>The coercions\<close>

definition conf_parse_ipv4 :: "string \<Rightarrow> u32 option" where
  "conf_parse_ipv4 str = map_option le_val (inet_pton4 str)"

definition conf_parse_ipv6 :: "string \<Rightarrow> bytes option" where
  "conf_parse_ipv6 str = inet_pton6 str"

definition nibbles :: "int \<Rightarrow> int \<Rightarrow> u8" where
  "nibbles hi lo = word_of_int (push_bit 4 hi OR lo)"

function mac_loop :: "string \<Rightarrow> nat \<Rightarrow> bytes \<Rightarrow> bool \<times> bytes" where
  "mac_loop str i out =
    (if i < 6 then
       let hi = hex_nibble (str ! (i * 3));
           lo = hex_nibble (str ! (i * 3 + 1)) in
       if hi < 0 \<or> lo < 0 then (False, out)
       else if i < 5 \<and> str ! (i * 3 + 2) \<noteq> CHR '':'' then (False, out)
       else mac_loop str (i + 1) (out[i := nibbles hi lo])
     else (True, out))"
  by pat_completeness auto
termination
  by (relation "measure (\<lambda>(_, i, _). 6 - i)") auto

declare mac_loop.simps [simp del]

definition conf_parse_mac :: "string \<Rightarrow> bytes \<Rightarrow> bool \<times> bytes" where
  "conf_parse_mac str out = (if length str \<noteq> 17 then (False, out) else mac_loop str 0 out)"

function hexkey_loop :: "string \<Rightarrow> nat \<Rightarrow> bytes \<Rightarrow> bool \<times> bytes" where
  "hexkey_loop str i out =
    (if i < 16 then
       let hi = hex_nibble (str ! (2 * i));
           lo = hex_nibble (str ! (2 * i + 1)) in
       if hi < 0 \<or> lo < 0 then (False, out)
       else hexkey_loop str (i + 1) (out[i := nibbles hi lo])
     else (True, out))"
  by pat_completeness auto
termination
  by (relation "measure (\<lambda>(_, i, _). 16 - i)") auto

declare hexkey_loop.simps [simp del]

definition conf_parse_hexkey16 :: "string \<Rightarrow> bytes \<Rightarrow> bool \<times> bytes" where
  "conf_parse_hexkey16 str out = (if length str \<noteq> 32 then (False, out) else hexkey_loop str 0 out)"

definition conf_parse_proto :: "string \<Rightarrow> u8 option" where
  "conf_parse_proto str =
    (if str = ''tcp'' then Some IPPROTO_TCP else if str = ''udp'' then Some IPPROTO_UDP
     else if str = ''sctp'' then Some IPPROTO_SCTP else None)"

definition conf_parse_mode :: "string \<Rightarrow> u8 option" where
  "conf_parse_mode str =
    (if str = ''l2dsr'' then Some MARLIN_MODE_L2DSR else if str = ''ipip'' then Some MARLIN_MODE_IPIP
     else if str = ''gue'' then Some MARLIN_MODE_GUE else if str = ''vxlan'' then Some MARLIN_MODE_VXLAN else None)"

definition conf_parse_state :: "string \<Rightarrow> bool option" where
  "conf_parse_state str = (if str = ''up'' then Some True else if str = ''down'' then Some False else None)"

definition conf_parse_cidr :: "string \<Rightarrow> (bool \<times> u32 \<times> bytes) option" where
  "conf_parse_cidr str =
    (if length str \<ge> 64 then None
     else if CHR ''/'' \<notin> set str then None
     else
       let buf = takeWhile (\<lambda>c. c \<noteq> CHR ''/'') str;
           after = drop (length buf + 1) str;
           (plen, end, err) = strtoul10 after in
       if after = [] \<or> end \<noteq> [] \<or> err then None
       else (case conf_parse_ipv4 buf of
          Some a \<Rightarrow> if plen > 4 * 8 then None else Some (False, ucast plen, le_bytes 4 a @ replicate 12 0)
        | None \<Rightarrow>
            (case conf_parse_ipv6 buf of
               Some a \<Rightarrow> if plen > 16 * 8 then None else Some (True, ucast plen, a)
             | None \<Rightarrow> None)))"

text \<open>The loop of \<^verbatim>\<open>conf_cidr_host_bits_set\<close> over one byte.\<close>

definition byte_host_bits :: "bytes \<Rightarrow> u32 \<Rightarrow> nat \<Rightarrow> bool" where
  "byte_host_bits addr prefixlen byte =
    (let bit_base = of_nat byte * 8 in
     if bit_base \<ge> prefixlen then addr ! byte \<noteq> 0
     else if bit_base + 8 > prefixlen then
       let keep = prefixlen - bit_base;
           mask8 = (ucast (push_bit (8 - unat keep) (0xff :: u32)) :: u8)
       in addr ! byte AND NOT mask8 \<noteq> 0
     else False)"

definition conf_cidr_host_bits_set :: "bytes \<Rightarrow> u32 \<Rightarrow> bool \<Rightarrow> bool" where
  "conf_cidr_host_bits_set addr prefixlen is_v6 =
    (\<exists>byte \<in> {0..<(if is_v6 then 16 else 4)}. byte_host_bits addr prefixlen byte)"

section \<open>Rate-limit scaling (rl_scale.h)\<close>

definition marlind_scale_refill :: "u32 \<Rightarrow> u32" where
  "marlind_scale_refill tokens_per_sec = ucast (push_bit RL_TOKEN_SHIFT (ucast tokens_per_sec :: u64) div 953)"

definition marlind_scale_burst :: "u32 \<Rightarrow> u32" where
  "marlind_scale_burst burst_packets = ucast (push_bit RL_TOKEN_SHIFT (ucast burst_packets :: u64))"

section \<open>Round trips\<close>

definition hex_digit :: "nat \<Rightarrow> char" where
  "hex_digit n = (if n < 10 then char_of (48 + n) else char_of (87 + n))"

lemma hex_nibble_hex_digit: "n < 16 \<Longrightarrow> hex_nibble (hex_digit n) = int n"
  by (cases "n < 10") (simp_all add: hex_digit_def hex_nibble_def)

definition show_byte :: "u8 \<Rightarrow> string" where
  "show_byte b = [hex_digit (unat b div 16), hex_digit (unat b mod 16)]"

lemma unat_byte: "unat (b :: u8) < 256"
  using unsigned_less [of b] by simp

lemma nibbles_show: "nibbles (hex_nibble (hex_digit (unat b div 16))) (hex_nibble (hex_digit (unat b mod 16))) = b"
proof -
  have n: "unat b div 16 < 16" "unat b mod 16 < 16" using unat_byte [of b] by auto
  have "push_bit 4 (int (unat b div 16)) OR int (unat b mod 16) = int (unat b)"
  proof -
    have "int (unat b mod 16) = take_bit 4 (int (unat b))" by (simp add: take_bit_eq_mod zmod_int)
    moreover have "push_bit 4 (int (unat b div 16)) = push_bit 4 (drop_bit 4 (int (unat b)))"
      by (simp add: drop_bit_eq_div zdiv_int)
    moreover have "push_bit 4 (drop_bit 4 k) OR take_bit 4 k = k" for k :: int
      by (rule bit_eqI) (auto simp: bit_simps)
    ultimately show ?thesis by simp
  qed
  then show ?thesis using n by (simp add: nibbles_def hex_nibble_hex_digit)
qed

lemma hex_nibble_show_nonneg:
  "\<not> hex_nibble (hex_digit (unat (b :: u8) div 16)) < 0" "\<not> hex_nibble (hex_digit (unat b mod 16)) < 0"
  using unat_byte [of b] hex_nibble_hex_digit [of "unat b div 16"] hex_nibble_hex_digit [of "unat b mod 16"] by auto

lemma nth_show_bytes:
  "i < length bs \<Longrightarrow> concat (map show_byte bs) ! (2 * i) = hex_digit (unat (bs ! i) div 16) \<and>
    concat (map show_byte bs) ! Suc (2 * i) = hex_digit (unat (bs ! i) mod 16)"
proof (induction bs arbitrary: i)
  case (Cons b bs)
  then show ?case by (cases i) (auto simp: show_byte_def)
qed simp

lemma hexkey_loop_show:
  assumes "length bs = 16" "length out = 16" "i \<le> 16" "take i out = take i bs"
  shows "hexkey_loop (concat (map show_byte bs)) i out = (True, bs)"
  using assms(2-4)
proof (induction "16 - i" arbitrary: i out)
  case 0
  then show ?case using assms(1) by (simp add: hexkey_loop.simps)
next
  case (Suc n)
  then have i: "i < 16" by simp
  have "take (i + 1) (out[i := bs ! i]) = take (i + 1) bs"
    using Suc i assms(1) by (simp add: take_Suc_conv_app_nth)
  then have "hexkey_loop (concat (map show_byte bs)) (i + 1) (out[i := bs ! i]) = (True, bs)"
    using Suc i by (intro Suc(1)) auto
  then show ?case
    using i assms(1) nth_show_bytes [of i bs] nibbles_show [of "bs ! i"] hex_nibble_show_nonneg [of "bs ! i"]
    by (subst hexkey_loop.simps) (simp add: Let_def)
qed

definition show_mac :: "bytes \<Rightarrow> string" where
  "show_mac bs = show_byte (bs ! 0) @ '':'' @ show_byte (bs ! 1) @ '':'' @ show_byte (bs ! 2) @ '':'' @
     show_byte (bs ! 3) @ '':'' @ show_byte (bs ! 4) @ '':'' @ show_byte (bs ! 5)"

lemma mac_loop_show:
  assumes "length bs = 6" "length out = 6"
  shows "mac_loop (show_mac bs) 0 out = (True, bs)"
proof -
  obtain a b c d e f where bs: "bs = [a, b, c, d, e, f]"
    using assms(1) by (auto simp: numeral_eq_Suc length_Suc_conv)
  obtain o1 o2 o3 o4 o5 o6 where out: "out = [o1, o2, o3, o4, o5, o6]"
    using assms(2) by (auto simp: numeral_eq_Suc length_Suc_conv)
  show ?thesis
    unfolding bs out show_mac_def show_byte_def
    by (simp add: mac_loop.simps nibbles_show hex_nibble_show_nonneg Let_def)
qed

definition dec_digit :: "nat \<Rightarrow> char" where
  "dec_digit n = char_of (48 + n)"

definition show_octet :: "u8 \<Rightarrow> string" where
  "show_octet b = (let n = unat b in
     if n < 10 then [dec_digit n] else if n < 100 then [dec_digit (n div 10), dec_digit (n mod 10)]
     else [dec_digit (n div 100), dec_digit (n div 10 mod 10), dec_digit (n mod 10)])"

lemma of_char_dec_digit: "n < 10 \<Longrightarrow> chr_nat (dec_digit n) = 48 + n"
  by (simp add: dec_digit_def)

lemma isdigit_dec_digit: "n < 10 \<Longrightarrow> isdigit (dec_digit n)"
  by (simp add: isdigit_def of_char_dec_digit)

lemma decimal_split:
  "(int (n div 100) * 10 + int (n div 10 mod 10)) * 10 + int (n mod 10) = int n" "int (n div 10) * 10 + int (n mod 10) = int n"
proof -
  have "n div 100 = n div 10 div 10" by (simp add: div_mult2_eq [symmetric])
  then have "(n div 100 * 10 + n div 10 mod 10) * 10 + n mod 10 = n" "n div 10 * 10 + n mod 10 = n"
    by (simp_all only: div_mult_mod_eq)
  then show "(int (n div 100) * 10 + int (n div 10 mod 10)) * 10 + int (n mod 10) = int n" "int (n div 10) * 10 + int (n mod 10) = int n"
    by (simp_all only: of_nat_add [symmetric] of_nat_mult [symmetric] of_nat_numeral [symmetric, where ?'a = int])
qed

lemma pton_octet_show: "pton_octet (show_octet b) = Some b"
proof -
  define n where "n = unat b"
  have lt: "n < 256" using unat_byte [of b] by (simp add: n_def)
  have shape: "show_octet b = (if n < 10 then [dec_digit n] else if n < 100 then [dec_digit (n div 10), dec_digit (n mod 10)]
     else [dec_digit (n div 100), dec_digit (n div 10 mod 10), dec_digit (n mod 10)])"
    by (simp add: show_octet_def n_def Let_def)
  have small: "n div 100 < 10" "n < 100 \<Longrightarrow> n div 10 < 10" using lt by linarith+
  have val: "dec_val (show_octet b) = int n"
    unfolding shape dec_val_def using decimal_split [of n] small
    by (simp add: of_char_dec_digit del: of_nat_div of_nat_mod)
  have "list_all isdigit (show_octet b)"
    unfolding shape using small by (simp add: isdigit_dec_digit)
  moreover have "dec_digit k \<noteq> CHR ''0''" if "0 < k" "k < 10" for k
  proof
    assume "dec_digit k = CHR ''0''"
    then have "chr_nat (dec_digit k) = 48" by simp
    then show False using that by (simp add: of_char_dec_digit)
  qed
  then have "length (show_octet b) > 1 \<longrightarrow> hd (show_octet b) \<noteq> CHR ''0''"
    unfolding shape using small by (simp add: div_greater_zero_iff)
  moreover have "show_octet b \<noteq> []" by (simp add: shape)
  moreover have "dec_val (show_octet b) \<le> 255" using val lt by linarith
  moreover have "(of_int (dec_val (show_octet b)) :: u8) = b" unfolding val n_def by simp
  ultimately show ?thesis by (simp add: pton_octet_def)
qed

lemma split_on_join: "c \<notin> set xs \<Longrightarrow> split_on c (xs @ c # ys) = xs # split_on c ys"
  by (induction xs) auto

lemma split_on_single: "c \<notin> set xs \<Longrightarrow> split_on c xs = [xs]"
  by (induction xs) auto

definition show_ipv4 :: "u32 \<Rightarrow> string" where
  "show_ipv4 a = (let bs = le_bytes 4 a in
     show_octet (bs ! 0) @ CHR ''.'' # show_octet (bs ! 1) @ CHR ''.'' # show_octet (bs ! 2) @ CHR ''.'' # show_octet (bs ! 3))"

lemma show_octet_no_dot: "CHR ''.'' \<notin> set (show_octet b)"
proof
  assume "CHR ''.'' \<in> set (show_octet b)"
  moreover have "list_all isdigit (show_octet b)"
    using pton_octet_show [of b] by (auto simp: pton_octet_def split: if_splits)
  ultimately have "isdigit (CHR ''.'')" by (auto simp: list_all_iff)
  then show False by (simp add: isdigit_def)
qed

lemma conf_parse_ipv4_show: "conf_parse_ipv4 (show_ipv4 a) = Some a"
proof -
  let ?b = "\<lambda>i. le_bytes 4 a ! i"
  have "inet_pton4 (show_ipv4 a) = Some [?b 0, ?b 1, ?b 2, ?b 3]"
    by (simp add: inet_pton4_def show_ipv4_def Let_def split_on_join split_on_single show_octet_no_dot pton_octet_show)
  moreover have "[?b 0, ?b 1, ?b 2, ?b 3] = le_bytes 4 a"
    by (simp add: numeral_eq_Suc)
  ultimately show ?thesis by (simp add: conf_parse_ipv4_def)
qed

section \<open>Prefixes\<close>

text \<open>C33: The coercions invert the usual notation, whatever the buffer held before: a dotted-decimal
  IPv4 address, a colon-separated MAC address and a 32-digit key read back as the bytes they show.\<close>

theorem conf_values_roundtrip:
  assumes "length m = 6" "length k = 16" "length out6 = 6" "length out16 = 16"
  shows "conf_parse_ipv4 (show_ipv4 a) = Some a \<and> conf_parse_mac (show_mac m) out6 = (True, m) \<and>
    conf_parse_hexkey16 (concat (map show_byte k)) out16 = (True, k)"
proof -
  have "length (show_mac m) = 17" by (simp add: show_mac_def show_byte_def)
  moreover have "length (concat (map show_byte k)) = 32"
    using assms(2) by (simp add: length_concat comp_def show_byte_def sum_list_triv)
  ultimately show ?thesis
    using assms conf_parse_ipv4_show mac_loop_show hexkey_loop_show [of k out16 0]
    by (simp add: conf_parse_mac_def conf_parse_hexkey16_def)
qed

theorem conf_values_roundtrip_witness:
  "conf_parse_mac (show_mac [0, 17, 34, 170, 255, 1]) (replicate 6 0) = (True, [0, 17, 34, 170, 255, 1])"
  using conf_values_roundtrip [of "[0, 17, 34, 170, 255, 1]" "replicate 16 0" "replicate 6 0" "replicate 16 0" 0] by simp

text \<open>The \<open>i\<close>-th bit of an address in memory order.\<close>

definition addr_bit :: "bytes \<Rightarrow> nat \<Rightarrow> bool" where
  "addr_bit a i = bit (a ! (i div 8)) (7 - i mod 8)"

lemma keep_mask_bit:
  assumes "keep < 8" "j < 8"
  shows "bit (ucast (push_bit (8 - keep) (0xff :: u32)) :: u8) j \<longleftrightarrow> 8 - keep \<le> j"
proof -
  have m: "(0xff :: u32) = mask 8" by (simp add: mask_eq_exp_minus_1)
  show ?thesis unfolding m using assms by (auto simp: bit_simps)
qed

lemma addr_bits_of_byte:
  "(\<exists>i. p \<le> i \<and> i div 8 = byte \<and> addr_bit addr i) \<longleftrightarrow> (\<exists>j<8. p \<le> byte * 8 + (7 - j) \<and> bit (addr ! byte) j)"
proof
  assume "\<exists>i. p \<le> i \<and> i div 8 = byte \<and> addr_bit addr i"
  then obtain i where i: "p \<le> i" "i div 8 = byte" "addr_bit addr i" by blast
  moreover have "i = byte * 8 + i mod 8" using i(2) by (metis div_mult_mod_eq)
  ultimately show "\<exists>j<8. p \<le> byte * 8 + (7 - j) \<and> bit (addr ! byte) j"
    by (intro exI [of _ "7 - i mod 8"]) (auto simp: addr_bit_def)
next
  assume "\<exists>j<8. p \<le> byte * 8 + (7 - j) \<and> bit (addr ! byte) j"
  then obtain j where j: "j < 8" "p \<le> byte * 8 + (7 - j)" "bit (addr ! byte) j" by blast
  define k where "k = 7 - j"
  have "k < 8" "7 - k = j" using j(1) by (auto simp: k_def)
  then have "(byte * 8 + k) div 8 = byte" "7 - (byte * 8 + k) mod 8 = j" by simp_all
  then show "\<exists>i. p \<le> i \<and> i div 8 = byte \<and> addr_bit addr i"
    using j by (intro exI [of _ "byte * 8 + k"]) (simp add: addr_bit_def k_def)
qed

lemma byte_host_bits_iff:
  assumes "byte < 16" "prefixlen \<le> 128"
  shows "byte_host_bits addr prefixlen byte \<longleftrightarrow> (\<exists>i. unat prefixlen \<le> i \<and> i div 8 = byte \<and> addr_bit addr i)"
proof -
  let ?p = "unat prefixlen" and ?b = "addr ! byte"
  have base: "unat (of_nat byte * 8 :: u32) = byte * 8" "unat (of_nat byte * 8 + 8 :: u32) = byte * 8 + 8"
    using assms(1) by (simp_all add: unat_word_ariths unat_of_nat)
  have p: "?p \<le> 128" using assms(2) by (simp add: word_le_nat_alt)
  have nz: "w \<noteq> 0 \<longleftrightarrow> (\<exists>j<8. bit w j)" for w :: u8
    by (auto simp: bit_eq_iff dest: bit_imp_le_length)
  consider "byte * 8 \<ge> ?p" | "byte * 8 < ?p" "byte * 8 + 8 > ?p" | "byte * 8 + 8 \<le> ?p" by linarith
  then show ?thesis
  proof cases
    case 1
    then have "byte_host_bits addr prefixlen byte \<longleftrightarrow> ?b \<noteq> 0"
      using base by (simp add: byte_host_bits_def Let_def word_le_nat_alt)
    then show ?thesis unfolding addr_bits_of_byte nz using 1 by auto
  next
    case 2
    have keep: "unat (prefixlen - of_nat byte * 8) = ?p - byte * 8"
      using 2 base by (subst unat_sub) (simp_all add: word_le_nat_alt)
    define M where "M = (ucast (push_bit (8 - (?p - byte * 8)) (0xff :: u32)) :: u8)"
    have M: "bit M j \<longleftrightarrow> 8 - (?p - byte * 8) \<le> j" if "j < 8" for j
      unfolding M_def using 2 that by (intro keep_mask_bit) linarith+
    have "byte_host_bits addr prefixlen byte \<longleftrightarrow> ?b AND NOT M \<noteq> 0"
      using 2 base keep by (simp add: byte_host_bits_def Let_def word_le_nat_alt word_less_nat_alt M_def)
    also have "\<dots> \<longleftrightarrow> (\<exists>j<8. bit ?b j \<and> \<not> 8 - (?p - byte * 8) \<le> j)" unfolding nz using M by (auto simp: bit_and_iff bit_not_iff)
    also have "\<dots> \<longleftrightarrow> (\<exists>j<8. ?p \<le> byte * 8 + (7 - j) \<and> bit ?b j)"
    proof -
      have "(\<not> 8 - (?p - byte * 8) \<le> j) = (?p \<le> byte * 8 + (7 - j))" if "j < 8" for j using that 2 by linarith
      then show ?thesis by blast
    qed
    finally show ?thesis unfolding addr_bits_of_byte .
  next
    case 3
    then have "\<not> byte_host_bits addr prefixlen byte"
      using base by (simp add: byte_host_bits_def Let_def word_le_nat_alt word_less_nat_alt)
    then show ?thesis unfolding addr_bits_of_byte using 3 by auto
  qed
qed

text \<open>The host-bit test is exact: it answers true just when some bit of the address at or beyond
  the prefix length, in memory order, is set, so a prefix that passes it is its own network address.\<close>

theorem conf_cidr_host_bits_set_exact:
  assumes "prefixlen \<le> 128"
  shows "conf_cidr_host_bits_set addr prefixlen is_v6 \<longleftrightarrow>
    (\<exists>i. unat prefixlen \<le> i \<and> i < (if is_v6 then 128 else 32) \<and> addr_bit addr i)"
proof -
  have "conf_cidr_host_bits_set addr prefixlen is_v6 \<longleftrightarrow>
      (\<exists>byte < (if is_v6 then 16 else 4). \<exists>i. unat prefixlen \<le> i \<and> i div 8 = byte \<and> addr_bit addr i)"
    unfolding conf_cidr_host_bits_set_def Bex_def atLeastLessThan_iff
    by (intro ex_cong1 conj_cong) (auto simp: byte_host_bits_iff [OF _ assms] split: if_splits)
  also have "\<dots> \<longleftrightarrow> (\<exists>i. unat prefixlen \<le> i \<and> i < (if is_v6 then 128 else 32) \<and> addr_bit addr i)"
  proof -
    have "i div 8 < (if is_v6 then 16 else 4) \<longleftrightarrow> i < (if is_v6 then 128 else 32)" for i :: nat
      by (simp add: div_less_iff_less_mult)
    then show ?thesis by blast
  qed
  finally show ?thesis .
qed

theorem conf_cidr_host_bits_set_exact_witness:
  "conf_cidr_host_bits_set [10, 1, 0, 0] 8 False"
  using conf_cidr_host_bits_set_exact [of 8 "[10, 1, 0, 0]" False]
  by (auto simp: addr_bit_def intro!: exI [of _ 15])

text \<open>What an accepted prefix looks like.\<close>

lemma conf_parse_cidr_result:
  assumes "conf_parse_cidr s = Some (v6, plen, addr)"
  shows "length addr = 16 \<and> unat plen \<le> (if v6 then 128 else 32) \<and> (\<not> v6 \<longrightarrow> drop 4 addr = replicate 12 0)"
proof -
  have len6: "inet_pton6 t = Some a \<Longrightarrow> length a = 16" for t a
    by (auto simp: inet_pton6_def split: option.splits if_splits prod.splits)
  have small: "unat (ucast p :: u32) \<le> n" if "\<not> of_nat n < p" "n \<le> 128" for p :: u64 and n
    using that by (simp add: word_less_nat_alt unat_of_nat unsigned_ucast_eq take_bit_nat_eq_self)
  show ?thesis
    using assms small [of 32] small [of 128]
    by (auto simp: conf_parse_cidr_def conf_parse_ipv6_def Let_def split: if_splits option.splits prod.splits dest: len6)
qed

text \<open>The prefix length is read by \<^verbatim>\<open>strtoul\<close>, so white space, a sign and even a negative number
  that wraps to a small one are accepted.\<close>

theorem conf_parse_cidr_lenient:
  "conf_parse_cidr ''10.0.0.0/-18446744073709551608'' = conf_parse_cidr ''10.0.0.0/8'' \<and>
   conf_parse_cidr ''10.0.0.0/ +8'' = conf_parse_cidr ''10.0.0.0/8'' \<and> conf_parse_cidr ''10.0.0.0/8'' \<noteq> None"
  by (simp add: conf_parse_cidr_def strtoul10_def isspace_def isdigit_def dec_val_def conf_parse_ipv4_def inet_pton4_def
      pton_octet_def Let_def)

section \<open>Scaling\<close>

text \<open>The scaled rate limit loses nothing the check allows: a burst of up to 16777215 packets is
  scaled exactly, a rate never overflows the 32-bit field, and it scales to zero, which the check
  refuses, only below 4 packets per second.\<close>

theorem marlind_scale_exact:
  "unat (marlind_scale_refill r) = unat r * 256 div 953 \<and> (marlind_scale_refill r = 0 \<longleftrightarrow> unat r < 4) \<and>
   (b \<le> 0xffffff \<longrightarrow> unat (marlind_scale_burst b) = unat b * 256)"
proof -
  have lt: "unat r < 2 ^ 32" "unat b < 2 ^ 32" using unsigned_less [of r] unsigned_less [of b] by simp_all
  have shift: "unat (push_bit 8 (ucast x :: u64)) = unat x * 256" if "unat x < 2 ^ 32" for x :: u32
    using that by (simp add: push_bit_eq_mult unat_word_ariths unat_ucast_up_le)
  have refill: "unat (marlind_scale_refill r) = unat r * 256 div 953"
    using shift [OF lt(1)] lt(1) by (simp add: marlind_scale_refill_def unsigned_ucast_eq unat_div take_bit_nat_eq_self)
  moreover have "marlind_scale_refill r = 0 \<longleftrightarrow> unat r * 256 div 953 = 0"
    using refill by (metis unat_eq_zero)
  moreover have "unat r * 256 div 953 = 0 \<longleftrightarrow> unat r < 4" by auto
  moreover have "unat (marlind_scale_burst b) = unat b * 256" if "b \<le> 0xffffff"
    using shift [OF lt(2)] that by (simp add: marlind_scale_burst_def unsigned_ucast_eq word_le_nat_alt take_bit_nat_eq_self)
  ultimately show ?thesis by simp
qed

theorem marlind_scale_exact_witness: "unat (marlind_scale_burst 1000) = 256000"
  using marlind_scale_exact [of 0 1000] by simp

end
