(* ===== verification/Marlind_Compat.thy ===== *)
theory Marlind_Compat
  imports Marlind_Conf_Value
begin

text \<open>
  The oldest BPF object the daemon attaches, and the comparison that enforces it
  (\<^verbatim>\<open>include/marlind/compat.h\<close>, \<^verbatim>\<open>include/marlin/build.h\<close>): reading a version out of an object
  file, parsing it, and the reduced precedence of semantic versions.

  A parsed string is a list of characters without its terminating zero, so the character the code
  reads at the end of it is the zero.
\<close>

section \<open>The embedded version\<close>

definition MARLIN_BUILD_MAGIC :: u32 where "MARLIN_BUILD_MAGIC = 0x4d524c4e"
definition MARLIN_VERSION_MAX :: nat where "MARLIN_VERSION_MAX = 64"
definition MARLIND_MIN_BPF_VERSION :: string where "MARLIND_MIN_BPF_VERSION = ''0.0.0-dev''"

text \<open>The version is an array of 64 characters read from the file; it need not contain a zero.\<close>

record marlin_build =
  mb_magic :: u32
  mb_version :: "char list"

definition NUL :: char where "NUL = CHR 0x00"

definition strnlen :: "char list \<Rightarrow> nat \<Rightarrow> nat" where
  "strnlen s n = length (takeWhile (\<lambda>c. c \<noteq> NUL) (take n s))"

text \<open>The string left in \<^verbatim>\<open>out\<close>; with no room at all nothing is written.\<close>

definition marlind_build_version :: "marlin_build \<Rightarrow> nat \<Rightarrow> string option" where
  "marlind_build_version build out_sz =
    (if out_sz = 0 then None
     else
       let len = strnlen (mb_version build) MARLIN_VERSION_MAX;
           len = (if len \<ge> out_sz then out_sz - 1 else len)
       in Some (take len (mb_version build)))"

section \<open>Parsing\<close>

datatype marlind_vercmp = MARLIND_VERCMP_LESS | MARLIND_VERCMP_EQUAL | MARLIND_VERCMP_GREATER | MARLIND_VERCMP_UNPARSEABLE

datatype marlind_compat = MARLIND_COMPAT_OK | MARLIND_COMPAT_TOO_OLD | MARLIND_COMPAT_UNPARSEABLE

record marlind_semver =
  sv_major :: u64
  sv_minor :: u64
  sv_patch :: u64
  sv_prerelease :: bool

definition char_at :: "string \<Rightarrow> char" where
  "char_at s = (case s of [] \<Rightarrow> NUL | c # _ \<Rightarrow> c)"

fun uint_field_loop :: "string \<Rightarrow> u64 \<Rightarrow> nat \<Rightarrow> (u64 \<times> nat \<times> string) option" where
  "uint_field_loop [] val ndigits = Some (val, ndigits, [])"
| "uint_field_loop (c # str) val ndigits =
    (if isdigit c then
       if val > (0xffffffff - 9) div 10 then None
       else uint_field_loop str (val * 10 + of_nat (chr_nat c - 48)) (ndigits + 1)
     else Some (val, ndigits, c # str))"

definition marlind_parse_uint_field :: "string \<Rightarrow> (u64 \<times> string) option" where
  "marlind_parse_uint_field cur =
    (case uint_field_loop cur 0 0 of
       None \<Rightarrow> None
     | Some (val, ndigits, str) \<Rightarrow> if ndigits = 0 then None else Some (val, str))"

definition parse_dotted_field :: "string \<Rightarrow> (u64 \<times> string) option" where
  "parse_dotted_field cur = do {
     (v, cur) \<leftarrow> marlind_parse_uint_field cur;
     if char_at cur \<noteq> CHR ''.'' then None else Some (v, List.tl cur) }"

definition marlind_parse_semver :: "string \<Rightarrow> marlind_semver option" where
  "marlind_parse_semver str = do {
     (major, cur) \<leftarrow> parse_dotted_field str;
     (minor, cur) \<leftarrow> parse_dotted_field cur;
     (patch, cur) \<leftarrow> marlind_parse_uint_field cur;
     if char_at cur = CHR ''-'' then Some \<lparr>sv_major = major, sv_minor = minor, sv_patch = patch, sv_prerelease = True\<rparr>
     else if char_at cur = CHR ''+'' \<or> char_at cur = NUL
       then Some \<lparr>sv_major = major, sv_minor = minor, sv_patch = patch, sv_prerelease = False\<rparr>
     else None }"

section \<open>Precedence\<close>

definition semver_cmp :: "marlind_semver \<Rightarrow> marlind_semver \<Rightarrow> marlind_vercmp" where
  "semver_cmp va vb =
    (if sv_major va \<noteq> sv_major vb then if sv_major va < sv_major vb then MARLIND_VERCMP_LESS else MARLIND_VERCMP_GREATER
     else if sv_minor va \<noteq> sv_minor vb then if sv_minor va < sv_minor vb then MARLIND_VERCMP_LESS else MARLIND_VERCMP_GREATER
     else if sv_patch va \<noteq> sv_patch vb then if sv_patch va < sv_patch vb then MARLIND_VERCMP_LESS else MARLIND_VERCMP_GREATER
     else if sv_prerelease va = sv_prerelease vb then MARLIND_VERCMP_EQUAL
     else if sv_prerelease va then MARLIND_VERCMP_LESS else MARLIND_VERCMP_GREATER)"

definition marlind_version_cmp :: "string \<Rightarrow> string \<Rightarrow> marlind_vercmp" where
  "marlind_version_cmp lhs rhs =
    (case (marlind_parse_semver lhs, marlind_parse_semver rhs) of
       (Some va, Some vb) \<Rightarrow> semver_cmp va vb
     | _ \<Rightarrow> MARLIND_VERCMP_UNPARSEABLE)"

definition marlind_bpf_object_supported :: "string \<Rightarrow> marlind_compat" where
  "marlind_bpf_object_supported version =
    (case marlind_version_cmp version MARLIND_MIN_BPF_VERSION of
       MARLIND_VERCMP_UNPARSEABLE \<Rightarrow> MARLIND_COMPAT_UNPARSEABLE
     | MARLIND_VERCMP_LESS \<Rightarrow> MARLIND_COMPAT_TOO_OLD
     | _ \<Rightarrow> MARLIND_COMPAT_OK)"

section \<open>What is read from an object\<close>

lemma take_length_takeWhile: "take (length (takeWhile P (take n xs))) xs = takeWhile P (take n xs)"
proof (induction xs arbitrary: n)
  case (Cons x xs)
  then show ?case by (cases n) auto
qed simp

lemma marlind_build_version_some:
  "0 < out_sz \<Longrightarrow> marlind_build_version b out_sz =
    Some (take (out_sz - 1) (takeWhile (\<lambda>c. c \<noteq> NUL) (take MARLIN_VERSION_MAX (mb_version b))))"
proof -
  assume "0 < out_sz"
  let ?w = "takeWhile (\<lambda>c. c \<noteq> NUL) (take MARLIN_VERSION_MAX (mb_version b))"
  have pre: "take (length ?w) (mb_version b) = ?w" by (rule take_length_takeWhile)
  have cut: "take (min k (length ?w)) (mb_version b) = take k ?w" for k
    by (metis pre take_take)
  have "(if out_sz \<le> length ?w then out_sz - 1 else length ?w) = min (out_sz - 1) (length ?w)" by auto
  then show ?thesis using \<open>0 < out_sz\<close> cut [of "out_sz - 1"] by (simp only: marlind_build_version_def strnlen_def Let_def) simp
qed

section \<open>The parser accepts exactly the grammar\<close>

text \<open>A field: a non-empty string of digits whose value is at most 4294967289, the bound the
  accumulator check enforces.\<close>

definition UINT_FIELD_MAX :: int where "UINT_FIELD_MAX = 4294967289"

definition uint_field :: "string \<Rightarrow> bool" where
  "uint_field ds \<longleftrightarrow> ds \<noteq> [] \<and> list_all isdigit ds \<and> dec_val ds \<le> UINT_FIELD_MAX"

definition field_value :: "string \<Rightarrow> u64" where
  "field_value ds = of_int (dec_val ds)"

abbreviation dec_from :: "int \<Rightarrow> string \<Rightarrow> int" where
  "dec_from v ds \<equiv> foldl (\<lambda>n c. n * 10 + (int (chr_nat c) - 48)) v ds"

lemma dec_from_ge: "0 \<le> v \<Longrightarrow> list_all isdigit ds \<Longrightarrow> v \<le> dec_from v ds"
proof (induction ds arbitrary: v)
  case (Cons c ds)
  have "48 \<le> chr_nat c" using Cons.prems(2) by (simp add: isdigit_def)
  then have "0 \<le> v * 10 + (int (chr_nat c) - 48)" "v \<le> v * 10 + (int (chr_nat c) - 48)" using Cons.prems(1) by linarith+
  then show ?case using Cons.IH [of "v * 10 + (int (chr_nat c) - 48)"] Cons.prems(2) by simp
qed simp

lemma accumulator_room:
  assumes "0 \<le> v" "v \<le> UINT_FIELD_MAX"
  shows "(of_int v :: u64) > (0xffffffff - 9) div 10 \<longleftrightarrow> v > 429496728"
  using assms by (simp add: UINT_FIELD_MAX_def word_less_def uint_word_of_int unsigned_of_int take_bit_int_eq_self)

lemma uint_field_loop_exact:
  "0 \<le> v \<Longrightarrow> v \<le> UINT_FIELD_MAX \<Longrightarrow>
    uint_field_loop s (of_int v) n =
      (if dec_from v (takeWhile isdigit s) \<le> UINT_FIELD_MAX
       then Some (of_int (dec_from v (takeWhile isdigit s)), n + length (takeWhile isdigit s), dropWhile isdigit s)
       else None)"
proof (induction s arbitrary: v n)
  case (Cons c s)
  show ?case
  proof (cases "isdigit c")
    case True
    let ?v = "v * 10 + (int (chr_nat c) - 48)"
    have d: "48 \<le> chr_nat c" "chr_nat c \<le> 57" using True by (auto simp: isdigit_def)
    then have v0: "0 \<le> ?v" using Cons.prems(1) by linarith
    have w: "of_int v * 10 + of_nat (chr_nat c - 48) = (of_int ?v :: u64)"
      using d by (simp add: of_nat_diff)
    have ge: "?v \<le> dec_from ?v (takeWhile isdigit s)"
      using v0 by (intro dec_from_ge) (auto simp: list_all_iff dest: set_takeWhileD)
    show ?thesis
    proof (cases "v > 429496728")
      case big: True
      then have "UINT_FIELD_MAX < ?v" using d unfolding UINT_FIELD_MAX_def by linarith
      then show ?thesis using True big ge accumulator_room [OF Cons.prems] by simp
    next
      case False
      then have "?v \<le> UINT_FIELD_MAX" using d unfolding UINT_FIELD_MAX_def by linarith
      then show ?thesis using True False v0 w Cons.IH [of ?v "n + 1"] accumulator_room [OF Cons.prems] by simp
    qed
  qed (use Cons.prems in simp)
qed simp

lemma parse_uint_field_exact:
  "marlind_parse_uint_field s =
    (if uint_field (takeWhile isdigit s) then Some (field_value (takeWhile isdigit s), dropWhile isdigit s) else None)"
proof -
  have "list_all isdigit (takeWhile isdigit s)" by (auto simp: list_all_iff dest: set_takeWhileD)
  moreover have "(0 :: u64) = of_int 0" by simp
  ultimately show ?thesis
    using uint_field_loop_exact [of 0 s 0]
    by (auto simp: marlind_parse_uint_field_def uint_field_def field_value_def dec_val_def UINT_FIELD_MAX_def simp del: of_int_0)
qed

lemma char_at_rest: "\<not> isdigit (char_at (dropWhile isdigit s))"
  by (induction s) (simp_all add: char_at_def, simp add: isdigit_def NUL_def)

text \<open>Splitting a string at the end of its digits determines the digits and the rest.\<close>

lemma parse_uint_field_iff:
  "marlind_parse_uint_field s = Some (v, rest) \<longleftrightarrow>
    (\<exists>ds. s = ds @ rest \<and> uint_field ds \<and> \<not> isdigit (char_at rest) \<and> v = field_value ds)"
proof
  assume a: "marlind_parse_uint_field s = Some (v, rest)"
  show "\<exists>ds. s = ds @ rest \<and> uint_field ds \<and> \<not> isdigit (char_at rest) \<and> v = field_value ds"
    using a by (intro exI [of _ "takeWhile isdigit s"]) (auto simp: parse_uint_field_exact char_at_rest split: if_splits)
next
  assume "\<exists>ds. s = ds @ rest \<and> uint_field ds \<and> \<not> isdigit (char_at rest) \<and> v = field_value ds"
  then obtain ds where ds: "s = ds @ rest" "uint_field ds" "\<not> isdigit (char_at rest)" "v = field_value ds" by blast
  have "takeWhile isdigit rest = []" "dropWhile isdigit rest = rest"
    using ds(3) by (cases rest; simp add: char_at_def)+
  then have "takeWhile isdigit s = ds" "dropWhile isdigit s = rest"
    using ds(1,2) by (auto simp: uint_field_def list_all_iff takeWhile_append2 dropWhile_append2)
  then show "marlind_parse_uint_field s = Some (v, rest)" using ds by (simp add: parse_uint_field_exact)
qed

lemma parse_dotted_field_iff:
  "parse_dotted_field s = Some (v, rest) \<longleftrightarrow> (\<exists>ds. s = ds @ CHR ''.'' # rest \<and> uint_field ds \<and> v = field_value ds)"
proof
  assume "parse_dotted_field s = Some (v, rest)"
  then obtain cur where "marlind_parse_uint_field s = Some (v, cur)" "char_at cur = CHR ''.''" "rest = List.tl cur"
    by (auto simp: parse_dotted_field_def bind_eq_Some_conv split: if_splits)
  then have "marlind_parse_uint_field s = Some (v, CHR ''.'' # rest)" by (cases cur) (simp_all add: char_at_def NUL_def)
  then show "\<exists>ds. s = ds @ CHR ''.'' # rest \<and> uint_field ds \<and> v = field_value ds"
    by (auto simp: parse_uint_field_iff)
next
  assume "\<exists>ds. s = ds @ CHR ''.'' # rest \<and> uint_field ds \<and> v = field_value ds"
  then have "marlind_parse_uint_field s = Some (v, CHR ''.'' # rest)"
    by (auto simp: parse_uint_field_iff char_at_def isdigit_def)
  then show "parse_dotted_field s = Some (v, rest)" by (simp add: parse_dotted_field_def char_at_def)
qed

text \<open>The suffix after the patch number: nothing, or a tag that starts with a separator. A string
  holds no zero character.\<close>

definition version_suffix :: "string \<Rightarrow> bool" where
  "version_suffix t \<longleftrightarrow> t = [] \<or> hd t = CHR ''-'' \<or> hd t = CHR ''+''"

definition semver_text :: "string \<Rightarrow> string \<Rightarrow> string \<Rightarrow> string \<Rightarrow> string" where
  "semver_text a b c t = a @ ''.'' @ b @ ''.'' @ c @ t"

definition semver_of :: "string \<Rightarrow> string \<Rightarrow> string \<Rightarrow> string \<Rightarrow> marlind_semver" where
  "semver_of a b c t = \<lparr>sv_major = field_value a, sv_minor = field_value b, sv_patch = field_value c,
     sv_prerelease = (t \<noteq> [] \<and> hd t = CHR ''-'')\<rparr>"

text \<open>C39: The version parser accepts exactly the strings made of three decimal fields separated by
  dots (each at most 4294967289) and followed by nothing, by a \<^verbatim>\<open>-\<close> tag or by a \<^verbatim>\<open>+\<close> tag, and returns
  the values of the fields; in particular no number of digits overflows the accumulator.\<close>

theorem marlind_parse_semver_exact:
  "NUL \<notin> set s \<Longrightarrow> marlind_parse_semver s = Some sv \<longleftrightarrow>
    (\<exists>a b c t. s = semver_text a b c t \<and> uint_field a \<and> uint_field b \<and> uint_field c \<and> version_suffix t \<and>
       sv = semver_of a b c t)"
proof
  assume "NUL \<notin> set s" and "marlind_parse_semver s = Some sv"
  then obtain v1 r1 v2 r2 v3 r3 where p: "parse_dotted_field s = Some (v1, r1)" "parse_dotted_field r1 = Some (v2, r2)"
    "marlind_parse_uint_field r2 = Some (v3, r3)"
    "char_at r3 = CHR ''-'' \<or> char_at r3 = CHR ''+'' \<or> char_at r3 = NUL"
    "sv = \<lparr>sv_major = v1, sv_minor = v2, sv_patch = v3, sv_prerelease = (char_at r3 = CHR ''-'')\<rparr>"
    by (auto simp: marlind_parse_semver_def bind_eq_Some_conv split: if_splits)
  then obtain a b c where f: "s = a @ CHR ''.'' # b @ CHR ''.'' # c @ r3" "uint_field a" "uint_field b" "uint_field c"
    "v1 = field_value a" "v2 = field_value b" "v3 = field_value c"
    by (auto simp: parse_dotted_field_iff parse_uint_field_iff)
  have "version_suffix r3" "(char_at r3 = CHR ''-'') = (r3 \<noteq> [] \<and> hd r3 = CHR ''-'')"
    using p(4) f(1) \<open>NUL \<notin> set s\<close> by (cases r3; auto simp: version_suffix_def char_at_def NUL_def)+
  then show "\<exists>a b c t. s = semver_text a b c t \<and> uint_field a \<and> uint_field b \<and> uint_field c \<and> version_suffix t \<and> sv = semver_of a b c t"
    using f p(5) by (intro exI [of _ a] exI [of _ b] exI [of _ c] exI [of _ r3]) (simp add: semver_text_def semver_of_def)
next
  assume "\<exists>a b c t. s = semver_text a b c t \<and> uint_field a \<and> uint_field b \<and> uint_field c \<and> version_suffix t \<and> sv = semver_of a b c t"
  then obtain a b c t where f: "s = a @ CHR ''.'' # b @ CHR ''.'' # c @ t" "uint_field a" "uint_field b" "uint_field c"
    "version_suffix t" "sv = semver_of a b c t"
    by (auto simp: semver_text_def)
  have t: "\<not> isdigit (char_at t)" "char_at t = CHR ''-'' \<longleftrightarrow> t \<noteq> [] \<and> hd t = CHR ''-''"
    "char_at t = CHR ''-'' \<or> char_at t = CHR ''+'' \<or> char_at t = NUL"
    using f(5) by (cases t; auto simp: version_suffix_def char_at_def NUL_def isdigit_def)+
  have "parse_dotted_field s = Some (field_value a, b @ CHR ''.'' # c @ t)"
    "parse_dotted_field (b @ CHR ''.'' # c @ t) = Some (field_value b, c @ t)"
    "marlind_parse_uint_field (c @ t) = Some (field_value c, t)"
    using f t(1) by (auto simp: parse_dotted_field_iff parse_uint_field_iff)
  then show "marlind_parse_semver s = Some sv"
    using t(2,3) f(6) by (auto simp: marlind_parse_semver_def semver_of_def)
qed

theorem marlind_parse_semver_exact_witness:
  "marlind_parse_semver ''1.20.3-rc1'' = Some \<lparr>sv_major = 1, sv_minor = 20, sv_patch = 3, sv_prerelease = True\<rparr>"
proof -
  have "''1.20.3-rc1'' = semver_text ''1'' ''20'' ''3'' ''-rc1''" "uint_field ''1''" "uint_field ''20''" "uint_field ''3''"
    "version_suffix ''-rc1''"
    "\<lparr>sv_major = 1, sv_minor = 20, sv_patch = 3, sv_prerelease = True\<rparr> = semver_of ''1'' ''20'' ''3'' ''-rc1''"
    by (simp_all add: semver_text_def uint_field_def isdigit_def dec_val_def UINT_FIELD_MAX_def version_suffix_def
        semver_of_def field_value_def)
  moreover have "NUL \<notin> set ''1.20.3-rc1''" by (simp add: NUL_def)
  ultimately show ?thesis using marlind_parse_semver_exact by blast
qed

section \<open>The precedence is a total preorder\<close>

text \<open>The rank of a version: a release ranks above its own pre-releases, which all rank the same, and
  build metadata does not count.\<close>

fun lex_less :: "nat list \<Rightarrow> nat list \<Rightarrow> bool" where
  "lex_less (x # xs) (y # ys) \<longleftrightarrow> x < y \<or> (x = y \<and> lex_less xs ys)"
| "lex_less _ _ \<longleftrightarrow> False"

definition semver_rank :: "marlind_semver \<Rightarrow> nat list" where
  "semver_rank v = [unat (sv_major v), unat (sv_minor v), unat (sv_patch v), if sv_prerelease v then 0 else 1]"

lemma semver_cmp_rank:
  "semver_cmp a b = MARLIND_VERCMP_LESS \<longleftrightarrow> lex_less (semver_rank a) (semver_rank b)"
  "semver_cmp a b = MARLIND_VERCMP_GREATER \<longleftrightarrow> lex_less (semver_rank b) (semver_rank a)"
  "semver_cmp a b = MARLIND_VERCMP_EQUAL \<longleftrightarrow> semver_rank a = semver_rank b"
  "semver_cmp a b \<noteq> MARLIND_VERCMP_UNPARSEABLE"
  by (auto simp: semver_cmp_def semver_rank_def word_less_nat_alt word_unat_eq_iff)

lemma semver_cmp_floor: "marlind_parse_semver MARLIND_MIN_BPF_VERSION = Some \<lparr>sv_major = 0, sv_minor = 0, sv_patch = 0, sv_prerelease = True\<rparr>"
  by (simp add: MARLIND_MIN_BPF_VERSION_def marlind_parse_semver_def parse_dotted_field_def marlind_parse_uint_field_def isdigit_def char_at_def)

lemma bpf_object_supported_iff:
  "marlind_bpf_object_supported v = (if marlind_parse_semver v = None then MARLIND_COMPAT_UNPARSEABLE else MARLIND_COMPAT_OK)"
proof -
  have "\<not> lex_less (semver_rank va) (semver_rank \<lparr>sv_major = 0, sv_minor = 0, sv_patch = 0, sv_prerelease = True\<rparr>)" for va
    by (simp add: semver_rank_def)
  then show ?thesis using semver_cmp_rank
    by (auto simp: marlind_bpf_object_supported_def marlind_version_cmp_def semver_cmp_floor split: option.splits marlind_vercmp.splits)
qed

text \<open>C40: An object is accepted exactly when its version parses, is not below the floor, and the
  comparison orders parsed versions by major, minor and patch number and then pre-release before
  release; the floor of this build, \<^verbatim>\<open>0.0.0-dev\<close>, is the least version there is, so no parseable
  version is too old for it.\<close>

theorem marlind_version_order:
  "(\<forall>lhs rhs va vb. marlind_parse_semver lhs = Some va \<and> marlind_parse_semver rhs = Some vb \<longrightarrow>
      (marlind_version_cmp lhs rhs = MARLIND_VERCMP_LESS \<longleftrightarrow> lex_less (semver_rank va) (semver_rank vb)) \<and>
      (marlind_version_cmp lhs rhs = MARLIND_VERCMP_EQUAL \<longleftrightarrow> semver_rank va = semver_rank vb) \<and>
      (marlind_version_cmp lhs rhs = MARLIND_VERCMP_GREATER \<longleftrightarrow> lex_less (semver_rank vb) (semver_rank va))) \<and>
   (\<forall>v. marlind_bpf_object_supported v =
      (if marlind_parse_semver v = None then MARLIND_COMPAT_UNPARSEABLE else MARLIND_COMPAT_OK))"
  by (auto simp: marlind_version_cmp_def semver_cmp_rank bpf_object_supported_iff)

theorem marlind_version_order_witness:
  "marlind_version_cmp ''1.2.0-dev'' ''1.2.0+g3'' = MARLIND_VERCMP_LESS \<and> marlind_bpf_object_supported ''1.2.0-dev'' = MARLIND_COMPAT_OK"
proof -
  have p: "marlind_parse_semver ''1.2.0-dev'' = Some \<lparr>sv_major = 1, sv_minor = 2, sv_patch = 0, sv_prerelease = True\<rparr>"
    "marlind_parse_semver ''1.2.0+g3'' = Some \<lparr>sv_major = 1, sv_minor = 2, sv_patch = 0, sv_prerelease = False\<rparr>"
    by (simp_all add: marlind_parse_semver_def parse_dotted_field_def marlind_parse_uint_field_def isdigit_def char_at_def)
  show ?thesis using marlind_version_order [THEN conjunct1, rule_format, OF conjI [OF p]]
    marlind_version_order [THEN conjunct2, rule_format, of "''1.2.0-dev''"] p
    by (simp add: semver_rank_def)
qed

end
