(* ===== verification/Marlin_Verifier_Stats.thy ===== *)
theory Marlin_Verifier_Stats
  imports Marlind_Compat "HOL-Library.Signed_Division"
begin

text \<open>
  The developer tool that reports the stack budget of the BPF object (\<^verbatim>\<open>tools/verifier_stats.c\<close>): it
  decodes the instructions of every function of the ELF file for references to the stack, rebuilds
  the call graph from the relocations, and looks for the deepest chain of calls.

  The ELF reader is a library (libelf): what its calls return for a file is a parameter. A read
  outside a section's buffer and a division by zero are the result \<^const>\<open>None\<close>. Of the printed report the
  model keeps the figures.
\<close>

section \<open>Limits\<close>

definition MARLIN_MAX_BPF_STACK :: int where "MARLIN_MAX_BPF_STACK = 512"
definition MARLIN_MAX_FUNCS :: nat where "MARLIN_MAX_FUNCS = 256"
definition MARLIN_MAX_EDGES :: nat where "MARLIN_MAX_EDGES = 1024"
definition MARLIN_MAX_NAME :: nat where "MARLIN_MAX_NAME = 128"

section \<open>The verifier log\<close>

fun strstr_at :: "string \<Rightarrow> string \<Rightarrow> string option" where
  "strstr_at [] needle = (if needle = [] then Some [] else None)"
| "strstr_at (c # log) needle = (if take (length needle) (c # log) = needle then Some (c # log) else strstr_at log needle)"

text \<open>\<^verbatim>\<open>strtol\<close> in base ten: white space, a sign, digits; out of range it returns the nearest bound.\<close>

definition strtol10 :: "string \<Rightarrow> int" where
  "strtol10 s =
    (let s1 = dropWhile isspace s;
         neg = (s1 \<noteq> [] \<and> hd s1 = CHR ''-'');
         s2 = (if s1 \<noteq> [] \<and> (hd s1 = CHR ''-'' \<or> hd s1 = CHR ''+'') then List.tl s1 else s1);
         v = dec_val (takeWhile isdigit s2)
     in if neg then max (- (2 ^ 63)) (- v) else min (2 ^ 63 - 1) v)"

definition parse_processed_insns :: "string \<Rightarrow> int" where
  "parse_processed_insns log =
    (case strstr_at log ''processed '' of None \<Rightarrow> - 1 | Some p \<Rightarrow> strtol10 (drop (length ''processed '') p))"

text \<open>\<^verbatim>\<open>strtok_r\<close> with one separator returns the non-empty pieces.\<close>

definition strtok :: "char \<Rightarrow> string \<Rightarrow> string list" where
  "strtok c s = filter (\<lambda>t. t \<noteq> []) (split_on c s)"

definition report_stack_depth :: "string \<Rightarrow> int list option" where
  "report_stack_depth log =
    map_option (\<lambda>p.
      let line = takeWhile (\<lambda>c. c \<noteq> CHR 0x0A) (drop (length ''stack depth '') p)
      in map strtol10 (strtok (CHR ''+'') line)) (strstr_at log ''stack depth '')"

section \<open>Instructions\<close>

record bpf_insn =
  in_code :: u8
  in_dst_reg :: u8
  in_src_reg :: u8
  in_off :: "16 word"
  in_imm :: "32 word"

definition BPF_LDX :: u8 where "BPF_LDX = 1"
definition BPF_ST :: u8 where "BPF_ST = 2"
definition BPF_STX :: u8 where "BPF_STX = 3"
definition BPF_ALU64 :: u8 where "BPF_ALU64 = 7"
definition BPF_MOV :: u8 where "BPF_MOV = 0xb0"
definition BPF_X :: u8 where "BPF_X = 8"
definition BPF_REG_10 :: u8 where "BPF_REG_10 = 10"

definition insn_of :: "bytes \<Rightarrow> bpf_insn" where
  "insn_of bs = \<lparr>in_code = bs ! 0, in_dst_reg = bs ! 1 AND 0x0f, in_src_reg = drop_bit 4 (bs ! 1),
     in_off = le_val (take 2 (drop 2 bs)), in_imm = le_val (take 4 (drop 4 bs))\<rparr>"

definition read_insns :: "bytes \<Rightarrow> nat \<Rightarrow> nat \<Rightarrow> bpf_insn list option" where
  "read_insns buf off n = those (map (\<lambda>i. map_option insn_of (rd 8 (off + 8 * i) buf)) [0..<n])"

text \<open>A load or a store based on the frame pointer; a copy of the frame pointer.\<close>

definition is_stack_ref :: "bpf_insn \<Rightarrow> bool" where
  "is_stack_ref insn =
    (let class = in_code insn AND 0x07 in
     (class = BPF_LDX \<and> in_src_reg insn = BPF_REG_10) \<or> ((class = BPF_STX \<or> class = BPF_ST) \<and> in_dst_reg insn = BPF_REG_10))"

definition is_fp_copy :: "bpf_insn \<Rightarrow> bool" where
  "is_fp_copy insn \<longleftrightarrow> in_code insn = (BPF_ALU64 OR BPF_MOV OR BPF_X) \<and> in_src_reg insn = BPF_REG_10"

text \<open>The body of the loop: the new maximum and the register the frame pointer was copied to.\<close>

definition depth_step :: "bpf_insn \<Rightarrow> int \<times> u8 option \<Rightarrow> int \<times> u8 option" where
  "depth_step insn = (\<lambda>(max_off, mov_r10_dst).
     let off = (if is_stack_ref insn then sint (in_off insn) else 0);
         max_off = (if is_stack_ref insn \<and> off < 0 \<and> - off > max_off then - off else max_off)
     in if is_fp_copy insn
        then (max_off, Some (in_dst_reg insn))
        else
          let max_off = (if mov_r10_dst = Some (in_dst_reg insn) \<and> in_code insn = BPF_ALU64 \<and> sint (in_imm insn) < 0 \<and>
                            - sint (in_imm insn) > max_off then - sint (in_imm insn) else max_off)
          in (max_off, None))"

definition decode_stack_depth :: "bpf_insn list \<Rightarrow> int" where
  "decode_stack_depth insns = fst (fold depth_step insns (0, None))"

section \<open>The ELF file\<close>

record elf_shdr =
  sh_type :: u32
  sh_size :: u64
  sh_entsize :: u64
  sh_link :: u32
  sh_info :: u32
  sh_name :: u32

record elf_sym =
  st_is_func :: bool
  st_size :: u64
  st_value :: u64
  st_shndx :: u16
  st_name :: u32

record elf_rel =
  r_type :: u32
  r_sym :: u32
  r_offset :: u64

record elf_data =
  d_size :: u64
  d_buf :: bytes

text \<open>What libelf returns: the number of sections, the section headers, symbols and relocations of a
  section, strings of a string table, the contents of a section, and the index of the table of
  section names. Sections are enumerated from 1.\<close>

record elf_file =
  ef_nscn :: nat
  ef_scn :: "nat \<Rightarrow> bool"
  ef_shdr :: "nat \<Rightarrow> elf_shdr option"
  ef_sym :: "nat \<Rightarrow> nat \<Rightarrow> elf_sym option"
  ef_rel :: "nat \<Rightarrow> nat \<Rightarrow> elf_rel option"
  ef_strptr :: "u32 \<Rightarrow> u32 \<Rightarrow> string option"
  ef_data :: "nat \<Rightarrow> elf_data option"
  ef_shstrndx :: u32

definition SHT_SYMTAB :: u32 where "SHT_SYMTAB = 2"
definition SHT_REL :: u32 where "SHT_REL = 9"
definition R_BPF_64_32 :: u32 where "R_BPF_64_32 = 10"

section \<open>The call graph\<close>

record marlin_func =
  mfn_name :: string
  mfn_sec_idx :: int
  mfn_value :: u64
  mfn_size :: u64
  mfn_stack_depth :: int

record marlin_edge =
  me_caller :: nat
  me_callee :: nat

record call_graph =
  g_funcs :: "marlin_func list"
  g_edges :: "marlin_edge list"

fun index_where :: "('a \<Rightarrow> bool) \<Rightarrow> 'a list \<Rightarrow> nat option" where
  "index_where P [] = None"
| "index_where P (x # xs) = (if P x then Some 0 else map_option Suc (index_where P xs))"

definition find_func_by_name :: "string \<Rightarrow> call_graph \<Rightarrow> nat option" where
  "find_func_by_name name g = index_where (\<lambda>f. mfn_name f = name) (g_funcs g)"

definition add_edge :: "nat option \<Rightarrow> nat option \<Rightarrow> call_graph \<Rightarrow> call_graph" where
  "add_edge caller callee g =
    (case (caller, callee) of
       (Some a, Some b) \<Rightarrow>
         if list_ex (\<lambda>e. me_caller e = a \<and> me_callee e = b) (g_edges g) then g
         else if length (g_edges g) \<ge> MARLIN_MAX_EDGES then g
         else g\<lparr>g_edges := g_edges g @ [\<lparr>me_caller = a, me_callee = b\<rparr>]\<rparr>
     | _ \<Rightarrow> g)"

text \<open>An unsigned division of the C program.\<close>

definition udiv :: "u64 \<Rightarrow> u64 \<Rightarrow> nat option" where
  "udiv a b = (if b = 0 then None else Some (unat (a div b)))"

definition find_symtab :: "elf_file \<Rightarrow> nat option" where
  "find_symtab elf = find (\<lambda>i. case ef_shdr elf i of None \<Rightarrow> False | Some sh \<Rightarrow> sh_type sh = SHT_SYMTAB) [1..<ef_nscn elf]"

definition record_func :: "elf_file \<Rightarrow> elf_sym \<Rightarrow> string \<Rightarrow> call_graph \<Rightarrow> call_graph option" where
  "record_func elf esym name g =
    (case (if ef_scn elf (unat (st_shndx esym)) then ef_data elf (unat (st_shndx esym)) else None) of
       None \<Rightarrow> Some g
     | Some fdata \<Rightarrow>
         if st_value esym + st_size esym > d_size fdata then Some g
         else do {
           insns \<leftarrow> read_insns (d_buf fdata) (unat (st_value esym)) (unat (st_size esym div 8));
           Some (g\<lparr>g_funcs := g_funcs g @ [\<lparr>mfn_name = take (MARLIN_MAX_NAME - 1) name, mfn_sec_idx = uint (st_shndx esym),
             mfn_value = st_value esym, mfn_size = st_size esym, mfn_stack_depth = decode_stack_depth insns\<rparr>]\<rparr>) })"

text \<open>The symbols pass 1 takes for subprograms: functions with a body and a name.\<close>

definition subprog_symbol :: "elf_file \<Rightarrow> nat \<Rightarrow> elf_shdr \<Rightarrow> nat \<Rightarrow> (elf_sym \<times> string) option" where
  "subprog_symbol elf symtab shdr i = do {
     esym \<leftarrow> ef_sym elf symtab i;
     if \<not> st_is_func esym \<or> st_size esym = 0 then None
     else do {
       name \<leftarrow> ef_strptr elf (sh_link shdr) (st_name esym);
       if name = [] then None else Some (esym, name) } }"

fun symbols_loop :: "elf_file \<Rightarrow> nat \<Rightarrow> elf_shdr \<Rightarrow> nat list \<Rightarrow> call_graph \<Rightarrow> (bool \<times> call_graph) option" where
  "symbols_loop elf symtab shdr [] g = Some (True, g)"
| "symbols_loop elf symtab shdr (i # is) g =
    (case subprog_symbol elf symtab shdr i of
       None \<Rightarrow> symbols_loop elf symtab shdr is g
     | Some (esym, name) \<Rightarrow>
         if length (g_funcs g) \<ge> MARLIN_MAX_FUNCS then Some (False, g)
         else (case record_func elf esym name g of None \<Rightarrow> None | Some g \<Rightarrow> symbols_loop elf symtab shdr is g))"

definition func_contains :: "int \<Rightarrow> u64 \<Rightarrow> marlin_func \<Rightarrow> bool" where
  "func_contains target_sec off f \<longleftrightarrow>
     mfn_sec_idx f = target_sec \<and> \<not> (off < mfn_value f \<or> off \<ge> mfn_value f + mfn_size f)"

definition reloc_edge :: "elf_file \<Rightarrow> nat \<Rightarrow> elf_shdr \<Rightarrow> int \<Rightarrow> elf_rel option \<Rightarrow> call_graph \<Rightarrow> call_graph" where
  "reloc_edge elf symtab symtab_shdr target_sec rel g =
    (case rel of
       None \<Rightarrow> g
     | Some rel \<Rightarrow>
         if r_type rel \<noteq> R_BPF_64_32 then g
         else (case ef_sym elf symtab (unat (r_sym rel)) of
            None \<Rightarrow> g
          | Some esym \<Rightarrow>
              (case ef_strptr elf (sh_link symtab_shdr) (st_name esym) of
                 None \<Rightarrow> g
               | Some callee_name \<Rightarrow>
                   (case find_func_by_name callee_name g of
                      None \<Rightarrow> g
                    | Some callee_idx \<Rightarrow>
                        add_edge (index_where (func_contains target_sec (r_offset rel)) (g_funcs g)) (Some callee_idx) g))))"

fun relocs_loop :: "elf_file \<Rightarrow> nat \<Rightarrow> elf_shdr \<Rightarrow> nat list \<Rightarrow> call_graph \<Rightarrow> call_graph option" where
  "relocs_loop elf symtab symtab_shdr [] g = Some g"
| "relocs_loop elf symtab symtab_shdr (s # ss) g =
    (case ef_shdr elf s of
       None \<Rightarrow> relocs_loop elf symtab symtab_shdr ss g
     | Some shdr \<Rightarrow>
         if sh_type shdr \<noteq> SHT_REL then relocs_loop elf symtab symtab_shdr ss g
         else do {
           nrels \<leftarrow> udiv (sh_size shdr) (sh_entsize shdr);
           relocs_loop elf symtab symtab_shdr ss
             (fold (\<lambda>i. reloc_edge elf symtab symtab_shdr (sint (sh_info shdr)) (ef_rel elf s i)) [0..<nrels] g) })"

text \<open>The result is the return code and the graph in the two global arrays.\<close>

definition build_from_elf :: "elf_file \<Rightarrow> (int \<times> call_graph) option" where
  "build_from_elf elf =
    (let g = \<lparr>g_funcs = [], g_edges = []\<rparr> in
     case find_symtab elf of
       None \<Rightarrow> Some (- 1, g)
     | Some symtab \<Rightarrow> do {
         symtab_shdr \<leftarrow> ef_shdr elf symtab;
         nsyms \<leftarrow> udiv (sh_size symtab_shdr) (sh_entsize symtab_shdr);
         (ok, g) \<leftarrow> symbols_loop elf symtab symtab_shdr [0..<nsyms] g;
         if \<not> ok then Some (- 1, g)
         else do {
           g \<leftarrow> relocs_loop elf symtab symtab_shdr [1..<ef_nscn elf] g;
           Some (0, g) } })"

definition build_call_graph :: "bool \<Rightarrow> elf_file option \<Rightarrow> (int \<times> call_graph) option" where
  "build_call_graph elf_version_ok opened =
    (if \<not> elf_version_ok then Some (- 1, \<lparr>g_funcs = [], g_edges = []\<rparr>)
     else (case opened of
       None \<Rightarrow> Some (- 1, \<lparr>g_funcs = [], g_edges = []\<rparr>)
     | Some elf \<Rightarrow> build_from_elf elf))"

definition find_entry_func :: "elf_file option \<Rightarrow> call_graph \<Rightarrow> nat option" where
  "find_entry_func opened g =
    (case opened of
       None \<Rightarrow> None
     | Some elf \<Rightarrow>
         index_where (\<lambda>f.
           case (if ef_scn elf (nat (mfn_sec_idx f)) then ef_shdr elf (nat (mfn_sec_idx f)) else None) of
             None \<Rightarrow> False
           | Some shdr \<Rightarrow>
               (case ef_strptr elf (ef_shstrndx elf) (sh_name shdr) of
                  None \<Rightarrow> False
                | Some secname \<Rightarrow> secname = ''xdp'' \<or> take 4 secname = ''xdp/'')) (g_funcs g))"

section \<open>The worst chain of calls\<close>

record marlin_chain =
  ch_sum :: int
  ch_path :: "nat list"

definition round_up_stack :: "int \<Rightarrow> int \<Rightarrow> int" where
  "round_up_stack v mult = ((v + mult - 1) sdiv mult) * mult"

definition frame_cost :: "call_graph \<Rightarrow> int \<Rightarrow> nat \<Rightarrow> int" where
  "frame_cost g round_mult idx = round_up_stack (mfn_stack_depth (g_funcs g ! idx)) round_mult"

text \<open>The array \<^verbatim>\<open>on_stack\<close> is the set of the functions marked in it, and \<^verbatim>\<open>path\<close> with \<^verbatim>\<open>depth\<close> the list of its
  first entries. A function met on its own stack is reported and not entered.\<close>

function walk_worst_chain :: "call_graph \<Rightarrow> int \<Rightarrow> nat \<Rightarrow> int \<Rightarrow> nat list \<Rightarrow> nat set \<Rightarrow> marlin_chain \<Rightarrow> marlin_chain" where
  "walk_worst_chain g round_mult idx acc path on_stack best =
    (if idx \<in> on_stack then best
     else
       let path = path @ [idx];
           acc = acc + frame_cost g round_mult idx;
           has_callee = list_ex (\<lambda>e. me_caller e = idx) (g_edges g);
           best = fold (\<lambda>e best. if me_caller e \<noteq> idx then best
                                 else walk_worst_chain g round_mult (me_callee e) acc path (insert idx on_stack) best) (g_edges g) best
       in if \<not> has_callee \<and> acc > ch_sum best then \<lparr>ch_sum = acc, ch_path = path\<rparr> else best)"
  by pat_completeness auto
termination
proof (relation "measure (\<lambda>(g, _, idx, _, _, on_stack, _). card (insert idx (me_callee ` set (g_edges g)) - on_stack))")
  fix g :: call_graph and idx :: nat and on_stack :: "nat set" and e
  assume "idx \<notin> on_stack" and "e \<in> set (g_edges g)"
  then have "insert (me_callee e) (me_callee ` set (g_edges g)) - insert idx on_stack
    \<subset> insert idx (me_callee ` set (g_edges g)) - on_stack" by auto
  then show "((g, m, me_callee e, acc, path, insert idx on_stack, best), (g, m', idx, acc', path', on_stack, best'))
    \<in> measure (\<lambda>(g, _, idx, _, _, on_stack, _). card (insert idx (me_callee ` set (g_edges g)) - on_stack))" for m acc path best m' acc' path' best'
    by (simp add: psubset_card_mono)
qed simp

declare walk_worst_chain.simps [simp del]

definition worst_chain :: "call_graph \<Rightarrow> int \<Rightarrow> nat \<Rightarrow> marlin_chain" where
  "worst_chain g round_mult entry = walk_worst_chain g round_mult entry 0 [] {} \<lparr>ch_sum = 0, ch_path = []\<rparr>"

text \<open>The line printed for a chain: every frame with its raw and rounded size, the total, and whether
  the warning about the budget is printed.\<close>

definition print_chain :: "call_graph \<Rightarrow> int \<Rightarrow> marlin_chain \<Rightarrow> (string \<times> int \<times> int) list \<times> int \<times> bool" where
  "print_chain g round_mult chain =
    (map (\<lambda>i. let f = g_funcs g ! i in (mfn_name f, mfn_stack_depth f, round_up_stack (mfn_stack_depth f) round_mult)) (ch_path chain),
     ch_sum chain, ch_sum chain > MARLIN_MAX_BPF_STACK)"

section \<open>The program\<close>

text \<open>The file as libelf sees it each time it is opened, and what libbpf does with it: no object, or an
  object with or without an embedded version, the result of loading it, and the log of the kernel.\<close>

record vs_host =
  vh_elf_version_ok :: bool
  vh_elf :: "nat \<Rightarrow> elf_file option"
  vh_alloc :: bool
  vh_object :: "marlin_build option option"
  vh_load_ok :: bool
  vh_log :: string

datatype vs_report =
    Vs_version | Vs_usage | Vs_no_graph | Vs_no_entry
  | Vs_chain int "(string \<times> int \<times> int) list \<times> int \<times> bool"
  | Vs_no_memory | Vs_no_object | Vs_object_version string | Vs_load_failed string
  | Vs_stack_depths "int list option" | Vs_insns int | Vs_no_insns

definition verifier_stats_main :: "vs_host \<Rightarrow> string list \<Rightarrow> (int \<times> vs_report list) option" where
  "verifier_stats_main vh argv =
    (if length argv = 2 \<and> argv ! 1 = ''--version'' then Some (0, [Vs_version])
     else if length argv \<noteq> 2 then Some (1, [Vs_usage])
     else do {
       (ret, g) \<leftarrow> build_call_graph (vh_elf_version_ok vh) (vh_elf vh 0);
       if ret \<noteq> 0 then Some (1, [Vs_no_graph])
       else
         let chains = (case find_entry_func (vh_elf vh 1) g of
                 None \<Rightarrow> [Vs_no_entry]
               | Some entry \<Rightarrow> [Vs_chain 16 (print_chain g 16 (worst_chain g 16 entry)), Vs_chain 32 (print_chain g 32 (worst_chain g 32 entry))])
         in if \<not> vh_alloc vh then Some (1, chains @ [Vs_no_memory])
            else (case vh_object vh of
              None \<Rightarrow> Some (1, chains @ [Vs_no_object])
            | Some build \<Rightarrow>
                let out = chains @ (case build of None \<Rightarrow> [] | Some b \<Rightarrow> [Vs_object_version (takeWhile (\<lambda>c. c \<noteq> NUL) (take MARLIN_VERSION_MAX (mb_version b)))]) in
                if \<not> vh_load_ok vh then Some (1, out @ [Vs_load_failed (vh_log vh)])
                else
                  let insns = parse_processed_insns (vh_log vh) in
                  Some (0, out @ [Vs_stack_depths (report_stack_depth (vh_log vh)), if insns \<ge> 0 then Vs_insns insns else Vs_no_insns])) })"

section \<open>The depth of one function\<close>

text \<open>The bytes below the frame pointer an instruction touches directly, and those it takes the address
  of when the instruction before it copied the frame pointer.\<close>

definition direct_ref :: "bpf_insn \<Rightarrow> int \<Rightarrow> bool" where
  "direct_ref insn d \<longleftrightarrow> is_stack_ref insn \<and> d = - sint (in_off insn) \<and> d > 0"

definition copies_fp :: "bpf_insn \<Rightarrow> u8 \<Rightarrow> bool" where
  "copies_fp insn r \<longleftrightarrow> is_fp_copy insn \<and> in_dst_reg insn = r"

definition address_ref :: "bpf_insn \<Rightarrow> bpf_insn \<Rightarrow> int \<Rightarrow> bool" where
  "address_ref before insn d \<longleftrightarrow> copies_fp before (in_dst_reg insn) \<and> in_code insn = BPF_ALU64 \<and> d = - sint (in_imm insn) \<and> d > 0"

definition stack_ref :: "bpf_insn list \<Rightarrow> int \<Rightarrow> bool" where
  "stack_ref insns d \<longleftrightarrow> (\<exists>i<length insns. direct_ref (insns ! i) d) \<or>
     (\<exists>i. Suc i < length insns \<and> address_ref (insns ! i) (insns ! Suc i) d)"

lemma stack_ref_snoc:
  "stack_ref (xs @ [x]) d \<longleftrightarrow> stack_ref xs d \<or> direct_ref x d \<or> (xs \<noteq> [] \<and> address_ref (last xs) x d)"
proof -
  have "(\<exists>i<length (xs @ [x]). direct_ref ((xs @ [x]) ! i) d) \<longleftrightarrow> (\<exists>i<length xs. direct_ref (xs ! i) d) \<or> direct_ref x d"
    by (auto simp: Ex_less_Suc nth_append)
  moreover have "(\<exists>i. Suc i < length (xs @ [x]) \<and> address_ref ((xs @ [x]) ! i) ((xs @ [x]) ! Suc i) d) \<longleftrightarrow>
    (\<exists>i. Suc i < length xs \<and> address_ref (xs ! i) (xs ! Suc i) d) \<or> (xs \<noteq> [] \<and> address_ref (last xs) x d)" (is "?L \<longleftrightarrow> ?R")
  proof
    assume ?L
    then obtain i where i: "i < length xs" "address_ref ((xs @ [x]) ! i) ((xs @ [x]) ! Suc i) d" by auto
    show ?R
    proof (cases "Suc i < length xs")
      case True
      with i show ?thesis by (auto simp: nth_append)
    next
      case False
      with i(1) have "i = length xs - 1" "xs \<noteq> []" by auto
      with i show ?thesis by (auto simp: nth_append last_conv_nth)
    qed
  next
    assume ?R
    then show ?L
    proof
      assume "xs \<noteq> [] \<and> address_ref (last xs) x d"
      then show ?L by (intro exI [of _ "length xs - 1"]) (auto simp: nth_append last_conv_nth)
    next
      assume "\<exists>i. Suc i < length xs \<and> address_ref (xs ! i) (xs ! Suc i) d"
      then obtain i where "Suc i < length xs" "address_ref (xs ! i) (xs ! Suc i) d" by blast
      then show ?L by (intro exI [of _ i]) (simp add: nth_append)
    qed
  qed
  ultimately show ?thesis unfolding stack_ref_def by blast
qed

definition fp_copy :: "bpf_insn list \<Rightarrow> u8 option" where
  "fp_copy xs = (if xs = [] then None
     else if copies_fp (last xs) (in_dst_reg (last xs)) then Some (in_dst_reg (last xs)) else None)"

lemma fp_copy_iff: "fp_copy xs = Some r \<longleftrightarrow> xs \<noteq> [] \<and> copies_fp (last xs) r"
  by (auto simp: fp_copy_def copies_fp_def)

text \<open>One step takes the maximum over what the instruction refers to.\<close>

lemma depth_step_snd: "snd (depth_step x (m, r)) = fp_copy [x]"
  by (auto simp: depth_step_def fp_copy_def copies_fp_def Let_def)

lemma depth_step_fst:
  assumes "0 \<le> m"
  shows "m \<le> fst (depth_step x (m, fp_copy xs))"
    and "direct_ref x d \<or> (xs \<noteq> [] \<and> address_ref (last xs) x d) \<Longrightarrow> d \<le> fst (depth_step x (m, fp_copy xs))"
    and "fst (depth_step x (m, fp_copy xs)) = m \<or> direct_ref x (fst (depth_step x (m, fp_copy xs))) \<or>
      (xs \<noteq> [] \<and> address_ref (last xs) x (fst (depth_step x (m, fp_copy xs))))"
proof -
  define a where "a = (if is_stack_ref x \<and> sint (in_off x) < 0 then - sint (in_off x) else 0)"
  define b where "b = (if fp_copy xs = Some (in_dst_reg x) \<and> in_code x = BPF_ALU64 \<and> sint (in_imm x) < 0 then - sint (in_imm x) else 0)"
  have no: "is_fp_copy x \<Longrightarrow> b = 0"
    by (simp add: is_fp_copy_def b_def BPF_ALU64_def BPF_MOV_def BPF_X_def)
  have upd: "0 \<le> k \<Longrightarrow> (if P \<and> v < 0 \<and> - v > k then - v else k) = max k (if P \<and> v < 0 then - v else 0)" for k v :: int and P
    by (auto simp: max_def)
  let ?off = "if is_stack_ref x then sint (in_off x) else 0"
  have "(if is_stack_ref x \<and> ?off < 0 \<and> - ?off > m then - ?off else m) = max m a"
    using upd [OF assms] assms by (cases "is_stack_ref x") (simp_all add: a_def max_def)
  moreover have "(if fp_copy xs = Some (in_dst_reg x) \<and> in_code x = BPF_ALU64 \<and> sint (in_imm x) < 0 \<and> - sint (in_imm x) > max m a
      then - sint (in_imm x) else max m a) = max (max m a) b"
    using upd [of "max m a" "fp_copy xs = Some (in_dst_reg x) \<and> in_code x = BPF_ALU64" "sint (in_imm x)"] assms by (simp add: b_def)
  ultimately have "fst (depth_step x (m, fp_copy xs)) = (if is_fp_copy x then max m a else max (max m a) b)"
    by (simp only: depth_step_def Let_def prod.case) simp
  then have eq: "fst (depth_step x (m, fp_copy xs)) = max (max m a) b" using no assms by (simp add: max_def)
  have da: "direct_ref x d \<longleftrightarrow> d = a \<and> d > 0" for d
    unfolding direct_ref_def a_def by auto
  have db: "xs \<noteq> [] \<and> address_ref (last xs) x d \<longleftrightarrow> d = b \<and> d > 0" for d
    unfolding address_ref_def b_def fp_copy_iff by auto
  have ab: "0 \<le> a" "0 \<le> b" unfolding a_def b_def by auto
  show "m \<le> fst (depth_step x (m, fp_copy xs))" unfolding eq by simp
  show "d \<le> fst (depth_step x (m, fp_copy xs))" if "direct_ref x d \<or> (xs \<noteq> [] \<and> address_ref (last xs) x d)"
    using that unfolding eq da db by auto
  show "fst (depth_step x (m, fp_copy xs)) = m \<or> direct_ref x (fst (depth_step x (m, fp_copy xs))) \<or>
      (xs \<noteq> [] \<and> address_ref (last xs) x (fst (depth_step x (m, fp_copy xs))))"
    using assms ab unfolding eq da db by (auto simp: max_def)
qed

lemma fold_depth_snd: "snd (fold depth_step xs (0, None)) = fp_copy xs"
proof (induction xs rule: rev_induct)
  case (snoc x xs)
  have "snd (depth_step x st) = fp_copy (xs @ [x])" for st
    using depth_step_snd [of x "fst st" "snd st"] by (simp add: fp_copy_def)
  then show ?case by simp
qed (simp add: fp_copy_def)

lemma decode_snoc: "decode_stack_depth (xs @ [x]) = fst (depth_step x (decode_stack_depth xs, fp_copy xs))"
  by (simp add: decode_stack_depth_def fold_depth_snd [symmetric])

lemma decode_stack_depth_nonneg: "0 \<le> decode_stack_depth xs"
proof (induction xs rule: rev_induct)
  case (snoc x xs)
  then show ?case using depth_step_fst(1) [of "decode_stack_depth xs" x xs] by (simp add: decode_snoc)
qed (simp add: decode_stack_depth_def)

lemma decode_stack_depth_exact:
  "(stack_ref xs d \<longrightarrow> d \<le> decode_stack_depth xs) \<and> (decode_stack_depth xs = 0 \<or> stack_ref xs (decode_stack_depth xs))"
proof (induction xs arbitrary: d rule: rev_induct)
  case Nil
  show ?case by (simp add: decode_stack_depth_def stack_ref_def)
next
  case (snoc x xs)
  note step = depth_step_fst [OF decode_stack_depth_nonneg [of xs], where x = x and xs = xs]
  show ?case
  proof (intro conjI impI)
    assume "stack_ref (xs @ [x]) d"
    then show "d \<le> decode_stack_depth (xs @ [x])"
      unfolding decode_snoc stack_ref_snoc using snoc.IH step(1) step(2) [of d] by force
  next
    show "decode_stack_depth (xs @ [x]) = 0 \<or> stack_ref (xs @ [x]) (decode_stack_depth (xs @ [x]))"
      unfolding decode_snoc stack_ref_snoc using snoc.IH step(3) by metis
  qed
qed

section \<open>The worst chain\<close>

text \<open>Calls of the graph, chains of calls, and what a chain costs.\<close>

definition calls :: "call_graph \<Rightarrow> (nat \<times> nat) set" where
  "calls g = (\<lambda>e. (me_caller e, me_callee e)) ` set (g_edges g)"

definition call_chain :: "call_graph \<Rightarrow> nat \<Rightarrow> nat list \<Rightarrow> bool" where
  "call_chain g idx p \<longleftrightarrow> p \<noteq> [] \<and> hd p = idx \<and> successively (\<lambda>a b. (a, b) \<in> calls g) p"

definition chain_cost :: "call_graph \<Rightarrow> int \<Rightarrow> nat list \<Rightarrow> int" where
  "chain_cost g m p = sum_list (map (frame_cost g m) p)"

lemma call_chain_single [simp]: "call_chain g idx [idx]"
  by (simp add: call_chain_def)

lemma call_chain_Cons: "call_chain g idx (i # c # p) \<longleftrightarrow> i = idx \<and> (idx, c) \<in> calls g \<and> call_chain g c (c # p)"
  by (auto simp: call_chain_def)

lemma chain_cost_Cons [simp]: "chain_cost g m (i # p) = frame_cost g m i + chain_cost g m p"
  by (simp add: chain_cost_def)

lemma has_callee_iff: "list_ex (\<lambda>e. me_caller e = idx) (g_edges g) \<longleftrightarrow> (\<exists>c. (idx, c) \<in> calls g)"
  by (force simp: list_ex_iff calls_def)

text \<open>A fold over the edges only visits the callees of the function: an invariant that every visit
  keeps holds at the end, and what a visit to a callee establishes is kept by the others.\<close>

lemma fold_callees_invariant:
  assumes "I best" and "\<And>e best. e \<in> set es \<Longrightarrow> me_caller e = idx \<Longrightarrow> I best \<Longrightarrow> I (f e best)"
  shows "I (fold (\<lambda>e best. if me_caller e \<noteq> idx then best else f e best) es best)"
  using assms by (induction es arbitrary: best) auto

lemma fold_callees_establishes:
  assumes "e \<in> set es" "me_caller e = idx" and "\<And>best. Q (f e best)"
    and "\<And>e best. e \<in> set es \<Longrightarrow> me_caller e = idx \<Longrightarrow> Q best \<Longrightarrow> Q (f e best)"
  shows "Q (fold (\<lambda>e best. if me_caller e \<noteq> idx then best else f e best) es best)"
  using assms
proof (induction es arbitrary: best)
  case (Cons e' es)
  show ?case
  proof (cases "e \<in> set es")
    case True
    have "Q (fold (\<lambda>e best. if me_caller e \<noteq> idx then best else f e best) es b)" for b
      by (rule Cons.IH [OF True Cons.prems(2,3)]) (use Cons.prems(4) in auto)
    then show ?thesis by simp
  next
    case False
    then have "e' = e" using Cons.prems(1) by simp
    moreover have "Q (fold (\<lambda>e best. if me_caller e \<noteq> idx then best else f e best) es (f e best))"
      by (rule fold_callees_invariant [where I = Q]) (use Cons.prems in auto)
    ultimately show ?thesis using Cons.prems(2) by simp
  qed
qed simp

lemma walk_mono: "ch_sum best \<le> ch_sum (walk_worst_chain g m idx acc path on_stack best)"
proof (induction g m idx acc path on_stack best rule: walk_worst_chain.induct)
  case (1 g m idx acc path on_stack best)
  have "ch_sum best \<le> ch_sum (fold (\<lambda>e b. if me_caller e \<noteq> idx then b
      else walk_worst_chain g m (me_callee e) (acc + frame_cost g m idx) (path @ [idx]) (insert idx on_stack) b) (g_edges g) best)"
    if "idx \<notin> on_stack"
    using 1 that by (intro fold_callees_invariant [where I = "\<lambda>b. ch_sum best \<le> ch_sum b"]) (auto intro: order_trans)
  then show ?case by (subst walk_worst_chain.simps) (auto simp: Let_def)
qed

text \<open>What is found is a chain of calls from the function down to one that calls nothing, and its
  cost; whatever the graph looks like.\<close>

lemma walk_sound:
  "walk_worst_chain g m idx acc path on_stack best = best \<or>
    (\<exists>p. call_chain g idx p \<and> (\<nexists>c. (last p, c) \<in> calls g) \<and>
       walk_worst_chain g m idx acc path on_stack best = \<lparr>ch_sum = acc + chain_cost g m p, ch_path = path @ p\<rparr>)"
proof (induction g m idx acc path on_stack best rule: walk_worst_chain.induct)
  case (1 g m idx acc path on_stack best)
  let ?f = "\<lambda>e b. walk_worst_chain g m (me_callee e) (acc + frame_cost g m idx) (path @ [idx]) (insert idx on_stack) b"
  let ?found = "\<lambda>b. b = best \<or> (\<exists>p. call_chain g idx p \<and> (\<nexists>c. (last p, c) \<in> calls g) \<and>
       b = \<lparr>ch_sum = acc + chain_cost g m p, ch_path = path @ p\<rparr>)"
  show ?case
  proof (cases "idx \<in> on_stack")
    case False
    have "?found (?f e b)" if e: "e \<in> set (g_edges g)" "me_caller e = idx" and b: "?found b" for e b
    proof -
      have edge: "(idx, me_callee e) \<in> calls g" using e by (auto simp: calls_def)
      have IH: "?f e b = b \<or> (\<exists>p. call_chain g (me_callee e) p \<and> (\<nexists>c. (last p, c) \<in> calls g) \<and>
          ?f e b = \<lparr>ch_sum = acc + frame_cost g m idx + chain_cost g m p, ch_path = (path @ [idx]) @ p\<rparr>)"
        by (rule 1 [OF False refl refl refl e(1)]) (simp add: e(2))
      show ?thesis
        using IH
      proof (elim disjE exE conjE)
        fix p assume p: "call_chain g (me_callee e) p" "\<nexists>c. (last p, c) \<in> calls g"
          "?f e b = \<lparr>ch_sum = acc + frame_cost g m idx + chain_cost g m p, ch_path = (path @ [idx]) @ p\<rparr>"
        from p(1) obtain q where q: "p = me_callee e # q" by (cases p) (auto simp: call_chain_def)
        have "call_chain g idx (idx # p)" using p(1) edge by (simp add: q call_chain_Cons)
        then show ?thesis using p(2,3) by (intro disjI2 exI [of _ "idx # p"]) (simp add: q)
      qed (use b e in auto)
    qed
    then have "?found (fold (\<lambda>e b. if me_caller e \<noteq> idx then b else ?f e b) (g_edges g) best)"
      by (intro fold_callees_invariant [where I = ?found]) auto
    moreover have "?found \<lparr>ch_sum = acc + frame_cost g m idx, ch_path = path @ [idx]\<rparr>" if "\<nexists>c. (idx, c) \<in> calls g"
      using that by (intro disjI2 exI [of _ "[idx]"]) (simp add: chain_cost_def)
    ultimately show ?thesis using False by (subst walk_worst_chain.simps, subst walk_worst_chain.simps) (simp add: Let_def has_callee_iff)
  qed (simp add: walk_worst_chain.simps)
qed

text \<open>In a graph without cycles no function is met on its own stack, and no chain costs more than the
  result.\<close>

lemma walk_complete:
  assumes "acyclic (calls g)" and "\<And>a c. (a, c) \<in> calls g \<Longrightarrow> 0 \<le> frame_cost g m c" and "\<forall>s\<in>on_stack. (s, idx) \<in> (calls g)\<^sup>+" and "call_chain g idx p"
  shows "acc + chain_cost g m p \<le> ch_sum (walk_worst_chain g m idx acc path on_stack best)"
  using assms
proof (induction g m idx acc path on_stack best arbitrary: p rule: walk_worst_chain.induct)
  case (1 g m idx acc path on_stack best)
  have free: "idx \<notin> on_stack" using 1(2,4) by (auto simp: acyclic_def)
  let ?acc = "acc + frame_cost g m idx"
  let ?f = "\<lambda>e b. walk_worst_chain g m (me_callee e) ?acc (path @ [idx]) (insert idx on_stack) b"
  let ?fold = "fold (\<lambda>e b. if me_caller e \<noteq> idx then b else ?f e b) (g_edges g) best"
  have callee: "?acc + chain_cost g m q \<le> ch_sum ?fold" if c: "(idx, c) \<in> calls g" "call_chain g c q" for c q
  proof -
    obtain e where e: "e \<in> set (g_edges g)" "me_caller e = idx" "me_callee e = c" using c(1) by (auto simp: calls_def)
    have st: "\<forall>s\<in>insert idx on_stack. (s, me_callee e) \<in> (calls g)\<^sup>+"
      using 1(4) c(1) e(3) by (auto intro: trancl_into_trancl)
    have "?acc + chain_cost g m q \<le> ch_sum (?f e b)" for b
      by (rule 1(1) [OF free refl refl refl e(1) _ 1(2,3) st]) (use c(2) e(2,3) in simp_all)
    then show ?thesis
      by (intro fold_callees_establishes [where Q = "\<lambda>b. ?acc + chain_cost g m q \<le> ch_sum b" and e = e])
        (use e in \<open>auto intro: order_trans [OF _ walk_mono]\<close>)
  qed
  have walk: "walk_worst_chain g m idx acc path on_stack best =
    (if (\<nexists>c. (idx, c) \<in> calls g) \<and> ?acc > ch_sum ?fold then \<lparr>ch_sum = ?acc, ch_path = path @ [idx]\<rparr> else ?fold)"
    using free by (subst walk_worst_chain.simps) (simp add: Let_def has_callee_iff)
  show ?case
  proof (cases "\<exists>c. (idx, c) \<in> calls g")
    case False
    have "\<not> (\<exists>c q. p = idx # c # q)" using 1(5) False by (auto simp: call_chain_Cons)
    then have "p = [idx]" using 1(5) by (cases p rule: remdups_adj.cases) (auto simp: call_chain_def)
    then show ?thesis unfolding walk using False by (auto simp: chain_cost_def)
  next
    case True
    then obtain c where c: "(idx, c) \<in> calls g" by blast
    have "?acc + frame_cost g m c \<le> ch_sum ?fold" using callee [OF c call_chain_single] by (simp add: chain_cost_def)
    then have here: "?acc \<le> ch_sum ?fold" using 1(3) [OF c] by linarith
    have "acc + chain_cost g m p \<le> ch_sum ?fold"
    proof (cases p rule: remdups_adj.cases)
      case (3 i c' q)
      then have "i = idx" "(idx, c') \<in> calls g" "call_chain g c' (c' # q)" using 1(5) by (auto simp: call_chain_Cons)
      then show ?thesis using callee [of c' "c' # q"] 3 by simp
    qed (use 1(5) here in \<open>auto simp: call_chain_def chain_cost_def\<close>)
    then show ?thesis unfolding walk using True by simp
  qed
qed

lemma round_up_stack_bounds:
  assumes "0 \<le> v" "0 < m"
  shows "0 \<le> round_up_stack v m" "v \<le> round_up_stack v m" "round_up_stack v m < v + m" "m dvd round_up_stack v m"
proof -
  have eq: "round_up_stack v m = (v + m - 1) div m * m"
    using assms unfolding round_up_stack_def by (cases "v + m - 1 = 0") (simp_all add: signed_divide_int_def)
  have "(v + m - 1) div m * m = v + m - 1 - (v + m - 1) mod m" by (simp add: minus_mod_eq_div_mult)
  then show "v \<le> round_up_stack v m" "round_up_stack v m < v + m"
    using assms pos_mod_bound [of m "v + m - 1"] pos_mod_sign [of m "v + m - 1"] unfolding eq by linarith+
  then show "0 \<le> round_up_stack v m" using assms by linarith
  show "m dvd round_up_stack v m" unfolding eq by simp
qed

section \<open>The reconstructed graph\<close>

definition graph_ok :: "call_graph \<Rightarrow> bool" where
  "graph_ok g \<longleftrightarrow> list_all (\<lambda>f. 0 \<le> mfn_stack_depth f \<and> length (mfn_name f) < MARLIN_MAX_NAME) (g_funcs g) \<and>
     list_all (\<lambda>e. me_caller e < length (g_funcs g) \<and> me_callee e < length (g_funcs g)) (g_edges g) \<and>
     distinct (g_edges g) \<and> length (g_funcs g) \<le> MARLIN_MAX_FUNCS \<and> length (g_edges g) \<le> MARLIN_MAX_EDGES"

lemma index_where_less: "index_where P xs = Some i \<Longrightarrow> i < length xs \<and> P (xs ! i)"
  by (induction xs arbitrary: i) (auto split: if_splits)

lemma add_edge_ok:
  "graph_ok g \<Longrightarrow> (\<And>i. a = Some i \<Longrightarrow> i < length (g_funcs g)) \<Longrightarrow> (\<And>i. b = Some i \<Longrightarrow> i < length (g_funcs g)) \<Longrightarrow>
    graph_ok (add_edge a b g) \<and> g_funcs (add_edge a b g) = g_funcs g"
  by (auto simp: add_edge_def graph_ok_def list_ex_iff split: option.splits)

lemma reloc_edge_ok: "graph_ok g \<Longrightarrow> graph_ok (reloc_edge elf symtab sh t r g) \<and> g_funcs (reloc_edge elf symtab sh t r g) = g_funcs g"
proof -
  assume g: "graph_ok g"
  have "graph_ok (add_edge (index_where P (g_funcs g)) (Some i) g) \<and> g_funcs (add_edge (index_where P (g_funcs g)) (Some i) g) = g_funcs g"
    if "find_func_by_name nm g = Some i" for P nm i
    using that g index_where_less by (intro add_edge_ok) (fastforce simp: find_func_by_name_def)+
  with g show ?thesis by (simp add: reloc_edge_def split: option.splits)
qed

lemma relocs_loop_ok: "graph_ok g \<Longrightarrow> relocs_loop elf symtab sh ss g = Some g' \<Longrightarrow> graph_ok g' \<and> g_funcs g' = g_funcs g"
proof (induction elf symtab sh ss g rule: relocs_loop.induct)
  case (2 elf symtab sh s ss g)
  have fold_ok: "graph_ok (fold (\<lambda>i. reloc_edge elf symtab sh t (ef_rel elf s i)) is g) \<and>
    g_funcs (fold (\<lambda>i. reloc_edge elf symtab sh t (ef_rel elf s i)) is g) = g_funcs g" for t "is"
    using 2(4) by (induction "is" arbitrary: g) (simp_all add: reloc_edge_ok)
  show ?case using 2 fold_ok by (auto split: option.splits if_splits simp: bind_eq_Some_conv)
qed simp

lemma record_func_ok:
  "graph_ok g \<Longrightarrow> g_edges g = [] \<Longrightarrow> length (g_funcs g) < MARLIN_MAX_FUNCS \<Longrightarrow> record_func elf esym nm g = Some g' \<Longrightarrow>
    graph_ok g' \<and> g_edges g' = []"
  by (auto simp: record_func_def graph_ok_def decode_stack_depth_nonneg MARLIN_MAX_NAME_def bind_eq_Some_conv split: option.splits if_splits)

lemma symbols_loop_ok:
  "graph_ok g \<Longrightarrow> g_edges g = [] \<Longrightarrow> symbols_loop elf symtab sh is g = Some (ok, g') \<Longrightarrow> graph_ok g' \<and> g_edges g' = []"
proof (induction elf symtab sh "is" g rule: symbols_loop.induct)
  case (2 elf symtab sh i "is" g)
  show ?case
  proof (cases "subprog_symbol elf symtab sh i")
    case (Some r)
    obtain y nm where r: "r = (y, nm)" by (cases r)
    show ?thesis
    proof (cases "record_func elf y nm g")
      case None
      then show ?thesis using Some r 2(3-) by (simp split: if_splits)
    next
      case (Some g1)
      with 2 r \<open>subprog_symbol elf symtab sh i = Some r\<close> record_func_ok [OF 2(3,4) _ Some] show ?thesis by (simp split: if_splits)
    qed
  qed (use 2 in simp)
qed simp

lemma build_from_elf_ok:
  assumes "build_from_elf elf = Some (r, g)"
  shows "graph_ok g"
proof -
  have empty: "graph_ok \<lparr>g_funcs = [], g_edges = []\<rparr>" "g_edges \<lparr>g_funcs = [], g_edges = []\<rparr> = []" by (simp_all add: graph_ok_def)
  show ?thesis
  proof (cases "find_symtab elf")
    case (Some symtab)
    then obtain sh n ok g1 where "symbols_loop elf symtab sh [0..<n] \<lparr>g_funcs = [], g_edges = []\<rparr> = Some (ok, g1)"
      "ok \<and> relocs_loop elf symtab sh [1..<ef_nscn elf] g1 = Some g \<or> g1 = g"
      using assms by (auto simp: build_from_elf_def bind_eq_Some_conv Let_def split: if_splits)
    then show ?thesis using symbols_loop_ok [OF empty] relocs_loop_ok by blast
  qed (use assms empty in \<open>simp add: build_from_elf_def Let_def\<close>)
qed

lemma build_call_graph_ok: "build_call_graph v opened = Some (r, g) \<Longrightarrow> graph_ok g"
  using build_from_elf_ok by (auto simp: build_call_graph_def graph_ok_def split: if_splits option.splits)

lemma find_entry_less: "find_entry_func opened g = Some i \<Longrightarrow> i < length (g_funcs g)"
  by (auto simp: find_entry_func_def dest: index_where_less split: option.splits)

text \<open>The functions of a chain are known ones, and without cycles no function occurs twice.\<close>

lemma call_chain_reach: "call_chain g idx p \<Longrightarrow> x \<in> set p \<Longrightarrow> (idx, x) \<in> (calls g)\<^sup>*"
proof (induction p arbitrary: idx rule: induct_list012)
  case (3 i c p)
  then have "i = idx" "(idx, c) \<in> calls g" "call_chain g c (c # p)" by (auto simp: call_chain_Cons)
  with 3 show ?case by (auto intro: converse_rtrancl_into_rtrancl)
qed (auto simp: call_chain_def)

lemma call_chain_distinct: "acyclic (calls g) \<Longrightarrow> call_chain g idx p \<Longrightarrow> distinct p"
proof (induction p arbitrary: idx rule: induct_list012)
  case (3 i c p)
  then have c: "(i, c) \<in> calls g" "call_chain g c (c # p)" by (auto simp: call_chain_Cons)
  have "i \<notin> set (c # p)"
  proof
    assume "i \<in> set (c # p)"
    then have "(i, i) \<in> (calls g)\<^sup>+" using call_chain_reach [OF c(2)] c(1) by (blast intro: rtrancl_into_trancl2)
    then show False using 3(3) by (simp add: acyclic_def)
  qed
  then show ?case using 3(2) [OF 3(3) c(2)] by simp
qed auto

lemma call_chain_length:
  assumes "graph_ok g" "idx < length (g_funcs g)" "acyclic (calls g)" "call_chain g idx p"
  shows "length p \<le> MARLIN_MAX_FUNCS"
proof -
  have "x < length (g_funcs g)" if "(idx, x) \<in> (calls g)\<^sup>*" for x
    using that assms(1,2) by induction (auto simp: calls_def graph_ok_def list_all_iff)
  then have "set p \<subseteq> {..<length (g_funcs g)}" using call_chain_reach [OF assms(4)] by auto
  then have "card (set p) \<le> length (g_funcs g)" using card_mono [of "{..<length (g_funcs g)}"] by fastforce
  then show ?thesis using call_chain_distinct [OF assms(3,4)] assms(1) by (simp add: distinct_card graph_ok_def)
qed

text \<open>C23: When the tool rebuilds a call graph without cycles, the figure it prints for the entry point is
  the cost of the most expensive chain of calls from it: no chain costs more, and the printed chain is
  one of the graph, ends in a function that calls nothing, fits the array of the path and costs that
  much. The cost of a frame is its depth rounded up to the next multiple.\<close>

theorem worst_chain_exact:
  assumes "build_call_graph v opened = Some (r, g)" "find_entry_func opened' g = Some entry" "acyclic (calls g)" "0 < m"
  shows "(\<forall>p. call_chain g entry p \<longrightarrow> chain_cost g m p \<le> ch_sum (worst_chain g m entry)) \<and>
    (ch_sum (worst_chain g m entry) = 0 \<or>
     (let p = ch_path (worst_chain g m entry) in
        call_chain g entry p \<and> (\<nexists>c. (last p, c) \<in> calls g) \<and> chain_cost g m p = ch_sum (worst_chain g m entry) \<and>
        length p \<le> MARLIN_MAX_FUNCS)) \<and>
    (\<forall>i < length (g_funcs g). mfn_stack_depth (g_funcs g ! i) \<le> frame_cost g m i \<and>
       frame_cost g m i < mfn_stack_depth (g_funcs g ! i) + m \<and> m dvd frame_cost g m i)"
proof -
  let ?w = "worst_chain g m entry"
  have ok: "graph_ok g" by (rule build_call_graph_ok [OF assms(1)])
  have entry: "entry < length (g_funcs g)" by (rule find_entry_less [OF assms(2)])
  have nonneg: "0 \<le> frame_cost g m i" if "i < length (g_funcs g)" for i
    using ok that assms(4) by (auto simp: frame_cost_def graph_ok_def list_all_length intro: round_up_stack_bounds)
  have callee: "0 \<le> frame_cost g m c" if "(a, c) \<in> calls g" for a c
    using that ok nonneg by (auto simp: calls_def graph_ok_def list_all_iff)
  have "chain_cost g m p \<le> ch_sum ?w" if "call_chain g entry p" for p
    using walk_complete [OF assms(3) callee _ that, where on_stack = "{}" and acc = 0] by (simp add: worst_chain_def)
  moreover have "ch_sum ?w = 0 \<or> (let p = ch_path ?w in call_chain g entry p \<and> (\<nexists>c. (last p, c) \<in> calls g) \<and>
      chain_cost g m p = ch_sum ?w \<and> length p \<le> MARLIN_MAX_FUNCS)"
    using walk_sound [of g m entry 0 "[]" "{}" "\<lparr>ch_sum = 0, ch_path = []\<rparr>"] call_chain_length [OF ok entry assms(3)]
    unfolding worst_chain_def [symmetric] by auto
  moreover have "mfn_stack_depth (g_funcs g ! i) \<le> frame_cost g m i \<and> frame_cost g m i < mfn_stack_depth (g_funcs g ! i) + m \<and>
      m dvd frame_cost g m i" if "i < length (g_funcs g)" for i
    using ok that assms(4) by (auto simp: frame_cost_def graph_ok_def list_all_length intro: round_up_stack_bounds)
  ultimately show ?thesis by blast
qed

text \<open>An object with two functions, the first of which calls the second.\<close>

definition sample_elf :: elf_file where
  "sample_elf = \<lparr>ef_nscn = 4, ef_scn = (\<lambda>i. i < 4),
     ef_shdr = (\<lambda>i. if i = 1 then Some \<lparr>sh_type = SHT_SYMTAB, sh_size = 48, sh_entsize = 24, sh_link = 0, sh_info = 0, sh_name = 0\<rparr>
       else if i = 2 then Some \<lparr>sh_type = 1, sh_size = 24, sh_entsize = 0, sh_link = 0, sh_info = 0, sh_name = 7\<rparr>
       else if i = 3 then Some \<lparr>sh_type = SHT_REL, sh_size = 16, sh_entsize = 16, sh_link = 1, sh_info = 2, sh_name = 0\<rparr> else None),
     ef_sym = (\<lambda>s i. if s \<noteq> 1 then None
       else if i = 0 then Some \<lparr>st_is_func = True, st_size = 16, st_value = 0, st_shndx = 2, st_name = 1\<rparr>
       else if i = 1 then Some \<lparr>st_is_func = True, st_size = 8, st_value = 16, st_shndx = 2, st_name = 2\<rparr> else None),
     ef_rel = (\<lambda>s i. if s = 3 \<and> i = 0 then Some \<lparr>r_type = R_BPF_64_32, r_sym = 1, r_offset = 8\<rparr> else None),
     ef_strptr = (\<lambda>t n. if t = 5 then if n = 7 then Some ''xdp'' else None
       else if n = 1 then Some ''main'' else if n = 2 then Some ''leaf'' else None),
     ef_data = (\<lambda>i. if i = 2 then Some \<lparr>d_size = 24, d_buf =
       [0x7b, 0x1a, 0xf8, 0xff, 0, 0, 0, 0, 0x85, 0x10, 0, 0, 0xff, 0xff, 0xff, 0xff, 0x7a, 0x0a, 0xd8, 0xff, 0, 0, 0, 0]\<rparr> else None),
     ef_shstrndx = 5\<rparr>"

definition sample_graph :: call_graph where
  "sample_graph = \<lparr>g_funcs =
     [\<lparr>mfn_name = ''main'', mfn_sec_idx = 2, mfn_value = 0, mfn_size = 16, mfn_stack_depth = 8\<rparr>,
      \<lparr>mfn_name = ''leaf'', mfn_sec_idx = 2, mfn_value = 16, mfn_size = 8, mfn_stack_depth = 40\<rparr>],
     g_edges = [\<lparr>me_caller = 0, me_callee = 1\<rparr>]\<rparr>"

lemma sample_build: "build_call_graph True (Some sample_elf) = Some (0, sample_graph)"
  by code_simp

lemma sample_entry: "find_entry_func (Some sample_elf) sample_graph = Some 0"
  by code_simp

lemma sample_acyclic: "acyclic (calls sample_graph)"
proof -
  have "calls sample_graph = {(0, 1)}" by (simp add: calls_def sample_graph_def)
  then show ?thesis by (intro acyclicI_order [of _ "\<lambda>x. - int x"]) auto
qed

theorem worst_chain_exact_witness:
  "find_entry_func (Some sample_elf) sample_graph = Some 0 \<and> 64 \<le> ch_sum (worst_chain sample_graph 16 0) \<and>
   length (ch_path (worst_chain sample_graph 16 0)) \<le> 256"
proof -
  note exact = worst_chain_exact [OF sample_build sample_entry sample_acyclic, of 16]
  have "call_chain sample_graph 0 [0, 1]" "chain_cost sample_graph 16 [0, 1] = 64"
    by (simp_all add: call_chain_def calls_def sample_graph_def chain_cost_def frame_cost_def round_up_stack_def signed_divide_int_def)
  then show ?thesis using exact sample_entry by (auto simp: Let_def MARLIN_MAX_FUNCS_def)
qed

section \<open>Malformed objects\<close>

text \<open>A file in which every table has entries of some size, sections have the contents their size says,
  and no function extends past the end of the address space.\<close>

definition elf_sane :: "elf_file \<Rightarrow> bool" where
  "elf_sane elf \<longleftrightarrow>
     (\<forall>i sh. ef_shdr elf i = Some sh \<and> sh_type sh \<in> {SHT_SYMTAB, SHT_REL} \<longrightarrow> sh_entsize sh \<noteq> 0) \<and>
     (\<forall>i d. ef_data elf i = Some d \<longrightarrow> unat (d_size d) \<le> length (d_buf d)) \<and>
     (\<forall>s i y. ef_sym elf s i = Some y \<longrightarrow> unat (st_value y) + unat (st_size y) < 2 ^ 64)"

lemma read_insns_safe: "off + 8 * n \<le> length buf \<Longrightarrow> read_insns buf off n \<noteq> None"
proof -
  have "those (map (\<lambda>i. map_option insn_of (rd 8 (off + 8 * i) buf)) is) \<noteq> None" if "\<forall>i\<in>set is. off + 8 * i + 8 \<le> length buf" for "is"
    using that by (induction "is") (auto simp: rd_def)
  then show "off + 8 * n \<le> length buf \<Longrightarrow> read_insns buf off n \<noteq> None" unfolding read_insns_def by simp
qed

lemma record_func_safe:
  assumes "elf_sane elf" "ef_sym elf s i = Some y"
  shows "record_func elf y nm g \<noteq> None"
proof (cases "if ef_scn elf (unat (st_shndx y)) then ef_data elf (unat (st_shndx y)) else None")
  case (Some d)
  have size: "unat (d_size d) \<le> length (d_buf d)" using Some assms(1) by (auto simp: elf_sane_def split: if_splits)
  have nowrap: "unat (st_value y + st_size y) = unat (st_value y) + unat (st_size y)"
    using assms by (intro unat_add_nowrap) (simp add: elf_sane_def)
  show ?thesis
  proof (cases "st_value y + st_size y > d_size d")
    case False
    then have "unat (st_value y) + unat (st_size y) \<le> length (d_buf d)" using size nowrap by (simp add: word_less_nat_alt)
    then have "unat (st_value y) + 8 * unat (st_size y div 8) \<le> length (d_buf d)" by (simp add: unat_div)
    from read_insns_safe [OF this] show ?thesis using Some False by (auto simp: record_func_def)
  qed (use Some in \<open>simp add: record_func_def\<close>)
qed (simp add: record_func_def)

lemma symbols_loop_safe: "elf_sane elf \<Longrightarrow> symbols_loop elf symtab sh is g \<noteq> None"
proof (induction elf symtab sh "is" g rule: symbols_loop.induct)
  case (2 elf symtab sh i "is" g)
  show ?case
  proof (cases "subprog_symbol elf symtab sh i")
    case (Some r)
    then obtain y nm where r: "r = (y, nm)" "ef_sym elf symtab i = Some y"
      by (auto simp: subprog_symbol_def bind_eq_Some_conv split: if_splits)
    obtain g1 where "record_func elf y nm g = Some g1" using record_func_safe [OF 2(3) r(2)] by blast
    then show ?thesis using 2 Some r(1) by auto
  qed (use 2 in simp)
qed simp

lemma relocs_loop_safe: "elf_sane elf \<Longrightarrow> relocs_loop elf symtab sh ss g \<noteq> None"
  by (induction elf symtab sh ss g rule: relocs_loop.induct)
    (auto simp: udiv_def elf_sane_def split: option.splits)

lemma build_call_graph_safe:
  assumes "\<And>elf. opened = Some elf \<Longrightarrow> elf_sane elf"
  shows "build_call_graph v opened \<noteq> None"
proof (cases opened)
  case (Some elf)
  have "build_from_elf elf \<noteq> None"
  proof (cases "find_symtab elf")
    case symtab: (Some t)
    obtain sh where sh: "ef_shdr elf t = Some sh" "sh_type sh = SHT_SYMTAB"
      using symtab by (auto simp: find_symtab_def find_Some_iff split: option.splits)
    then have e: "sh_entsize sh \<noteq> 0" using assms [OF Some] by (auto simp: elf_sane_def)
    let ?g0 = "\<lparr>g_funcs = [], g_edges = []\<rparr>"
    obtain ok g1 where g1: "symbols_loop elf t sh [0..<unat (sh_size sh div sh_entsize sh)] ?g0 = Some (ok, g1)"
      using symbols_loop_safe [OF assms [OF Some]] by fastforce
    obtain g2 where "relocs_loop elf t sh [1..<ef_nscn elf] g1 = Some g2" using relocs_loop_safe [OF assms [OF Some]] by blast
    then show ?thesis using symtab sh e g1 by (simp add: build_from_elf_def udiv_def Let_def)
  qed (simp add: build_from_elf_def)
  then show ?thesis using Some by (simp add: build_call_graph_def)
qed (simp add: build_call_graph_def)

text \<open>Without the last condition the bounds check of a symbol can wrap around: a symbol at the end of
  the address space passes it, and its instructions are read outside the section.\<close>

definition wrapping_elf :: elf_file where
  "wrapping_elf = sample_elf\<lparr>ef_sym := (\<lambda>s i. if s = 1 \<and> i = 0
     then Some \<lparr>st_is_func = True, st_size = 16, st_value = - 8, st_shndx = 2, st_name = 1\<rparr> else None)\<rparr>"

lemma build_call_graph_wraps: "build_call_graph True (Some wrapping_elf) = None"
proof -
  have "find_symtab wrapping_elf = Some 1" by code_simp
  moreover have "read_insns buf (unat (- 8 :: u64)) 2 = None" if "length buf = 24" for buf
    using that by (simp add: read_insns_def rd_def upt_rec)
  ultimately show ?thesis
    by (simp add: build_call_graph_def build_from_elf_def udiv_def wrapping_elf_def sample_elf_def upt_rec subprog_symbol_def
        record_func_def MARLIN_MAX_FUNCS_def Let_def)
qed

end
