(* ===== verification/Marlind_Vip_Alloc.thy ===== *)
theory Marlind_Vip_Alloc
  imports Marlin_Abi
begin

text \<open>
  Allocation of VIP numbers and the order in which VIP blocks are rewritten (\<^verbatim>\<open>vip_alloc.c\<close>).

  Each \<^verbatim>\<open>[[vip]]\<close> entry owns one block of the forwarding table, named by its VIP number; all the keys
  of the entry point at that block. On a reload the entries are matched with the rows of the live
  \<^verbatim>\<open>vip_map\<close>, and the blocks are rewritten while traffic flows, so the allocator also computes an
  order of writes in which no key ever leads to another entry's block.

  Every \<^verbatim>\<open>__u32\<close> here is an index or a number checked against \<^verbatim>\<open>MAX_VIPS\<close> before it is used, so
  none of the additions wraps; they are natural numbers. A pointer with its count is a list, a
  null one is \<^const>\<open>None\<close>. A \<^verbatim>\<open>bool[MAX_VIPS]\<close> is the set of the indices at which it is true, and
  that only indices below \<^verbatim>\<open>MAX_VIPS\<close> ever enter it is part of what is proved.
\<close>

section \<open>Data\<close>

definition VIP_ALLOC_NUM_UNSET :: nat where "VIP_ALLOC_NUM_UNSET = 0xffffffff"

abbreviation max_vips :: nat where "max_vips \<equiv> unat MAX_VIPS"

record vip_alloc_entry =
  va_keys :: "vip_key list option"
  va_vip_num :: nat

record vip_alloc_baseline =
  vb_key :: vip_key
  vb_vip_num :: nat

record vip_alloc_plan =
  plan_write_order :: "nat list"
  plan_release :: "nat list"

record vip_alloc_reference =
  ref_entry :: nat
  ref_num :: nat

definition va_key_list :: "vip_alloc_entry \<Rightarrow> vip_key list" where
  "va_key_list e = (case va_keys e of None \<Rightarrow> [] | Some ks \<Rightarrow> ks)"

section \<open>Operations\<close>

definition vip_alloc_key_eq :: "vip_key \<Rightarrow> vip_key \<Rightarrow> bool" where
  "vip_alloc_key_eq lhs rhs =
    (if vk_family lhs \<noteq> vk_family rhs \<or> vk_port lhs \<noteq> vk_port rhs \<or> vk_proto lhs \<noteq> vk_proto rhs then False
     else if vk_family lhs = AF_INET then fst (vk_addr lhs) = fst (vk_addr rhs)
     else vk_addr lhs = vk_addr rhs)"

text \<open>A \<^verbatim>\<open>for\<close> loop over indices that returns at the first hit.\<close>

abbreviation first_index :: "(nat \<Rightarrow> bool) \<Rightarrow> nat \<Rightarrow> nat option" where
  "first_index P n \<equiv> find P [0..<n]"

definition vip_alloc_owner :: "vip_alloc_entry list \<Rightarrow> vip_key \<Rightarrow> nat" where
  "vip_alloc_owner entries key =
    (case first_index (\<lambda>i. \<exists>k \<in> set (va_key_list (entries ! i)). vip_alloc_key_eq k key) (length entries) of
       Some i \<Rightarrow> i | None \<Rightarrow> VIP_ALLOC_NUM_UNSET)"

definition vip_alloc_block_ready :: "vip_alloc_reference list \<Rightarrow> nat \<Rightarrow> nat \<Rightarrow> bool" where
  "vip_alloc_block_ready refs num entry \<longleftrightarrow> \<not> (\<exists>r \<in> set refs. ref_num r = num \<and> ref_entry r \<noteq> entry)"

definition vip_alloc_blocker :: "vip_alloc_reference list \<Rightarrow> nat \<Rightarrow> nat \<Rightarrow> nat" where
  "vip_alloc_blocker refs num entry =
    (case find (\<lambda>r. ref_num r = num \<and> ref_entry r \<noteq> entry) refs of
       Some r \<Rightarrow> ref_entry r | None \<Rightarrow> VIP_ALLOC_NUM_UNSET)"

fun vip_alloc_match_keys :: "vip_key list \<Rightarrow> vip_alloc_baseline list \<Rightarrow> nat set \<Rightarrow> nat" where
  "vip_alloc_match_keys [] baseline used = VIP_ALLOC_NUM_UNSET"
| "vip_alloc_match_keys (k # ks) baseline used =
    (case find (\<lambda>b. vb_vip_num b \<notin> used \<and> vip_alloc_key_eq k (vb_key b)) baseline of
       Some b \<Rightarrow> vb_vip_num b
     | None \<Rightarrow> vip_alloc_match_keys ks baseline used)"

definition vip_alloc_match :: "vip_alloc_entry \<Rightarrow> vip_alloc_baseline list \<Rightarrow> nat set \<Rightarrow> nat" where
  "vip_alloc_match entry baseline used = vip_alloc_match_keys (va_key_list entry) baseline used"

text \<open>The two passes of \<^verbatim>\<open>vip_alloc_claim\<close>: keep a number the baseline has, then the lowest free one.\<close>

fun claim_matched ::
  "vip_alloc_entry list \<Rightarrow> vip_alloc_baseline list \<Rightarrow> nat set \<Rightarrow> vip_alloc_entry list \<times> nat set" where
  "claim_matched [] baseline used = ([], used)"
| "claim_matched (e # es) baseline used =
    (let num = vip_alloc_match e baseline used;
         used = (if num \<noteq> VIP_ALLOC_NUM_UNSET then insert num used else used);
         (es, used) = claim_matched es baseline used
     in (e\<lparr>va_vip_num := num\<rparr> # es, used))"

fun claim_free :: "vip_alloc_entry list \<Rightarrow> nat set \<Rightarrow> (vip_alloc_entry list \<times> nat set) option" where
  "claim_free [] used = Some ([], used)"
| "claim_free (e # es) used =
    (if va_vip_num e \<noteq> VIP_ALLOC_NUM_UNSET then
       map_option (\<lambda>(es, used). (e # es, used)) (claim_free es used)
     else case first_index (\<lambda>num. num \<notin> used) max_vips of
       None \<Rightarrow> None
     | Some num \<Rightarrow> map_option (\<lambda>(es, used). (e\<lparr>va_vip_num := num\<rparr> # es, used)) (claim_free es (insert num used)))"

definition vip_alloc_claim ::
  "vip_alloc_entry list \<Rightarrow> vip_alloc_baseline list \<Rightarrow> nat set \<Rightarrow> (vip_alloc_entry list \<times> nat set) option" where
  "vip_alloc_claim entries baseline used =
    (case claim_matched entries baseline used of (entries, used) \<Rightarrow> claim_free entries used)"

definition vip_alloc_relocate ::
  "vip_alloc_entry \<Rightarrow> vip_alloc_reference list \<Rightarrow> nat set \<Rightarrow> (vip_alloc_entry \<times> nat set) option" where
  "vip_alloc_relocate entry refs used =
    (case first_index (\<lambda>num. num \<notin> used \<and> vip_alloc_block_ready refs num VIP_ALLOC_NUM_UNSET) max_vips of
       None \<Rightarrow> None
     | Some num \<Rightarrow> Some (entry\<lparr>va_vip_num := num\<rparr>, insert num (used - {va_vip_num entry})))"

text \<open>The walk from a stuck entry to a member of the cycle that blocks it.\<close>

function order_walk :: "vip_alloc_entry list \<Rightarrow> vip_alloc_reference list \<Rightarrow> nat set \<Rightarrow> nat \<Rightarrow> nat" where
  "order_walk entries refs seen entry =
    (if entry < length entries \<and> entry \<notin> seen then
       let blocker = vip_alloc_blocker refs (va_vip_num (entries ! entry)) entry
       in if blocker = VIP_ALLOC_NUM_UNSET then entry
          else order_walk entries refs (insert entry seen) blocker
     else entry)"
  by pat_completeness auto
termination
proof (relation "measure (\<lambda>(entries, _, seen, _). card ({..<length entries} - seen))")
  fix entries :: "vip_alloc_entry list" and refs :: "vip_alloc_reference list" and seen :: "nat set" and entry x :: nat
  assume "entry < length entries \<and> entry \<notin> seen"
  then have "{..<length entries} - insert entry seen \<subset> {..<length entries} - seen" by auto
  then show "((entries, refs, insert entry seen, x), entries, refs, seen, entry)
      \<in> measure (\<lambda>(entries, _, seen, _). card ({..<length entries} - seen))"
    by (auto intro: psubset_card_mono)
qed simp

declare order_walk.simps [simp del]

text \<open>The state of the ordering loop, one write, and the loop.\<close>

record order_state =
  os_entries :: "vip_alloc_entry list"
  os_refs :: "vip_alloc_reference list"
  os_used :: "nat set"
  os_written :: "nat set"
  os_order :: "nat list"

definition order_commit :: "nat \<Rightarrow> order_state \<Rightarrow> order_state" where
  "order_commit entry s = s\<lparr>
     os_order := os_order s @ [entry],
     os_written := insert entry (os_written s),
     os_refs := map (\<lambda>r. if ref_entry r = entry then r\<lparr>ref_num := va_vip_num (os_entries s ! entry)\<rparr> else r) (os_refs s)\<rparr>"

definition order_ready :: "order_state \<Rightarrow> nat \<Rightarrow> bool" where
  "order_ready s entry \<longleftrightarrow> entry \<notin> os_written s \<and>
     vip_alloc_block_ready (os_refs s) (va_vip_num (os_entries s ! entry)) entry"

definition order_break_cycle :: "order_state \<Rightarrow> (nat \<times> order_state) option" where
  "order_break_cycle s =
    (let start = (case first_index (\<lambda>entry. entry \<notin> os_written s) (length (os_entries s)) of
           Some entry \<Rightarrow> entry | None \<Rightarrow> length (os_entries s));
         entry = order_walk (os_entries s) (os_refs s) {} start
     in if entry = length (os_entries s) then None
        else case vip_alloc_relocate (os_entries s ! entry) (os_refs s) (os_used s) of
          None \<Rightarrow> None
        | Some (e, used) \<Rightarrow> Some (entry, s\<lparr>os_entries := (os_entries s)[entry := e], os_used := used\<rparr>))"

definition order_step :: "order_state \<Rightarrow> order_state option" where
  "order_step s =
    (case first_index (order_ready s) (length (os_entries s)) of
       Some entry \<Rightarrow> Some (order_commit entry s)
     | None \<Rightarrow> map_option (\<lambda>(entry, s). order_commit entry s) (order_break_cycle s))"

lemma order_step_measure:
  "order_step s = Some s' \<Longrightarrow> length (os_order s') = Suc (length (os_order s)) \<and> length (os_entries s') = length (os_entries s)"
  by (auto simp: order_step_def order_break_cycle_def order_commit_def Let_def split: option.splits if_splits prod.splits)

function vip_alloc_order :: "order_state \<Rightarrow> order_state option" where
  "vip_alloc_order s =
    (if length (os_order s) < length (os_entries s)
     then case order_step s of None \<Rightarrow> None | Some s' \<Rightarrow> vip_alloc_order s'
     else Some s)"
  by pat_completeness auto
termination
  by (relation "measure (\<lambda>s. length (os_entries s) - length (os_order s))") (auto dest: order_step_measure)

declare vip_alloc_order.simps [simp del]

text \<open>The reference table, with the range check on the baseline.\<close>

definition refs_of :: "vip_alloc_entry list \<Rightarrow> vip_alloc_baseline list \<Rightarrow> vip_alloc_reference list" where
  "refs_of entries baseline =
    map (\<lambda>b. \<lparr>ref_entry = vip_alloc_owner entries (vb_key b), ref_num = vb_vip_num b\<rparr>)
      (filter (\<lambda>b. vip_alloc_owner entries (vb_key b) \<noteq> VIP_ALLOC_NUM_UNSET) baseline)"

fun keys_checked :: "vip_alloc_entry list \<Rightarrow> nat \<Rightarrow> bool" where
  "keys_checked [] key_count = True"
| "keys_checked (e # es) key_count =
    (if va_keys e = None \<or> va_key_list e = [] \<or> length (va_key_list e) > max_vips - key_count then False
     else keys_checked es (key_count + length (va_key_list e)))"

definition empty_plan :: vip_alloc_plan where
  "empty_plan = \<lparr>plan_write_order = [], plan_release = []\<rparr>"

definition vip_alloc ::
  "vip_alloc_entry list \<Rightarrow> vip_alloc_baseline list \<Rightarrow> bool \<times> vip_alloc_entry list \<times> vip_alloc_plan" where
  "vip_alloc entries baseline =
    (let entries = map (\<lambda>e. e\<lparr>va_vip_num := VIP_ALLOC_NUM_UNSET\<rparr>) entries;
         failed = (False, entries, empty_plan)
     in if length entries > max_vips \<or> length baseline > max_vips then failed
        else if \<not> keys_checked entries 0 then failed
        else if \<exists>b \<in> set baseline. vb_vip_num b \<ge> max_vips then failed
        else case vip_alloc_claim entries baseline {} of
          None \<Rightarrow> failed
        | Some (claimed, used) \<Rightarrow>
            (case vip_alloc_order \<lparr>os_entries = claimed, os_refs = refs_of entries baseline, os_used = used,
                os_written = {}, os_order = []\<rparr> of
               None \<Rightarrow> failed
             | Some s \<Rightarrow> (True, os_entries s, \<lparr>plan_write_order = os_order s,
                 plan_release = filter (\<lambda>num. num \<in> set (map vb_vip_num baseline) \<and> num \<notin> os_used s) [0..<max_vips]\<rparr>)))"

section \<open>Finding the first index\<close>

lemma find_SomeD: "find P xs = Some x \<Longrightarrow> x \<in> set xs \<and> P x"
  by (auto simp: find_Some_iff)

lemma first_index_Some: "first_index P n = Some i \<Longrightarrow> i < n \<and> P i \<and> (\<forall>j<i. \<not> P j)"
  by (auto simp: find_Some_iff)

lemma first_index_None: "first_index P n = None \<longleftrightarrow> (\<forall>i<n. \<not> P i)"
  by (auto simp: find_None_iff)

lemma owner_bound: "vip_alloc_owner entries key \<noteq> VIP_ALLOC_NUM_UNSET \<Longrightarrow> vip_alloc_owner entries key < length entries"
  by (auto simp: vip_alloc_owner_def split: option.splits dest: first_index_Some)

lemma refs_bound: "r \<in> set (refs_of entries baseline) \<Longrightarrow> ref_entry r < length entries"
  by (auto simp: refs_of_def owner_bound)

lemma not_ready_blocker:
  assumes "\<not> vip_alloc_block_ready refs num entry" and "\<forall>r\<in>set refs. ref_entry r < n" "n \<le> max_vips"
  obtains r where "r \<in> set refs" "ref_num r = num" "ref_entry r \<noteq> entry" "vip_alloc_blocker refs num entry = ref_entry r"
    "vip_alloc_blocker refs num entry \<noteq> VIP_ALLOC_NUM_UNSET"
proof -
  obtain r where r: "find (\<lambda>r. ref_num r = num \<and> ref_entry r \<noteq> entry) refs = Some r"
    using assms(1) by (fastforce simp: vip_alloc_block_ready_def find_None_iff elim: option.exhaust [where y = "find _ _"])
  then have mem: "r \<in> set refs" "ref_num r = num" "ref_entry r \<noteq> entry" by (auto simp: find_Some_iff)
  moreover have "ref_entry r \<noteq> VIP_ALLOC_NUM_UNSET" using mem(1) assms(2,3) by (auto simp: VIP_ALLOC_NUM_UNSET_def)
  ultimately show thesis using that r by (simp add: vip_alloc_blocker_def)
qed

section \<open>Claiming numbers\<close>

abbreviation nums :: "vip_alloc_entry list \<Rightarrow> nat list" where
  "nums es \<equiv> map va_vip_num es"

definition assigned :: "vip_alloc_entry list \<Rightarrow> nat list" where
  "assigned es = filter (\<lambda>n. n \<noteq> VIP_ALLOC_NUM_UNSET) (nums es)"

lemma assigned_simps [simp]:
  "assigned [] = []"
  "assigned (e # es) = (if va_vip_num e = VIP_ALLOC_NUM_UNSET then assigned es else va_vip_num e # assigned es)"
  by (simp_all add: assigned_def)

lemma match_keys_result:
  "vip_alloc_match_keys ks baseline used \<noteq> VIP_ALLOC_NUM_UNSET \<Longrightarrow>
    vip_alloc_match_keys ks baseline used \<notin> used \<and>
    (\<exists>b \<in> set baseline. vb_vip_num b = vip_alloc_match_keys ks baseline used \<and> (\<exists>k \<in> set ks. vip_alloc_key_eq k (vb_key b)))"
proof (induction ks)
  case (Cons k ks)
  then show ?case
    by (cases "find (\<lambda>b. vb_vip_num b \<notin> used \<and> vip_alloc_key_eq k (vb_key b)) baseline") (auto dest: find_SomeD)
qed simp

lemma claim_matched_result:
  assumes "claim_matched es baseline used = (es', used')"
  shows "map va_keys es' = map va_keys es" "distinct (assigned es')" "used' = used \<union> set (assigned es')"
    "used \<inter> set (assigned es') = {}" "set (assigned es') \<subseteq> vb_vip_num ` set baseline"
  using assms
proof (induction es baseline used arbitrary: es' used' rule: claim_matched.induct)
  case (2 e es baseline used)
  let ?num = "vip_alloc_match e baseline used"
  let ?used = "if ?num \<noteq> VIP_ALLOC_NUM_UNSET then insert ?num used else used"
  obtain es1 used1 where rest: "claim_matched es baseline ?used = (es1, used1)" by fastforce
  note IH = 2(1-5) [OF refl refl rest]
  have head: "?num \<noteq> VIP_ALLOC_NUM_UNSET \<Longrightarrow> ?num \<notin> used \<and> ?num \<in> vb_vip_num ` set baseline"
    using match_keys_result [of "va_key_list e" baseline used] unfolding vip_alloc_match_def by (metis imageI)
  {
    case 1 then show ?case using rest IH by (auto simp: Let_def)
  next
    case 2 then show ?case using rest IH by (auto simp: Let_def split: if_splits)
  next
    case 3 then show ?case using rest IH by (auto simp: Let_def split: if_splits)
  next
    case 4 then show ?case using rest IH head by (auto simp: Let_def split: if_splits)
  next
    case 5 then show ?case using rest IH head by (auto simp: Let_def split: if_splits)
  }
qed auto

lemma claim_free_result:
  assumes "claim_free es used = Some (es', used')" and "set (assigned es) \<subseteq> used" "distinct (assigned es)"
    and "used \<subseteq> {..<max_vips}"
  shows "map va_keys es' = map va_keys es \<and> distinct (nums es') \<and> used' = used \<union> set (nums es') \<and>
    used \<inter> set (nums es') = set (assigned es) \<and> used' \<subseteq> {..<max_vips} \<and>
    (\<forall>i<length es. va_vip_num (es ! i) \<noteq> VIP_ALLOC_NUM_UNSET \<longrightarrow> va_vip_num (es' ! i) = va_vip_num (es ! i))"
  using assms
proof (induction es used arbitrary: es' used' rule: claim_free.induct)
  case (2 e es used)
  show ?case
  proof (cases "va_vip_num e = VIP_ALLOC_NUM_UNSET")
    case False
    with 2(3) obtain es1 where rest: "claim_free es used = Some (es1, used')" "es' = e # es1" by auto
    have pre: "set (assigned es) \<subseteq> used" "distinct (assigned es)" "va_vip_num e \<in> used" "va_vip_num e \<notin> set (assigned es)"
      using 2(4,5) False by auto
    have hd: "set (assigned (e # es)) = insert (va_vip_num e) (set (assigned es))" using False by auto
    note IH = 2(1) [OF False rest(1) pre(1,2) 2(6)]
    then have "va_vip_num e \<notin> set (nums es1)" using pre(3,4) by blast
    then show ?thesis unfolding rest(2) hd using IH pre(3) by (auto simp: nth_Cons split: nat.splits)
  next
    case True
    with 2(3) obtain num es1 where free: "first_index (\<lambda>n. n \<notin> used) max_vips = Some num"
      and rest: "claim_free es (insert num used) = Some (es1, used')" "es' = e\<lparr>va_vip_num := num\<rparr> # es1"
      by (auto split: option.splits)
    have num: "num < max_vips" "num \<notin> used" using first_index_Some [OF free] by auto
    have hd: "set (assigned (e # es)) = set (assigned es)" using True by simp
    have pre: "set (assigned es) \<subseteq> insert num used" "distinct (assigned es)" "insert num used \<subseteq> {..<max_vips}"
      "num \<notin> set (assigned es)"
      using 2(4-6) True num by auto
    have "\<not> va_vip_num e \<noteq> VIP_ALLOC_NUM_UNSET" using True by simp
    note IH = 2(2) [OF this free rest(1) pre(1-3)]
    then have inter: "insert num used \<inter> set (nums es1) = set (assigned es)" by blast
    have new: "num \<notin> set (nums es1)" using inter pre(4) by blast
    have old: "used \<inter> set (nums es1) = set (assigned es)" using inter unfolding Int_insert_left_if0 [OF new] .
    have "va_vip_num (es' ! i) = va_vip_num ((e # es) ! i)"
      if "i < length (e # es)" "va_vip_num ((e # es) ! i) \<noteq> VIP_ALLOC_NUM_UNSET" for i
      using IH that True rest(2) by (cases i) auto
    moreover have "used \<inter> set (nums es') = set (assigned es)" using old num(2) rest(2) by simp
    moreover have "map va_keys es' = map va_keys (e # es)" "distinct (nums es')" "used' = used \<union> set (nums es')"
      "used' \<subseteq> {..<max_vips}"
      using IH new rest(2) by auto
    ultimately show ?thesis unfolding hd by blast
  qed
qed auto

lemma claim_result:
  assumes "vip_alloc_claim es baseline {} = Some (es', used)" and "\<forall>b\<in>set baseline. vb_vip_num b < max_vips"
  shows "map va_keys es' = map va_keys es" "distinct (nums es')" "used = set (nums es')" "used \<subseteq> {..<max_vips}"
proof -
  obtain es1 used1 where m: "claim_matched es baseline {} = (es1, used1)" by fastforce
  note M = claim_matched_result [OF m]
  have "claim_free es1 used1 = Some (es', used)" using assms(1) m by (simp add: vip_alloc_claim_def)
  from claim_free_result [OF this] M assms(2)
  have "map va_keys es' = map va_keys es1 \<and> distinct (nums es') \<and> used = used1 \<union> set (nums es') \<and>
      used1 \<inter> set (nums es') = set (assigned es1) \<and> used \<subseteq> {..<max_vips}" by fastforce
  then show "map va_keys es' = map va_keys es" "distinct (nums es')" "used = set (nums es')" "used \<subseteq> {..<max_vips}"
    using M by auto
qed

text \<open>A number is found as long as one is left.\<close>

lemma claim_free_total:
  assumes "finite used" "card used + length (filter (\<lambda>e. va_vip_num e = VIP_ALLOC_NUM_UNSET) es) \<le> max_vips"
  shows "claim_free es used \<noteq> None"
  using assms
proof (induction es used rule: claim_free.induct)
  case (2 e es used)
  show ?case
  proof (cases "va_vip_num e = VIP_ALLOC_NUM_UNSET")
    case True
    then have "card used < card {..<max_vips}" using 2(4) by simp
    then obtain x where "x < max_vips" "x \<notin> used"
      using 2(3) by (metis card_mono lessThan_iff linorder_not_less subsetI)
    then obtain num where free: "first_index (\<lambda>n. n \<notin> used) max_vips = Some num"
      using first_index_None [of "\<lambda>n. n \<notin> used" max_vips] by (cases "first_index (\<lambda>n. n \<notin> used) max_vips") auto
    then have "num \<notin> used" using first_index_Some by blast
    then show ?thesis using 2(2) [OF _ free] 2(3,4) True free by simp
  qed (use 2 in auto)
qed simp

lemma claim_total:
  assumes "length es \<le> max_vips" shows "vip_alloc_claim es baseline {} \<noteq> None"
proof -
  obtain es1 used1 where m: "claim_matched es baseline {} = (es1, used1)" by fastforce
  note M = claim_matched_result [OF m]
  have "length es1 = length es" using M(1) by (metis length_map)
  moreover have "card used1 = length (assigned es1)" using M(2,3) distinct_card by fastforce
  moreover have "length (assigned es1) + length (filter (\<lambda>e. va_vip_num e = VIP_ALLOC_NUM_UNSET) es1) = length es1"
    by (induction es1) auto
  ultimately show ?thesis using claim_free_total [of used1 es1] assms M(3) m by (simp add: vip_alloc_claim_def)
qed

section \<open>The ordering loop\<close>

text \<open>The number a reference has once the entries in \<open>w\<close> are written.\<close>

definition live_num :: "vip_alloc_entry list \<Rightarrow> nat set \<Rightarrow> vip_alloc_reference \<Rightarrow> nat" where
  "live_num es w r = (if ref_entry r \<in> w then va_vip_num (es ! ref_entry r) else ref_num r)"

text \<open>An order of writes is safe when each block is rewritten at a moment at which no reference of
  another entry leads to it.\<close>

definition order_safe :: "vip_alloc_entry list \<Rightarrow> vip_alloc_reference list \<Rightarrow> nat list \<Rightarrow> bool" where
  "order_safe es refs ord \<longleftrightarrow> (\<forall>j<length ord. \<forall>r\<in>set refs. ref_entry r \<noteq> ord ! j \<longrightarrow>
     live_num es (set (take j ord)) r \<noteq> va_vip_num (es ! (ord ! j)))"

definition order_inv :: "vip_alloc_reference list \<Rightarrow> order_state \<Rightarrow> bool" where
  "order_inv refs s \<longleftrightarrow>
     length (os_entries s) \<le> max_vips \<and> distinct (nums (os_entries s)) \<and>
     os_used s = set (nums (os_entries s)) \<and> set (nums (os_entries s)) \<subseteq> {..<max_vips} \<and>
     distinct (os_order s) \<and> set (os_order s) = os_written s \<and> os_written s \<subseteq> {..<length (os_entries s)} \<and>
     os_refs s = map (\<lambda>r. r\<lparr>ref_num := live_num (os_entries s) (os_written s) r\<rparr>) refs \<and>
     (\<forall>r\<in>set refs. ref_entry r < length (os_entries s)) \<and>
     order_safe (os_entries s) refs (os_order s)"

lemma order_invD:
  assumes "order_inv refs s"
  shows "length (os_entries s) \<le> max_vips" "distinct (nums (os_entries s))" "os_used s = set (nums (os_entries s))"
    "set (nums (os_entries s)) \<subseteq> {..<max_vips}" "distinct (os_order s)" "set (os_order s) = os_written s"
    "os_written s \<subseteq> {..<length (os_entries s)}"
    "os_refs s = map (\<lambda>r. r\<lparr>ref_num := live_num (os_entries s) (os_written s) r\<rparr>) refs"
    "\<forall>r\<in>set refs. ref_entry r < length (os_entries s)" "order_safe (os_entries s) refs (os_order s)"
  using assms by (simp_all add: order_inv_def)

lemma order_safe_append:
  "order_safe es refs (ord @ [e]) \<longleftrightarrow> order_safe es refs ord \<and>
     (\<forall>r\<in>set refs. ref_entry r \<noteq> e \<longrightarrow> live_num es (set ord) r \<noteq> va_vip_num (es ! e))"
  by (auto simp: order_safe_def nth_append less_Suc_eq)

lemma order_safe_cong:
  assumes "\<forall>e \<in> set ord. va_vip_num (es' ! e) = va_vip_num (es ! e)" "order_safe es refs ord"
  shows "order_safe es' refs ord"
proof -
  have "live_num es' (set (take j ord)) r = live_num es (set (take j ord)) r" for j r
    using assms(1) set_take_subset [of j ord] by (auto simp: live_num_def)
  then show ?thesis using assms by (simp add: order_safe_def)
qed

lemma commit_inv:
  assumes inv: "order_inv refs s" and e: "e < length (os_entries s)" "order_ready s e"
  shows "order_inv refs (order_commit e s)"
proof -
  have "live_num (os_entries s) (os_written s) r \<noteq> va_vip_num (os_entries s ! e)" if "r \<in> set refs" "ref_entry r \<noteq> e" for r
    using that e(2) unfolding order_ready_def vip_alloc_block_ready_def order_invD(8) [OF inv] by auto
  then have "order_safe (os_entries s) refs (os_order s @ [e])"
    using inv by (simp add: order_inv_def order_safe_append)
  moreover have "os_refs (order_commit e s) =
      map (\<lambda>r. r\<lparr>ref_num := live_num (os_entries s) (insert e (os_written s)) r\<rparr>) refs"
    using inv by (simp add: order_inv_def order_commit_def live_num_def)
  ultimately show ?thesis
    using inv e by (simp add: order_inv_def order_commit_def order_ready_def)
qed

lemma walk_unwritten:
  assumes inv: "order_inv refs s" and stuck: "\<forall>e<length (os_entries s). \<not> order_ready s e"
    and start: "e < length (os_entries s)" "e \<notin> os_written s"
  shows "order_walk (os_entries s) (os_refs s) seen e < length (os_entries s) \<and>
    order_walk (os_entries s) (os_refs s) seen e \<notin> os_written s"
  using start
proof (induction "os_entries s" "os_refs s" seen e rule: order_walk.induct)
  case (1 seen e)
  let ?num = "va_vip_num (os_entries s ! e)"
  have bound: "\<forall>r\<in>set (os_refs s). ref_entry r < length (os_entries s)" "length (os_entries s) \<le> max_vips"
    using inv by (auto simp: order_inv_def)
  have "\<not> vip_alloc_block_ready (os_refs s) ?num e" using stuck 1(2,3) by (auto simp: order_ready_def)
  from not_ready_blocker [OF this bound] obtain r where r: "r \<in> set (os_refs s)" "ref_num r = ?num" "ref_entry r \<noteq> e"
    and b: "vip_alloc_blocker (os_refs s) ?num e = ref_entry r" "vip_alloc_blocker (os_refs s) ?num e \<noteq> VIP_ALLOC_NUM_UNSET"
    by metis
  have "ref_entry r < length (os_entries s)" using bound r(1) by blast
  moreover have "ref_entry r \<notin> os_written s"
  proof
    assume w: "ref_entry r \<in> os_written s"
    then have "ref_num r = va_vip_num (os_entries s ! ref_entry r)"
      using inv r(1) by (auto simp: order_inv_def live_num_def)
    then show False
      using r(2,3) inv 1(2) \<open>ref_entry r < length (os_entries s)\<close> by (auto simp: order_inv_def distinct_conv_nth)
  qed
  ultimately show ?case
    using 1 b by (subst (1 2) order_walk.simps) (auto simp: Let_def)
qed

lemma relocate_result:
  assumes inv: "order_inv refs s" and e: "e < length (os_entries s)" "e \<notin> os_written s"
    and run: "vip_alloc_relocate (os_entries s ! e) (os_refs s) (os_used s) = Some (e', used)"
  defines "s' \<equiv> s\<lparr>os_entries := (os_entries s)[e := e'], os_used := used\<rparr>"
  shows "order_inv refs s' \<and> order_ready s' e \<and> va_keys e' = va_keys (os_entries s ! e)"
proof -
  let ?es = "os_entries s" and ?num = "va_vip_num e'"
  from run obtain num where hit: "first_index (\<lambda>n. n \<notin> os_used s \<and> vip_alloc_block_ready (os_refs s) n VIP_ALLOC_NUM_UNSET) max_vips = Some num"
    and e': "e' = (?es ! e)\<lparr>va_vip_num := num\<rparr>" and used: "used = insert num (os_used s - {va_vip_num (?es ! e)})"
    by (auto simp: vip_alloc_relocate_def split: option.splits)
  have num: "num < max_vips" "num \<notin> os_used s" "vip_alloc_block_ready (os_refs s) num VIP_ALLOC_NUM_UNSET"
    using first_index_Some [OF hit] by auto
  have D: "distinct (nums ?es)" "os_used s = set (nums ?es)" "length ?es \<le> max_vips" using inv by (auto simp: order_inv_def)
  have upd: "nums (?es[e := e']) = (nums ?es)[e := num]" using e' by (simp add: map_update)
  have dist: "distinct (nums (?es[e := e']))" unfolding upd using D num(2) by (intro distinct_list_update) auto
  have set: "used = set (nums (?es[e := e']))"
    unfolding upd used D(2) using D(1) e(1) by (simp add: set_update_distinct)
  have same: "\<forall>x \<in> os_written s. va_vip_num (?es[e := e'] ! x) = va_vip_num (?es ! x)" using e(2) by (metis nth_list_update_neq)
  then have live: "live_num (?es[e := e']) (os_written s) r = live_num ?es (os_written s) r" for r
    by (simp add: live_num_def)
  have safe: "order_safe (?es[e := e']) refs (os_order s)"
    using order_safe_cong [of "os_order s" "?es[e := e']" ?es refs] same inv by (auto simp: order_inv_def)
  have "order_inv refs s'"
  proof -
    have "set (nums (?es[e := e'])) \<subseteq> {..<max_vips}"
      unfolding upd using set_update_subset_insert [of "nums ?es" e num] order_invD(4) [OF inv] num(1) by blast
    then show ?thesis
      unfolding order_inv_def using order_invD [OF inv] dist set safe by (simp add: s'_def live)
  qed
  moreover have "\<forall>r\<in>set (os_refs s). ref_entry r \<noteq> VIP_ALLOC_NUM_UNSET"
    using inv by (auto simp: order_inv_def VIP_ALLOC_NUM_UNSET_def)
  ultimately show ?thesis
    using num(3) e e' by (auto simp: order_ready_def s'_def vip_alloc_block_ready_def)
qed

lemma order_step_inv:
  assumes inv: "order_inv refs s" and run: "order_step s = Some s'"
  shows "order_inv refs s' \<and> map va_keys (os_entries s') = map va_keys (os_entries s)"
proof (cases "first_index (order_ready s) (length (os_entries s))")
  case (Some e)
  then show ?thesis
    using run commit_inv [OF inv] first_index_Some [OF Some] by (auto simp: order_step_def order_commit_def)
next
  case None
  then obtain entry e' used where walk: "entry = order_walk (os_entries s) (os_refs s) {}
       (case first_index (\<lambda>entry. entry \<notin> os_written s) (length (os_entries s)) of Some e \<Rightarrow> e | None \<Rightarrow> length (os_entries s))"
    and ne: "entry \<noteq> length (os_entries s)"
    and rel: "vip_alloc_relocate (os_entries s ! entry) (os_refs s) (os_used s) = Some (e', used)"
    and s': "s' = order_commit entry (s\<lparr>os_entries := (os_entries s)[entry := e'], os_used := used\<rparr>)"
    using run by (auto simp: order_step_def order_break_cycle_def Let_def split: if_splits option.splits)
  have "first_index (\<lambda>entry. entry \<notin> os_written s) (length (os_entries s)) \<noteq> None"
  proof
    assume none: "first_index (\<lambda>entry. entry \<notin> os_written s) (length (os_entries s)) = None"
    show False using walk ne unfolding none by (simp add: order_walk.simps)
  qed
  then obtain start where start: "first_index (\<lambda>entry. entry \<notin> os_written s) (length (os_entries s)) = Some start" by blast
  have stuck: "\<forall>e<length (os_entries s). \<not> order_ready s e" using None by (simp only: first_index_None)
  have entry: "entry < length (os_entries s)" "entry \<notin> os_written s"
    using walk_unwritten [OF inv stuck, of start "{}"] first_index_Some [OF start] walk unfolding start by simp_all
  let ?s = "s\<lparr>os_entries := (os_entries s)[entry := e'], os_used := used\<rparr>"
  have rel: "order_inv refs ?s" "order_ready ?s entry" "va_keys e' = va_keys (os_entries s ! entry)"
    using relocate_result [OF inv entry rel] by blast+
  have "map va_keys ((os_entries s)[entry := e']) = map va_keys (os_entries s)"
    unfolding map_update rel(3) using entry(1) by (metis list_update_id nth_map)
  then show ?thesis using commit_inv [OF rel(1) _ rel(2)] entry(1) by (simp add: s' order_commit_def)
qed

lemma order_result:
  assumes "vip_alloc_order s = Some s'" "order_inv refs s"
  shows "order_inv refs s' \<and> length (os_order s') \<ge> length (os_entries s') \<and> map va_keys (os_entries s') = map va_keys (os_entries s)"
  using assms
proof (induction s rule: vip_alloc_order.induct)
  case (1 s)
  show ?case
  proof (cases "length (os_order s) < length (os_entries s)")
    case True
    then obtain s1 where "order_step s = Some s1" "vip_alloc_order s1 = Some s'"
      using 1(2) by (auto simp: vip_alloc_order.simps [of s] split: option.splits)
    then show ?thesis using 1 True order_step_inv by metis
  next
    case False
    then show ?thesis using 1 by (simp add: vip_alloc_order.simps [of s])
  qed
qed

text \<open>The loop cannot fail while a block is left that no one uses or refers to.\<close>

lemma order_step_total:
  assumes inv: "order_inv refs s" and more: "length (os_order s) < length (os_entries s)"
    and room: "length (os_entries s) + card (ref_num ` set refs) < max_vips"
  shows "order_step s \<noteq> None"
proof (cases "first_index (order_ready s) (length (os_entries s))")
  case None
  let ?es = "os_entries s" and ?start = "first_index (\<lambda>entry. entry \<notin> os_written s) (length (os_entries s))"
  have "card (os_written s) < card {..<length ?es}"
    using more order_invD(5,6) [OF inv] by (metis card_lessThan distinct_card)
  then obtain x where "x < length ?es" "x \<notin> os_written s"
    using order_invD(6) [OF inv] by (metis card_mono finite_set lessThan_iff linorder_not_less subsetI)
  then obtain start where start: "?start = Some start"
    using first_index_None [of "\<lambda>entry. entry \<notin> os_written s" "length ?es"] by (cases ?start) auto
  have stuck: "\<forall>e<length ?es. \<not> order_ready s e" using None by (simp only: first_index_None)
  have walk: "order_walk ?es (os_refs s) {} start < length ?es"
    using walk_unwritten [OF inv stuck, of start "{}"] first_index_Some [OF start] by simp
  let ?busy = "set (nums ?es) \<union> ref_num ` set refs"
  have "ref_num ` set (os_refs s) \<subseteq> ?busy"
    unfolding order_invD(8) [OF inv] using order_invD(9) [OF inv] by (auto simp: live_num_def)
  moreover have "card ?busy < card {..<max_vips}"
    using card_Un_le [of "set (nums ?es)" "ref_num ` set refs"] room order_invD(2) [OF inv] distinct_card [of "nums ?es"] by simp
  then obtain y where "y < max_vips" "y \<notin> ?busy"
    by (metis card_mono List.finite_set finite_Un finite_imageI lessThan_iff linorder_not_less subsetI)
  ultimately have "\<exists>y<max_vips. y \<notin> os_used s \<and> vip_alloc_block_ready (os_refs s) y VIP_ALLOC_NUM_UNSET"
    using order_invD(3) [OF inv] by (auto simp: vip_alloc_block_ready_def intro!: exI [of _ y])
  then have "vip_alloc_relocate e (os_refs s) (os_used s) \<noteq> None" for e
    using first_index_None [of "\<lambda>n. n \<notin> os_used s \<and> vip_alloc_block_ready (os_refs s) n VIP_ALLOC_NUM_UNSET" max_vips]
    by (auto simp: vip_alloc_relocate_def split: option.splits)
  then show ?thesis using None start walk by (auto simp: order_step_def order_break_cycle_def Let_def split: option.splits)
qed (simp add: order_step_def)

lemma order_total:
  assumes "order_inv refs s" "length (os_entries s) + card (ref_num ` set refs) < max_vips"
  shows "vip_alloc_order s \<noteq> None"
  using assms
proof (induction s rule: vip_alloc_order.induct)
  case (1 s)
  show ?case
  proof (cases "length (os_order s) < length (os_entries s)")
    case True
    then obtain s1 where s1: "order_step s = Some s1" using order_step_total 1 by blast
    then show ?thesis
      using 1 True order_step_inv [OF 1(2) s1] order_step_measure [OF s1] by (simp add: vip_alloc_order.simps [of s])
  qed (simp add: vip_alloc_order.simps [of s])
qed

section \<open>What a run of the allocator returns\<close>

lemma va_key_list_cong: "map va_keys es = map va_keys es' \<Longrightarrow> map va_key_list es = map va_key_list es'"
  unfolding va_key_list_def by (metis (no_types, lifting) List.map.compositionality comp_def map_eq_conv)

lemma owner_cong:
  assumes "map va_keys es = map va_keys es'"
  shows "vip_alloc_owner es = vip_alloc_owner es'"
proof -
  have "length es = length es'" using assms by (metis length_map)
  moreover have "va_key_list (es ! i) = va_key_list (es' ! i)" if "i < length es" for i
    using that \<open>length es = length es'\<close> va_key_list_cong [OF assms] by (metis nth_map)
  ultimately have "first_index (\<lambda>i. \<exists>k \<in> set (va_key_list (es ! i)). vip_alloc_key_eq k key) (length es) =
      first_index (\<lambda>i. \<exists>k \<in> set (va_key_list (es' ! i)). vip_alloc_key_eq k key) (length es')" for key
    by (auto intro!: find_cong)
  then show ?thesis by (simp add: vip_alloc_owner_def fun_eq_iff)
qed

lemma start_inv:
  assumes "vip_alloc_claim (map (\<lambda>e. e\<lparr>va_vip_num := VIP_ALLOC_NUM_UNSET\<rparr>) entries) baseline {} = Some (claimed, used)"
    and "length entries \<le> max_vips" "\<forall>b\<in>set baseline. vb_vip_num b < max_vips"
  shows "order_inv (refs_of entries baseline)
      \<lparr>os_entries = claimed, os_refs = refs_of entries baseline, os_used = used, os_written = {}, os_order = []\<rparr>"
    "map va_keys claimed = map va_keys entries"
proof -
  note C = claim_result [OF assms(1,3)]
  show keys: "map va_keys claimed = map va_keys entries" using C(1) by (simp add: comp_def)
  then have "length claimed = length entries" by (metis length_map)
  moreover have "map (\<lambda>r. r\<lparr>ref_num := live_num claimed {} r\<rparr>) rs = rs" for rs
    by (simp add: live_num_def)
  ultimately show "order_inv (refs_of entries baseline)
      \<lparr>os_entries = claimed, os_refs = refs_of entries baseline, os_used = used, os_written = {}, os_order = []\<rparr>"
    using C assms(2) refs_bound by (simp add: order_inv_def order_safe_def)
qed

lemma vip_alloc_success:
  assumes "vip_alloc entries baseline = (True, es, plan)"
  shows "map va_keys es = map va_keys entries" "distinct (nums es)" "set (nums es) \<subseteq> {..<max_vips}"
    "distinct (plan_write_order plan)" "set (plan_write_order plan) = {..<length es}"
    "order_safe es (refs_of entries baseline) (plan_write_order plan)"
    "plan_release plan = filter (\<lambda>num. num \<in> set (map vb_vip_num baseline) \<and> num \<notin> set (nums es)) [0..<max_vips]"
proof -
  let ?unset = "map (\<lambda>e. e\<lparr>va_vip_num := VIP_ALLOC_NUM_UNSET\<rparr>) entries"
  have refs: "refs_of ?unset baseline = refs_of entries baseline"
    unfolding refs_of_def by (subst (1 2) owner_cong [of ?unset entries]) (simp_all add: comp_def)
  from assms obtain claimed used s where claim: "vip_alloc_claim ?unset baseline {} = Some (claimed, used)"
    and ord: "vip_alloc_order \<lparr>os_entries = claimed, os_refs = refs_of entries baseline, os_used = used,
        os_written = {}, os_order = []\<rparr> = Some s"
    and es: "es = os_entries s" and plan: "plan = \<lparr>plan_write_order = os_order s,
        plan_release = filter (\<lambda>num. num \<in> set (map vb_vip_num baseline) \<and> num \<notin> os_used s) [0..<max_vips]\<rparr>"
    and len: "length entries \<le> max_vips" and bound: "\<forall>b\<in>set baseline. vb_vip_num b < max_vips"
    unfolding vip_alloc_def Let_def refs
    by (auto split: if_splits option.splits prod.splits simp: linorder_not_le)
  note S = start_inv [OF claim len bound]
  note R = order_result [OF ord S(1)]
  then have inv: "order_inv (refs_of entries baseline) s" by blast
  note I = order_invD [OF inv]
  have "length (os_order s) \<le> length es"
    using I(5-7) distinct_card [of "os_order s"] card_mono [of "{..<length es}" "os_written s"] es by simp
  then have "card (os_written s) = card {..<length es}" using R I(5,6) distinct_card [of "os_order s"] es by simp
  then have "os_written s = {..<length es}" using I(7) es by (intro card_subset_eq) simp_all
  then show "map va_keys es = map va_keys entries" "distinct (nums es)" "set (nums es) \<subseteq> {..<max_vips}"
    "distinct (plan_write_order plan)" "set (plan_write_order plan) = {..<length es}"
    "order_safe es (refs_of entries baseline) (plan_write_order plan)"
    "plan_release plan = filter (\<lambda>num. num \<in> set (map vb_vip_num baseline) \<and> num \<notin> set (nums es)) [0..<max_vips]"
    using R S(2) I plan es by simp_all
qed

section \<open>Publication under traffic\<close>

lemma distinct_concat_nth:
  "distinct (concat (map f xs)) \<Longrightarrow> i < length xs \<Longrightarrow> j < length xs \<Longrightarrow> x \<in> set (f (xs ! i)) \<Longrightarrow> x \<in> set (f (xs ! j)) \<Longrightarrow> i = j"
proof (induction xs arbitrary: i j)
  case (Cons a xs)
  have "x \<notin> set (f a) \<or> (\<forall>y\<in>set xs. x \<notin> set (f y))" using Cons(2) by auto
  with Cons show ?case by (cases i; cases j) auto
qed simp

text \<open>
  What the caller does with a plan (\<^verbatim>\<open>vip_alloc.h\<close>): delete the baseline keys no entry holds, then for
  each entry of the write order rewrite its whole block and publish its keys one by one, and only
  then zero the released blocks. Each of these is a separate map update that packets see.
\<close>

datatype publish_op = DeleteKey vip_key | WriteBlock nat nat | PublishKey vip_key nat | ZeroBlock nat

datatype block_content = OldBlock | EntryBlock nat | ZeroedBlock

type_synonym publish_state = "(vip_key \<rightharpoonup> nat) \<times> (nat \<Rightarrow> block_content)"

fun publish_step :: "publish_op \<Rightarrow> publish_state \<Rightarrow> publish_state" where
  "publish_step (DeleteKey k) (vm, blk) = (vm(k := None), blk)"
| "publish_step (WriteBlock n e) (vm, blk) = (vm, blk(n := EntryBlock e))"
| "publish_step (PublishKey k n) (vm, blk) = (vm(k \<mapsto> n), blk)"
| "publish_step (ZeroBlock n) (vm, blk) = (vm, blk(n := ZeroedBlock))"

definition baseline_map :: "vip_alloc_baseline list \<Rightarrow> vip_key \<rightharpoonup> nat" where
  "baseline_map baseline = map_of (map (\<lambda>b. (vb_key b, vb_vip_num b)) baseline)"

definition entry_ops :: "vip_alloc_entry list \<Rightarrow> nat \<Rightarrow> publish_op list" where
  "entry_ops es e = WriteBlock (va_vip_num (es ! e)) e #
     map (\<lambda>k. PublishKey k (va_vip_num (es ! e))) (va_key_list (es ! e))"

definition publish_ops :: "vip_alloc_entry list \<Rightarrow> vip_alloc_baseline list \<Rightarrow> vip_alloc_plan \<Rightarrow> publish_op list" where
  "publish_ops es baseline plan =
     map DeleteKey (filter (\<lambda>k. vip_alloc_owner es k = VIP_ALLOC_NUM_UNSET) (map vb_key baseline)) @
     concat (map (entry_ops es) (plan_write_order plan)) @ map ZeroBlock (plan_release plan)"

text \<open>A key leads to the block the baseline gave it, still with its old content, or to a block that
  holds the new content of the entry the key belongs to.\<close>

definition traffic_ok :: "vip_alloc_entry list \<Rightarrow> (vip_key \<rightharpoonup> nat) \<Rightarrow> publish_state \<Rightarrow> bool" where
  "traffic_ok es base s \<longleftrightarrow> (\<forall>k n. fst s k = Some n \<longrightarrow>
     (snd s n = OldBlock \<and> base k = Some n) \<or> (\<exists>e<length es. k \<in> set (va_key_list (es ! e)) \<and> snd s n = EntryBlock e))"

text \<open>A predicate that holds in every state a list of operations passes through.\<close>

fun throughout :: "(publish_state \<Rightarrow> bool) \<Rightarrow> publish_op list \<Rightarrow> publish_state \<Rightarrow> bool" where
  "throughout P [] s \<longleftrightarrow> P s"
| "throughout P (x # xs) s \<longleftrightarrow> P s \<and> throughout P xs (publish_step x s)"

lemma throughout_append:
  "throughout P (xs @ ys) s \<longleftrightarrow> throughout P xs s \<and> throughout P ys (fold publish_step xs s)"
proof (induction xs arbitrary: s)
  case Nil
  then show ?case by (cases ys) auto
qed auto

lemma throughout_take: "throughout P xs s \<Longrightarrow> P (fold publish_step (take i xs) s)"
  by (metis append_take_drop_id throughout_append throughout.simps(1) neq_Nil_conv throughout.simps(2))

text \<open>The state after the entries in \<open>w\<close> are written.\<close>

definition phase_inv :: "vip_alloc_entry list \<Rightarrow> (vip_key \<rightharpoonup> nat) \<Rightarrow> nat set \<Rightarrow> publish_state \<Rightarrow> bool" where
  "phase_inv es base w s \<longleftrightarrow> w \<subseteq> {..<length es} \<and>
     (\<forall>k n. fst s k = Some n \<longrightarrow> (\<exists>e\<in>w. va_vip_num (es ! e) = n \<and> k \<in> set (va_key_list (es ! e))) \<or>
        (base k = Some n \<and> n \<notin> (\<lambda>e. va_vip_num (es ! e)) ` w)) \<and>
     (\<forall>e\<in>w. snd s (va_vip_num (es ! e)) = EntryBlock e) \<and>
     (\<forall>n. n \<notin> (\<lambda>e. va_vip_num (es ! e)) ` w \<longrightarrow> snd s n = OldBlock)"

lemma phase_inv_ok: "phase_inv es base w s \<Longrightarrow> traffic_ok es base s"
  unfolding phase_inv_def traffic_ok_def by blast

text \<open>Every key present belongs to an entry, and the keys of the entries in \<open>w\<close> are published.\<close>

definition published :: "vip_alloc_entry list \<Rightarrow> nat set \<Rightarrow> (vip_key \<rightharpoonup> nat) \<Rightarrow> bool" where
  "published es w vm \<longleftrightarrow> (\<forall>k \<in> dom vm. \<exists>e<length es. k \<in> set (va_key_list (es ! e))) \<and>
     (\<forall>e\<in>w. \<forall>k \<in> set (va_key_list (es ! e)). vm k = Some (va_vip_num (es ! e)))"

lemma deletes_phase:
  assumes "phase_inv es base {} (vm, blk)"
  shows "throughout (phase_inv es base {}) (map DeleteKey ks) (vm, blk) \<and>
    phase_inv es base {} (fold publish_step (map DeleteKey ks) (vm, blk)) \<and>
    fold publish_step (map DeleteKey ks) (vm, blk) = (vm |` (- set ks), blk)"
  using assms
proof (induction ks arbitrary: vm)
  case (Cons k ks)
  have "phase_inv es base {} (vm(k := None), blk)" using Cons(2) by (auto simp: phase_inv_def)
  moreover have "(vm(k := None)) |` (- set ks) = vm |` (- set (k # ks))" by (auto simp: restrict_map_def)
  ultimately show ?case using Cons(1) [of "vm(k := None)"] Cons(2) by (auto simp del: fun_upd_apply fun_upd_restrict)
qed (simp add: restrict_map_def)

lemma publishes_phase:
  assumes "phase_inv es base w (vm, blk)" "e \<in> w" "set ks \<subseteq> set (va_key_list (es ! e))"
  defines "ops \<equiv> map (\<lambda>k. PublishKey k (va_vip_num (es ! e))) ks"
  shows "throughout (phase_inv es base w) ops (vm, blk) \<and> phase_inv es base w (fold publish_step ops (vm, blk)) \<and>
    fold publish_step ops (vm, blk) = (\<lambda>k. if k \<in> set ks then Some (va_vip_num (es ! e)) else vm k, blk)"
  using assms(1,3) unfolding ops_def
proof (induction ks arbitrary: vm)
  case (Cons k ks)
  have "phase_inv es base w (vm(k \<mapsto> va_vip_num (es ! e)), blk)"
    using Cons(2,3) assms(2) unfolding phase_inv_def by (simp add: fun_upd_apply) blast
  moreover have "(\<lambda>x. if x \<in> set ks then Some (va_vip_num (es ! e)) else (vm(k \<mapsto> va_vip_num (es ! e))) x) =
      (\<lambda>x. if x \<in> set (k # ks) then Some (va_vip_num (es ! e)) else vm x)" by auto
  ultimately show ?case using Cons(1) [of "vm(k \<mapsto> va_vip_num (es ! e))"] Cons(2,3) by (auto simp del: fun_upd_apply)
qed (simp add: fun_eq_iff)

lemma throughout_phase: "throughout (phase_inv es base w) ops s \<Longrightarrow> throughout (traffic_ok es base) ops s"
  by (induction ops arbitrary: s) (auto intro: phase_inv_ok)

lemma entry_phase:
  assumes inv: "phase_inv es base w s" and pub: "published es w (fst s)"
    and e: "e < length es" and dist: "distinct (nums es)" "distinct (concat (map va_key_list es))"
    and safe: "\<And>k n e'. base k = Some n \<Longrightarrow> k \<in> set (va_key_list (es ! e')) \<Longrightarrow> e' < length es \<Longrightarrow> e' \<noteq> e \<Longrightarrow> e' \<notin> w \<Longrightarrow>
      n \<noteq> va_vip_num (es ! e)"
    and new: "e \<notin> w"
  defines "s' \<equiv> fold publish_step (entry_ops es e) s"
  shows "throughout (traffic_ok es base) (entry_ops es e) s \<and> phase_inv es base (insert e w) s' \<and> published es (insert e w) (fst s')"
proof -
  obtain vm blk where s: "s = (vm, blk)" by fastforce
  let ?num = "\<lambda>e. va_vip_num (es ! e)" and ?blk = "blk(va_vip_num (es ! e) := EntryBlock e)"
  have w: "w \<subseteq> {..<length es}" using inv by (simp add: phase_inv_def)
  have inj: "?num e' = ?num e \<longleftrightarrow> e' = e" if "e' \<in> w" for e'
    using dist(1) e that w by (auto simp: distinct_conv_nth)
  have own: "k \<in> set (va_key_list (es ! e))"
    if k: "vm k = Some (?num e)" "base k = Some (?num e)" "?num e \<notin> ?num ` w" for k
  proof -
    obtain e' where e': "e' < length es" "k \<in> set (va_key_list (es ! e'))"
      using pub k(1) s by (metis domI fst_conv published_def)
    have "vm k = Some (?num e')" if "e' \<in> w" using pub that e'(2) s by (simp add: published_def)
    then have "e' \<notin> w" using k(1,3) by auto
    then show ?thesis using safe [OF k(2) e'(2,1)] e'(2) by blast
  qed
  have inv1: "phase_inv es base (insert e w) (vm, ?blk)"
    unfolding phase_inv_def fst_conv snd_conv
  proof (intro conjI allI ballI impI)
    show "insert e w \<subseteq> {..<length es}" using w e by simp
  next
    fix k n assume "vm k = Some n"
    then show "(\<exists>e\<in>insert e w. ?num e = n \<and> k \<in> set (va_key_list (es ! e))) \<or> base k = Some n \<and> n \<notin> ?num ` insert e w"
      using inv own [of k] unfolding s phase_inv_def by (cases "n = ?num e") auto
  next
    fix x assume "x \<in> insert e w"
    then show "?blk (?num x) = EntryBlock x" using inv inj [of x] by (auto simp: s phase_inv_def)
  next
    fix n assume "n \<notin> ?num ` insert e w"
    then show "?blk n = OldBlock" using inv by (auto simp: s phase_inv_def)
  qed
  note P = publishes_phase [OF inv1, of e "va_key_list (es ! e)"]
  have "published es (insert e w) (fst s')"
  proof -
    have other: "k \<notin> set (va_key_list (es ! e))" if "e' \<in> w" "k \<in> set (va_key_list (es ! e'))" for e' k
    proof
      assume "k \<in> set (va_key_list (es ! e))"
      moreover have "e' < length es" "e' \<noteq> e" using that(1) w new by auto
      ultimately show False
        using distinct_concat_nth [OF dist(2), of e' e k] that(2) e by blast
    qed
    show ?thesis using pub P e other by (auto simp: s s'_def published_def entry_ops_def split: if_splits)
  qed
  then show ?thesis using P throughout_phase [of es base "insert e w"] phase_inv_ok [OF inv] by (auto simp: s s'_def entry_ops_def)
qed

text \<open>
  The keys of the configuration and of the map are written out whole: the part of the address union
  an IPv4 key does not use is zero. A key belongs to one entry only, as the configuration check
  enforces, and a map has one row for each key.
\<close>

definition canonical_key :: "vip_key \<Rightarrow> bool" where
  "canonical_key k \<longleftrightarrow> (vk_family k = AF_INET \<longrightarrow> snd (vk_addr k) = (0, 0, 0))"

lemma key_eq_iff:
  assumes "canonical_key a" "canonical_key b"
  shows "vip_alloc_key_eq a b \<longleftrightarrow> a = b"
  using assms by (cases a; cases b) (auto simp: vip_alloc_key_eq_def canonical_key_def)

definition keys_ok :: "vip_alloc_entry list \<Rightarrow> vip_alloc_baseline list \<Rightarrow> bool" where
  "keys_ok entries baseline \<longleftrightarrow> distinct (concat (map va_key_list entries)) \<and> distinct (map vb_key baseline) \<and>
     (\<forall>k \<in> set (concat (map va_key_list entries)) \<union> vb_key ` set baseline. canonical_key k)"

lemma keys_okD:
  assumes "keys_ok es baseline"
  shows "i < length es \<Longrightarrow> x \<in> set (va_key_list (es ! i)) \<Longrightarrow> k \<in> vb_key ` set baseline \<Longrightarrow> vip_alloc_key_eq x k \<longleftrightarrow> x = k"
proof (rule key_eq_iff)
  assume "i < length es" "x \<in> set (va_key_list (es ! i))"
  then have "x \<in> set (concat (map va_key_list es))" by (auto intro!: bexI [of _ "es ! i"])
  then show "canonical_key x" using assms by (simp add: keys_ok_def)
next
  assume "k \<in> vb_key ` set baseline"
  then show "canonical_key k" using assms unfolding keys_ok_def by blast
qed

lemma owner_eq:
  assumes ok: "keys_ok es baseline" and k: "k \<in> vb_key ` set baseline" and e: "e < length es" "k \<in> set (va_key_list (es ! e))"
  shows "vip_alloc_owner es k = e"
proof -
  have hit: "(\<exists>x \<in> set (va_key_list (es ! i)). vip_alloc_key_eq x k) \<longleftrightarrow> i = e" if i: "i < length es" for i
  proof -
    have "\<forall>x \<in> set (va_key_list (es ! i)). vip_alloc_key_eq x k \<longleftrightarrow> x = k"
      using keys_okD [OF ok i _ k] by blast
    moreover have "k \<in> set (va_key_list (es ! i)) \<longleftrightarrow> i = e"
      using ok e i distinct_concat_nth by (auto simp: keys_ok_def)
    ultimately show ?thesis by auto
  qed
  have "first_index (\<lambda>i. \<exists>x \<in> set (va_key_list (es ! i)). vip_alloc_key_eq x k) (length es) = Some e"
    unfolding find_Some_iff using hit e(1) by (intro exI [of _ e]) (simp add: hit)
  then show ?thesis by (simp add: vip_alloc_owner_def)
qed

lemma owner_None:
  assumes "vip_alloc_owner es k \<noteq> VIP_ALLOC_NUM_UNSET" "keys_ok es baseline" "k \<in> vb_key ` set baseline"
  shows "\<exists>e<length es. k \<in> set (va_key_list (es ! e))"
proof -
  obtain i where "first_index (\<lambda>i. \<exists>x \<in> set (va_key_list (es ! i)). vip_alloc_key_eq x k) (length es) = Some i"
    using assms(1) by (auto simp: vip_alloc_owner_def split: option.splits)
  from first_index_Some [OF this] have "i < length es" "\<exists>x \<in> set (va_key_list (es ! i)). vip_alloc_key_eq x k" by simp_all
  moreover have "vip_alloc_key_eq x k \<longleftrightarrow> x = k" if "x \<in> set (va_key_list (es ! i))" for x
    using that keys_okD [OF assms(2) \<open>i < length es\<close> _ assms(3)] by blast
  ultimately show ?thesis by auto
qed

lemma order_phase:
  assumes inv: "phase_inv es (baseline_map baseline) {} s" "published es {} (fst s)"
    and ok: "keys_ok es baseline" and dist: "distinct (nums es)" and len: "length es \<le> max_vips"
    and ord: "distinct ord" "set ord \<subseteq> {..<length es}" "order_safe es (refs_of es baseline) ord"
  defines "s' \<equiv> fold publish_step (concat (map (entry_ops es) ord)) s"
  shows "throughout (traffic_ok es (baseline_map baseline)) (concat (map (entry_ops es) ord)) s \<and>
    phase_inv es (baseline_map baseline) (set ord) s' \<and> published es (set ord) (fst s')"
  using ord unfolding s'_def
proof (induction ord rule: rev_induct)
  case Nil
  then show ?case using inv phase_inv_ok by simp
next
  case (snoc e ord)
  let ?s = "fold publish_step (concat (map (entry_ops es) ord)) s"
  have IH: "throughout (traffic_ok es (baseline_map baseline)) (concat (map (entry_ops es) ord)) s"
    "phase_inv es (baseline_map baseline) (set ord) ?s" "published es (set ord) (fst ?s)"
    using snoc by (simp_all add: order_safe_append)
  have "n \<noteq> va_vip_num (es ! e)"
    if b: "baseline_map baseline k = Some n" and e': "k \<in> set (va_key_list (es ! e'))" "e' < length es" "e' \<noteq> e" "e' \<notin> set ord" for k n e'
  proof -
    obtain b where b: "b \<in> set baseline" "vb_key b = k" "vb_vip_num b = n"
      using b map_of_SomeD by (fastforce simp: baseline_map_def)
    then have own: "vip_alloc_owner es k = e'" using owner_eq [OF ok _ e'(2,1)] by blast
    have "e' \<noteq> VIP_ALLOC_NUM_UNSET" using e'(2) len by (simp add: VIP_ALLOC_NUM_UNSET_def)
    then have "\<lparr>ref_entry = e', ref_num = n\<rparr> \<in> set (refs_of es baseline)"
      using b own by (force simp: refs_of_def)
    then show ?thesis using snoc(4) e'(3,4) by (force simp: order_safe_append live_num_def)
  qed
  from entry_phase [OF IH(2,3) _ dist _ this] snoc IH(1) ok
  show ?case by (auto simp: throughout_append keys_ok_def)
qed

lemma published_ok:
  assumes "published es {..<length es} vm" "\<forall>e<length es. blk (va_vip_num (es ! e)) = EntryBlock e"
  shows "traffic_ok es base (vm, blk)"
  unfolding traffic_ok_def
proof (intro allI impI disjI2)
  fix k n assume k: "fst (vm, blk) k = Some n"
  then obtain e where "e < length es" "k \<in> set (va_key_list (es ! e))"
    using assms(1) unfolding published_def by (metis domI fst_conv)
  then show "\<exists>e<length es. k \<in> set (va_key_list (es ! e)) \<and> snd (vm, blk) n = EntryBlock e"
    using assms k by (auto simp: published_def)
qed

lemma release_phase:
  assumes pub: "published es {..<length es} vm"
    and "set rel \<inter> set (nums es) = {}" "\<forall>e<length es. blk (va_vip_num (es ! e)) = EntryBlock e"
  shows "throughout (traffic_ok es base) (map ZeroBlock rel) (vm, blk)"
  using assms(2,3)
proof (induction rel arbitrary: blk)
  case Nil
  then show ?case using published_ok [OF pub] by simp
next
  case (Cons n rel)
  have "\<forall>e<length es. (blk(n := ZeroedBlock)) (va_vip_num (es ! e)) = EntryBlock e"
    using Cons(2,3) by auto
  then show ?case
    using Cons(1) [of "blk(n := ZeroedBlock)"] Cons(2,3) published_ok [OF pub] by (simp del: fun_upd_apply)
qed

section \<open>Reloads that move nothing\<close>

text \<open>No regrouping: the rows of one entry share a number, and rows of two entries never do.\<close>

definition no_regrouping :: "vip_alloc_entry list \<Rightarrow> vip_alloc_baseline list \<Rightarrow> bool" where
  "no_regrouping entries baseline \<longleftrightarrow> (\<forall>b\<in>set baseline. \<forall>b'\<in>set baseline.
     vip_alloc_owner entries (vb_key b) \<noteq> VIP_ALLOC_NUM_UNSET \<longrightarrow> vip_alloc_owner entries (vb_key b') \<noteq> VIP_ALLOC_NUM_UNSET \<longrightarrow>
     (vb_vip_num b = vb_vip_num b' \<longleftrightarrow> vip_alloc_owner entries (vb_key b) = vip_alloc_owner entries (vb_key b')))"

lemma match_keys_kept:
  assumes "b \<in> set baseline" "vb_key b \<in> set ks" "vb_vip_num b \<notin> used" "vip_alloc_key_eq (vb_key b) (vb_key b)"
    and "\<And>k b'. k \<in> set ks \<Longrightarrow> b' \<in> set baseline \<Longrightarrow> vip_alloc_key_eq k (vb_key b') \<Longrightarrow> vb_vip_num b' = vb_vip_num b"
  shows "vip_alloc_match_keys ks baseline used = vb_vip_num b"
  using assms(2,5)
proof (induction ks)
  case (Cons k ks)
  let ?find = "find (\<lambda>b. vb_vip_num b \<notin> used \<and> vip_alloc_key_eq k (vb_key b)) baseline"
  show ?case
  proof (cases ?find)
    case None
    then have "vb_key b \<noteq> k" using assms(1,3,4) by (auto simp: find_None_iff)
    then have "vip_alloc_match_keys ks baseline used = vb_vip_num b" using Cons(2,3) by (intro Cons(1)) auto
    then show ?thesis using None by simp
  next
    case (Some b')
    then show ?thesis using Cons(3) [of k b'] find_SomeD [OF Some] by simp
  qed
qed simp

lemma claim_matched_kept:
  assumes ok: "keys_ok entries baseline" and nr: "no_regrouping entries baseline" and len: "length entries \<le> max_vips"
    and split: "entries = pre @ es" and run: "claim_matched es baseline used = (es', used')"
    and used: "\<forall>n\<in>used. \<exists>b\<in>set baseline. vb_vip_num b = n \<and> vip_alloc_owner entries (vb_key b) < length pre"
    and b: "b \<in> set baseline" "vip_alloc_owner entries (vb_key b) = length pre + i" "i < length es"
  shows "va_vip_num (es' ! i) = vb_vip_num b"
  using split run used b(2,3)
proof (induction es arbitrary: pre used es' used' i)
  case (Cons e es)
  let ?own = "\<lambda>b. vip_alloc_owner entries (vb_key b)" and ?num = "vip_alloc_match e baseline used"
  have UN: "length entries < VIP_ALLOC_NUM_UNSET" using len by (simp add: VIP_ALLOC_NUM_UNSET_def)
  have e: "entries ! length pre = e" "length pre < length entries" using Cons(2) by simp_all
  have nrD: "vb_vip_num c = vb_vip_num d \<longleftrightarrow> ?own c = ?own d"
    if "c \<in> set baseline" "d \<in> set baseline" "?own c \<le> length pre" "?own d \<le> length pre" for c d
    using nr that UN e(2) unfolding no_regrouping_def by simp
  have own: "?own b' = length pre" if "k \<in> set (va_key_list e)" "b' \<in> set baseline" "vip_alloc_key_eq k (vb_key b')" for k b'
    using that e owner_eq [OF ok _ e(2)] keys_okD [OF ok e(2)] by (metis imageI)
  have kept: "?num = vb_vip_num b'" if b': "b' \<in> set baseline" "?own b' = length pre" for b'
    unfolding vip_alloc_match_def
  proof (rule match_keys_kept [OF b'(1)])
    obtain j where "j < length entries" "vb_key b' \<in> set (va_key_list (entries ! j))"
      using owner_None [OF _ ok, of "vb_key b'"] b' UN e(2) by force
    then show "vb_key b' \<in> set (va_key_list e)" using owner_eq [OF ok, of "vb_key b'" j] b' e(1) by auto
    show "vb_vip_num b' \<notin> used"
    proof
      assume "vb_vip_num b' \<in> used"
      then obtain c where "c \<in> set baseline" "vb_vip_num c = vb_vip_num b'" "?own c < length pre" using Cons(4) by blast
      then show False using nrD [of c b'] b' by simp
    qed
    show "vip_alloc_key_eq (vb_key b') (vb_key b')" by (simp add: vip_alloc_key_eq_def)
    show "vb_vip_num c = vb_vip_num b'" if "k \<in> set (va_key_list e)" "c \<in> set baseline" "vip_alloc_key_eq k (vb_key c)" for k c
      using own [OF that] nrD [of c b'] that(2) b' by simp
  qed
  let ?used = "if ?num \<noteq> VIP_ALLOC_NUM_UNSET then insert ?num used else used"
  obtain es1 where rest: "claim_matched es baseline ?used = (es1, used')" "es' = e\<lparr>va_vip_num := ?num\<rparr> # es1"
    using Cons(3) by (auto simp: Let_def split: prod.splits)
  show ?case
  proof (cases i)
    case 0
    then show ?thesis using kept [OF b(1)] Cons(5) rest(2) by simp
  next
    case (Suc j)
    have "\<forall>n\<in>?used. \<exists>b\<in>set baseline. vb_vip_num b = n \<and> ?own b < length (pre @ [e])"
    proof
      fix n assume n: "n \<in> ?used"
      show "\<exists>b\<in>set baseline. vb_vip_num b = n \<and> ?own b < length (pre @ [e])"
      proof (cases "n \<in> used")
        case True
        then show ?thesis using Cons(4) by fastforce
      next
        case False
        then have "n = ?num" "?num \<noteq> VIP_ALLOC_NUM_UNSET" using n by (auto split: if_splits)
        then show ?thesis
          using match_keys_result [of "va_key_list e" baseline used] own unfolding vip_alloc_match_def by fastforce
      qed
    qed
    then show ?thesis using Cons(1) [of "pre @ [e]", OF _ rest(1)] Cons(2,5,6) Suc rest(2) by simp
  qed
qed simp

lemma order_in_sequence:
  assumes "distinct (nums (os_entries s))"
    and "\<forall>r\<in>set (os_refs s). ref_entry r < length (os_entries s) \<and> ref_num r = va_vip_num (os_entries s ! ref_entry r)"
    and "os_order s = [0..<j]" "os_written s = {..<j}" "j \<le> length (os_entries s)"
  shows "\<exists>s'. vip_alloc_order s = Some s' \<and> os_entries s' = os_entries s \<and> os_order s' = [0..<length (os_entries s)]"
  using assms
proof (induction s arbitrary: j rule: vip_alloc_order.induct)
  case (1 s)
  show ?case
  proof (cases "j < length (os_entries s)")
    case True
    have ready: "order_ready s e \<longleftrightarrow> j \<le> e" if "e < length (os_entries s)" for e
      using 1(2,3,5) that by (auto simp: order_ready_def vip_alloc_block_ready_def distinct_conv_nth)
    have pick: "first_index (order_ready s) (length (os_entries s)) = Some j"
      unfolding find_Some_iff using True by (intro exI [of _ j]) (simp add: ready)
    have "map (\<lambda>r. if ref_entry r = j then r\<lparr>ref_num := va_vip_num (os_entries s ! j)\<rparr> else r) (os_refs s) = os_refs s"
      using 1(3) by (intro map_idI) auto
    then have step: "order_step s = Some (s\<lparr>os_order := [0..<Suc j], os_written := {..<Suc j}\<rparr>)"
      using pick 1(4,5) by (simp add: order_step_def order_commit_def lessThan_Suc)
    have "\<exists>s'. vip_alloc_order (s\<lparr>os_order := [0..<Suc j], os_written := {..<Suc j}\<rparr>) = Some s' \<and>
        os_entries s' = os_entries s \<and> os_order s' = [0..<length (os_entries s)]"
      using 1(1) [OF _ step, of "Suc j"] 1(2-4) True by simp
    then show ?thesis using True 1(4) step by (simp add: vip_alloc_order.simps [of s] del: upt_Suc)
  next
    case False
    then show ?thesis using 1(4,6) by (simp add: vip_alloc_order.simps [of s])
  qed
qed

section \<open>Properties\<close>

text \<open>A regrouping with a cycle: two blocks hold two keys each, and the new entries take one key from each.\<close>

definition sample_key :: "u16 \<Rightarrow> vip_key" where
  "sample_key port = \<lparr>vk_addr = (0x0100000a, 0, 0, 0), vk_port = port, vk_proto = 6, vk_family = AF_INET\<rparr>"

definition cycle_entries :: "vip_alloc_entry list" where
  "cycle_entries = [\<lparr>va_keys = Some [sample_key 1, sample_key 4], va_vip_num = 0\<rparr>,
     \<lparr>va_keys = Some [sample_key 2, sample_key 3], va_vip_num = 0\<rparr>]"

definition cycle_baseline :: "vip_alloc_baseline list" where
  "cycle_baseline = [\<lparr>vb_key = sample_key 1, vb_vip_num = 0\<rparr>, \<lparr>vb_key = sample_key 2, vb_vip_num = 0\<rparr>,
     \<lparr>vb_key = sample_key 3, vb_vip_num = 1\<rparr>, \<lparr>vb_key = sample_key 4, vb_vip_num = 1\<rparr>]"

definition cycle_result :: "bool \<times> vip_alloc_entry list \<times> vip_alloc_plan" where
  "cycle_result = (True, [\<lparr>va_keys = Some [sample_key 1, sample_key 4], va_vip_num = 2\<rparr>,
     \<lparr>va_keys = Some [sample_key 2, sample_key 3], va_vip_num = 1\<rparr>],
     \<lparr>plan_write_order = [0, 1], plan_release = [0]\<rparr>)"

lemma cycle_claim:
  "vip_alloc_claim (map (\<lambda>e. e\<lparr>va_vip_num := VIP_ALLOC_NUM_UNSET\<rparr>) cycle_entries) cycle_baseline {} =
    Some ([\<lparr>va_keys = Some [sample_key 1, sample_key 4], va_vip_num = 0\<rparr>,
           \<lparr>va_keys = Some [sample_key 2, sample_key 3], va_vip_num = 1\<rparr>], {0, 1})"
  by (simp add: vip_alloc_claim_def cycle_entries_def cycle_baseline_def vip_alloc_match_def va_key_list_def
      sample_key_def vip_alloc_key_eq_def VIP_ALLOC_NUM_UNSET_def insert_commute)

lemma first_indexI: "i < n \<Longrightarrow> P i \<Longrightarrow> (\<And>j. j < i \<Longrightarrow> \<not> P j) \<Longrightarrow> first_index P n = Some i"
  by (auto simp: find_Some_iff)

lemma sample_key_eq [simp]: "vip_alloc_key_eq (sample_key a) (sample_key b) \<longleftrightarrow> a = b"
  by (simp add: vip_alloc_key_eq_def sample_key_def)

lemma cycle_keys_ok: "keys_ok cycle_entries cycle_baseline"
  by (simp add: keys_ok_def cycle_entries_def cycle_baseline_def sample_key_def va_key_list_def canonical_key_def)

lemma cycle_unset:
  "map (\<lambda>e. e\<lparr>va_vip_num := VIP_ALLOC_NUM_UNSET\<rparr>) cycle_entries =
    [\<lparr>va_keys = Some [sample_key 1, sample_key 4], va_vip_num = VIP_ALLOC_NUM_UNSET\<rparr>,
     \<lparr>va_keys = Some [sample_key 2, sample_key 3], va_vip_num = VIP_ALLOC_NUM_UNSET\<rparr>]"
  by (simp add: cycle_entries_def)

lemma cycle_owner:
  fixes n m :: nat
  defines "es \<equiv> [\<lparr>va_keys = Some [sample_key 1, sample_key 4], va_vip_num = n\<rparr>, \<lparr>va_keys = Some [sample_key 2, sample_key 3], va_vip_num = m\<rparr>]"
  shows "vip_alloc_owner es (sample_key 1) = 0" "vip_alloc_owner es (sample_key 2) = 1"
    "vip_alloc_owner es (sample_key 3) = 1" "vip_alloc_owner es (sample_key 4) = 0"
proof -
  have ok: "keys_ok es cycle_baseline"
    by (simp add: keys_ok_def es_def cycle_baseline_def sample_key_def va_key_list_def canonical_key_def)
  show "vip_alloc_owner es (sample_key 1) = 0" "vip_alloc_owner es (sample_key 2) = 1"
    "vip_alloc_owner es (sample_key 3) = 1" "vip_alloc_owner es (sample_key 4) = 0"
    by (rule owner_eq [OF ok]; simp add: es_def cycle_baseline_def va_key_list_def)+
qed

lemma cycle_refs:
  "refs_of (map (\<lambda>e. e\<lparr>va_vip_num := VIP_ALLOC_NUM_UNSET\<rparr>) cycle_entries) cycle_baseline =
    [\<lparr>ref_entry = 0, ref_num = 0\<rparr>, \<lparr>ref_entry = 1, ref_num = 0\<rparr>, \<lparr>ref_entry = 1, ref_num = 1\<rparr>, \<lparr>ref_entry = 0, ref_num = 1\<rparr>]"
  unfolding refs_of_def cycle_baseline_def cycle_unset
  by (simp add: cycle_owner cycle_owner [simplified]) (simp add: VIP_ALLOC_NUM_UNSET_def)

lemma order_run:
  "order_step s = Some s' \<Longrightarrow> length (os_order s) < length (os_entries s) \<Longrightarrow> vip_alloc_order s = vip_alloc_order s'"
  by (simp add: vip_alloc_order.simps [of s])

lemma cycle_order:
  "vip_alloc_order \<lparr>os_entries = [\<lparr>va_keys = Some [sample_key 1, sample_key 4], va_vip_num = 0\<rparr>,
       \<lparr>va_keys = Some [sample_key 2, sample_key 3], va_vip_num = 1\<rparr>],
     os_refs = [\<lparr>ref_entry = 0, ref_num = 0\<rparr>, \<lparr>ref_entry = 1, ref_num = 0\<rparr>, \<lparr>ref_entry = 1, ref_num = 1\<rparr>, \<lparr>ref_entry = 0, ref_num = 1\<rparr>],
     os_used = {0, 1}, os_written = {}, os_order = []\<rparr> =
   Some \<lparr>os_entries = fst (snd cycle_result),
     os_refs = [\<lparr>ref_entry = 0, ref_num = 2\<rparr>, \<lparr>ref_entry = 1, ref_num = 1\<rparr>, \<lparr>ref_entry = 1, ref_num = 1\<rparr>, \<lparr>ref_entry = 0, ref_num = 2\<rparr>],
     os_used = {2, 1}, os_written = {1, 0}, os_order = [0, 1]\<rparr>" (is "vip_alloc_order ?s = Some ?s2")
proof -
  let ?s1 = "?s\<lparr>os_entries := fst (snd cycle_result), os_used := {2, 1}, os_written := {0}, os_order := [0],
     os_refs := [\<lparr>ref_entry = 0, ref_num = 2\<rparr>, \<lparr>ref_entry = 1, ref_num = 0\<rparr>, \<lparr>ref_entry = 1, ref_num = 1\<rparr>, \<lparr>ref_entry = 0, ref_num = 2\<rparr>]\<rparr>"
  have stuck: "first_index (order_ready ?s) 2 = None"
    by (simp add: first_index_None less_2_cases_iff order_ready_def vip_alloc_block_ready_def)
  have walk: "order_walk (os_entries ?s) (os_refs ?s) {} 0 = 0"
    by (simp add: order_walk.simps [of _ _ _ 0] order_walk.simps [of _ _ _ "Suc 0"] vip_alloc_blocker_def VIP_ALLOC_NUM_UNSET_def)
  have "first_index (\<lambda>n. n \<notin> os_used ?s \<and> vip_alloc_block_ready (os_refs ?s) n VIP_ALLOC_NUM_UNSET) max_vips = Some 2"
    by (rule first_indexI) (auto simp: vip_alloc_block_ready_def)
  then have rel: "vip_alloc_relocate (os_entries ?s ! 0) (os_refs ?s) (os_used ?s) =
      Some (\<lparr>va_keys = Some [sample_key 1, sample_key 4], va_vip_num = 2\<rparr>, {2, 1})"
    unfolding vip_alloc_relocate_def by auto
  have start: "first_index (\<lambda>entry. entry \<notin> os_written ?s) 2 = Some 0" by (rule first_indexI) auto
  have step1: "order_step ?s = Some ?s1"
    using stuck start walk rel
    by (simp add: order_step_def order_break_cycle_def order_commit_def cycle_result_def numeral_2_eq_2)
  have "first_index (order_ready ?s1) 2 = Some 1"
    by (rule first_indexI) (auto simp: order_ready_def vip_alloc_block_ready_def cycle_result_def)
  then have step2: "order_step ?s1 = Some ?s2"
    by (simp add: order_step_def order_commit_def cycle_result_def numeral_2_eq_2)
  have "vip_alloc_order ?s = vip_alloc_order ?s1" by (rule order_run [OF step1]) simp
  also have "\<dots> = vip_alloc_order ?s2" by (rule order_run [OF step2]) (simp add: cycle_result_def)
  also have "\<dots> = Some ?s2" by (subst vip_alloc_order.simps) (simp add: cycle_result_def)
  finally show ?thesis .
qed

lemma cycle_alloc: "vip_alloc cycle_entries cycle_baseline = cycle_result"
proof -
  have "filter (\<lambda>num. num \<in> set (map vb_vip_num cycle_baseline) \<and> num \<notin> {2, 1}) [0..<max_vips] = [0]"
    by (simp add: upt_conv_Cons cycle_baseline_def filter_empty_conv)
  then show ?thesis
    unfolding vip_alloc_def Let_def cycle_claim cycle_refs option.case prod.case cycle_order
    by (simp add: cycle_entries_def cycle_baseline_def cycle_result_def va_key_list_def)
qed

lemma vip_alloc_publishes:
  assumes run: "vip_alloc entries baseline = (True, es, plan)" and ok: "keys_ok entries baseline"
  shows "throughout (traffic_ok es (baseline_map baseline)) (publish_ops es baseline plan) (baseline_map baseline, \<lambda>_. OldBlock)"
    "published es {..<length es} (fst (fold publish_step (publish_ops es baseline plan) (baseline_map baseline, \<lambda>_. OldBlock)))"
    "\<forall>e<length es. snd (fold publish_step (publish_ops es baseline plan) (baseline_map baseline, \<lambda>_. OldBlock)) (va_vip_num (es ! e)) = EntryBlock e"
proof -
  note S = vip_alloc_success [OF run]
  let ?base = "baseline_map baseline" and ?s0 = "(baseline_map baseline, \<lambda>_ :: nat. OldBlock)"
  have keys: "map va_key_list es = map va_key_list entries" using va_key_list_cong [OF S(1)] .
  have own: "vip_alloc_owner es = vip_alloc_owner entries" using owner_cong [OF S(1)] .
  have ok': "keys_ok es baseline" using ok keys by (simp add: keys_ok_def)
  have len: "length es \<le> max_vips"
    using S(2,3) by (metis card_lessThan card_mono distinct_card finite_lessThan length_map)
  define dels where "dels = filter (\<lambda>k. vip_alloc_owner es k = VIP_ALLOC_NUM_UNSET) (map vb_key baseline)"
  have inv0: "phase_inv es ?base {} ?s0" by (simp add: phase_inv_def)
  define s1 where "s1 = fold publish_step (map DeleteKey dels) ?s0"
  note D = deletes_phase [OF inv0, of dels]
  have s1: "s1 = (?base |` (- set dels), \<lambda>_. OldBlock)" using D by (simp add: s1_def)
  have D1: "throughout (phase_inv es ?base {}) (map DeleteKey dels) ?s0" "phase_inv es ?base {} s1"
    using D unfolding s1_def by blast+
  have dom: "\<exists>e<length es. k \<in> set (va_key_list (es ! e))" if "k \<in> dom (fst s1)" for k
  proof -
    have "k \<in> vb_key ` set baseline" "k \<notin> set dels"
      using that by (auto simp: s1 restrict_map_def baseline_map_def dest!: map_of_SomeD split: if_splits)
    then show ?thesis using owner_None [OF _ ok'] by (auto simp: dels_def)
  qed
  then have "published es {} (fst s1)" by (simp add: published_def)
  note O = order_phase [OF D1(2) this ok' S(2) len S(4)]
  define s2 where "s2 = fold publish_step (concat (map (entry_ops es) (plan_write_order plan))) s1"
  have O2: "throughout (traffic_ok es ?base) (concat (map (entry_ops es) (plan_write_order plan))) s1"
    "phase_inv es ?base {..<length es} s2" "published es {..<length es} (fst s2)"
    using O S(5,6) own by (simp_all add: s2_def refs_of_def)
  have R: "set (plan_release plan) \<inter> set (nums es) = {}" unfolding S(7) by auto
  moreover have B: "\<forall>e<length es. snd s2 (va_vip_num (es ! e)) = EntryBlock e" using O2(2) by (auto simp: phase_inv_def)
  ultimately have "throughout (traffic_ok es ?base) (map ZeroBlock (plan_release plan)) s2"
    using release_phase [OF O2(3), of "plan_release plan" "snd s2"] by simp
  then show "throughout (traffic_ok es ?base) (publish_ops es baseline plan) ?s0"
    using throughout_phase [OF D1(1)] O2(1) by (simp add: publish_ops_def throughout_append dels_def [symmetric] s1_def [symmetric] s2_def [symmetric])
  have "fst (fold publish_step (map ZeroBlock rel) s) = fst s \<and> (\<forall>n. n \<notin> set rel \<longrightarrow> snd (fold publish_step (map ZeroBlock rel) s) n = snd s n)" for rel s
    by (induction rel arbitrary: s) auto
  moreover have "fold publish_step (publish_ops es baseline plan) ?s0 = fold publish_step (map ZeroBlock (plan_release plan)) s2"
    by (simp add: publish_ops_def dels_def [symmetric] s1_def s2_def)
  moreover have "va_vip_num (es ! e) \<notin> set (plan_release plan)" if "e < length es" for e using R that by auto
  ultimately show "published es {..<length es} (fst (fold publish_step (publish_ops es baseline plan) ?s0))"
    "\<forall>e<length es. snd (fold publish_step (publish_ops es baseline plan) ?s0) (va_vip_num (es ! e)) = EntryBlock e"
    using O2(3) B by simp_all
qed



text \<open>The outcome of an allocation. On success the entries keep their keys, have pairwise different
  numbers below \<^verbatim>\<open>MAX_VIPS\<close>, the write order lists every entry once, and exactly the baseline numbers
  no entry has are released; on failure every number is unset and the plan is empty.\<close>

theorem vip_alloc_outcome:
  assumes "vip_alloc entries baseline = (ok, es, plan)"
  shows "map va_keys es = map va_keys entries \<and>
    (if ok then distinct (map va_vip_num es) \<and> (\<forall>n \<in> set (map va_vip_num es). n < max_vips) \<and>
       distinct (plan_write_order plan) \<and> set (plan_write_order plan) = {..<length es} \<and>
       distinct (plan_release plan) \<and> set (plan_release plan) = vb_vip_num ` set baseline - set (map va_vip_num es)
     else (\<forall>e \<in> set es. va_vip_num e = VIP_ALLOC_NUM_UNSET) \<and> plan_write_order plan = [] \<and> plan_release plan = [])"
proof (cases ok)
  case True
  then have "vip_alloc entries baseline = (True, es, plan)" using assms by simp
  note S = vip_alloc_success [OF this]
  have bound: "\<forall>b\<in>set baseline. vb_vip_num b < max_vips"
    using assms True by (auto simp: vip_alloc_def Let_def linorder_not_le split: if_splits)
  then have "set (plan_release plan) = vb_vip_num ` set baseline - set (map va_vip_num es)"
    unfolding S(7) by auto
  then show ?thesis using True S by (auto simp: S(7))
next
  case False
  then have "es = map (\<lambda>e. e\<lparr>va_vip_num := VIP_ALLOC_NUM_UNSET\<rparr>) entries" "plan = empty_plan"
    using assms by (auto simp: vip_alloc_def Let_def split: if_splits option.splits)
  then show ?thesis using False by (simp add: comp_def empty_plan_def)
qed

theorem vip_alloc_outcome_witness:
  "map va_keys (fst (snd cycle_result)) = map va_keys cycle_entries \<and>
   set (plan_release (snd (snd cycle_result))) = vb_vip_num ` set cycle_baseline - set (map va_vip_num (fst (snd cycle_result)))"
  using vip_alloc_outcome [of cycle_entries cycle_baseline True "fst (snd cycle_result)" "snd (snd cycle_result)"] cycle_alloc
  by (simp add: cycle_result_def)

lemma vip_alloc_total:
  assumes len: "length entries + card (vb_vip_num ` set baseline) < max_vips" and bl: "length baseline \<le> max_vips"
    and keys: "keys_checked entries 0" and bound: "\<forall>b\<in>set baseline. vb_vip_num b < max_vips"
  shows "fst (vip_alloc entries baseline)"
proof -
  let ?unset = "map (\<lambda>e. e\<lparr>va_vip_num := VIP_ALLOC_NUM_UNSET\<rparr>) entries"
  have refs: "refs_of ?unset baseline = refs_of entries baseline"
    unfolding refs_of_def by (subst (1 2) owner_cong [of ?unset entries]) (simp_all add: comp_def)
  have "keys_checked ?unset n = keys_checked entries n" for n
    by (induction entries arbitrary: n) (simp_all add: va_key_list_def)
  then have keys': "keys_checked ?unset 0" using keys by simp
  obtain claimed used where claim: "vip_alloc_claim ?unset baseline {} = Some (claimed, used)"
    using claim_total [of ?unset baseline] len by auto
  note S = start_inv [OF claim _ bound]
  have "ref_num ` set (refs_of entries baseline) \<subseteq> vb_vip_num ` set baseline" by (auto simp: refs_of_def)
  then have "card (ref_num ` set (refs_of entries baseline)) \<le> card (vb_vip_num ` set baseline)" by (intro card_mono) auto
  moreover have "length claimed = length entries" using S(2) len by (metis add_lessD1 length_map less_imp_le)
  ultimately obtain s where "vip_alloc_order \<lparr>os_entries = claimed, os_refs = refs_of entries baseline, os_used = used,
      os_written = {}, os_order = []\<rparr> = Some s"
    using order_total [OF S(1)] len by fastforce
  then show ?thesis
    using len bl keys' bound claim refs by (auto simp: vip_alloc_def Let_def)
qed

text \<open>C31: The allocator succeeds whenever the entries and the numbers of the live map leave one number of
  \<^verbatim>\<open>MAX_VIPS\<close> over, however the keys were regrouped: a cycle is always broken, and the ordering loop ends.\<close>

theorem vip_alloc_succeeds:
  assumes len: "length entries + card (vb_vip_num ` set baseline) < max_vips" and bl: "length baseline \<le> max_vips"
    and keys: "keys_checked entries 0" and bound: "\<forall>b\<in>set baseline. vb_vip_num b < max_vips"
  shows "fst (vip_alloc entries baseline)"
  by (rule vip_alloc_total [OF assms])

theorem vip_alloc_succeeds_witness: "fst (vip_alloc cycle_entries cycle_baseline)"
proof (rule vip_alloc_succeeds)
  have "vb_vip_num ` set cycle_baseline = {0, 1}" by (auto simp: cycle_baseline_def)
  then show "length cycle_entries + card (vb_vip_num ` set cycle_baseline) < max_vips"
    by (simp add: cycle_entries_def)
qed (simp_all add: cycle_entries_def cycle_baseline_def va_key_list_def)

text \<open>C30: A reload that moves no key between services moves nothing. If the rows of each entry share
  one number and different entries have different ones, the allocator succeeds, every entry the
  live map knows keeps its number, and the entries are written in the order of the configuration.\<close>

theorem vip_alloc_keeps_numbers:
  assumes ok: "keys_ok entries baseline" and nr: "no_regrouping entries baseline"
    and len: "length entries \<le> max_vips" and bl: "length baseline \<le> max_vips"
    and keys: "keys_checked entries 0" and bound: "\<forall>b\<in>set baseline. vb_vip_num b < max_vips"
  shows "\<exists>es plan. vip_alloc entries baseline = (True, es, plan) \<and> plan_write_order plan = [0..<length entries] \<and>
    (\<forall>b\<in>set baseline. vip_alloc_owner entries (vb_key b) \<noteq> VIP_ALLOC_NUM_UNSET \<longrightarrow>
       va_vip_num (es ! vip_alloc_owner entries (vb_key b)) = vb_vip_num b)"
proof -
  let ?unset = "map (\<lambda>e. e\<lparr>va_vip_num := VIP_ALLOC_NUM_UNSET\<rparr>) entries"
  have own: "vip_alloc_owner ?unset = vip_alloc_owner entries" by (rule owner_cong) (simp add: comp_def)
  have kl: "map va_key_list ?unset = map va_key_list entries" by (rule va_key_list_cong) (simp add: comp_def)
  have refs: "refs_of ?unset baseline = refs_of entries baseline" by (simp add: refs_of_def own)
  have "keys_checked ?unset n = keys_checked entries n" for n
    by (induction entries arbitrary: n) (simp_all add: va_key_list_def)
  then have keys': "keys_checked ?unset 0" using keys by simp
  obtain claimed used where claim: "vip_alloc_claim ?unset baseline {} = Some (claimed, used)"
    using claim_total [of ?unset baseline] len by auto
  obtain es1 used1 where m: "claim_matched ?unset baseline {} = (es1, used1)" by fastforce
  note M = claim_matched_result [OF m] and S = start_inv [OF claim len bound] and I = order_invD [OF S(1)]
  have free: "claim_free es1 used1 = Some (claimed, used)" using claim m by (simp add: vip_alloc_claim_def)
  have len1: "length es1 = length entries" "length claimed = length entries" using M(1) S(2) by (metis length_map)+
  have kept: "va_vip_num (claimed ! e) = vb_vip_num b"
    if b: "b \<in> set baseline" "vip_alloc_owner entries (vb_key b) = e" "e < length entries" for b e
  proof -
    have "keys_ok ?unset baseline" "no_regrouping ?unset baseline" "length ?unset \<le> max_vips"
      using ok nr len unfolding keys_ok_def no_regrouping_def kl own by simp_all
    then have "va_vip_num (es1 ! e) = vb_vip_num b"
      using claim_matched_kept [of ?unset baseline "[]" ?unset "{}" es1 used1 b e] m b own by simp
    moreover have "vb_vip_num b \<noteq> VIP_ALLOC_NUM_UNSET" using bound b(1) by (auto simp: VIP_ALLOC_NUM_UNSET_def)
    moreover have "used1 \<subseteq> {..<max_vips}" "set (assigned es1) \<subseteq> used1" using M bound by auto
    ultimately show ?thesis using claim_free_result [OF free _ M(2)] b(3) len1 by simp
  qed
  have "\<forall>r\<in>set (refs_of entries baseline). ref_entry r < length claimed \<and> ref_num r = va_vip_num (claimed ! ref_entry r)"
    using kept owner_bound [of entries] len1 by (auto simp: refs_of_def)
  then obtain s where "vip_alloc_order \<lparr>os_entries = claimed, os_refs = refs_of entries baseline, os_used = used,
      os_written = {}, os_order = []\<rparr> = Some s" "os_entries s = claimed" "os_order s = [0..<length entries]"
    using order_in_sequence [of "\<lparr>os_entries = claimed, os_refs = refs_of entries baseline, os_used = used,
      os_written = {}, os_order = []\<rparr>" 0] I(2) len1 by auto
  then show ?thesis
    using len bl keys' bound claim kept owner_bound [of entries] refs by (auto simp: vip_alloc_def Let_def)
qed

theorem vip_alloc_keeps_numbers_witness:
  "\<exists>es plan. vip_alloc [\<lparr>va_keys = Some [sample_key 1], va_vip_num = 0\<rparr>] [\<lparr>vb_key = sample_key 1, vb_vip_num = 7\<rparr>] = (True, es, plan) \<and>
     va_vip_num (es ! 0) = 7"
proof -
  let ?e = "[\<lparr>va_keys = Some [sample_key 1], va_vip_num = 0\<rparr>]" and ?b = "[\<lparr>vb_key = sample_key 1, vb_vip_num = 7\<rparr>]"
  have "vip_alloc_owner ?e (sample_key 1) = 0"
    by (simp add: vip_alloc_owner_def va_key_list_def vip_alloc_key_eq_def)
  moreover have "keys_ok ?e ?b" by (simp add: keys_ok_def va_key_list_def canonical_key_def sample_key_def)
  moreover have "no_regrouping ?e ?b" by (simp add: no_regrouping_def)
  moreover have "keys_checked ?e 0" by (simp add: va_key_list_def)
  ultimately show ?thesis using vip_alloc_keeps_numbers [of ?e ?b] by (auto simp: VIP_ALLOC_NUM_UNSET_def)
qed

end
