(* ===== verification/Marlind_Conf.thy ===== *)
theory Marlind_Conf
  imports Marlind_Conf_Value Marlind_Vip_Alloc
begin

text \<open>
  The configuration model of the daemon (\<^verbatim>\<open>conf.h\<close>), its bounded list of diagnostics, and what the
  daemon asks of the host.

  A fixed-size character array holds a C string shorter than the array, and is that string. A
  pointer with its count is a list. A diagnostic is the format string of its message: the arguments
  are not modelled, and neither is the text after formatting.
\<close>

section \<open>The model of a configuration\<close>

definition IF_NAMESIZE :: nat where "IF_NAMESIZE = 16"
definition PATH_MAX :: nat where "PATH_MAX = 4096"
definition MARLIN_CONF_NAME_MAX :: nat where "MARLIN_CONF_NAME_MAX = 64"
definition MARLIN_CONF_DIAG_MAX :: nat where "MARLIN_CONF_DIAG_MAX = 64"
definition MARLIN_CONF_VIP_NUM_UNSET :: u32 where "MARLIN_CONF_VIP_NUM_UNSET = 0xffffffff"

record conf_instance =
  ci_iface :: string
  ci_ifindex :: int
  ci_object :: string
  ci_pin_dir :: string
  ci_tunnel_src_set :: bool
  ci_tunnel_src :: u32
  ci_tx_ports :: "string list"
  ci_max_frame_set :: bool
  ci_max_frame :: u16

record conf_backend =
  cb_name :: string
  cb_id :: u16
  cb_egress :: string
  cb_has_egress :: bool
  cb_mac_stated :: bool
  cb_fib_stated :: bool
  cb_fib_value :: bool
  cb_vni_stated :: bool
  cb_inner_mac_stated :: bool
  cb_abi :: backend

record conf_member =
  cm_backend_name :: string
  cm_backend_id :: u16
  cm_weight :: u32

record conf_vip =
  cv_keys :: "vip_key list"
  cv_meta :: vip_meta
  cv_table_seed :: bytes
  cv_members :: "conf_member list"

record conf_acl_entry =
  ca_prefixlen :: u32
  ca_addr :: bytes

record conf_acl =
  ac_enabled :: bool
  ac_allow_v4 :: "conf_acl_entry list"
  ac_block_v4 :: "conf_acl_entry list"
  ac_allow_v6 :: "conf_acl_entry list"
  ac_block_v6 :: "conf_acl_entry list"

record conf_ratelimit =
  cr_enabled :: bool
  cr_tokens_per_sec :: u32
  cr_burst_packets :: u32

record marlin_conf =
  mf_instance :: conf_instance
  mf_acl :: conf_acl
  mf_ratelimit :: conf_ratelimit
  mf_backends :: "conf_backend list"
  mf_vips :: "conf_vip list"

datatype conf_load_mode = CONF_LOAD_FULL | CONF_LOAD_INSTANCE_ONLY

text \<open>The zero-filled values \<^verbatim>\<open>calloc\<close> returns.\<close>

definition zero_instance :: conf_instance where
  "zero_instance = \<lparr>ci_iface = [], ci_ifindex = 0, ci_object = [], ci_pin_dir = [], ci_tunnel_src_set = False,
     ci_tunnel_src = 0, ci_tx_ports = [], ci_max_frame_set = False, ci_max_frame = 0\<rparr>"

definition zero_conf_backend :: conf_backend where
  "zero_conf_backend = \<lparr>cb_name = [], cb_id = 0, cb_egress = [], cb_has_egress = False, cb_mac_stated = False,
     cb_fib_stated = False, cb_fib_value = False, cb_vni_stated = False, cb_inner_mac_stated = False, cb_abi = zero_backend\<rparr>"

definition zero_member :: conf_member where
  "zero_member = \<lparr>cm_backend_name = [], cm_backend_id = 0, cm_weight = 0\<rparr>"

definition zero_key :: vip_key where
  "zero_key = \<lparr>vk_addr = (0, 0, 0, 0), vk_port = 0, vk_proto = 0, vk_family = 0\<rparr>"

definition zero_conf_vip :: conf_vip where
  "zero_conf_vip = \<lparr>cv_keys = [], cv_meta = \<lparr>vm_vip_num = 0, vm_flags = 0, vm_hash_key = 0\<rparr>,
     cv_table_seed = replicate 16 0, cv_members = []\<rparr>"

definition zero_acl :: conf_acl where
  "zero_acl = \<lparr>ac_enabled = False, ac_allow_v4 = [], ac_block_v4 = [], ac_allow_v6 = [], ac_block_v6 = []\<rparr>"

definition zero_conf :: marlin_conf where
  "zero_conf = \<lparr>mf_instance = zero_instance, mf_acl = zero_acl,
     mf_ratelimit = \<lparr>cr_enabled = False, cr_tokens_per_sec = 0, cr_burst_packets = 0\<rparr>, mf_backends = [], mf_vips = []\<rparr>"

definition vip_key_eq :: "vip_key \<Rightarrow> vip_key \<Rightarrow> bool" where
  "vip_key_eq lhs rhs =
    (if vk_family lhs \<noteq> vk_family rhs \<or> vk_port lhs \<noteq> vk_port rhs \<or> vk_proto lhs \<noteq> vk_proto rhs then False
     else if vk_family lhs = AF_INET then fst (vk_addr lhs) = fst (vk_addr rhs)
     else vk_addr lhs = vk_addr rhs)"

text \<open>\<^verbatim>\<open>strncmp(a, b, n) == 0\<close>.\<close>

definition strneq :: "nat \<Rightarrow> string \<Rightarrow> string \<Rightarrow> bool" where
  "strneq n a b \<longleftrightarrow> take n a = take n b"

section \<open>Diagnostics\<close>

record conf_diag =
  cd_msg :: "string list"
  cd_dropped :: nat
  cd_warn :: "string list"
  cd_warn_dropped :: nat

definition conf_diag_reset :: conf_diag where
  "conf_diag_reset = \<lparr>cd_msg = [], cd_dropped = 0, cd_warn = [], cd_warn_dropped = 0\<rparr>"

definition diag_append :: "string \<Rightarrow> string list \<times> nat \<Rightarrow> string list \<times> nat" where
  "diag_append fmt = (\<lambda>(arr, dropped).
     if length arr \<ge> MARLIN_CONF_DIAG_MAX then (arr, dropped + 1) else (arr @ [fmt], dropped))"

definition conf_diag_add :: "string \<Rightarrow> conf_diag \<Rightarrow> conf_diag" where
  "conf_diag_add fmt diag =
    (case diag_append fmt (cd_msg diag, cd_dropped diag) of (msg, dropped) \<Rightarrow> diag\<lparr>cd_msg := msg, cd_dropped := dropped\<rparr>)"

definition conf_diag_warn :: "string \<Rightarrow> conf_diag \<Rightarrow> conf_diag" where
  "conf_diag_warn fmt diag =
    (case diag_append fmt (cd_warn diag, cd_warn_dropped diag) of (wmsg, dropped) \<Rightarrow>
       diag\<lparr>cd_warn := wmsg, cd_warn_dropped := dropped\<rparr>)"

abbreviation diag_count :: "conf_diag \<Rightarrow> nat" where
  "diag_count d \<equiv> length (cd_msg d)"

section \<open>The contract of a check\<close>

text \<open>
  A check only adds diagnostics, and it adds one just when its rule is broken. The caller compares
  the number of messages before and after; the array holds 64 of them, so the comparison means
  something as long as there was room for one more.
\<close>

definition check_exact :: "(conf_diag \<Rightarrow> conf_diag) \<Rightarrow> bool \<Rightarrow> bool" where
  "check_exact f rule \<longleftrightarrow> (\<forall>d. diag_count d \<le> diag_count (f d)) \<and> (rule \<longrightarrow> (\<forall>d. cd_msg (f d) = cd_msg d)) \<and>
     (\<not> rule \<longrightarrow> (\<forall>d. diag_count d < MARLIN_CONF_DIAG_MAX \<longrightarrow> diag_count d < diag_count (f d)))"

named_theorems check_intros \<open>composition of exact checks\<close>

lemma check_exact_add [check_intros]: "check_exact (conf_diag_add m) False"
  by (simp add: check_exact_def conf_diag_add_def diag_append_def)

lemma check_exact_id [check_intros]: "check_exact (\<lambda>d. d) True"
  by (simp add: check_exact_def)

lemma check_exact_warn [check_intros]: "check_exact (conf_diag_warn m) True"
  by (simp add: check_exact_def conf_diag_warn_def diag_append_def)

lemma check_exact_comp:
  assumes "check_exact f P" "check_exact g Q"
  shows "check_exact (\<lambda>d. g (f d)) (P \<and> Q)"
proof -
  have mono: "diag_count d \<le> diag_count (f d)" "diag_count d \<le> diag_count (g d)" for d
    using assms by (simp_all add: check_exact_def)
  show ?thesis
  proof (cases P)
    case True
    then have same: "cd_msg (f d) = cd_msg d" for d using assms(1) by (simp add: check_exact_def)
    show ?thesis unfolding check_exact_def
    proof (intro conjI allI impI)
      show "diag_count d \<le> diag_count (g (f d))" for d using mono(2) [of "f d"] same by simp
      show "cd_msg (g (f d)) = cd_msg d" if "P \<and> Q" for d using that assms(2) same by (simp add: check_exact_def)
      show "diag_count d < diag_count (g (f d))" if "\<not> (P \<and> Q)" "diag_count d < MARLIN_CONF_DIAG_MAX" for d
        using that True assms(2) same [of d] unfolding check_exact_def by (metis (no_types))
    qed
  next
    case False
    have "diag_count d < diag_count (g (f d))" if "diag_count d < MARLIN_CONF_DIAG_MAX" for d
    proof -
      have "diag_count d < diag_count (f d)" using assms(1) False that by (simp add: check_exact_def)
      then show ?thesis using mono(2) [of "f d"] by linarith
    qed
    then show ?thesis using False mono order_trans unfolding check_exact_def by blast
  qed
qed

lemma check_exact_if [check_intros]:
  "check_exact f P \<Longrightarrow> check_exact g Q \<Longrightarrow> check_exact (\<lambda>d. if c then f d else g d) (if c then P else Q)"
  by simp

text \<open>The shapes the checks are written in: a sequence of bindings of the diagnostics, of a pair with
  the diagnostics last, or of a value.\<close>

lemma check_exact_Let [check_intros]:
  "check_exact f P \<Longrightarrow> check_exact g Q \<Longrightarrow> check_exact (\<lambda>d. Let (f d) g) (P \<and> Q)"
  using check_exact_comp by (simp add: Let_def)

lemma check_exact_Let_snd [check_intros]:
  "check_exact f P \<Longrightarrow> check_exact (\<lambda>d. snd (g d)) Q \<Longrightarrow> check_exact (\<lambda>d. snd (Let (f d) g)) (P \<and> Q)"
  using check_exact_comp [of f P "\<lambda>d. snd (g d)" Q] by (simp add: Let_def)

lemma check_exact_snd [check_intros]: "check_exact f P \<Longrightarrow> check_exact (\<lambda>d. snd (x d, f d)) P"
  by simp

lemma check_exact_Let_pair [check_intros]:
  assumes "check_exact (\<lambda>d. snd (f d)) P" and x: "\<And>d. fst (f d) = x" and "check_exact (\<lambda>d. snd (g x d)) Q"
  shows "check_exact (\<lambda>d. snd (Let (f d) (\<lambda>(x, d). g x d))) (P \<and> Q)"
  using check_exact_comp [OF assms(1,3)] by (simp add: Let_def split_beta x)

lemma check_exact_cong: "check_exact f P \<Longrightarrow> P = Q \<Longrightarrow> check_exact f Q"
  by simp

lemma check_exact_fold [check_intros]:
  "(\<And>x. x \<in> set xs \<Longrightarrow> check_exact (f x) (P x)) \<Longrightarrow> check_exact (fold f xs) (\<forall>x\<in>set xs. P x)"
proof (induction xs)
  case Nil
  then show ?case using check_exact_id by (simp add: id_def)
next
  case (Cons x xs)
  then have "check_exact (\<lambda>d. fold f xs (f x d)) (P x \<and> (\<forall>x\<in>set xs. P x))"
    by (intro check_exact_comp) auto
  then show ?case by (simp add: comp_def)
qed

lemma check_exactD:
  assumes "check_exact f P" "diag_count d < MARLIN_CONF_DIAG_MAX"
  shows "diag_count (f d) = diag_count d \<longleftrightarrow> P"
  using assms by (cases P) (auto simp: check_exact_def dest: spec [of _ d])

text \<open>The contract as an interface: what a caller of any of the checks may rely on.\<close>

locale checker =
  fixes check :: "'a \<Rightarrow> conf_diag \<Rightarrow> conf_diag" and rule :: "'a \<Rightarrow> bool"
  assumes exact: "check_exact (check x) (rule x)"
begin

lemma accepts: "diag_count d < MARLIN_CONF_DIAG_MAX \<Longrightarrow> diag_count (check x d) = diag_count d \<longleftrightarrow> rule x"
  by (rule check_exactD [OF exact])

lemma grows: "diag_count d \<le> diag_count (check x d)"
  using exact [of x] by (simp add: check_exact_def)

lemma silent: "rule x \<Longrightarrow> cd_msg (check x d) = cd_msg d"
  using exact [of x] by (simp add: check_exact_def)

end

section \<open>The host\<close>

text \<open>What the daemon asks of the system it runs on: interface indices and MTUs, memory, files and
  the parsed form of a file.\<close>

datatype toml =
    TOML_UNKNOWN | TOML_STRING string | TOML_INT64 int | TOML_FP64 | TOML_BOOLEAN bool
  | TOML_DATE | TOML_TIME | TOML_DATETIME | TOML_DATETIMETZ | TOML_ARRAY "toml list" | TOML_TABLE "(string \<times> toml) list"

record conf_stat =
  st_group_writable :: bool
  st_other_writable :: bool
  st_other_readable :: bool

record host =
  h_if_nametoindex :: "string \<Rightarrow> u32"
  h_mtu :: "string \<Rightarrow> int option"
  h_alloc :: "string \<Rightarrow> nat \<Rightarrow> bool"
  h_open :: "string \<Rightarrow> bool"
  h_fstat :: "string \<Rightarrow> conf_stat option"
  h_fdopen :: "string \<Rightarrow> bool"
  h_toml_parse_file :: "string \<Rightarrow> toml option"

end
