(* ===== verification/Marlind_Conf_Check.thy ===== *)
theory Marlind_Conf_Check
  imports Marlind_Conf
begin

text \<open>
  The validation of a whole configuration (\<^verbatim>\<open>conf_check.c\<close>). Each check is the code's, threading the
  diagnostics and the few fields it fills in (the interface index, the FIB bit of a backend, the
  identifiers of the members); beside it stands the rule it enforces, and the check is exact for
  the rule.
\<close>

section \<open>The instance\<close>

definition ifname_eq :: "string \<Rightarrow> string \<Rightarrow> bool" where
  "ifname_eq lhs rhs = strneq IF_NAMESIZE lhs rhs"

definition is_attach_or_txport :: "conf_instance \<Rightarrow> string \<Rightarrow> bool" where
  "is_attach_or_txport inst name =
    (if ifname_eq name (ci_iface inst) then True else list_ex (\<lambda>p. ifname_eq name p) (ci_tx_ports inst))"

fun check_tx_ports :: "string \<Rightarrow> string list \<Rightarrow> conf_diag \<Rightarrow> conf_diag" where
  "check_tx_ports iface [] diag = diag"
| "check_tx_ports iface (p # ps) diag =
    (let diag = fold (\<lambda>q d. if ifname_eq p q then conf_diag_add ''instance.tx_ports[%u] duplicates tx_ports[%u] (%s)'' d else d) ps diag;
         diag = (if ifname_eq p iface
                 then conf_diag_warn ''instance.tx_ports[%u] names the attach interface, which never needs to be listed'' diag
                 else diag)
     in check_tx_ports iface ps diag)"

definition check_instance :: "host \<Rightarrow> conf_instance \<Rightarrow> conf_diag \<Rightarrow> conf_instance \<times> conf_diag" where
  "check_instance h inst diag =
    (if ci_iface inst = [] then (inst, conf_diag_add ''instance.interface is required'' diag)
     else
       let inst = inst\<lparr>ci_ifindex := sint (h_if_nametoindex h (ci_iface inst))\<rparr>;
           diag = (if ci_ifindex inst = 0
                   then conf_diag_warn ''instance.interface %s not found on this host -- skipping host-dependent checks'' diag
                   else diag)
       in (inst, check_tx_ports (ci_iface inst) (ci_tx_ports inst) diag))"

definition instance_rule :: "conf_instance \<Rightarrow> bool" where
  "instance_rule inst \<longleftrightarrow> ci_iface inst \<noteq> [] \<and> sorted_wrt (\<lambda>p q. \<not> ifname_eq p q) (ci_tx_ports inst)"

lemma check_tx_ports_exact: "check_exact (check_tx_ports iface ps) (sorted_wrt (\<lambda>p q. \<not> ifname_eq p q) ps)"
proof (induction ps)
  case (Cons p ps)
  show ?case
    unfolding check_tx_ports.simps by (rule check_exact_cong, (rule check_intros Cons)+) auto
qed (simp add: check_exact_id)

lemma check_instance_exact: "check_exact (\<lambda>d. snd (check_instance h inst d)) (instance_rule inst)"
proof (cases "ci_iface inst = []")
  case True
  then show ?thesis using check_exact_add by (simp add: check_instance_def instance_rule_def)
next
  case False
  let ?inst = "inst\<lparr>ci_ifindex := sint (h_if_nametoindex h (ci_iface inst))\<rparr>"
  have eq: "check_instance h inst d = (let d = (if ci_ifindex ?inst = 0
         then conf_diag_warn ''instance.interface %s not found on this host -- skipping host-dependent checks'' d else d)
       in (?inst, check_tx_ports (ci_iface inst) (ci_tx_ports inst) d))" for d
    using False by (simp add: check_instance_def Let_def)
  show ?thesis
    unfolding eq by (rule check_exact_cong, (rule check_intros check_tx_ports_exact)+) (simp add: instance_rule_def False)
qed

section \<open>Backends\<close>

definition set_fib :: "conf_backend \<Rightarrow> conf_backend" where
  "set_fib backend =
    (let fib = (if cb_fib_stated backend then cb_fib_value backend else cb_mac_stated backend);
         abi = cb_abi backend
     in backend\<lparr>cb_abi := abi\<lparr>be_flags := (if fib then be_flags abi OR MARLIN_BE_F_FIB else be_flags abi AND NOT MARLIN_BE_F_FIB)\<rparr>\<rparr>)"

definition check_one_backend :: "conf_instance \<Rightarrow> conf_backend \<Rightarrow> conf_diag \<Rightarrow> conf_backend \<times> conf_diag" where
  "check_one_backend inst backend diag =
    (let abi = cb_abi backend;
         mode = ENCAP_MODE (be_flags abi);
         diag = (if be_addr abi = 0 then conf_diag_add ''backend[%s].addr is required'' diag else diag);
         diag = (if be_flags abi AND MARLIN_BE_F_ENCAP_REQUIRED \<noteq> 0 \<and> \<not> ci_tunnel_src_set inst
                 then conf_diag_add ''backend[%s] encapsulates but instance.tunnel_src is unset'' diag else diag);
         diag = (if mode = MARLIN_MODE_VXLAN then
                   let diag = (if \<not> cb_vni_stated backend \<or> be_vni abi = 0 \<or> be_vni abi AND MARLIN_VNI_RESERVED \<noteq> 0
                               then conf_diag_add ''backend[%s].vni is unset or out of range (0 < vni <= 0xffffff)'' diag else diag);
                       inner_mac_zero = list_all (\<lambda>b. b = 0) (le_bytes 6 (be_inner_mac abi))
                   in if \<not> cb_inner_mac_stated backend \<or> inner_mac_zero
                      then conf_diag_add ''backend[%s].inner_mac is required for vxlan and must not be all-zero'' diag else diag
                 else if cb_vni_stated backend \<or> cb_inner_mac_stated backend
                 then conf_diag_add ''backend[%s].vni/inner_mac are only meaningful for mode = vxlan'' diag
                 else diag);
         diag = (if cb_has_egress backend \<and> \<not> is_attach_or_txport inst (cb_egress backend)
                 then conf_diag_add ''backend[%s].egress (%s) is neither the attach interface nor in tx_ports'' diag else diag)
     in (set_fib backend, diag))"

fun check_backends_loop :: "conf_instance \<Rightarrow> conf_backend list \<Rightarrow> conf_diag \<Rightarrow> conf_backend list \<times> conf_diag" where
  "check_backends_loop inst [] diag = ([], diag)"
| "check_backends_loop inst (b # bs) diag =
    (let diag = (if cb_id b = ucast MARLIN_NO_BACKEND then conf_diag_add ''backend[%s].id is 0, the sentinel for no backend'' diag else diag);
         diag = (if ucast (cb_id b) \<ge> MAX_BACKENDS then conf_diag_add ''backend[%s].id %u is out of range (< %u)'' diag else diag);
         diag = fold (\<lambda>c d.
             let d = (if strneq MARLIN_CONF_NAME_MAX (cb_name b) (cb_name c) then conf_diag_add ''backend name %s is duplicated'' d else d)
             in if cb_id b = cb_id c then conf_diag_add ''backend id %u is duplicated (%s and %s)'' d else d) bs diag;
         (b', diag) = check_one_backend inst b diag;
         (bs', diag) = check_backends_loop inst bs diag
     in (b' # bs', diag))"

definition check_backends :: "marlin_conf \<Rightarrow> conf_diag \<Rightarrow> marlin_conf \<times> conf_diag" where
  "check_backends conf diag =
    (let diag = (if length (mf_backends conf) > unat MAX_BACKENDS - 1
                 then conf_diag_add ''%u backends configured, more than MAX_BACKENDS - 1 (%u)'' diag else diag);
         (bs, diag) = check_backends_loop (mf_instance conf) (mf_backends conf) diag
     in (conf\<lparr>mf_backends := bs\<rparr>, diag))"

definition backend_rule :: "conf_instance \<Rightarrow> conf_backend \<Rightarrow> bool" where
  "backend_rule inst b \<longleftrightarrow>
     be_addr (cb_abi b) \<noteq> 0 \<and>
     (be_flags (cb_abi b) AND MARLIN_BE_F_ENCAP_REQUIRED \<noteq> 0 \<longrightarrow> ci_tunnel_src_set inst) \<and>
     (if ENCAP_MODE (be_flags (cb_abi b)) = MARLIN_MODE_VXLAN
      then cb_vni_stated b \<and> be_vni (cb_abi b) \<noteq> 0 \<and> be_vni (cb_abi b) AND MARLIN_VNI_RESERVED = 0 \<and>
        cb_inner_mac_stated b \<and> be_inner_mac (cb_abi b) \<noteq> 0
      else \<not> cb_vni_stated b \<and> \<not> cb_inner_mac_stated b) \<and>
     (cb_has_egress b \<longrightarrow> is_attach_or_txport inst (cb_egress b))"

definition backends_rule :: "conf_instance \<Rightarrow> conf_backend list \<Rightarrow> bool" where
  "backends_rule inst bs \<longleftrightarrow> length bs < unat MAX_BACKENDS \<and>
     (\<forall>b\<in>set bs. cb_id b \<noteq> 0 \<and> ucast (cb_id b) < MAX_BACKENDS \<and> backend_rule inst b) \<and>
     sorted_wrt (\<lambda>b c. \<not> strneq MARLIN_CONF_NAME_MAX (cb_name b) (cb_name c) \<and> cb_id b \<noteq> cb_id c) bs"

lemma list_all_zero_mac: "list_all (\<lambda>b. b = 0) (le_bytes 6 (w :: mac)) \<longleftrightarrow> w = 0"
proof
  assume "list_all (\<lambda>b. b = 0) (le_bytes 6 w)"
  then have "le_bytes 6 w = replicate 6 0" by (intro replicate_eqI) (auto simp: list_all_iff)
  also have "\<dots> = le_bytes 6 (0 :: mac)" by (simp add: numeral_eq_Suc)
  finally have "(le_val (le_bytes 6 w) :: mac) = le_val (le_bytes 6 (0 :: mac))" by simp
  then show "w = 0" by simp
next
  assume "w = 0"
  then show "list_all (\<lambda>b. b = 0) (le_bytes 6 w)" by (simp add: numeral_eq_Suc)
qed

lemma check_one_backend_exact: "check_exact (\<lambda>d. snd (check_one_backend inst b d)) (backend_rule inst b)"
  unfolding check_one_backend_def Let_def [of "cb_abi b"] Let_def [of "ENCAP_MODE _"]
    Let_def [of "list_all _ _"]
  by (rule check_exact_cong, (rule check_intros)+)
     (auto simp: backend_rule_def list_all_zero_mac)

lemma check_one_backend_fst [simp]: "fst (check_one_backend inst b d) = set_fib b"
  by (simp add: check_one_backend_def Let_def)

lemma check_backends_loop_fst [simp]: "fst (check_backends_loop inst bs d) = map set_fib bs"
proof (induction bs arbitrary: d)
  case (Cons b bs)
  then show ?case
    by (simp add: Let_def split_beta)
qed simp

lemma check_backends_loop_exact:
  "check_exact (\<lambda>d. snd (check_backends_loop inst bs d))
    ((\<forall>b\<in>set bs. cb_id b \<noteq> 0 \<and> ucast (cb_id b) < MAX_BACKENDS \<and> backend_rule inst b) \<and>
     sorted_wrt (\<lambda>b c. \<not> strneq MARLIN_CONF_NAME_MAX (cb_name b) (cb_name c) \<and> cb_id b \<noteq> cb_id c) bs)"
proof (induction bs)
  case (Cons b bs)
  show ?case
    unfolding check_backends_loop.simps
    by (rule check_exact_cong, (rule check_intros check_one_backend_exact check_one_backend_fst check_backends_loop_fst Cons)+)
      (auto simp: not_le)
qed (simp add: check_exact_id)

lemma check_backends_exact:
  "check_exact (\<lambda>d. snd (check_backends conf d)) (backends_rule (mf_instance conf) (mf_backends conf))"
  unfolding check_backends_def
  by (rule check_exact_cong, (rule check_intros check_backends_loop_exact check_backends_loop_fst)+) (auto simp: backends_rule_def)

lemma check_backends_fst [simp]: "fst (check_backends conf d) = conf\<lparr>mf_backends := map set_fib (mf_backends conf)\<rparr>"
  by (simp add: check_backends_def Let_def split_beta)

section \<open>VIPs\<close>

definition find_backend :: "conf_backend list \<Rightarrow> string \<Rightarrow> conf_backend option" where
  "find_backend backends name = find (\<lambda>b. strneq MARLIN_CONF_NAME_MAX (cb_name b) name) backends"

text \<open>The loop over the members; the result carries the members with their identifiers and whether one is up.\<close>

fun check_members_loop ::
  "conf_backend list \<Rightarrow> conf_member list \<Rightarrow> bool \<Rightarrow> conf_diag \<Rightarrow> (conf_member list \<times> bool) \<times> conf_diag" where
  "check_members_loop backends [] any_up diag = (([], any_up), diag)"
| "check_members_loop backends (m # ms) any_up diag =
    (case find_backend backends (cm_backend_name m) of
       None \<Rightarrow>
         let diag = conf_diag_add ''vip[%u].members[%u] names unknown backend %s'' diag;
             (r, diag) = check_members_loop backends ms any_up diag
         in ((m # fst r, snd r), diag)
     | Some b \<Rightarrow>
         let diag = (if cm_weight m = 0 then conf_diag_add ''vip[%u].members[%u] (%s) weight must be non-zero'' diag else diag);
             diag = fold (\<lambda>n d. if strneq MARLIN_CONF_NAME_MAX (cm_backend_name m) (cm_backend_name n)
                                 then conf_diag_add ''vip[%u].members lists %s more than once'' d else d) ms diag;
             (r, diag) = check_members_loop backends ms (if be_flags (cb_abi b) AND MARLIN_BE_F_STATE \<noteq> 0 then True else any_up) diag
         in ((m\<lparr>cm_backend_id := cb_id b\<rparr> # fst r, snd r), diag))"

definition check_vip_members :: "conf_backend list \<Rightarrow> conf_vip \<Rightarrow> conf_diag \<Rightarrow> conf_vip \<times> conf_diag" where
  "check_vip_members backends vip diag =
    (let (r, diag) = check_members_loop backends (cv_members vip) (cv_members vip = []) diag;
         diag = (if cv_members vip = [] then conf_diag_warn ''vip[%u] has no members'' diag
                 else if \<not> snd r then conf_diag_warn ''vip[%u] has no member in state = up'' diag else diag)
     in (vip\<lparr>cv_members := fst r\<rparr>, diag))"

definition check_vip_group :: "conf_vip \<Rightarrow> conf_diag \<Rightarrow> conf_diag" where
  "check_vip_group vip diag =
    (if length (cv_keys vip) < 2 \<or> vk_proto (cv_keys vip ! 0) \<noteq> IPPROTO_SCTP then diag
     else
       let diag = (if vm_flags (cv_meta vip) AND VIP_HASH_5TUPLE \<noteq> 0
                   then conf_diag_add ''vip[%u] is a group of %u addresses and cannot set hash_5tuple: it hashes the VIP address'' diag
                   else diag)
       in if list_ex (\<lambda>k. vk_family k = AF_INET) (cv_keys vip) \<and> list_ex (\<lambda>k. vk_family k \<noteq> AF_INET) (cv_keys vip) \<and>
             vm_flags (cv_meta vip) AND VIP_HASH_PORTS = 0
          then conf_diag_add ''vip[%u] mixes IPv4 and IPv6 addresses and requires hash_ports = true'' diag
          else if vm_flags (cv_meta vip) AND VIP_HASH_PORTS = 0
          then conf_diag_warn ''vip[%u] is a group hashed by client address'' diag
          else diag)"

definition check_one_vip :: "conf_backend list \<Rightarrow> conf_vip \<Rightarrow> conf_diag \<Rightarrow> conf_vip \<times> conf_diag" where
  "check_one_vip backends vip diag =
    (let diag = (if vm_flags (cv_meta vip) AND VIP_QUIC \<noteq> 0 \<and>
                    (VIP_QUIC_CID_LEN (vm_flags (cv_meta vip)) < 7 \<or> VIP_QUIC_CID_LEN (vm_flags (cv_meta vip)) > 20)
                 then conf_diag_add ''vip[%u].quic_cid_len must be 7-20 when quic = true'' diag else diag);
         diag = (if VIP_DSCP (vm_flags (cv_meta vip)) > 63 then conf_diag_add ''vip[%u].dscp must be 0-63'' diag else diag);
         diag = (if vm_flags (cv_meta vip) AND VIP_RATELIMIT \<noteq> 0 \<and> vm_flags (cv_meta vip) AND VIP_ACL = 0
                 then conf_diag_add ''vip[%u].ratelimit = true requires acl = true'' diag else diag);
         diag = (if vm_flags (cv_meta vip) AND VIP_HASH_PORTS \<noteq> 0 \<and>
                    (if cv_keys vip = [] then 0 else vk_proto (cv_keys vip ! 0)) \<noteq> IPPROTO_SCTP
                 then conf_diag_add ''vip[%u].hash_ports = true requires proto = sctp'' diag else diag);
         diag = (if vm_flags (cv_meta vip) AND VIP_HASH_PORTS \<noteq> 0 \<and> vm_flags (cv_meta vip) AND VIP_HASH_5TUPLE \<noteq> 0
                 then conf_diag_add ''vip[%u] cannot set both hash_ports and hash_5tuple'' diag else diag);
         diag = check_vip_group vip diag
     in check_vip_members backends vip diag)"

fun check_key_dups :: "vip_key list \<Rightarrow> conf_vip list \<Rightarrow> conf_diag \<Rightarrow> conf_diag" where
  "check_key_dups [] later diag = diag"
| "check_key_dups (k # ks) later diag =
    (let diag = fold (\<lambda>k2 d. if vip_key_eq k k2 then conf_diag_add ''vip[%u].addr[%u] duplicates addr[%u]'' d else d) ks diag;
         diag = fold (\<lambda>v d. fold (\<lambda>k2 d. if vip_key_eq k k2 then conf_diag_add ''vip[%u] duplicates address/port/proto of vip[%u]'' d
                                          else d) (cv_keys v) d) later diag
     in check_key_dups ks later diag)"

fun check_vips_loop :: "conf_backend list \<Rightarrow> conf_vip list \<Rightarrow> conf_diag \<Rightarrow> conf_vip list \<times> conf_diag" where
  "check_vips_loop backends [] diag = ([], diag)"
| "check_vips_loop backends (v # vs) diag =
    (let diag = check_key_dups (cv_keys v) vs diag;
         (v', diag) = check_one_vip backends v diag;
         (vs', diag) = check_vips_loop backends vs diag
     in (v' # vs', diag))"

definition check_vips :: "marlin_conf \<Rightarrow> conf_diag \<Rightarrow> marlin_conf \<times> conf_diag" where
  "check_vips conf diag =
    (let diag = (if sum_list (map (\<lambda>v. length (cv_keys v)) (mf_vips conf)) > unat MAX_VIPS
                 then conf_diag_add ''%u VIP addresses configured, more than MAX_VIPS (%u)'' diag else diag);
         (vs, diag) = check_vips_loop (mf_backends conf) (mf_vips conf) diag
     in (conf\<lparr>mf_vips := vs\<rparr>, diag))"

text \<open>The members with the identifiers of the backends they name.\<close>

definition resolve_member :: "conf_backend list \<Rightarrow> conf_member \<Rightarrow> conf_member" where
  "resolve_member backends m =
    (case find_backend backends (cm_backend_name m) of None \<Rightarrow> m | Some b \<Rightarrow> m\<lparr>cm_backend_id := cb_id b\<rparr>)"

definition resolve_vip :: "conf_backend list \<Rightarrow> conf_vip \<Rightarrow> conf_vip" where
  "resolve_vip backends v = v\<lparr>cv_members := map (resolve_member backends) (cv_members v)\<rparr>"

definition members_rule :: "conf_backend list \<Rightarrow> conf_member list \<Rightarrow> bool" where
  "members_rule backends ms \<longleftrightarrow>
     (\<forall>m\<in>set ms. find_backend backends (cm_backend_name m) \<noteq> None \<and> cm_weight m \<noteq> 0) \<and>
     sorted_wrt (\<lambda>m n. \<not> strneq MARLIN_CONF_NAME_MAX (cm_backend_name m) (cm_backend_name n)) ms"

definition group_rule :: "conf_vip \<Rightarrow> bool" where
  "group_rule v \<longleftrightarrow> (length (cv_keys v) \<ge> 2 \<and> vk_proto (cv_keys v ! 0) = IPPROTO_SCTP \<longrightarrow>
     vm_flags (cv_meta v) AND VIP_HASH_5TUPLE = 0 \<and>
     ((\<exists>k\<in>set (cv_keys v). vk_family k = AF_INET) \<and> (\<exists>k\<in>set (cv_keys v). vk_family k \<noteq> AF_INET) \<longrightarrow>
        vm_flags (cv_meta v) AND VIP_HASH_PORTS \<noteq> 0))"

definition vip_rule :: "conf_backend list \<Rightarrow> conf_vip \<Rightarrow> bool" where
  "vip_rule backends v \<longleftrightarrow>
     (vm_flags (cv_meta v) AND VIP_QUIC \<noteq> 0 \<longrightarrow>
        7 \<le> VIP_QUIC_CID_LEN (vm_flags (cv_meta v)) \<and> VIP_QUIC_CID_LEN (vm_flags (cv_meta v)) \<le> 20) \<and>
     (vm_flags (cv_meta v) AND VIP_RATELIMIT \<noteq> 0 \<longrightarrow> vm_flags (cv_meta v) AND VIP_ACL \<noteq> 0) \<and>
     (vm_flags (cv_meta v) AND VIP_HASH_PORTS \<noteq> 0 \<longrightarrow>
        cv_keys v \<noteq> [] \<and> vk_proto (cv_keys v ! 0) = IPPROTO_SCTP \<and> vm_flags (cv_meta v) AND VIP_HASH_5TUPLE = 0) \<and>
     group_rule v \<and> members_rule backends (cv_members v)"

definition vips_rule :: "conf_backend list \<Rightarrow> conf_vip list \<Rightarrow> bool" where
  "vips_rule backends vs \<longleftrightarrow> length (concat (map cv_keys vs)) \<le> unat MAX_VIPS \<and>
     sorted_wrt (\<lambda>k k2. \<not> vip_key_eq k k2) (concat (map cv_keys vs)) \<and> (\<forall>v\<in>set vs. vip_rule backends v)"

lemma check_members_loop_fst: "fst (fst (check_members_loop backends ms up d)) = map (resolve_member backends) ms"
proof (induction ms arbitrary: up d)
  case (Cons m ms)
  then show ?case
    by (cases "find_backend backends (cm_backend_name m)") (simp_all add: resolve_member_def Let_def split_beta)
qed simp

lemma check_members_loop_up:
  "snd (fst (check_members_loop backends ms up d)) = snd (fst (check_members_loop backends ms up d'))"
proof (induction ms arbitrary: up d d')
  case (Cons m ms)
  show ?case
  proof (cases "find_backend backends (cm_backend_name m)")
    case None
    then show ?thesis by (simp add: Let_def split_beta) (rule Cons)
  next
    case (Some b)
    then show ?thesis by (simp add: Let_def split_beta) (intro conjI impI Cons)
  qed
qed simp

lemma check_members_loop_const:
  "fst (check_members_loop backends ms up d) =
    (map (resolve_member backends) ms, snd (fst (check_members_loop backends ms up conf_diag_reset)))"
  by (rule prod_eqI) (simp_all add: check_members_loop_fst check_members_loop_up [of _ _ _ d conf_diag_reset])

lemma check_members_loop_exact: "check_exact (\<lambda>d. snd (check_members_loop backends ms up d)) (members_rule backends ms)"
proof (induction ms arbitrary: up)
  case (Cons m ms)
  show ?case
  proof (cases "find_backend backends (cm_backend_name m)")
    case None
    show ?thesis
      unfolding check_members_loop.simps None option.case
      by (rule check_exact_cong, (rule check_intros Cons check_members_loop_const)+) (simp add: members_rule_def None)
  next
    case (Some b)
    show ?thesis
      unfolding check_members_loop.simps Some option.case
      by (rule check_exact_cong, (rule check_intros Cons check_members_loop_const)+) (auto simp: members_rule_def Some)
  qed
qed (simp add: check_exact_id members_rule_def)

lemma check_vip_members_exact: "check_exact (\<lambda>d. snd (check_vip_members backends v d)) (members_rule backends (cv_members v))"
  unfolding check_vip_members_def
  by (rule check_exact_cong, (rule check_intros check_members_loop_exact check_members_loop_const)+) simp

lemma check_vip_group_exact: "check_exact (check_vip_group v) (group_rule v)"
  unfolding check_vip_group_def
  by (rule check_exact_cong, (rule check_intros)+) (auto simp: group_rule_def list_ex_iff)

lemma VIP_DSCP_le: "\<not> VIP_DSCP f > 63"
proof -
  have "VIP_DSCP f = drop_bit 16 f AND 0x3f"
    unfolding VIP_DSCP_def VIP_DSCP_MASK_def by (rule bit_word_eqI) (auto simp: bit_simps)
  then show ?thesis by (simp add: linorder_not_less word_and_le1)
qed

lemma check_one_vip_exact: "check_exact (\<lambda>d. snd (check_one_vip backends v d)) (vip_rule backends v)"
  unfolding check_one_vip_def
  by (rule check_exact_cong, (rule check_intros check_vip_group_exact check_vip_members_exact)+)
     (auto simp: vip_rule_def VIP_DSCP_le not_le not_less)

lemma check_one_vip_fst: "fst (check_one_vip backends v d) = resolve_vip backends v"
  by (simp add: check_one_vip_def check_vip_members_def check_members_loop_fst resolve_vip_def Let_def split_beta)

lemma check_key_dups_exact:
  "check_exact (check_key_dups ks later)
    (sorted_wrt (\<lambda>k k2. \<not> vip_key_eq k k2) ks \<and> (\<forall>k\<in>set ks. \<forall>v\<in>set later. \<forall>k2\<in>set (cv_keys v). \<not> vip_key_eq k k2))"
proof (induction ks)
  case (Cons k ks)
  show ?case
    unfolding check_key_dups.simps
    by (rule check_exact_cong, (rule check_intros Cons)+) auto
qed (simp add: check_exact_id)

lemma check_vips_loop_fst: "fst (check_vips_loop backends vs d) = map (resolve_vip backends) vs"
proof (induction vs arbitrary: d)
  case (Cons v vs)
  then show ?case by (simp add: Let_def split_beta check_one_vip_fst)
qed simp

lemma check_vips_loop_exact:
  "check_exact (\<lambda>d. snd (check_vips_loop backends vs d))
    (sorted_wrt (\<lambda>k k2. \<not> vip_key_eq k k2) (concat (map cv_keys vs)) \<and> (\<forall>v\<in>set vs. vip_rule backends v))"
proof (induction vs)
  case (Cons v vs)
  show ?case
    unfolding check_vips_loop.simps
    by (rule check_exact_cong,
        (rule check_intros check_key_dups_exact check_one_vip_exact check_one_vip_fst check_vips_loop_fst Cons)+)
       (auto simp: sorted_wrt_append)
qed (simp add: check_exact_id)

lemma check_vips_exact: "check_exact (\<lambda>d. snd (check_vips conf d)) (vips_rule (mf_backends conf) (mf_vips conf))"
  unfolding check_vips_def
  by (rule check_exact_cong, (rule check_intros check_vips_loop_exact check_vips_loop_fst)+)
     (auto simp: vips_rule_def length_concat comp_def)

lemma check_vips_fst: "fst (check_vips conf d) = conf\<lparr>mf_vips := map (resolve_vip (mf_backends conf)) (mf_vips conf)\<rparr>"
  by (simp add: check_vips_def Let_def split_beta check_vips_loop_fst)

section \<open>Access lists\<close>

definition strstr :: "string \<Rightarrow> string \<Rightarrow> bool" where
  "strstr haystack needle \<longleftrightarrow> list_ex (\<lambda>i. take (length needle) (drop i haystack) = needle) [0..<length haystack + 1]"

definition check_acl_entry :: "bool \<Rightarrow> string \<Rightarrow> conf_acl_entry \<Rightarrow> conf_diag \<Rightarrow> conf_diag" where
  "check_acl_entry is_v6 list_name entry diag =
    (let diag = (if ca_prefixlen entry = 0 \<and> take (if is_v6 then 16 else 4) (ca_addr entry) = replicate (if is_v6 then 16 else 4) 0 \<and>
                    strstr list_name ''allow''
                 then conf_diag_add ''acl.%s[%u] is a default route (0.0.0.0/0 or ::/0), which nullifies the blocklist entirely'' diag
                 else diag);
         diag = (if conf_cidr_host_bits_set (ca_addr entry) (ca_prefixlen entry) is_v6
                 then conf_diag_add ''acl.%s[%u] has host bits set below its prefix length'' diag else diag)
     in if \<not> is_v6 \<and> ca_prefixlen entry < 8 \<or> is_v6 \<and> ca_prefixlen entry < 32
        then conf_diag_warn ''acl.%s[%u] is broader than /%d, which is unusually wide for an allow rule'' diag else diag)"

definition check_acl_list :: "conf_acl_entry list \<Rightarrow> bool \<Rightarrow> string \<Rightarrow> conf_diag \<Rightarrow> conf_diag" where
  "check_acl_list entries is_v6 list_name diag =
    (let diag = (if length entries > MAX_ACL_ENTRIES
                 then conf_diag_add ''acl.%s has %u entries, more than MAX_ACL_ENTRIES (%u)'' diag else diag)
     in fold (check_acl_entry is_v6 list_name) entries diag)"

function prefix_covers_loop :: "conf_acl_entry \<Rightarrow> conf_acl_entry \<Rightarrow> nat \<Rightarrow> nat \<Rightarrow> bool" where
  "prefix_covers_loop outer inner width byte =
    (if byte < width then
       let bit_base = of_nat byte * 8 in
       if bit_base \<ge> ca_prefixlen outer then True
       else if bit_base + 8 \<le> ca_prefixlen outer then
         (if ca_addr outer ! byte \<noteq> ca_addr inner ! byte then False else prefix_covers_loop outer inner width (byte + 1))
       else
         let keep = ca_prefixlen outer - bit_base;
             mask8 = (ucast (push_bit (8 - unat keep) (0xff :: u32)) :: u8) in
         if ca_addr outer ! byte AND mask8 \<noteq> ca_addr inner ! byte AND mask8 then False
         else prefix_covers_loop outer inner width (byte + 1)
     else True)"
  by pat_completeness auto
termination
  by (relation "measure (\<lambda>(_, _, width, byte). width - byte)") auto

declare prefix_covers_loop.simps [simp del]

definition prefix_covers :: "conf_acl_entry \<Rightarrow> conf_acl_entry \<Rightarrow> nat \<Rightarrow> bool" where
  "prefix_covers outer inner width =
    (if ca_prefixlen outer > ca_prefixlen inner then False else prefix_covers_loop outer inner width 0)"

definition check_acl_dead_rules :: "conf_acl \<Rightarrow> conf_diag \<Rightarrow> conf_diag" where
  "check_acl_dead_rules acl diag =
    (let diag = fold (\<lambda>b d. if list_ex (\<lambda>a. prefix_covers a b 4) (ac_allow_v4 acl)
                   then conf_diag_warn ''acl.block[%u] (v4) is wholly covered by acl.allow[%u], and therefore dead'' d else d)
                 (ac_block_v4 acl) diag
     in fold (\<lambda>b d. if list_ex (\<lambda>a. prefix_covers a b 16) (ac_allow_v6 acl)
            then conf_diag_warn ''acl.block[%u] (v6) is wholly covered by acl.allow[%u], and therefore dead'' d else d)
          (ac_block_v6 acl) diag)"

definition check_acl :: "conf_acl \<Rightarrow> conf_diag \<Rightarrow> conf_diag" where
  "check_acl acl diag =
    (let diag = check_acl_list (ac_allow_v4 acl) False ''allow (v4)'' diag;
         diag = check_acl_list (ac_block_v4 acl) False ''block (v4)'' diag;
         diag = check_acl_list (ac_allow_v6 acl) True ''allow (v6)'' diag;
         diag = check_acl_list (ac_block_v6 acl) True ''block (v6)'' diag
     in check_acl_dead_rules acl diag)"

definition acl_list_rule :: "bool \<Rightarrow> bool \<Rightarrow> conf_acl_entry list \<Rightarrow> bool" where
  "acl_list_rule is_v6 is_allow es \<longleftrightarrow> length es \<le> MAX_ACL_ENTRIES \<and>
     (\<forall>e\<in>set es. \<not> conf_cidr_host_bits_set (ca_addr e) (ca_prefixlen e) is_v6 \<and>
        \<not> (is_allow \<and> ca_prefixlen e = 0 \<and> take (if is_v6 then 16 else 4) (ca_addr e) = replicate (if is_v6 then 16 else 4) 0))"

definition acl_rule :: "conf_acl \<Rightarrow> bool" where
  "acl_rule acl \<longleftrightarrow> acl_list_rule False True (ac_allow_v4 acl) \<and> acl_list_rule False False (ac_block_v4 acl) \<and>
     acl_list_rule True True (ac_allow_v6 acl) \<and> acl_list_rule True False (ac_block_v6 acl)"

lemma check_acl_list_exact: "check_exact (check_acl_list es v6 name) (acl_list_rule v6 (strstr name ''allow'') es)"
  unfolding check_acl_list_def check_acl_entry_def
  by (rule check_exact_cong, (rule check_intros)+) (auto simp: acl_list_rule_def)

lemma check_acl_dead_rules_exact: "check_exact (check_acl_dead_rules acl) True"
  unfolding check_acl_dead_rules_def
  by (rule check_exact_cong, (rule check_intros)+) auto

lemma check_acl_exact: "check_exact (check_acl acl) (acl_rule acl)"
proof -
  have name: "strstr ''allow (v4)'' ''allow''" "\<not> strstr ''block (v4)'' ''allow''"
    "strstr ''allow (v6)'' ''allow''" "\<not> strstr ''block (v6)'' ''allow''"
    by (simp_all add: strstr_def)
  show ?thesis
    unfolding check_acl_def
    by (rule check_exact_cong, (rule check_intros check_acl_list_exact check_acl_dead_rules_exact)+)
       (simp add: acl_rule_def name)
qed

lemma masked_eq_iff:
  assumes "keep < 8"
  shows "a AND (ucast (push_bit (8 - keep) (0xff :: u32)) :: u8) = b AND ucast (push_bit (8 - keep) (0xff :: u32)) \<longleftrightarrow>
    (\<forall>j<8. 8 - keep \<le> j \<longrightarrow> bit a j = bit b j)"
  using keep_mask_bit [OF assms] by (auto simp: bit_eq_iff bit_and_iff)

lemma byte_bits: "(\<forall>i<p. i div 8 = byte \<longrightarrow> f (7 - i mod 8)) \<longleftrightarrow> (\<forall>j<8. byte * 8 + (7 - j) < p \<longrightarrow> f j)"
  for f :: "nat \<Rightarrow> bool"
proof (intro iffI allI impI)
  fix j :: nat
  assume A: "\<forall>i<p. i div 8 = byte \<longrightarrow> f (7 - i mod 8)" and j: "j < 8" "byte * 8 + (7 - j) < p"
  have "(byte * 8 + (7 - j)) div 8 = byte" "(byte * 8 + (7 - j)) mod 8 = 7 - j" by simp_all
  then have "f (7 - (7 - j))" using A j(2) by metis
  then show "f j" using j(1) by (simp add: Suc_leI)
next
  fix i :: nat
  assume A: "\<forall>j<8. byte * 8 + (7 - j) < p \<longrightarrow> f j" and i: "i < p" "i div 8 = byte"
  have "byte * 8 + (7 - (7 - i mod 8)) = i" using i(2) by presburger
  then show "f (7 - i mod 8)" using A i(1) by simp
qed

lemma prefix_covers_loop_iff:
  assumes "width \<le> 16" "unat (ca_prefixlen outer) \<le> 8 * width"
  shows "prefix_covers_loop outer inner width byte \<longleftrightarrow>
    (\<forall>i<unat (ca_prefixlen outer). byte \<le> i div 8 \<longrightarrow>
       bit (ca_addr outer ! (i div 8)) (7 - i mod 8) = bit (ca_addr inner ! (i div 8)) (7 - i mod 8))"
proof (induction "width - byte" arbitrary: byte rule: less_induct)
  case (less byte)
  let ?p = "unat (ca_prefixlen outer)"
  let ?E = "\<lambda>i. bit (ca_addr outer ! (i div 8)) (7 - i mod 8) = bit (ca_addr inner ! (i div 8)) (7 - i mod 8)"
  let ?f = "\<lambda>j. bit (ca_addr outer ! byte) j = bit (ca_addr inner ! byte) j"
  have nz: "w = v \<longleftrightarrow> (\<forall>j<8. bit w j = bit v j)" for w v :: u8
    by (auto simp: bit_eq_iff dest: bit_imp_le_length)
  show ?case
  proof (cases "byte < width \<and> byte * 8 < ?p")
    case False
    then have "\<not> (byte \<le> i div 8 \<and> i < ?p)" for i using assms by (auto simp: div_le_mono)
    moreover have "prefix_covers_loop outer inner width byte"
      using False assms by (subst prefix_covers_loop.simps) (auto simp: Let_def word_le_nat_alt unat_word_ariths unat_of_nat)
    ultimately show ?thesis by blast
  next
    case True
    then have base: "unat (of_nat byte * 8 :: u32) = byte * 8" "unat (of_nat byte * 8 + 8 :: u32) = byte * 8 + 8"
      using assms by (simp_all add: unat_word_ariths unat_of_nat)
    have split: "(\<forall>i<?p. byte \<le> i div 8 \<longrightarrow> ?E i) \<longleftrightarrow>
        (\<forall>j<8. byte * 8 + (7 - j) < ?p \<longrightarrow> ?f j) \<and> (\<forall>i<?p. byte + 1 \<le> i div 8 \<longrightarrow> ?E i)"
      unfolding byte_bits [of ?p byte ?f, symmetric] by (auto simp: le_less Suc_le_eq)
    have "width - (byte + 1) < width - byte" using True by linarith
    note ih = less [OF this]
    have keep: "unat (ca_prefixlen outer - of_nat byte * 8) = ?p - byte * 8"
      using True base by (subst unat_sub) (simp_all add: word_le_nat_alt)
    show ?thesis
    proof (cases "byte * 8 + 8 \<le> ?p")
      case full: True
      then have "prefix_covers_loop outer inner width byte \<longleftrightarrow>
          ca_addr outer ! byte = ca_addr inner ! byte \<and> prefix_covers_loop outer inner width (byte + 1)"
        using True base by (subst prefix_covers_loop.simps) (simp add: Let_def word_le_nat_alt)
      moreover have "(\<forall>j<8. byte * 8 + (7 - j) < ?p \<longrightarrow> ?f j) \<longleftrightarrow> ca_addr outer ! byte = ca_addr inner ! byte"
        unfolding nz using full by auto
      ultimately show ?thesis unfolding split using ih by simp
    next
      case part: False
      then have "prefix_covers_loop outer inner width byte \<longleftrightarrow>
          ca_addr outer ! byte AND ucast (push_bit (8 - (?p - byte * 8)) (0xff :: u32)) =
          ca_addr inner ! byte AND ucast (push_bit (8 - (?p - byte * 8)) (0xff :: u32)) \<and>
          prefix_covers_loop outer inner width (byte + 1)"
        using True base keep by (subst prefix_covers_loop.simps) (simp add: Let_def word_le_nat_alt)
      moreover have "(\<forall>j<8. byte * 8 + (7 - j) < ?p \<longrightarrow> ?f j) \<longleftrightarrow> (\<forall>j<8. 8 - (?p - byte * 8) \<le> j \<longrightarrow> ?f j)"
      proof -
        have "byte * 8 + (7 - j) < ?p \<longleftrightarrow> 8 - (?p - byte * 8) \<le> j" if "j < 8" for j using that True part by linarith
        then show ?thesis by blast
      qed
      moreover have "?p - byte * 8 < 8" using part by linarith
      ultimately show ?thesis unfolding split
        using masked_eq_iff [of "?p - byte * 8"] ih by simp
    qed
  qed
qed

lemma prefix_bits_flip:
  assumes "p \<le> q" "q < 8 * length a"
  shows "\<exists>x. length x = length a \<and> prefix_bits_eq p a x \<and> addr_bit x q = v"
proof -
  let ?x = "a[q div 8 := (if v then set_bit (7 - q mod 8) (a ! (q div 8)) else unset_bit (7 - q mod 8) (a ! (q div 8)))]"
  have q: "q div 8 < length a" using assms(2) by (simp add: div_less_iff_less_mult mult.commute)
  have "bit (?x ! (i div 8)) (7 - i mod 8) = bit (a ! (i div 8)) (7 - i mod 8)" if "i < p" for i
  proof (cases "i div 8 = q div 8")
    case True
    then have "i mod 8 \<noteq> q mod 8" using that assms(1) by (metis div_mult_mod_eq leD)
    moreover have "i mod 8 < 8" "q mod 8 < 8" by simp_all
    ultimately have "7 - i mod 8 \<noteq> 7 - q mod 8" by linarith
    then show ?thesis using True q by (simp add: bit_set_bit_iff bit_unset_bit_iff)
  qed simp
  moreover have "addr_bit ?x q = v"
    using q le_less_trans [OF diff_le_self, of 7 8 "q mod 8"] by (simp add: addr_bit_def bit_set_bit_iff bit_unset_bit_iff)
  ultimately show ?thesis by (intro exI [of _ ?x]) (simp add: prefix_bits_eq_def)
qed

text \<open>The dead-rule test is exact: one prefix covers another, by the byte-wise comparison of
  \<^verbatim>\<open>prefix_covers\<close>, just when every address the second matches is matched by the first, so a block
  rule is reported dead only when an allow rule always wins over it.\<close>

theorem prefix_covers_exact:
  assumes "width \<in> {4, 16}" "unat (ca_prefixlen outer) \<le> 8 * width" "length (ca_addr inner) = 16" "length (ca_addr outer) = 16"
  shows "prefix_covers outer inner width \<longleftrightarrow>
    (\<forall>x. length x = 16 \<longrightarrow> prefix_bits_eq (unat (ca_prefixlen inner)) (ca_addr inner) x \<longrightarrow>
       prefix_bits_eq (unat (ca_prefixlen outer)) (ca_addr outer) x)"
    (is "_ \<longleftrightarrow> ?incl")
proof -
  let ?p = "unat (ca_prefixlen outer)" and ?q = "unat (ca_prefixlen inner)"
  have loop: "prefix_covers_loop outer inner width 0 \<longleftrightarrow> prefix_bits_eq ?p (ca_addr outer) (ca_addr inner)"
    using assms(1,2) by (subst prefix_covers_loop_iff) (auto simp: prefix_bits_eq_def)
  have "?q < ?p \<Longrightarrow> \<not> ?incl"
  proof -
    assume "?q < ?p"
    then have "?q \<le> ?p - 1" "?p - 1 < 8 * length (ca_addr inner)" using assms by auto
    then obtain x where "length x = 16" "prefix_bits_eq ?q (ca_addr inner) x" "addr_bit x (?p - 1) \<noteq> addr_bit (ca_addr outer) (?p - 1)"
      using prefix_bits_flip [of ?q "?p - 1" "ca_addr inner" "\<not> addr_bit (ca_addr outer) (?p - 1)"] assms(3) by auto
    moreover then have "\<not> prefix_bits_eq ?p (ca_addr outer) x"
      using \<open>?q < ?p\<close> unfolding prefix_bits_eq_def addr_bit_def by (metis diff_less gr_zeroI not_less_zero zero_less_one)
    ultimately show ?thesis by blast
  qed
  moreover have "prefix_bits_eq ?p (ca_addr outer) (ca_addr inner) \<longleftrightarrow> ?incl" if "?p \<le> ?q"
  proof
    show ?incl if "prefix_bits_eq ?p (ca_addr outer) (ca_addr inner)"
      using that \<open>?p \<le> ?q\<close> by (auto simp: prefix_bits_eq_def)
    show "prefix_bits_eq ?p (ca_addr outer) (ca_addr inner)" if ?incl
      using that assms(3) by (auto simp: prefix_bits_eq_def)
  qed
  ultimately show ?thesis
    unfolding prefix_covers_def loop by (auto simp: word_less_nat_alt not_less)
qed

theorem prefix_covers_exact_witness:
  "prefix_covers \<lparr>ca_prefixlen = 8, ca_addr = [10] @ replicate 15 0\<rparr> \<lparr>ca_prefixlen = 16, ca_addr = [10, 1] @ replicate 14 0\<rparr> 4 \<and>
   prefix_bits_eq 8 ([10] @ replicate 15 0) ([10, 1, 2, 3] @ replicate 12 0)"
proof -
  have "prefix_bits_eq 16 ([10, 1] @ replicate 14 0) ([10, 1, 2, 3] @ replicate 12 0)" by code_simp
  moreover have "prefix_covers \<lparr>ca_prefixlen = 8, ca_addr = [10] @ replicate 15 0\<rparr> \<lparr>ca_prefixlen = 16, ca_addr = [10, 1] @ replicate 14 0\<rparr> 4"
    by (simp add: prefix_covers_def prefix_covers_loop.simps)
  ultimately show ?thesis
    using prefix_covers_exact [of 4 "\<lparr>ca_prefixlen = 8, ca_addr = [10] @ replicate 15 0\<rparr>" "\<lparr>ca_prefixlen = 16, ca_addr = [10, 1] @ replicate 14 0\<rparr>"]
    by simp
qed

section \<open>The rate limit and the whole\<close>

definition check_ratelimit :: "marlin_conf \<Rightarrow> conf_diag \<Rightarrow> conf_diag" where
  "check_ratelimit conf diag =
    (if \<not> cr_enabled (mf_ratelimit conf) then diag
     else
       let diag = (if \<not> ac_enabled (mf_acl conf)
                   then conf_diag_add ''ratelimit.enabled = true requires acl.enabled = true'' diag else diag);
           diag = (if cr_burst_packets (mf_ratelimit conf) = 0 \<or> cr_burst_packets (mf_ratelimit conf) > 0xffffff
                   then conf_diag_add ''ratelimit.burst_packets must be 1-16777215'' diag else diag)
       in if \<not> list_ex (\<lambda>v. vm_flags (cv_meta v) AND VIP_RATELIMIT \<noteq> 0) (mf_vips conf)
          then conf_diag_warn ''ratelimit.enabled = true but no vip carries ratelimit = true'' diag
          else if marlind_scale_refill (cr_tokens_per_sec (mf_ratelimit conf)) = 0
          then conf_diag_add ''ratelimit.tokens_per_sec (%u) scales to a zero refill; the bucket would never refill'' diag
          else diag)"

definition conf_check :: "host \<Rightarrow> marlin_conf \<Rightarrow> conf_diag \<Rightarrow> bool \<times> marlin_conf \<times> conf_diag" where
  "conf_check h conf diag =
    (let before = diag_count diag;
         (inst, diag) = check_instance h (mf_instance conf) diag;
         conf = conf\<lparr>mf_instance := inst\<rparr>;
         (conf, diag) = check_backends conf diag;
         (conf, diag) = check_vips conf diag;
         diag = check_acl (mf_acl conf) diag;
         diag = check_ratelimit conf diag
     in (diag_count diag = before, conf, diag))"

definition ratelimit_rule :: "marlin_conf \<Rightarrow> bool" where
  "ratelimit_rule conf \<longleftrightarrow> (cr_enabled (mf_ratelimit conf) \<longrightarrow> ac_enabled (mf_acl conf) \<and>
     cr_burst_packets (mf_ratelimit conf) \<noteq> 0 \<and> cr_burst_packets (mf_ratelimit conf) \<le> 0xffffff \<and>
     ((\<exists>v\<in>set (mf_vips conf). vm_flags (cv_meta v) AND VIP_RATELIMIT \<noteq> 0) \<longrightarrow>
        marlind_scale_refill (cr_tokens_per_sec (mf_ratelimit conf)) \<noteq> 0))"

definition conf_rule :: "marlin_conf \<Rightarrow> bool" where
  "conf_rule conf \<longleftrightarrow> instance_rule (mf_instance conf) \<and> backends_rule (mf_instance conf) (mf_backends conf) \<and>
     vips_rule (mf_backends conf) (mf_vips conf) \<and> acl_rule (mf_acl conf) \<and> ratelimit_rule conf"

lemma check_ratelimit_exact: "check_exact (check_ratelimit conf) (ratelimit_rule conf)"
  unfolding check_ratelimit_def
  by (rule check_exact_cong, (rule check_intros)+) (auto simp: ratelimit_rule_def list_ex_iff not_le not_less)

text \<open>The checks of \<^verbatim>\<open>conf_check\<close>, each an instance of the contract.\<close>

interpretation instance_check: checker "\<lambda>inst d. snd (check_instance h inst d)" instance_rule for h
  by unfold_locales (rule check_instance_exact)

interpretation backends_check: checker "\<lambda>conf d. snd (check_backends conf d)"
  "\<lambda>conf. backends_rule (mf_instance conf) (mf_backends conf)"
  by unfold_locales (rule check_backends_exact)

interpretation vips_check: checker "\<lambda>conf d. snd (check_vips conf d)" "\<lambda>conf. vips_rule (mf_backends conf) (mf_vips conf)"
  by unfold_locales (rule check_vips_exact)

interpretation acl_check: checker check_acl acl_rule
  by unfold_locales (rule check_acl_exact)

interpretation ratelimit_check: checker check_ratelimit ratelimit_rule
  by unfold_locales (rule check_ratelimit_exact)

text \<open>What the checks fill in.\<close>

definition check_result :: "host \<Rightarrow> marlin_conf \<Rightarrow> marlin_conf" where
  "check_result h conf =
    (let inst = mf_instance conf;
         bs = map set_fib (mf_backends conf)
     in conf\<lparr>mf_instance := (if ci_iface inst = [] then inst else inst\<lparr>ci_ifindex := sint (h_if_nametoindex h (ci_iface inst))\<rparr>),
          mf_backends := bs, mf_vips := map (resolve_vip bs) (mf_vips conf)\<rparr>)"

lemma check_instance_fst:
  "fst (check_instance h inst d) = (if ci_iface inst = [] then inst else inst\<lparr>ci_ifindex := sint (h_if_nametoindex h (ci_iface inst))\<rparr>)"
  by (simp add: check_instance_def Let_def)

lemma set_fib_simps [simp]: "cb_name (set_fib b) = cb_name b" "cb_id (set_fib b) = cb_id b"
  by (simp_all add: set_fib_def Let_def)

lemma find_backend_set_fib: "find_backend (map set_fib bs) n = map_option set_fib (find_backend bs n)"
  by (induction bs) (simp_all add: find_backend_def)

lemma vips_rule_set_fib: "vips_rule (map set_fib bs) vs = vips_rule bs vs"
  by (simp add: vips_rule_def vip_rule_def members_rule_def find_backend_set_fib)

lemma ratelimit_rule_cong:
  assumes "mf_ratelimit c = mf_ratelimit c'" "mf_acl c = mf_acl c'" "map cv_meta (mf_vips c) = map cv_meta (mf_vips c')"
  shows "ratelimit_rule c = ratelimit_rule c'"
proof -
  have "cv_meta ` set (mf_vips c) = cv_meta ` set (mf_vips c')" using assms(3) by (metis list.set_map)
  then have "(\<exists>v\<in>set (mf_vips c). P (cv_meta v)) = (\<exists>v\<in>set (mf_vips c'). P (cv_meta v))" for P
    by (metis (no_types, lifting) image_iff)
  note ex = this [of "\<lambda>m. vm_flags m AND VIP_RATELIMIT \<noteq> 0"]
  show ?thesis unfolding ratelimit_rule_def assms(1,2) ex ..
qed

lemma conf_check_steps:
  assumes "conf_check h conf d = (ok, conf', d')"
  shows "conf' = check_result h conf \<and> (diag_count d < MARLIN_CONF_DIAG_MAX \<longrightarrow> (ok \<longleftrightarrow> conf_rule conf)) \<and> diag_count d \<le> diag_count d'"
proof -
  define inst where "inst = fst (check_instance h (mf_instance conf) d)"
  define c1 where "c1 = conf\<lparr>mf_instance := inst\<rparr>"
  define c2 where "c2 = c1\<lparr>mf_backends := map set_fib (mf_backends conf)\<rparr>"
  define c3 where "c3 = c2\<lparr>mf_vips := map (resolve_vip (mf_backends c2)) (mf_vips conf)\<rparr>"
  let ?f = "\<lambda>d. check_ratelimit c3 (check_acl (mf_acl conf) (snd (check_vips c2 (snd (check_backends c1
      (snd (check_instance h (mf_instance conf) d)))))))"
  have run: "conf_check h conf d = (diag_count (?f d) = diag_count d, c3, ?f d)"
    by (simp add: conf_check_def Let_def split_beta check_vips_fst inst_def [symmetric] c1_def [symmetric]) (simp add: c1_def c2_def c3_def)
  have rules: "backends_rule (mf_instance c1) (mf_backends c1) = backends_rule (mf_instance conf) (mf_backends conf)"
    "vips_rule (mf_backends c2) (mf_vips c2) = vips_rule (mf_backends conf) (mf_vips conf)"
    "ratelimit_rule c3 = ratelimit_rule conf"
  proof -
    have "backend_rule (x\<lparr>ci_ifindex := i\<rparr>) = backend_rule x" for x i
      by (simp add: fun_eq_iff backend_rule_def is_attach_or_txport_def)
    then show "backends_rule (mf_instance c1) (mf_backends c1) = backends_rule (mf_instance conf) (mf_backends conf)"
      by (simp add: c1_def inst_def check_instance_fst backends_rule_def)
    show "vips_rule (mf_backends c2) (mf_vips c2) = vips_rule (mf_backends conf) (mf_vips conf)"
      by (simp add: c2_def c1_def vips_rule_set_fib)
    show "ratelimit_rule c3 = ratelimit_rule conf"
      by (rule ratelimit_rule_cong) (simp_all add: c3_def c2_def c1_def resolve_vip_def comp_def)
  qed
  have "check_exact ?f (instance_rule (mf_instance conf) \<and> backends_rule (mf_instance c1) (mf_backends c1) \<and>
      vips_rule (mf_backends c2) (mf_vips c2) \<and> acl_rule (mf_acl conf) \<and> ratelimit_rule c3)"
    using check_exact_comp [OF check_exact_comp [OF check_exact_comp [OF check_exact_comp
        [OF instance_check.exact backends_check.exact] vips_check.exact] acl_check.exact] ratelimit_check.exact]
    by (rule check_exact_cong) blast
  then have ex: "check_exact ?f (conf_rule conf)" unfolding rules conf_rule_def .
  have "c3 = check_result h conf"
    by (simp add: c3_def c2_def c1_def inst_def check_instance_fst check_result_def Let_def)
  moreover have "diag_count d \<le> diag_count (?f d)" using ex by (simp add: check_exact_def)
  ultimately show ?thesis using assms check_exactD [OF ex] unfolding run by auto
qed


text \<open>A small configuration that obeys every rule: one backend reached without encapsulation.\<close>

definition sample_backend :: conf_backend where
  "sample_backend = zero_conf_backend\<lparr>cb_name := ''b1'', cb_id := 1, cb_abi := zero_backend\<lparr>be_addr := 0x0100000a\<rparr>\<rparr>"

definition sample_conf :: marlin_conf where
  "sample_conf = zero_conf\<lparr>mf_instance := zero_instance\<lparr>ci_iface := ''eth0''\<rparr>, mf_backends := [sample_backend]\<rparr>"

lemma sample_conf_rule: "conf_rule sample_conf"
  by (simp add: conf_rule_def sample_conf_def sample_backend_def zero_conf_def zero_instance_def zero_conf_backend_def
      zero_backend_def zero_acl_def instance_rule_def backends_rule_def backend_rule_def vips_rule_def acl_rule_def
      acl_list_rule_def ratelimit_rule_def MAX_BACKENDS_def ENCAP_MODE_def MARLIN_MODE_VXLAN_def)


section \<open>Reloading\<close>

definition backend_identity_changed :: "conf_backend \<Rightarrow> conf_backend \<Rightarrow> bool" where
  "backend_identity_changed cur prev \<longleftrightarrow>
     be_addr (cb_abi cur) \<noteq> be_addr (cb_abi prev) \<or>
     ENCAP_MODE (be_flags (cb_abi cur)) \<noteq> ENCAP_MODE (be_flags (cb_abi prev)) \<or>
     be_encap_dport (cb_abi cur) \<noteq> be_encap_dport (cb_abi prev) \<or> be_vni (cb_abi cur) \<noteq> be_vni (cb_abi prev) \<or>
     le_bytes 6 (be_inner_mac (cb_abi cur)) \<noteq> le_bytes 6 (be_inner_mac (cb_abi prev))"

definition previous_checks :: "marlin_conf \<Rightarrow> marlin_conf \<Rightarrow> conf_diag \<Rightarrow> conf_diag" where
  "previous_checks cur prev diag =
    (let diag = (if \<not> ifname_eq (ci_iface (mf_instance cur)) (ci_iface (mf_instance prev))
                 then conf_diag_add ''instance.interface changed (%s -> %s); restart marlind instead of reloading'' diag else diag);
         diag = (if \<not> strneq PATH_MAX (ci_object (mf_instance cur)) (ci_object (mf_instance prev))
                 then conf_diag_add ''instance.object changed; restart marlind instead of reloading'' diag else diag);
         diag = (if \<not> strneq PATH_MAX (ci_pin_dir (mf_instance cur)) (ci_pin_dir (mf_instance prev))
                 then conf_diag_add ''instance.pin_dir changed; restart marlind instead of reloading'' diag else diag);
         diag = fold (\<lambda>cb d.
             case find (\<lambda>pb. cb_id cb = cb_id pb) (mf_backends prev) of
               None \<Rightarrow> d
             | Some pb \<Rightarrow> if backend_identity_changed cb pb
                 then conf_diag_add ''backend id %u changed addr/mode/encap_dport/vni/inner_mac in place; remove and re-add it under a new id instead'' d
                 else d) (mf_backends cur) diag
     in diag)"

definition conf_check_against_previous :: "marlin_conf \<Rightarrow> marlin_conf \<Rightarrow> conf_diag \<Rightarrow> bool \<times> conf_diag" where
  "conf_check_against_previous cur prev diag =
    (let before = diag_count diag; diag = previous_checks cur prev diag in (diag_count diag = before, diag))"

text \<open>What a reload keeps: the fields a running daemon cannot change, and of every backend whose
  number is still in use, where and how its traffic is delivered.\<close>

definition backend_identity :: "conf_backend \<Rightarrow> u32 \<times> u8 \<times> u16 \<times> u32 \<times> mac" where
  "backend_identity b = (be_addr (cb_abi b), ENCAP_MODE (be_flags (cb_abi b)), be_encap_dport (cb_abi b),
     be_vni (cb_abi b), be_inner_mac (cb_abi b))"

definition reload_rule :: "marlin_conf \<Rightarrow> marlin_conf \<Rightarrow> bool" where
  "reload_rule cur prev \<longleftrightarrow>
     ifname_eq (ci_iface (mf_instance cur)) (ci_iface (mf_instance prev)) \<and>
     strneq PATH_MAX (ci_object (mf_instance cur)) (ci_object (mf_instance prev)) \<and>
     strneq PATH_MAX (ci_pin_dir (mf_instance cur)) (ci_pin_dir (mf_instance prev)) \<and>
     (\<forall>cb\<in>set (mf_backends cur). \<forall>pb. find (\<lambda>pb. cb_id cb = cb_id pb) (mf_backends prev) = Some pb \<longrightarrow>
        backend_identity cb = backend_identity pb)"

lemma backend_identity_changed_iff: "backend_identity_changed cb pb \<longleftrightarrow> backend_identity cb \<noteq> backend_identity pb"
proof -
  have "le_val (le_bytes 6 v) = v" for v :: mac by simp
  then have "le_bytes 6 (v :: mac) = le_bytes 6 w \<longleftrightarrow> v = w" for v w by metis
  then show ?thesis by (simp add: backend_identity_changed_def backend_identity_def)
qed

lemma check_exact_option [check_intros]:
  "(\<And>x. opt = Some x \<Longrightarrow> check_exact (f x) (P x)) \<Longrightarrow>
   check_exact (\<lambda>d. case opt of None \<Rightarrow> d | Some x \<Rightarrow> f x d) (\<forall>x. opt = Some x \<longrightarrow> P x)"
  by (cases opt) (simp_all add: check_exact_id)

lemma previous_checks_exact: "check_exact (previous_checks cur prev) (reload_rule cur prev)"
  unfolding previous_checks_def
  by (rule check_exact_cong, (rule check_intros)+) (auto simp: reload_rule_def backend_identity_changed_iff)

interpretation previous_check: checker "\<lambda>(cur, prev). previous_checks cur prev" "\<lambda>(cur, prev). reload_rule cur prev"
  by unfold_locales (simp add: split_beta previous_checks_exact)

lemma find_unique:
  assumes "sorted_wrt R xs" "x \<in> set xs" "P x" "\<And>y z. R y z \<Longrightarrow> P y \<Longrightarrow> \<not> P z"
  shows "find P xs = Some x"
  using assms(1-3) by (induction xs) (use assms(4) in auto)



end
