(* ===== verification/Marlind_Conf_Parse.thy ===== *)
theory Marlind_Conf_Parse
  imports Marlind_Conf_Check "HOL-Library.State_Monad"
begin

text \<open>
  Reading a configuration (\<^verbatim>\<open>conf.c\<close>): the TOML document is lowered into the model, shape errors are
  reported on the way, and the checks of \<^verbatim>\<open>conf_check.c\<close> follow. The functions thread the diagnostics,
  so they are written in the state monad over them; an \<^verbatim>\<open>out\<close> parameter is the value a function
  returns. The TOML parser itself is vendored code behind \<^verbatim>\<open>toml_parse_file\<close> and stays a parameter;
  \<^verbatim>\<open>toml_get\<close> is its table lookup. The index of an allocation tells its failures apart.
\<close>

section \<open>Accessors\<close>

type_synonym 'a parse = "(conf_diag, 'a) state"

definition report :: "string \<Rightarrow> unit parse" where
  "report fmt = State (\<lambda>diag. ((), conf_diag_add fmt diag))"

definition warn :: "string \<Rightarrow> unit parse" where
  "warn fmt = State (\<lambda>diag. ((), conf_diag_warn fmt diag))"

fun foldm :: "('a \<Rightarrow> 'b \<Rightarrow> 'b parse) \<Rightarrow> 'a list \<Rightarrow> 'b \<Rightarrow> 'b parse" where
  "foldm f [] b = State_Monad.return b"
| "foldm f (x # xs) b = do { b \<leftarrow> f x b; foldm f xs b }"

text \<open>A character array as the C string it holds.\<close>

definition cstr :: "string \<Rightarrow> string" where
  "cstr s = takeWhile (\<lambda>c. c \<noteq> CHR 0x00) s"

definition toml_get :: "toml \<Rightarrow> string \<Rightarrow> toml" where
  "toml_get datum key =
    (case datum of
       TOML_TABLE tab \<Rightarrow> (case find (\<lambda>e. cstr (fst e) = key) tab of Some e \<Rightarrow> snd e | None \<Rightarrow> TOML_UNKNOWN)
     | _ \<Rightarrow> TOML_UNKNOWN)"

text \<open>What an accessor found: no such key (\<^verbatim>\<open>present\<close> is false), a value it rejected (it returns
  false), or a value.\<close>

datatype 'a got = Absent | Bad | Got 'a

definition get_bool :: "toml \<Rightarrow> string \<Rightarrow> bool got parse" where
  "get_bool tab key =
    (case toml_get tab key of
       TOML_UNKNOWN \<Rightarrow> State_Monad.return Absent
     | TOML_BOOLEAN b \<Rightarrow> State_Monad.return (Got b)
     | _ \<Rightarrow> do { report ''%s.%s must be a boolean''; State_Monad.return Bad })"

text \<open>The boolean \<^verbatim>\<open>*out\<close> after the call: false for an absent key, untouched for a rejected one.\<close>

fun bool_out :: "bool \<Rightarrow> bool got \<Rightarrow> bool" where
  "bool_out old Absent = False"
| "bool_out old Bad = old"
| "bool_out old (Got b) = b"

definition get_int :: "toml \<Rightarrow> string \<Rightarrow> int got parse" where
  "get_int tab key =
    (case toml_get tab key of
       TOML_UNKNOWN \<Rightarrow> State_Monad.return Absent
     | TOML_INT64 i \<Rightarrow> State_Monad.return (Got i)
     | _ \<Rightarrow> do { report ''%s.%s must be an integer''; State_Monad.return Bad })"

definition get_str :: "toml \<Rightarrow> string \<Rightarrow> nat \<Rightarrow> string got parse" where
  "get_str tab key cap =
    (case toml_get tab key of
       TOML_UNKNOWN \<Rightarrow> State_Monad.return Absent
     | TOML_STRING s \<Rightarrow>
         if length s \<ge> cap then do { report ''%s.%s is too long (max %zu bytes)''; State_Monad.return Bad }
         else State_Monad.return (Got (cstr s))
     | _ \<Rightarrow> do { report ''%s.%s must be a string''; State_Monad.return Bad })"

definition req_str :: "toml \<Rightarrow> string \<Rightarrow> nat \<Rightarrow> string option parse" where
  "req_str tab key outsz = do {
     g \<leftarrow> get_str tab key outsz;
     case g of
       Bad \<Rightarrow> State_Monad.return None
     | Absent \<Rightarrow> do { report ''%s.%s is required''; State_Monad.return None }
     | Got s \<Rightarrow> State_Monad.return (Some s) }"

section \<open>The instance\<close>

definition MARLIN_DEFAULT_OBJ :: string where "MARLIN_DEFAULT_OBJ = ''/usr/lib/marlin/marlin.bpf.o''"
definition MARLIN_DEFAULT_PIN_DIR :: string where "MARLIN_DEFAULT_PIN_DIR = ''/sys/fs/bpf/marlin''"

fun tx_ports_loop :: "toml list \<Rightarrow> string list \<Rightarrow> string list parse" where
  "tx_ports_loop [] ports = State_Monad.return ports"
| "tx_ports_loop (e # es) ports =
    (if length ports < MAX_TX_PORTS then
       (case e of
          TOML_STRING s \<Rightarrow>
            if length s \<ge> IF_NAMESIZE
            then do { report ''instance.tx_ports[%d] is not a valid interface name''; tx_ports_loop es ports }
            else tx_ports_loop es (ports @ [cstr s])
        | _ \<Rightarrow> do { report ''instance.tx_ports[%d] is not a valid interface name''; tx_ports_loop es ports })
     else State_Monad.return ports)"

definition parse_instance_tx_ports :: "toml \<Rightarrow> conf_instance \<Rightarrow> conf_instance parse" where
  "parse_instance_tx_ports tab inst =
    (case toml_get tab ''tx_ports'' of
       TOML_UNKNOWN \<Rightarrow> State_Monad.return inst
     | TOML_ARRAY elems \<Rightarrow> do {
         (if length elems > MAX_TX_PORTS then report ''instance.tx_ports has %d entries, more than MAX_TX_PORTS (%u)''
          else State_Monad.return ());
         ports \<leftarrow> tx_ports_loop elems (ci_tx_ports inst);
         State_Monad.return (inst\<lparr>ci_tx_ports := ports\<rparr>) }
     | _ \<Rightarrow> do { report ''instance.tx_ports must be an array of strings''; State_Monad.return inst })"

text \<open>The keys of the table, one at a time.\<close>

definition parse_instance_iface :: "toml \<Rightarrow> conf_instance \<Rightarrow> conf_instance parse" where
  "parse_instance_iface tab inst = do {
     s \<leftarrow> req_str tab ''interface'' IF_NAMESIZE;
     case s of None \<Rightarrow> State_Monad.return inst | Some s \<Rightarrow> State_Monad.return (inst\<lparr>ci_iface := s\<rparr>) }"

definition parse_instance_paths :: "toml \<Rightarrow> conf_instance \<Rightarrow> conf_instance parse" where
  "parse_instance_paths tab inst = do {
     obj \<leftarrow> get_str tab ''object'' PATH_MAX;
     pin \<leftarrow> get_str tab ''pin_dir'' PATH_MAX;
     State_Monad.return (inst\<lparr>
       ci_object := (case obj of Got s \<Rightarrow> s | _ \<Rightarrow> MARLIN_DEFAULT_OBJ),
       ci_pin_dir := (case pin of Got s \<Rightarrow> s | _ \<Rightarrow> MARLIN_DEFAULT_PIN_DIR)\<rparr>) }"

definition parse_instance_tunnel_src :: "toml \<Rightarrow> conf_instance \<Rightarrow> conf_instance parse" where
  "parse_instance_tunnel_src tab inst = do {
     g \<leftarrow> get_str tab ''tunnel_src'' 64;
     case g of
       Got s \<Rightarrow>
         (case conf_parse_ipv4 s of
            None \<Rightarrow> do { report ''instance.tunnel_src is not a valid IPv4 address''; State_Monad.return inst }
          | Some a \<Rightarrow> State_Monad.return (inst\<lparr>ci_tunnel_src := a, ci_tunnel_src_set := True\<rparr>))
     | _ \<Rightarrow> State_Monad.return inst }"

definition parse_instance_max_frame :: "toml \<Rightarrow> conf_instance \<Rightarrow> conf_instance parse" where
  "parse_instance_max_frame tab inst = do {
     g \<leftarrow> get_int tab ''max_frame'';
     case g of
       Got v \<Rightarrow>
         if v < 0 \<or> v > 0xffff then do { report ''instance.max_frame out of range (0-65535)''; State_Monad.return inst }
         else State_Monad.return (inst\<lparr>ci_max_frame := word_of_int v, ci_max_frame_set := True\<rparr>)
     | _ \<Rightarrow> State_Monad.return inst }"

definition parse_instance :: "toml \<Rightarrow> conf_instance \<Rightarrow> conf_instance parse" where
  "parse_instance toptab inst =
    (case toml_get toptab ''instance'' of
       TOML_TABLE tab \<Rightarrow> do {
         inst \<leftarrow> parse_instance_iface (TOML_TABLE tab) inst;
         inst \<leftarrow> parse_instance_paths (TOML_TABLE tab) inst;
         inst \<leftarrow> parse_instance_tunnel_src (TOML_TABLE tab) inst;
         inst \<leftarrow> parse_instance_tx_ports (TOML_TABLE tab) inst;
         parse_instance_max_frame (TOML_TABLE tab) inst }
     | _ \<Rightarrow> do { report ''[instance] is required''; State_Monad.return inst })"

section \<open>Access lists and the rate limit\<close>

definition append_acl_entry :: "host \<Rightarrow> string \<Rightarrow> conf_acl_entry list \<Rightarrow> u32 \<Rightarrow> bytes \<Rightarrow> conf_acl_entry list option" where
  "append_acl_entry h site arr prefixlen addr =
    (if \<not> h_alloc h site (length arr) then None else Some (arr @ [\<lparr>ca_prefixlen = prefixlen, ca_addr = take 16 addr\<rparr>]))"

definition parse_acl_elem :: "host \<Rightarrow> bool \<Rightarrow> toml \<Rightarrow> conf_acl \<Rightarrow> conf_acl parse" where
  "parse_acl_elem h is_allow elem acl =
    (case (case elem of TOML_STRING s \<Rightarrow> conf_parse_cidr (cstr s) | _ \<Rightarrow> None) of
       None \<Rightarrow> do { report ''acl.%s[%d] is not a valid CIDR prefix''; State_Monad.return acl }
     | Some (is_v6, prefixlen, addr) \<Rightarrow>
         (case (if is_allow then
                  (if is_v6 then map_option (\<lambda>a. acl\<lparr>ac_allow_v6 := a\<rparr>) (append_acl_entry h ''allow_v6'' (ac_allow_v6 acl) prefixlen addr)
                   else map_option (\<lambda>a. acl\<lparr>ac_allow_v4 := a\<rparr>) (append_acl_entry h ''allow_v4'' (ac_allow_v4 acl) prefixlen addr))
                else
                  (if is_v6 then map_option (\<lambda>a. acl\<lparr>ac_block_v6 := a\<rparr>) (append_acl_entry h ''block_v6'' (ac_block_v6 acl) prefixlen addr)
                   else map_option (\<lambda>a. acl\<lparr>ac_block_v4 := a\<rparr>) (append_acl_entry h ''block_v4'' (ac_block_v4 acl) prefixlen addr))) of
            None \<Rightarrow> do { report ''out of memory parsing acl.%s[%d]''; State_Monad.return acl }
          | Some acl \<Rightarrow> State_Monad.return acl))"

definition parse_acl_array :: "host \<Rightarrow> toml \<Rightarrow> string \<Rightarrow> bool \<Rightarrow> conf_acl \<Rightarrow> conf_acl parse" where
  "parse_acl_array h tab key is_allow acl =
    (case toml_get tab key of
       TOML_UNKNOWN \<Rightarrow> State_Monad.return acl
     | TOML_ARRAY elems \<Rightarrow> foldm (parse_acl_elem h is_allow) elems acl
     | _ \<Rightarrow> do { report ''acl.%s must be an array of strings''; State_Monad.return acl })"

definition parse_acl :: "host \<Rightarrow> toml \<Rightarrow> conf_acl \<Rightarrow> conf_acl parse" where
  "parse_acl h toptab acl =
    (case toml_get toptab ''acl'' of
       TOML_UNKNOWN \<Rightarrow> State_Monad.return acl
     | TOML_TABLE tab \<Rightarrow> do {
         g \<leftarrow> get_bool (TOML_TABLE tab) ''enabled'';
         let acl = acl\<lparr>ac_enabled := bool_out (ac_enabled acl) g\<rparr>;
         acl \<leftarrow> parse_acl_array h (TOML_TABLE tab) ''allow'' True acl;
         parse_acl_array h (TOML_TABLE tab) ''block'' False acl }
     | _ \<Rightarrow> do { report ''[acl] must be a table''; State_Monad.return acl })"

definition parse_ratelimit :: "toml \<Rightarrow> conf_ratelimit \<Rightarrow> conf_ratelimit parse" where
  "parse_ratelimit toptab rl =
    (case toml_get toptab ''ratelimit'' of
       TOML_UNKNOWN \<Rightarrow> State_Monad.return rl
     | TOML_TABLE tab \<Rightarrow> do {
         g \<leftarrow> get_bool (TOML_TABLE tab) ''enabled'';
         let rl = rl\<lparr>cr_enabled := bool_out (cr_enabled rl) g\<rparr>;
         t \<leftarrow> get_int (TOML_TABLE tab) ''tokens_per_sec'';
         rl \<leftarrow> (case t of
             Got v \<Rightarrow> if v < 0 \<or> v > 0xffffffff then do { report ''ratelimit.tokens_per_sec out of range''; State_Monad.return rl }
                      else State_Monad.return (rl\<lparr>cr_tokens_per_sec := word_of_int v\<rparr>)
           | _ \<Rightarrow> State_Monad.return rl);
         b \<leftarrow> get_int (TOML_TABLE tab) ''burst_packets'';
         case b of
           Got v \<Rightarrow> if v < 0 \<or> v > 0xffffffff then do { report ''ratelimit.burst_packets out of range''; State_Monad.return rl }
                    else State_Monad.return (rl\<lparr>cr_burst_packets := word_of_int v\<rparr>)
         | _ \<Rightarrow> State_Monad.return rl }
     | _ \<Rightarrow> do { report ''[ratelimit] must be a table''; State_Monad.return rl })"

section \<open>Backends\<close>

definition backend_set_encap_dport_default :: "conf_backend \<Rightarrow> u8 \<Rightarrow> bool \<Rightarrow> u16 \<Rightarrow> conf_backend" where
  "backend_set_encap_dport_default backend mode stated host_value =
    backend\<lparr>cb_abi := (cb_abi backend)\<lparr>be_encap_dport :=
      (if stated then bswap16 host_value
       else if mode = MARLIN_MODE_GUE then bswap16 MARLIN_GUE_DPORT_DEFAULT
       else if mode = MARLIN_MODE_VXLAN then bswap16 MARLIN_VXLAN_DPORT_DEFAULT
       else 0)\<rparr>\<rparr>"

definition parse_backend_id :: "toml \<Rightarrow> conf_backend \<Rightarrow> conf_backend parse" where
  "parse_backend_id tab backend = do {
     g \<leftarrow> get_int tab ''id'';
     case g of
       Got v \<Rightarrow>
         if v < 0 \<or> v \<ge> uint MAX_BACKENDS then do { report ''%s.id out of range (0-%u)''; State_Monad.return backend }
         else State_Monad.return (backend\<lparr>cb_id := word_of_int v\<rparr>)
     | Absent \<Rightarrow> do { report ''%s.id is required''; State_Monad.return backend }
     | Bad \<Rightarrow> State_Monad.return backend }"

definition parse_backend_addr :: "toml \<Rightarrow> conf_backend \<Rightarrow> conf_backend parse" where
  "parse_backend_addr tab backend = do {
     s \<leftarrow> req_str tab ''addr'' 64;
     case s of
       None \<Rightarrow> State_Monad.return backend
     | Some s \<Rightarrow>
         (case conf_parse_ipv4 s of
            None \<Rightarrow> do { report ''%s.addr is not a valid IPv4 address''; State_Monad.return backend }
          | Some a \<Rightarrow> State_Monad.return (backend\<lparr>cb_abi := (cb_abi backend)\<lparr>be_addr := a\<rparr>\<rparr>)) }"

definition parse_backend_mode :: "toml \<Rightarrow> conf_backend \<Rightarrow> (u8 \<times> conf_backend) parse" where
  "parse_backend_mode tab backend = do {
     s \<leftarrow> req_str tab ''mode'' 16;
     mode \<leftarrow> (case s of
         None \<Rightarrow> State_Monad.return MARLIN_MODE_L2DSR
       | Some s \<Rightarrow>
           (case conf_parse_mode s of
              None \<Rightarrow> do { report ''%s.mode must be one of l2dsr, ipip, gue, vxlan''; State_Monad.return MARLIN_MODE_L2DSR }
            | Some m \<Rightarrow> State_Monad.return m));
     State_Monad.return (mode, backend\<lparr>cb_abi := (cb_abi backend)\<lparr>be_flags :=
       (if mode \<noteq> MARLIN_MODE_L2DSR then mode OR MARLIN_BE_F_ENCAP_REQUIRED else mode)\<rparr>\<rparr>) }"

definition parse_backend_state :: "toml \<Rightarrow> conf_backend \<Rightarrow> conf_backend parse" where
  "parse_backend_state tab backend = do {
     g \<leftarrow> get_str tab ''state'' 8;
     up \<leftarrow> (case g of
         Got s \<Rightarrow>
           (case conf_parse_state s of
              None \<Rightarrow> do { report ''%s.state must be up or down''; State_Monad.return True }
            | Some up \<Rightarrow> State_Monad.return up)
       | _ \<Rightarrow> State_Monad.return True);
     State_Monad.return (if up then backend\<lparr>cb_abi := (cb_abi backend)\<lparr>be_flags := be_flags (cb_abi backend) OR MARLIN_BE_F_STATE\<rparr>\<rparr>
       else backend) }"

text \<open>\<^verbatim>\<open>conf_parse_mac\<close> writes the bytes it read before it found an error.\<close>

definition parse_backend_mac :: "toml \<Rightarrow> conf_backend \<Rightarrow> conf_backend parse" where
  "parse_backend_mac tab backend = do {
     g \<leftarrow> get_str tab ''mac'' 32;
     case g of
       Got s \<Rightarrow>
         (let (ok, out) = conf_parse_mac s (le_bytes 6 (be_mac (cb_abi backend)));
              backend = backend\<lparr>cb_abi := (cb_abi backend)\<lparr>be_mac := le_val out\<rparr>\<rparr>
          in if \<not> ok then do { report ''%s.mac is not a valid MAC address''; State_Monad.return backend }
             else State_Monad.return (backend\<lparr>cb_mac_stated := True\<rparr>))
     | _ \<Rightarrow> State_Monad.return backend }"

definition parse_backend_fib_egress :: "toml \<Rightarrow> conf_backend \<Rightarrow> conf_backend parse" where
  "parse_backend_fib_egress tab backend = do {
     g \<leftarrow> get_bool tab ''fib'';
     let backend = backend\<lparr>cb_fib_value := bool_out (cb_fib_value backend) g,
       cb_fib_stated := (case g of Absent \<Rightarrow> False | Bad \<Rightarrow> cb_fib_stated backend | Got _ \<Rightarrow> True)\<rparr>;
     e \<leftarrow> get_str tab ''egress'' IF_NAMESIZE;
     case e of
       Got s \<Rightarrow> State_Monad.return (backend\<lparr>cb_egress := s, cb_has_egress := True\<rparr>)
     | _ \<Rightarrow> State_Monad.return backend }"

definition parse_backend_encap :: "toml \<Rightarrow> conf_backend \<Rightarrow> u8 \<Rightarrow> conf_backend parse" where
  "parse_backend_encap tab backend mode = do {
     g \<leftarrow> get_int tab ''encap_dport'';
     dport \<leftarrow> (case g of
         Got v \<Rightarrow> if v < 0 \<or> v > 0xffff then do { report ''%s.encap_dport out of range (0-65535)''; State_Monad.return None }
                  else State_Monad.return (Some v)
       | _ \<Rightarrow> State_Monad.return None);
     let backend = backend_set_encap_dport_default backend mode (dport \<noteq> None)
       (case dport of Some v \<Rightarrow> word_of_int v | None \<Rightarrow> 0);
     g \<leftarrow> get_int tab ''vni'';
     case g of
       Got v \<Rightarrow>
         if v < 0 \<or> v > 0xffffff then do { report ''%s.vni out of range (0-0xffffff)''; State_Monad.return backend }
         else State_Monad.return (backend\<lparr>cb_abi := (cb_abi backend)\<lparr>be_vni := word_of_int v\<rparr>, cb_vni_stated := True\<rparr>)
     | _ \<Rightarrow> State_Monad.return backend }"

definition parse_backend_inner_mac :: "toml \<Rightarrow> conf_backend \<Rightarrow> conf_backend parse" where
  "parse_backend_inner_mac tab backend = do {
     g \<leftarrow> get_str tab ''inner_mac'' 32;
     case g of
       Got s \<Rightarrow>
         (let (ok, out) = conf_parse_mac s (le_bytes 6 (be_inner_mac (cb_abi backend)));
              backend = backend\<lparr>cb_abi := (cb_abi backend)\<lparr>be_inner_mac := le_val out\<rparr>\<rparr>
          in if \<not> ok then do { report ''%s.inner_mac is not a valid MAC address''; State_Monad.return backend }
             else State_Monad.return (backend\<lparr>cb_inner_mac_stated := True\<rparr>))
     | _ \<Rightarrow> State_Monad.return backend }"

definition parse_one_backend :: "toml \<Rightarrow> conf_backend \<Rightarrow> conf_backend parse" where
  "parse_one_backend tab backend = do {
     s \<leftarrow> req_str tab ''name'' MARLIN_CONF_NAME_MAX;
     let backend = (case s of None \<Rightarrow> backend | Some s \<Rightarrow> backend\<lparr>cb_name := s\<rparr>);
     backend \<leftarrow> parse_backend_id tab backend;
     backend \<leftarrow> parse_backend_addr tab backend;
     (mode, backend) \<leftarrow> parse_backend_mode tab backend;
     backend \<leftarrow> parse_backend_state tab backend;
     backend \<leftarrow> parse_backend_mac tab backend;
     backend \<leftarrow> parse_backend_fib_egress tab backend;
     backend \<leftarrow> parse_backend_encap tab backend mode;
     parse_backend_inner_mac tab backend }"

definition parse_backends :: "host \<Rightarrow> toml \<Rightarrow> marlin_conf \<Rightarrow> marlin_conf parse" where
  "parse_backends h toptab conf =
    (case toml_get toptab ''backend'' of
       TOML_UNKNOWN \<Rightarrow> State_Monad.return conf
     | TOML_ARRAY elems \<Rightarrow>
         if \<not> h_alloc h ''backends'' 0 \<and> elems \<noteq> []
         then do { report ''out of memory parsing [[backend]]''; State_Monad.return conf }
         else do {
           bs \<leftarrow> State_Monad.traverse_list (\<lambda>tab. case tab of
               TOML_TABLE _ \<Rightarrow> parse_one_backend tab zero_conf_backend
             | _ \<Rightarrow> do { report ''backend[%d] must be a table''; State_Monad.return zero_conf_backend }) elems;
           State_Monad.return (conf\<lparr>mf_backends := bs\<rparr>) }
     | _ \<Rightarrow> do { report ''[[backend]] must be an array of tables''; State_Monad.return conf })"

section \<open>VIPs\<close>

definition set_flag_if :: "bool got \<Rightarrow> u32 \<Rightarrow> conf_vip \<Rightarrow> conf_vip" where
  "set_flag_if g flag vip =
    (if g = Got True then vip\<lparr>cv_meta := (cv_meta vip)\<lparr>vm_flags := vm_flags (cv_meta vip) OR flag\<rparr>\<rparr> else vip)"

definition set_field :: "toml \<Rightarrow> string \<Rightarrow> int \<Rightarrow> nat \<Rightarrow> u32 \<Rightarrow> string \<Rightarrow> conf_vip \<Rightarrow> conf_vip parse" where
  "set_field tab key hi shift fmask msg vip = do {
     g \<leftarrow> get_int tab key;
     case g of
       Got v \<Rightarrow>
         if v < 0 \<or> v > hi then do { report msg; State_Monad.return vip }
         else State_Monad.return (vip\<lparr>cv_meta := (cv_meta vip)\<lparr>vm_flags :=
           vm_flags (cv_meta vip) OR (push_bit shift (word_of_int v) AND fmask)\<rparr>\<rparr>)
     | _ \<Rightarrow> State_Monad.return vip }"

definition parse_vip_flag_bits :: "toml \<Rightarrow> conf_vip \<Rightarrow> conf_vip parse" where
  "parse_vip_flag_bits tab vip = do {
     g \<leftarrow> get_bool tab ''acl'';
     let vip = set_flag_if g VIP_ACL vip;
     g \<leftarrow> get_bool tab ''ratelimit'';
     let vip = set_flag_if g VIP_RATELIMIT vip;
     g \<leftarrow> get_bool tab ''hash_5tuple'';
     let vip = set_flag_if g VIP_HASH_5TUPLE vip;
     g \<leftarrow> get_bool tab ''hash_ports'';
     let vip = set_flag_if g VIP_HASH_PORTS vip;
     g \<leftarrow> get_bool tab ''quic'';
     let vip = set_flag_if g VIP_QUIC vip;
     vip \<leftarrow> set_field tab ''quic_cid_len'' 31 8 VIP_QUIC_CID_LEN_MASK ''%s.quic_cid_len out of range (0-31)'' vip;
     set_field tab ''dscp'' 63 16 VIP_DSCP_MASK ''%s.dscp out of range (0-63)'' vip }"

text \<open>The 16 bytes of an address as the four words of a key.\<close>

definition quad_of :: "bytes \<Rightarrow> quad" where
  "quad_of b = (le_val (take 4 b), le_val (take 4 (drop 4 b)), le_val (take 4 (drop 8 b)), le_val (take 4 (drop 12 b)))"

definition parse_one_addr :: "string \<Rightarrow> vip_key parse" where
  "parse_one_addr addr_str =
    (case conf_parse_ipv4 addr_str of
       Some a \<Rightarrow> State_Monad.return (zero_key\<lparr>vk_addr := (a, 0, 0, 0), vk_family := AF_INET\<rparr>)
     | None \<Rightarrow>
         (case conf_parse_ipv6 addr_str of
            Some a \<Rightarrow> State_Monad.return (zero_key\<lparr>vk_addr := quad_of a, vk_family := AF_INET6\<rparr>)
          | None \<Rightarrow> do { report ''%s is not a valid IPv4 or IPv6 address''; State_Monad.return zero_key }))"

definition parse_vip_address :: "host \<Rightarrow> nat \<Rightarrow> toml \<Rightarrow> conf_vip \<Rightarrow> conf_vip parse" where
  "parse_vip_address h idx tab vip =
    (case toml_get tab ''addr'' of
       TOML_UNKNOWN \<Rightarrow> do { report ''%s.addr is required''; State_Monad.return vip }
     | TOML_STRING s \<Rightarrow>
         if length s \<ge> 64 then do { report ''%s.addr is too long (max %zu bytes)''; State_Monad.return vip }
         else if \<not> h_alloc h ''keys'' idx then do { report ''out of memory parsing %s.addr''; State_Monad.return vip }
         else do { key \<leftarrow> parse_one_addr (cstr s); State_Monad.return (vip\<lparr>cv_keys := [key]\<rparr>) }
     | TOML_ARRAY elems \<Rightarrow>
         if length elems \<le> 0 then do { report ''%s.addr must not be an empty array''; State_Monad.return vip }
         else if \<not> h_alloc h ''keys'' idx then do { report ''out of memory parsing %s.addr''; State_Monad.return vip }
         else do {
           keys \<leftarrow> State_Monad.traverse_list (\<lambda>elem. case elem of
               TOML_STRING s \<Rightarrow>
                 if length s \<ge> 64 then do { report ''%s is too long (max %zu bytes)''; State_Monad.return zero_key }
                 else parse_one_addr (cstr s)
             | _ \<Rightarrow> do { report ''%s must be a string''; State_Monad.return zero_key }) elems;
           State_Monad.return (vip\<lparr>cv_keys := keys\<rparr>) }
     | _ \<Rightarrow> do { report ''%s.addr must be a string or an array of strings''; State_Monad.return vip })"

definition parse_vip_member :: "toml \<Rightarrow> conf_member \<Rightarrow> conf_member parse" where
  "parse_vip_member elem member =
    (case elem of
       TOML_TABLE _ \<Rightarrow> do {
         s \<leftarrow> req_str elem ''backend'' MARLIN_CONF_NAME_MAX;
         let member = (case s of None \<Rightarrow> member | Some s \<Rightarrow> member\<lparr>cm_backend_name := s\<rparr>);
         g \<leftarrow> get_int elem ''weight'';
         case g of
           Got v \<Rightarrow>
             if v \<le> 0 \<or> v > 0xffffffff then do { report ''%s.weight out of range''; State_Monad.return member }
             else State_Monad.return (member\<lparr>cm_weight := word_of_int v\<rparr>)
         | Absent \<Rightarrow> do { report ''%s.weight is required''; State_Monad.return member }
         | Bad \<Rightarrow> State_Monad.return member }
     | _ \<Rightarrow> do { report ''%s is not a table (expected { backend = ..., weight = ... })''; State_Monad.return member })"

definition parse_vip_members :: "host \<Rightarrow> nat \<Rightarrow> toml \<Rightarrow> conf_vip \<Rightarrow> conf_vip parse" where
  "parse_vip_members h idx tab vip =
    (case toml_get tab ''members'' of
       TOML_ARRAY elems \<Rightarrow>
         if \<not> h_alloc h ''members'' idx \<and> elems \<noteq> []
         then do { report ''out of memory parsing %s.members''; State_Monad.return vip }
         else do {
           ms \<leftarrow> State_Monad.traverse_list (\<lambda>elem. parse_vip_member elem zero_member) elems;
           State_Monad.return (vip\<lparr>cv_members := ms\<rparr>) }
     | _ \<Rightarrow> do { report ''%s.members is required and must be an array''; State_Monad.return vip })"

definition parse_vip_port :: "toml \<Rightarrow> conf_vip \<Rightarrow> conf_vip parse" where
  "parse_vip_port tab vip = do {
     g \<leftarrow> get_int tab ''port'';
     case g of
       Bad \<Rightarrow> State_Monad.return vip
     | Absent \<Rightarrow> State_Monad.return (vip\<lparr>cv_keys := map (\<lambda>k. k\<lparr>vk_port := bswap16 0\<rparr>) (cv_keys vip)\<rparr>)
     | Got v \<Rightarrow>
         if v < 0 \<or> v > 0xffff then do { report ''%s.port out of range (0-65535)''; State_Monad.return vip }
         else State_Monad.return (vip\<lparr>cv_keys := map (\<lambda>k. k\<lparr>vk_port := bswap16 (word_of_int v)\<rparr>) (cv_keys vip)\<rparr>) }"

definition parse_vip_proto :: "toml \<Rightarrow> conf_vip \<Rightarrow> conf_vip parse" where
  "parse_vip_proto tab vip = do {
     s \<leftarrow> req_str tab ''proto'' 8;
     case s of
       None \<Rightarrow> State_Monad.return vip
     | Some s \<Rightarrow>
         (case conf_parse_proto s of
            None \<Rightarrow> do { report ''%s.proto must be tcp, udp or sctp''; State_Monad.return vip }
          | Some proto \<Rightarrow> State_Monad.return (vip\<lparr>cv_keys := map (\<lambda>k. k\<lparr>vk_proto := proto\<rparr>) (cv_keys vip)\<rparr>)) }"

definition parse_vip_hash_keys :: "toml \<Rightarrow> conf_vip \<Rightarrow> conf_vip parse" where
  "parse_vip_hash_keys tab vip = do {
     s \<leftarrow> req_str tab ''hash_key'' 40;
     vip \<leftarrow> (case s of
         None \<Rightarrow> State_Monad.return vip
       | Some s \<Rightarrow>
           (let (ok, out) = conf_parse_hexkey16 s (le_bytes 16 (vm_hash_key (cv_meta vip)));
                vip = vip\<lparr>cv_meta := (cv_meta vip)\<lparr>vm_hash_key := le_val out\<rparr>\<rparr>
            in if \<not> ok then do { report ''%s.hash_key must be exactly 32 hex digits''; State_Monad.return vip }
               else State_Monad.return vip));
     s \<leftarrow> req_str tab ''table_seed'' 40;
     case s of
       None \<Rightarrow> State_Monad.return vip
     | Some s \<Rightarrow>
         (let (ok, out) = conf_parse_hexkey16 s (cv_table_seed vip);
              vip = vip\<lparr>cv_table_seed := out\<rparr>
          in if \<not> ok then do { report ''%s.table_seed must be exactly 32 hex digits''; State_Monad.return vip }
             else State_Monad.return vip) }"

definition parse_one_vip :: "host \<Rightarrow> nat \<Rightarrow> toml \<Rightarrow> conf_vip \<Rightarrow> conf_vip parse" where
  "parse_one_vip h idx tab vip = do {
     vip \<leftarrow> parse_vip_address h idx tab vip;
     vip \<leftarrow> parse_vip_port tab vip;
     vip \<leftarrow> parse_vip_proto tab vip;
     vip \<leftarrow> parse_vip_hash_keys tab vip;
     vip \<leftarrow> parse_vip_flag_bits tab vip;
     vip \<leftarrow> parse_vip_members h idx tab vip;
     State_Monad.return (vip\<lparr>cv_meta := (cv_meta vip)\<lparr>vm_vip_num := MARLIN_CONF_VIP_NUM_UNSET\<rparr>\<rparr>) }"

definition parse_vips :: "host \<Rightarrow> toml \<Rightarrow> marlin_conf \<Rightarrow> marlin_conf parse" where
  "parse_vips h toptab conf =
    (case toml_get toptab ''vip'' of
       TOML_UNKNOWN \<Rightarrow> State_Monad.return conf
     | TOML_ARRAY elems \<Rightarrow>
         if \<not> h_alloc h ''vips'' 0 \<and> elems \<noteq> []
         then do { report ''out of memory parsing [[vip]]''; State_Monad.return conf }
         else do {
           vs \<leftarrow> State_Monad.traverse_list (\<lambda>(i, tab). case tab of
               TOML_TABLE _ \<Rightarrow> parse_one_vip h i tab zero_conf_vip
             | _ \<Rightarrow> do { report ''vip[%d] must be a table''; State_Monad.return zero_conf_vip }) (enumerate 0 elems);
           State_Monad.return (conf\<lparr>mf_vips := vs\<rparr>) }
     | _ \<Rightarrow> do { report ''[[vip]] must be an array of tables''; State_Monad.return conf })"

section \<open>Loading a file\<close>

definition open_conf_file :: "host \<Rightarrow> string \<Rightarrow> bool \<Rightarrow> bool parse" where
  "open_conf_file h path enforce =
    (if \<not> h_open h path then do { report ''%s: %s''; State_Monad.return False }
     else (case h_fstat h path of
       None \<Rightarrow> do { report ''%s: %s''; State_Monad.return False }
     | Some st \<Rightarrow>
         if (st_group_writable st \<or> st_other_writable st) \<and> enforce
         then do { report ''%s is group- or world-writable; refusing to read it (chmod 0640)''; State_Monad.return False }
         else do {
           (if st_group_writable st \<or> st_other_writable st
            then warn ''%s is group- or world-writable -- would be refused outside --check'' else State_Monad.return ());
           (if st_other_readable st
            then warn ''%s is world-readable; it holds every hash_key and table_seed of a VIP'' else State_Monad.return ());
           if \<not> h_fdopen h path then do { report ''%s: %s''; State_Monad.return False }
           else State_Monad.return True }))"

definition parse_sections :: "host \<Rightarrow> toml \<Rightarrow> marlin_conf \<Rightarrow> marlin_conf parse" where
  "parse_sections h toptab conf = do {
     acl \<leftarrow> parse_acl h toptab (mf_acl conf);
     rl \<leftarrow> parse_ratelimit toptab (mf_ratelimit conf);
     conf \<leftarrow> parse_backends h toptab (conf\<lparr>mf_acl := acl, mf_ratelimit := rl\<rparr>);
     parse_vips h toptab conf }"

definition conf_load ::
  "host \<Rightarrow> string \<Rightarrow> conf_load_mode \<Rightarrow> bool \<Rightarrow> conf_diag \<Rightarrow> marlin_conf option \<times> conf_diag" where
  "conf_load h path mode enforce_perms diag =
    (let before = diag_count diag;
         (fp, diag) = run_state (open_conf_file h path enforce_perms) diag in
     if \<not> fp then (None, diag)
     else (case h_toml_parse_file h path of
       None \<Rightarrow> (None, conf_diag_add ''%s: %s'' diag)
     | Some toptab \<Rightarrow>
         if \<not> h_alloc h ''conf'' 0 then (None, conf_diag_add ''out of memory parsing %s'' diag)
         else
           let (inst, diag) = run_state (parse_instance toptab zero_instance) diag;
               conf = zero_conf\<lparr>mf_instance := inst\<rparr> in
           if mode = CONF_LOAD_INSTANCE_ONLY
           then (if diag_count diag \<noteq> before then (None, diag) else (Some conf, diag))
           else
             let (conf, diag) = run_state (parse_sections h toptab conf) diag in
             if diag_count diag \<noteq> before then (None, diag)
             else
               let (ok, conf, diag) = conf_check h conf diag in
               if \<not> ok then (None, diag) else (Some conf, diag)))"

end
