(* ===== verification/Marlind_Conf_Load.thy ===== *)
theory Marlind_Conf_Load
  imports Marlind_Conf_Parse
begin

text \<open>
  What loading a configuration guarantees. A small logic over the diagnostics (a run without a new
  message has a result with the stated property) is composed along the code of
  \<open>Marlind_Conf_Parse\<close>; with the exactness of the checks it gives the properties of \<^verbatim>\<open>conf_load\<close>.
\<close>

section \<open>The logic of silent runs\<close>

text \<open>
  A parser run that adds no message has a result with the stated property, and no run removes a
  message. The rules compose the property over the monad's operations.
\<close>

definition parses :: "'a parse \<Rightarrow> ('a \<Rightarrow> bool) \<Rightarrow> bool" where
  "parses m Q \<longleftrightarrow> (\<forall>d. diag_count d \<le> diag_count (snd (run_state m d))) \<and>
     (\<forall>d. diag_count d < MARLIN_CONF_DIAG_MAX \<longrightarrow> diag_count (snd (run_state m d)) = diag_count d \<longrightarrow> Q (fst (run_state m d)))"

named_theorems parse_intros \<open>composition of parsers\<close>
named_theorems parse_facts \<open>what each parser ensures\<close>

lemma parses_grows: "parses m Q \<Longrightarrow> diag_count d \<le> diag_count (snd (run_state m d))"
  by (simp add: parses_def)

lemma parsesD:
  "parses m Q \<Longrightarrow> run_state m d = (x, d') \<Longrightarrow> diag_count d < MARLIN_CONF_DIAG_MAX \<Longrightarrow> diag_count d' = diag_count d \<Longrightarrow> Q x"
  unfolding parses_def by (metis fst_conv snd_conv)

lemma parses_weaken: "parses m P \<Longrightarrow> (\<And>x. P x \<Longrightarrow> Q x) \<Longrightarrow> parses m Q"
  by (simp add: parses_def)

lemma parses_return [simp]: "parses (State_Monad.return x) Q \<longleftrightarrow> Q x"
  by (auto simp: parses_def MARLIN_CONF_DIAG_MAX_def intro: exI [of _ conf_diag_reset] simp: conf_diag_reset_def)

lemma parses_report [parse_facts]: "parses (report m) (\<lambda>_. False)"
  by (simp add: parses_def report_def conf_diag_add_def diag_append_def)

lemma parses_warn [parse_facts]: "parses (warn m) (\<lambda>_. True)"
  by (simp add: parses_def warn_def conf_diag_warn_def diag_append_def)

lemma parses_report_if [parse_facts]: "parses (if c then report m else State_Monad.return ()) (\<lambda>_. \<not> c)"
  using parses_report by (cases c) simp_all

lemma parses_warn_if [parse_facts]: "parses (if c then warn m else State_Monad.return ()) (\<lambda>_. True)"
  using parses_warn by (cases c) simp_all

lemma parses_bind [parse_intros]:
  assumes m: "parses m P" and f: "\<And>x. parses (f x) (\<lambda>y. P x \<longrightarrow> Q y)"
  shows "parses (State_Monad.bind m f) Q"
  unfolding parses_def
proof (intro conjI allI impI)
  fix d
  obtain x d1 where run: "run_state m d = (x, d1)" by (metis surj_pair)
  have le: "diag_count d \<le> diag_count d1" "diag_count d1 \<le> diag_count (snd (run_state (f x) d1))"
    using parses_grows [OF m, of d] parses_grows [OF f, of d1] run by simp_all
  then show "diag_count d \<le> diag_count (snd (run_state (State_Monad.bind m f) d))" using run by simp
  assume room: "diag_count d < MARLIN_CONF_DIAG_MAX"
    and "diag_count (snd (run_state (State_Monad.bind m f) d)) = diag_count d"
  then have d1: "diag_count (snd (run_state (f x) d1)) = diag_count d1" "diag_count d1 = diag_count d" using run le by simp_all
  have "P x" using parsesD [OF m run room d1(2)] .
  then have "Q (fst (run_state (f x) d1))" using f [of x] d1 room by (simp add: parses_def)
  then show "Q (fst (run_state (State_Monad.bind m f) d))" using run by simp
qed

lemma parses_if [parse_intros]:
  assumes "parses a (\<lambda>y. c \<longrightarrow> Q y)" "parses b (\<lambda>y. \<not> c \<longrightarrow> Q y)"
  shows "parses (if c then a else b) Q"
  using assms by (cases c) simp_all

lemma parses_option [parse_intros]:
  assumes "parses a (\<lambda>y. v = None \<longrightarrow> Q y)" "\<And>x. parses (f x) (\<lambda>y. v = Some x \<longrightarrow> Q y)"
  shows "parses (case v of None \<Rightarrow> a | Some x \<Rightarrow> f x) Q"
  using assms(1) assms(2) [of "the v"] by (cases v) simp_all

lemma parses_got [parse_intros]:
  assumes "parses a (\<lambda>y. g = Absent \<longrightarrow> Q y)" "parses b (\<lambda>y. g = Bad \<longrightarrow> Q y)"
    and "\<And>x. parses (f x) (\<lambda>y. g = Got x \<longrightarrow> Q y)"
  shows "parses (case g of Absent \<Rightarrow> a | Bad \<Rightarrow> b | Got x \<Rightarrow> f x) Q"
proof (cases g)
  case (Got x)
  then show ?thesis using assms(3) [of x] by simp
qed (use assms in simp_all)

lemma parses_prod [parse_intros]:
  assumes "\<And>x y. parses (f x y) (\<lambda>z. p = (x, y) \<longrightarrow> Q z)"
  shows "parses (case p of (x, y) \<Rightarrow> f x y) Q"
  using assms [of "fst p" "snd p"] by (simp add: split_beta)

lemma parses_let [parse_intros]:
  assumes "\<And>x. parses (f x) (\<lambda>z. x = v \<longrightarrow> Q z)"
  shows "parses (let x = v in f x) Q"
  using assms [of v] by simp

lemma parses_foldm:
  assumes "\<And>x b. parses (f x b) (\<lambda>b'. I b \<longrightarrow> I b')"
  shows "parses (foldm f xs b) (\<lambda>b'. I b \<longrightarrow> I b')"
proof (induction xs arbitrary: b)
  case Nil
  then show ?case by auto
next
  case (Cons x xs)
  have "parses (foldm f xs c) (\<lambda>b'. (I b \<longrightarrow> I c) \<longrightarrow> I b \<longrightarrow> I b')" for c
    by (rule parses_weaken [OF Cons]) blast
  with assms show ?case unfolding foldm.simps by (rule parses_bind)
qed

lemma parses_traverse:
  assumes "\<And>x. x \<in> set xs \<Longrightarrow> parses (f x) (P x)"
  shows "parses (State_Monad.traverse_list f xs) (list_all2 P xs)"
  using assms
proof (induction xs)
  case Nil
  then show ?case by auto
next
  case (Cons x xs)
  have "parses (State_Monad.traverse_list f xs) (list_all2 P xs)" using Cons by simp
  then show ?case
    unfolding State_Monad.traverse_list.simps
    by (intro parses_bind [OF Cons(2) parses_bind]) auto
qed

lemma parses_traverse_all:
  assumes "\<And>x. x \<in> set xs \<Longrightarrow> parses (f x) P"
  shows "parses (State_Monad.traverse_list f xs) (\<lambda>ys. (\<forall>y\<in>set ys. P y) \<and> length ys = length xs)"
  by (rule parses_weaken [OF parses_traverse [OF assms]])
     (auto simp: list_all2_conv_all_nth in_set_conv_nth)

lemma parses_toml [parse_intros]:
  assumes "parses a0 (\<lambda>y. t = TOML_UNKNOWN \<longrightarrow> Q y)"
    "\<And>x. parses (a1 x) (\<lambda>y. t = TOML_STRING x \<longrightarrow> Q y)"
    "\<And>i. parses (a2 i) (\<lambda>y. t = TOML_INT64 i \<longrightarrow> Q y)"
    "parses a3 (\<lambda>y. t = TOML_FP64 \<longrightarrow> Q y)"
    "\<And>b. parses (a4 b) (\<lambda>y. t = TOML_BOOLEAN b \<longrightarrow> Q y)"
    "parses a5 (\<lambda>y. t = TOML_DATE \<longrightarrow> Q y)"
    "parses a6 (\<lambda>y. t = TOML_TIME \<longrightarrow> Q y)"
    "parses a7 (\<lambda>y. t = TOML_DATETIME \<longrightarrow> Q y)"
    "parses a8 (\<lambda>y. t = TOML_DATETIMETZ \<longrightarrow> Q y)"
    "\<And>es. parses (a9 es) (\<lambda>y. t = TOML_ARRAY es \<longrightarrow> Q y)"
    "\<And>kvs. parses (a10 kvs) (\<lambda>y. t = TOML_TABLE kvs \<longrightarrow> Q y)"
  shows "parses (case t of TOML_UNKNOWN \<Rightarrow> a0
      | TOML_STRING x \<Rightarrow> a1 x
      | TOML_INT64 i \<Rightarrow> a2 i
      | TOML_FP64 \<Rightarrow> a3
      | TOML_BOOLEAN b \<Rightarrow> a4 b
      | TOML_DATE \<Rightarrow> a5
      | TOML_TIME \<Rightarrow> a6
      | TOML_DATETIME \<Rightarrow> a7
      | TOML_DATETIMETZ \<Rightarrow> a8
      | TOML_ARRAY es \<Rightarrow> a9 es
      | TOML_TABLE kvs \<Rightarrow> a10 kvs) Q"
proof (cases t)
  case (TOML_STRING s)
  then show ?thesis using assms(2) [of s] by simp
next
  case (TOML_INT64 i)
  then show ?thesis using assms(3) [of i] by simp
next
  case (TOML_BOOLEAN b)
  then show ?thesis using assms(5) [of b] by simp
next
  case (TOML_ARRAY es)
  then show ?thesis using assms(10) [of es] by simp
next
  case (TOML_TABLE kvs)
  then show ?thesis using assms(11) [of kvs] by simp
qed (use assms in simp_all)

lemma cstr_less: "length s < n \<Longrightarrow> length (cstr s) < n"
  unfolding cstr_def by (rule le_less_trans [OF length_takeWhile_le])

section \<open>What the accessors return\<close>

lemma get_bool_parses [parse_facts]:
  "parses (get_bool tab key) (\<lambda>g. g \<noteq> Bad \<and> (g = Absent \<longleftrightarrow> toml_get tab key = TOML_UNKNOWN) \<and>
     (\<forall>b. g = Got b \<longleftrightarrow> toml_get tab key = TOML_BOOLEAN b))"
  unfolding get_bool_def by (rule parse_facts parse_intros | (rule parses_weaken, rule parse_facts) | (auto; fail))+

lemma get_int_parses [parse_facts]:
  "parses (get_int tab key) (\<lambda>g. g \<noteq> Bad \<and> (g = Absent \<longleftrightarrow> toml_get tab key = TOML_UNKNOWN) \<and>
     (\<forall>i. g = Got i \<longleftrightarrow> toml_get tab key = TOML_INT64 i))"
  unfolding get_int_def by (rule parse_facts parse_intros | (rule parses_weaken, rule parse_facts) | (auto; fail))+

lemma get_str_parses [parse_facts]:
  "parses (get_str tab key cap) (\<lambda>g. g \<noteq> Bad \<and> (g = Absent \<longleftrightarrow> toml_get tab key = TOML_UNKNOWN) \<and>
     (\<forall>s. g = Got s \<longrightarrow> length s < cap))"
  unfolding get_str_def by (rule parse_facts parse_intros | (rule parses_weaken, rule parse_facts) | (auto simp: cstr_less; fail))+

lemma req_str_parses [parse_facts]: "parses (req_str tab key cap) (\<lambda>s. \<exists>t. s = Some t \<and> length t < cap)"
  unfolding req_str_def by (rule parse_facts parse_intros | (rule parses_weaken, rule parse_facts) | (auto; fail))+


section \<open>The shape of a configuration\<close>

definition ports_shape :: "string list \<Rightarrow> bool" where
  "ports_shape ps \<longleftrightarrow> length ps \<le> MAX_TX_PORTS \<and> (\<forall>p\<in>set ps. length p < IF_NAMESIZE)"

definition instance_shape :: "conf_instance \<Rightarrow> bool" where
  "instance_shape inst \<longleftrightarrow> length (ci_iface inst) < IF_NAMESIZE \<and> length (ci_object inst) < PATH_MAX \<and>
     length (ci_pin_dir inst) < PATH_MAX \<and> ports_shape (ci_tx_ports inst)"

definition acl_entry_shape :: "bool \<Rightarrow> conf_acl_entry \<Rightarrow> bool" where
  "acl_entry_shape is_v6 e \<longleftrightarrow> length (ca_addr e) = 16 \<and> unat (ca_prefixlen e) \<le> (if is_v6 then 128 else 32) \<and>
     (\<not> is_v6 \<longrightarrow> drop 4 (ca_addr e) = replicate 12 0)"

definition acl_shape :: "conf_acl \<Rightarrow> bool" where
  "acl_shape acl \<longleftrightarrow> (\<forall>e\<in>set (ac_allow_v4 acl) \<union> set (ac_block_v4 acl). acl_entry_shape False e) \<and>
     (\<forall>e\<in>set (ac_allow_v6 acl) \<union> set (ac_block_v6 acl). acl_entry_shape True e)"

definition backend_shape :: "conf_backend \<Rightarrow> bool" where
  "backend_shape b \<longleftrightarrow> length (cb_name b) < MARLIN_CONF_NAME_MAX \<and> length (cb_egress b) < IF_NAMESIZE \<and>
     ENCAP_MODE (be_flags (cb_abi b)) \<le> MARLIN_MODE_VXLAN \<and>
     (be_flags (cb_abi b) AND MARLIN_BE_F_ENCAP_REQUIRED \<noteq> 0 \<longleftrightarrow> ENCAP_MODE (be_flags (cb_abi b)) \<noteq> MARLIN_MODE_L2DSR) \<and>
     unat (be_vni (cb_abi b)) < 2 ^ 24"

definition key_shape :: "vip_key \<Rightarrow> bool" where
  "key_shape k \<longleftrightarrow> vk_family k \<in> {AF_INET, AF_INET6} \<and> canonical_key k"

definition member_shape :: "conf_member \<Rightarrow> bool" where
  "member_shape m \<longleftrightarrow> length (cm_backend_name m) < MARLIN_CONF_NAME_MAX \<and> cm_weight m \<noteq> 0"

definition vip_shape :: "conf_vip \<Rightarrow> bool" where
  "vip_shape v \<longleftrightarrow> cv_keys v \<noteq> [] \<and> (\<forall>k\<in>set (cv_keys v). key_shape k) \<and>
     (\<exists>port. \<exists>proto\<in>{IPPROTO_TCP, IPPROTO_UDP, IPPROTO_SCTP}. \<forall>k\<in>set (cv_keys v). vk_port k = port \<and> vk_proto k = proto) \<and>
     length (cv_table_seed v) = 16 \<and> vm_vip_num (cv_meta v) = MARLIN_CONF_VIP_NUM_UNSET \<and>
     (\<forall>m\<in>set (cv_members v). member_shape m)"

definition conf_shape :: "marlin_conf \<Rightarrow> bool" where
  "conf_shape c \<longleftrightarrow> instance_shape (mf_instance c) \<and> acl_shape (mf_acl c) \<and>
     (\<forall>b\<in>set (mf_backends c). backend_shape b) \<and> (\<forall>v\<in>set (mf_vips c). vip_shape v)"

lemma zero_instance_shape: "instance_shape zero_instance"
  by (simp add: instance_shape_def ports_shape_def zero_instance_def IF_NAMESIZE_def PATH_MAX_def)

lemma instance_iface_parses [parse_facts]:
  "parses (parse_instance_iface tab inst) (\<lambda>i. instance_shape inst \<longrightarrow> instance_shape i)"
  unfolding parse_instance_iface_def by (rule parse_facts parse_intros | (rule parses_weaken, rule parse_facts) | (auto simp: instance_shape_def; fail))+

lemma instance_paths_parses [parse_facts]:
  "parses (parse_instance_paths tab inst) (\<lambda>i. instance_shape inst \<longrightarrow> instance_shape i)"
  unfolding parse_instance_paths_def
  by (rule parse_facts parse_intros | (rule parses_weaken, rule parse_facts) | (auto simp: instance_shape_def MARLIN_DEFAULT_OBJ_def MARLIN_DEFAULT_PIN_DIR_def PATH_MAX_def split: got.splits; fail))+

lemma instance_tunnel_src_parses [parse_facts]:
  "parses (parse_instance_tunnel_src tab inst) (\<lambda>i. instance_shape inst \<longrightarrow> instance_shape i)"
  unfolding parse_instance_tunnel_src_def by (rule parse_facts parse_intros | (rule parses_weaken, rule parse_facts) | (auto simp: instance_shape_def; fail))+

lemma instance_max_frame_parses [parse_facts]:
  "parses (parse_instance_max_frame tab inst) (\<lambda>i. instance_shape inst \<longrightarrow> instance_shape i)"
  unfolding parse_instance_max_frame_def by (rule parse_facts parse_intros | (rule parses_weaken, rule parse_facts) | (auto simp: instance_shape_def; fail))+


lemma ports_shape_snoc:
  "ports_shape ps \<Longrightarrow> length ps < MAX_TX_PORTS \<Longrightarrow> \<not> IF_NAMESIZE \<le> length s \<Longrightarrow> ports_shape (ps @ [cstr s])"
  by (auto simp: ports_shape_def cstr_less not_le)

lemma tx_ports_loop_parses [parse_facts]: "parses (tx_ports_loop es ps) (\<lambda>ps'. ports_shape ps \<longrightarrow> ports_shape ps')"
proof (induction es arbitrary: ps)
  case (Cons e es)
  show ?case
    unfolding tx_ports_loop.simps
    by (rule parse_facts parse_intros | (rule parses_weaken, rule Cons) | (auto simp: ports_shape_snoc; fail))+
qed simp

lemma instance_tx_ports_parses [parse_facts]:
  "parses (parse_instance_tx_ports tab inst) (\<lambda>i. instance_shape inst \<longrightarrow> instance_shape i)"
  unfolding parse_instance_tx_ports_def
  by (rule parse_facts parse_intros | (rule parses_weaken, rule parse_facts) | (auto simp: instance_shape_def; fail))+

lemma instance_parses [parse_facts]:
  "parses (parse_instance toptab inst) (\<lambda>i. instance_shape inst \<longrightarrow> instance_shape i)"
  unfolding parse_instance_def
  by (rule parse_facts parse_intros | (rule parses_weaken, rule parse_facts) | (auto; fail))+

lemma acl_elem_parses: "parses (parse_acl_elem h allow e acl) (\<lambda>a. acl_shape acl \<longrightarrow> acl_shape a)"
proof -
  have "acl_entry_shape v6 \<lparr>ca_prefixlen = p, ca_addr = take 16 a\<rparr>"
    if "(case e of TOML_STRING s \<Rightarrow> conf_parse_cidr (cstr s) | _ \<Rightarrow> None) = Some (v6, p, a)" for v6 p a
    using that conf_parse_cidr_result by (fastforce simp: acl_entry_shape_def split: toml.splits)
  note entry = this
  show ?thesis
    unfolding parse_acl_elem_def append_acl_entry_def
    by (rule parse_facts parse_intros | (auto simp: acl_shape_def entry split: if_splits; fail))+
qed

lemma acl_array_parses [parse_facts]: "parses (parse_acl_array h tab key allow acl) (\<lambda>a. acl_shape acl \<longrightarrow> acl_shape a)"
  unfolding parse_acl_array_def
  by (rule parse_facts parse_intros | (rule parses_weaken, rule parses_foldm, rule acl_elem_parses) | (auto; fail))+

lemma acl_parses [parse_facts]: "parses (parse_acl h toptab acl) (\<lambda>a. acl_shape acl \<longrightarrow> acl_shape a)"
proof -
  have "acl_shape (acl\<lparr>ac_enabled := e\<rparr>) = acl_shape acl" for e by (simp add: acl_shape_def)
  note enabled = this
  show ?thesis
    unfolding parse_acl_def
    by (rule parse_facts parse_intros | (rule parses_weaken, rule parse_facts) | (auto simp: enabled; fail))+
qed

lemma ratelimit_parses [parse_facts]: "parses (parse_ratelimit toptab rl) (\<lambda>_. True)"
  unfolding parse_ratelimit_def
  by (rule parse_facts parse_intros | (auto; fail))+

text \<open>Backends. The flags are the mode, then the state; nothing else touches them.\<close>

definition backend_base :: "conf_backend \<Rightarrow> bool" where
  "backend_base b \<longleftrightarrow> length (cb_name b) < MARLIN_CONF_NAME_MAX \<and> length (cb_egress b) < IF_NAMESIZE \<and> unat (be_vni (cb_abi b)) < 2 ^ 24"

definition flags_shape :: "u8 \<Rightarrow> bool" where
  "flags_shape f \<longleftrightarrow> ENCAP_MODE f \<le> MARLIN_MODE_VXLAN \<and> (f AND MARLIN_BE_F_ENCAP_REQUIRED \<noteq> 0 \<longleftrightarrow> ENCAP_MODE f \<noteq> MARLIN_MODE_L2DSR)"

lemma backend_shape_iff: "backend_shape b \<longleftrightarrow> backend_base b \<and> flags_shape (be_flags (cb_abi b))"
  by (auto simp: backend_shape_def backend_base_def flags_shape_def)

lemma flags_shape_mode:
  "conf_parse_mode s = Some m \<Longrightarrow> flags_shape (if m \<noteq> MARLIN_MODE_L2DSR then m OR MARLIN_BE_F_ENCAP_REQUIRED else m)"
  by (auto simp: conf_parse_mode_def flags_shape_def ENCAP_MODE_def split: if_splits)

lemma flags_shape_bits:
  "flags_shape (f OR MARLIN_BE_F_STATE) = flags_shape f" "flags_shape (f OR MARLIN_BE_F_FIB) = flags_shape f"
  "flags_shape (f AND NOT MARLIN_BE_F_FIB) = flags_shape f"
proof -
  have "(f OR MARLIN_BE_F_STATE) AND 0x1f = f AND 0x1f" "(f OR MARLIN_BE_F_FIB) AND 0x1f = f AND 0x1f"
    "(f AND NOT MARLIN_BE_F_FIB) AND 0x1f = f AND 0x1f"
    by (simp_all add: bit.conj_disj_distrib2 and.assoc)
  moreover have "flags_shape f \<longleftrightarrow> flags_shape (f AND 0x1f)" for f
    by (simp add: flags_shape_def ENCAP_MODE_def and.assoc)
  ultimately show "flags_shape (f OR MARLIN_BE_F_STATE) = flags_shape f" "flags_shape (f OR MARLIN_BE_F_FIB) = flags_shape f"
    "flags_shape (f AND NOT MARLIN_BE_F_FIB) = flags_shape f" by metis+
qed

definition keeps_shape :: "conf_backend \<Rightarrow> conf_backend \<Rightarrow> bool" where
  "keeps_shape b b' \<longleftrightarrow> (backend_base b \<longrightarrow> backend_base b') \<and>
     (flags_shape (be_flags (cb_abi b)) \<longrightarrow> flags_shape (be_flags (cb_abi b')))"

lemma keeps_shape_updates [simp]:
  "keeps_shape b b"
  "keeps_shape b (b\<lparr>cb_id := i\<rparr>)"
  "keeps_shape b (b\<lparr>cb_abi := (cb_abi b)\<lparr>be_addr := a\<rparr>\<rparr>)"
  "keeps_shape b (b\<lparr>cb_abi := (cb_abi b)\<lparr>be_flags := be_flags (cb_abi b) OR MARLIN_BE_F_STATE\<rparr>\<rparr>)"
  "keeps_shape b (b\<lparr>cb_abi := (cb_abi b)\<lparr>be_mac := m\<rparr>, cb_mac_stated := True\<rparr>)"
  "keeps_shape b (b\<lparr>cb_abi := (cb_abi b)\<lparr>be_inner_mac := m\<rparr>, cb_inner_mac_stated := True\<rparr>)"
  "keeps_shape b (b\<lparr>cb_fib_value := fv, cb_fib_stated := fs\<rparr>)"
  "length e < IF_NAMESIZE \<Longrightarrow> keeps_shape b (b\<lparr>cb_fib_value := fv, cb_fib_stated := fs, cb_egress := e, cb_has_egress := True\<rparr>)"
  "keeps_shape b (backend_set_encap_dport_default b mode st p)"
  by (simp_all add: keeps_shape_def backend_base_def flags_shape_bits backend_set_encap_dport_default_def del: MARLIN_BE_F_STATE_def)

lemma keeps_shape_vni:
  assumes "0 \<le> v" "v \<le> 0xffffff"
  shows "keeps_shape b ((backend_set_encap_dport_default b mode st p)
    \<lparr>cb_abi := (cb_abi (backend_set_encap_dport_default b mode st p))\<lparr>be_vni := word_of_int v\<rparr>, cb_vni_stated := True\<rparr>)"
proof -
  have "unat (word_of_int v :: u32) < 2 ^ 24"
    using assms by (simp add: unat_eq_nat_uint uint_word_of_int_eq take_bit_int_eq_self)
  then show ?thesis by (simp add: keeps_shape_def backend_base_def backend_set_encap_dport_default_def)
qed

lemma backend_id_parses [parse_facts]: "parses (parse_backend_id tab b) (keeps_shape b)"
  unfolding parse_backend_id_def by (rule parse_facts parse_intros | (auto; fail))+

lemma backend_addr_parses [parse_facts]: "parses (parse_backend_addr tab b) (keeps_shape b)"
  unfolding parse_backend_addr_def by (rule parse_facts parse_intros | (auto; fail))+

lemma backend_mode_parses [parse_facts]:
  "parses (parse_backend_mode tab b) (\<lambda>mb. (backend_base b \<longrightarrow> backend_base (snd mb)) \<and> flags_shape (be_flags (cb_abi (snd mb))))"
proof -
  have inner: "parses (case s of None \<Rightarrow> State_Monad.return MARLIN_MODE_L2DSR
       | Some s \<Rightarrow> (case conf_parse_mode s of
              None \<Rightarrow> do { report ''%s.mode must be one of l2dsr, ipip, gue, vxlan''; State_Monad.return MARLIN_MODE_L2DSR }
            | Some m \<Rightarrow> State_Monad.return m)) (\<lambda>m. s \<noteq> None \<longrightarrow> conf_parse_mode (the s) = Some m)" for s
    by (rule parse_facts parse_intros | (auto; fail))+
  show ?thesis
    unfolding parse_backend_mode_def
    by (rule parse_facts inner parse_intros | (clarsimp simp: backend_base_def flags_shape_mode simp del: MARLIN_MODE_L2DSR_def MARLIN_BE_F_ENCAP_REQUIRED_def split del: if_split; fail))+
qed

lemma backend_state_parses [parse_facts]: "parses (parse_backend_state tab b) (keeps_shape b)"
proof -
  have inner: "parses (case g of Got s \<Rightarrow> (case conf_parse_state s of
        None \<Rightarrow> do { report ''%s.state must be up or down''; State_Monad.return True } | Some up \<Rightarrow> State_Monad.return up)
       | _ \<Rightarrow> State_Monad.return True) (\<lambda>_. True)" for g
    by (rule parse_facts parse_intros | (auto; fail))+
  show ?thesis
    unfolding parse_backend_state_def
    by (rule parse_facts inner parse_intros | (auto simp del: MARLIN_BE_F_STATE_def; fail))+
qed

lemma backend_mac_parses [parse_facts]: "parses (parse_backend_mac tab b) (keeps_shape b)"
  unfolding parse_backend_mac_def by (rule parse_facts parse_intros | (auto; fail))+

lemma backend_inner_mac_parses [parse_facts]: "parses (parse_backend_inner_mac tab b) (keeps_shape b)"
  unfolding parse_backend_inner_mac_def by (rule parse_facts parse_intros | (auto; fail))+

lemma backend_fib_egress_parses [parse_facts]: "parses (parse_backend_fib_egress tab b) (keeps_shape b)"
  unfolding parse_backend_fib_egress_def by (rule parse_facts parse_intros | (auto; fail))+

lemma backend_encap_parses [parse_facts]: "parses (parse_backend_encap tab b mode) (keeps_shape b)"
proof -
  have inner: "parses (case g of
         Got v \<Rightarrow> if v < 0 \<or> v > 0xffff then do { report ''%s.encap_dport out of range (0-65535)''; State_Monad.return None }
                  else State_Monad.return (Some v)
       | _ \<Rightarrow> State_Monad.return None) (\<lambda>_. True)" for g
    by (rule parse_facts parse_intros | (auto; fail))+
  show ?thesis
    unfolding parse_backend_encap_def
    by (rule parse_facts inner parse_intros | (auto simp: keeps_shape_vni; fail))+
qed

lemma keeps_shape_trans: "keeps_shape a b \<Longrightarrow> keeps_shape b c \<Longrightarrow> keeps_shape a c"
  by (simp add: keeps_shape_def)

lemma one_backend_parses:
  "parses (parse_one_backend tab zero_conf_backend) backend_shape"
proof -
  have zero: "backend_base (zero_conf_backend\<lparr>cb_name := s\<rparr>)" if "length s < MARLIN_CONF_NAME_MAX" for s
    using that by (simp add: backend_base_def zero_conf_backend_def zero_backend_def IF_NAMESIZE_def)
  show ?thesis
    unfolding parse_one_backend_def backend_shape_iff
    by (rule parse_facts parse_intros | (rule parses_weaken, rule parse_facts) | (auto simp: zero keeps_shape_def; fail))+
qed

lemma backends_parses [parse_facts]:
  "parses (parse_backends h toptab conf) (\<lambda>c. \<exists>bs. c = conf\<lparr>mf_backends := bs\<rparr> \<and>
     ((\<forall>b\<in>set (mf_backends conf). backend_shape b) \<longrightarrow> (\<forall>b\<in>set bs. backend_shape b)))"
proof -
  have elem: "parses (case tab of TOML_TABLE _ \<Rightarrow> parse_one_backend tab zero_conf_backend
     | _ \<Rightarrow> do { report ''backend[%d] must be a table''; State_Monad.return zero_conf_backend }) backend_shape" for tab
    by (rule parse_facts parse_intros | (rule parses_weaken, rule one_backend_parses) | (auto; fail))+
  show ?thesis
    unfolding parse_backends_def
    by (rule parse_facts parse_intros | (rule parses_traverse_all, rule elem) | (fastforce intro: exI [of _ "mf_backends conf"]; fail))+
qed

text \<open>VIPs. Each step is the change it makes.\<close>

lemma hexkey16_length: "conf_parse_hexkey16 s out = (ok, out') \<Longrightarrow> length out' = length out"
proof -
  have "length (snd (hexkey_loop s i out)) = length out" for i out
  proof (induction "16 - i" arbitrary: i out rule: less_induct)
    case less
    then show ?case by (subst hexkey_loop.simps) (auto simp: Let_def)
  qed
  then show "conf_parse_hexkey16 s out = (ok, out') \<Longrightarrow> length out' = length out"
    by (metis conf_parse_hexkey16_def prod.inject snd_conv)
qed

lemma one_addr_parses [parse_facts]: "parses (parse_one_addr s) key_shape"
  unfolding parse_one_addr_def
  by (rule parse_facts parse_intros | (auto simp: key_shape_def canonical_key_def zero_key_def; fail))+

definition same_but_keys :: "conf_vip \<Rightarrow> conf_vip \<Rightarrow> bool" where
  "same_but_keys v v' \<longleftrightarrow> cv_meta v' = cv_meta v \<and> cv_table_seed v' = cv_table_seed v \<and> cv_members v' = cv_members v"

lemma vip_address_parses [parse_facts]:
  "parses (parse_vip_address h i tab v) (\<lambda>v'. cv_keys v' \<noteq> [] \<and> (\<forall>k\<in>set (cv_keys v'). key_shape k) \<and> same_but_keys v v')"
proof -
  have elem: "parses (case e of TOML_STRING s \<Rightarrow>
        if length s \<ge> 64 then do { report ''%s is too long (max %zu bytes)''; State_Monad.return zero_key } else parse_one_addr (cstr s)
      | _ \<Rightarrow> do { report ''%s must be a string''; State_Monad.return zero_key }) key_shape" for e
    by (rule parse_facts parse_intros | (rule parses_weaken, rule parse_facts) | (auto; fail))+
  show ?thesis
    unfolding parse_vip_address_def
    by (rule parse_facts parse_intros | (rule parses_traverse_all, rule elem) | (auto simp: same_but_keys_def; fail))+
qed

lemma vip_port_parses [parse_facts]:
  "parses (parse_vip_port tab v) (\<lambda>v'. same_but_keys v v' \<and> (\<exists>p. cv_keys v' = map (\<lambda>k. k\<lparr>vk_port := p\<rparr>) (cv_keys v)))"
  unfolding parse_vip_port_def by (rule parse_facts parse_intros | (auto simp: same_but_keys_def; fail))+

lemma vip_proto_parses [parse_facts]:
  "parses (parse_vip_proto tab v) (\<lambda>v'. same_but_keys v v' \<and>
     (\<exists>p\<in>{IPPROTO_TCP, IPPROTO_UDP, IPPROTO_SCTP}. cv_keys v' = map (\<lambda>k. k\<lparr>vk_proto := p\<rparr>) (cv_keys v)))"
proof -
  have "conf_parse_proto s = Some p \<Longrightarrow> p \<in> {IPPROTO_TCP, IPPROTO_UDP, IPPROTO_SCTP}" for s p
    by (auto simp: conf_parse_proto_def split: if_splits)
  note proto = this
  show ?thesis
    unfolding parse_vip_proto_def
    by (rule parse_facts parse_intros | (auto simp: same_but_keys_def dest!: proto; fail))+
qed

text \<open>The rest of a VIP leaves the keys alone.\<close>

definition same_keys :: "conf_vip \<Rightarrow> conf_vip \<Rightarrow> bool" where
  "same_keys v v' \<longleftrightarrow> cv_keys v' = cv_keys v \<and> length (cv_table_seed v') = length (cv_table_seed v)"

lemma vip_hash_keys_parses [parse_facts]: "parses (parse_vip_hash_keys tab v) (same_keys v)"
proof -
  have first: "parses (case s of None \<Rightarrow> State_Monad.return v
       | Some s \<Rightarrow>
           (let (ok, out) = conf_parse_hexkey16 s (le_bytes 16 (vm_hash_key (cv_meta v)));
                v = v\<lparr>cv_meta := (cv_meta v)\<lparr>vm_hash_key := le_val out\<rparr>\<rparr>
            in if \<not> ok then do { report ''%s.hash_key must be exactly 32 hex digits''; State_Monad.return v }
               else State_Monad.return v)) (same_keys v)" for s
    by (rule parse_facts parse_intros | (auto simp: same_keys_def; fail))+
  show ?thesis
    unfolding parse_vip_hash_keys_def
    by (rule parse_facts first parse_intros | (auto simp: same_keys_def dest: hexkey16_length [OF sym]; fail))+
qed

text \<open>What the file says of a flag and of a numeric field.\<close>

definition flag_in :: "toml \<Rightarrow> string \<Rightarrow> u32 \<Rightarrow> u32" where
  "flag_in tab key flag = (if toml_get tab key = TOML_BOOLEAN True then flag else 0)"

definition int_in :: "toml \<Rightarrow> string \<Rightarrow> int" where
  "int_in tab key = (case toml_get tab key of TOML_INT64 i \<Rightarrow> i | _ \<Rightarrow> 0)"

lemma get_int_in_parses:
  "parses (get_int tab key) (\<lambda>g. g \<noteq> Bad \<and> (g = Absent \<longrightarrow> int_in tab key = 0) \<and> (\<forall>i. g = Got i \<longrightarrow> int_in tab key = i))"
  by (rule parses_weaken, rule get_int_parses) (auto simp: int_in_def)

lemma set_field_parses [parse_facts]:
  "0 \<le> hi \<Longrightarrow> parses (set_field tab key hi shift fmask msg v) (\<lambda>v'. same_keys v v' \<and> 0 \<le> int_in tab key \<and> int_in tab key \<le> hi \<and>
     vm_flags (cv_meta v') = vm_flags (cv_meta v) OR (push_bit shift (word_of_int (int_in tab key)) AND fmask))"
  unfolding set_field_def by (rule get_int_in_parses parse_facts parse_intros | (auto simp: same_keys_def not_less; fail))+

lemma set_flag_if_keys [simp]:
  "cv_keys (set_flag_if g f v) = cv_keys v" "cv_table_seed (set_flag_if g f v) = cv_table_seed v"
  by (simp_all add: set_flag_if_def)

lemma get_flag_parses:
  "parses (get_bool tab key) (\<lambda>g. \<forall>f v. vm_flags (cv_meta (set_flag_if g f v)) = vm_flags (cv_meta v) OR flag_in tab key f)"
  by (rule parses_weaken, rule get_bool_parses) (auto simp: flag_in_def set_flag_if_def)

lemma vip_flag_bits_parses [parse_facts]:
  "parses (parse_vip_flag_bits tab v) (\<lambda>v'. same_keys v v' \<and>
     0 \<le> int_in tab ''quic_cid_len'' \<and> int_in tab ''quic_cid_len'' \<le> 31 \<and> 0 \<le> int_in tab ''dscp'' \<and> int_in tab ''dscp'' \<le> 63 \<and>
     vm_flags (cv_meta v') = vm_flags (cv_meta v) OR flag_in tab ''acl'' VIP_ACL OR flag_in tab ''ratelimit'' VIP_RATELIMIT OR
       flag_in tab ''hash_5tuple'' VIP_HASH_5TUPLE OR flag_in tab ''hash_ports'' VIP_HASH_PORTS OR flag_in tab ''quic'' VIP_QUIC OR
       (push_bit 8 (word_of_int (int_in tab ''quic_cid_len'')) AND VIP_QUIC_CID_LEN_MASK) OR
       (push_bit 16 (word_of_int (int_in tab ''dscp'')) AND VIP_DSCP_MASK))"
  unfolding parse_vip_flag_bits_def
  by (rule get_flag_parses set_field_parses parse_intros | (rule parses_weaken, rule set_field_parses) |
      (clarsimp simp: same_keys_def or.assoc simp del: VIP_ACL_def VIP_RATELIMIT_def VIP_HASH_5TUPLE_def
         VIP_HASH_PORTS_def VIP_QUIC_def split del: if_split; fail))+

lemma vip_member_parses: "parses (parse_vip_member e zero_member) member_shape"
  unfolding parse_vip_member_def
  by (rule parse_facts parse_intros | (auto simp: member_shape_def zero_member_def word_of_int_eq_0_iff; fail))+

lemma vip_members_parses [parse_facts]:
  "parses (parse_vip_members h i tab v) (\<lambda>v'. same_keys v v' \<and> (\<forall>m\<in>set (cv_members v'). member_shape m))"
  unfolding parse_vip_members_def
  by (rule parse_facts parse_intros | (rule parses_traverse_all, rule vip_member_parses) | (auto simp: same_keys_def; fail))+

lemma vip_shapeI:
  assumes "cv_keys v1 \<noteq> [] \<and> (\<forall>k\<in>set (cv_keys v1). key_shape k) \<and> same_but_keys zero_conf_vip v1"
    "same_but_keys v1 v2 \<and> (\<exists>p. cv_keys v2 = map (\<lambda>k. k\<lparr>vk_port := p\<rparr>) (cv_keys v1))"
    "same_but_keys v2 v3 \<and> (\<exists>p\<in>{IPPROTO_TCP, IPPROTO_UDP, IPPROTO_SCTP}. cv_keys v3 = map (\<lambda>k. k\<lparr>vk_proto := p\<rparr>) (cv_keys v2))"
    "same_keys v3 v4" "same_keys v4 v5" "same_keys v5 v6" "\<forall>m\<in>set (cv_members v6). member_shape m"
  shows "vip_shape (v6\<lparr>cv_meta := (cv_meta v6)\<lparr>vm_vip_num := MARLIN_CONF_VIP_NUM_UNSET\<rparr>\<rparr>)"
proof -
  obtain port proto where proto: "proto \<in> {IPPROTO_TCP, IPPROTO_UDP, IPPROTO_SCTP}"
    and keys: "cv_keys v6 = map (\<lambda>k. k\<lparr>vk_port := port, vk_proto := proto\<rparr>) (cv_keys v1)"
    using assms(2-6) by (fastforce simp: same_keys_def)
  have "length (cv_table_seed v6) = 16"
    using assms(1-6) by (simp add: same_keys_def same_but_keys_def zero_conf_vip_def)
  moreover have "key_shape (k\<lparr>vk_port := port, vk_proto := proto\<rparr>)" if "key_shape k" for k
    using that by (simp add: key_shape_def canonical_key_def)
  moreover have "\<exists>port. \<exists>proto\<in>{IPPROTO_TCP, IPPROTO_UDP, IPPROTO_SCTP}. \<forall>k\<in>set (cv_keys v6). vk_port k = port \<and> vk_proto k = proto"
    using proto keys by (intro exI [of _ port] bexI [of _ proto]) auto
  ultimately show ?thesis using assms(1,7) keys by (simp add: vip_shape_def)
qed

lemma one_vip_parses: "parses (parse_one_vip h i tab zero_conf_vip) vip_shape"
  unfolding parse_one_vip_def
  by (rule parse_facts parse_intros | (simp only: parses_return, intro impI, elim conjE, rule vip_shapeI; (assumption | blast); fail))+

lemma vips_parses [parse_facts]:
  "parses (parse_vips h toptab conf) (\<lambda>c. mf_instance c = mf_instance conf \<and> mf_acl c = mf_acl conf \<and>
     mf_backends c = mf_backends conf \<and> ((\<forall>v\<in>set (mf_vips conf). vip_shape v) \<longrightarrow> (\<forall>v\<in>set (mf_vips c). vip_shape v)))"
proof -
  have elem: "parses (case e of (i, tab) \<Rightarrow> (case tab of TOML_TABLE _ \<Rightarrow> parse_one_vip h i tab zero_conf_vip
      | _ \<Rightarrow> do { report ''vip[%d] must be a table''; State_Monad.return zero_conf_vip })) vip_shape" for e
    by (rule parse_facts parse_intros | (rule parses_weaken, rule one_vip_parses) | (auto; fail))+
  show ?thesis
    unfolding parse_vips_def
    by (rule parse_facts parse_intros | (rule parses_traverse_all, rule elem) | (auto; fail))+
qed

lemma open_conf_file_parses:
  "parses (open_conf_file h path enforce) (\<lambda>ok. ok \<and> (\<exists>st. h_fstat h path = Some st \<and>
     (enforce \<longrightarrow> \<not> st_group_writable st \<and> \<not> st_other_writable st)))"
  unfolding open_conf_file_def
  by (rule parse_facts parse_intros | (auto; fail))+

section \<open>What the checks keep\<close>

lemma flags_low_bits:
  "(f OR MARLIN_BE_F_FIB) AND 0x1f = f AND (0x1f :: u8)" "(f AND NOT MARLIN_BE_F_FIB) AND 0x1f = f AND (0x1f :: u8)"
  by (simp_all add: bit.conj_disj_distrib2 and.assoc)

lemma set_fib_low_bits: "be_flags (cb_abi (set_fib b)) AND 0x1f = be_flags (cb_abi b) AND 0x1f"
  by (auto simp: set_fib_def Let_def flags_low_bits simp del: MARLIN_BE_F_FIB_def)

lemma low_bits_eq:
  assumes "f AND 0x1f = g AND (0x1f :: u8)"
  shows "ENCAP_MODE f = ENCAP_MODE g" "f AND MARLIN_BE_F_ENCAP_REQUIRED = g AND MARLIN_BE_F_ENCAP_REQUIRED"
proof -
  have "h AND 0x0f = (h AND 0x1f) AND 0x0f" "h AND 0x10 = (h AND 0x1f) AND 0x10" for h :: u8 by (simp_all add: and.assoc)
  then show "ENCAP_MODE f = ENCAP_MODE g" "f AND MARLIN_BE_F_ENCAP_REQUIRED = g AND MARLIN_BE_F_ENCAP_REQUIRED"
    using assms by (metis ENCAP_MODE_def MARLIN_BE_F_ENCAP_MODE_MASK_def MARLIN_BE_F_ENCAP_REQUIRED_def)+
qed

lemma set_fib_fields [simp]:
  "be_addr (cb_abi (set_fib b)) = be_addr (cb_abi b)" "be_vni (cb_abi (set_fib b)) = be_vni (cb_abi b)"
  "be_inner_mac (cb_abi (set_fib b)) = be_inner_mac (cb_abi b)" "cb_vni_stated (set_fib b) = cb_vni_stated b"
  "cb_inner_mac_stated (set_fib b) = cb_inner_mac_stated b" "cb_has_egress (set_fib b) = cb_has_egress b"
  "cb_egress (set_fib b) = cb_egress b" "ENCAP_MODE (be_flags (cb_abi (set_fib b))) = ENCAP_MODE (be_flags (cb_abi b))"
  "be_flags (cb_abi (set_fib b)) AND MARLIN_BE_F_ENCAP_REQUIRED = be_flags (cb_abi b) AND MARLIN_BE_F_ENCAP_REQUIRED"
  using low_bits_eq [OF set_fib_low_bits [of b]] by (simp_all add: set_fib_def Let_def)

lemma resolve_member_fields [simp]:
  "cm_backend_name (resolve_member bs m) = cm_backend_name m" "cm_weight (resolve_member bs m) = cm_weight m"
  by (simp_all add: resolve_member_def split: option.splits)

lemma resolve_vip_fields [simp]:
  "cv_keys (resolve_vip bs v) = cv_keys v" "cv_meta (resolve_vip bs v) = cv_meta v"
  "cv_table_seed (resolve_vip bs v) = cv_table_seed v" "cv_members (resolve_vip bs v) = map (resolve_member bs) (cv_members v)"
  by (simp_all add: resolve_vip_def)

lemma vip_rule_resolve: "vip_rule bs (resolve_vip cs v) = vip_rule bs v"
  by (simp add: vip_rule_def group_rule_def members_rule_def sorted_wrt_map)

lemma conf_rule_check_result: "conf_rule (check_result h c) = conf_rule c"
proof -
  have "backend_rule (x\<lparr>ci_ifindex := i\<rparr>) = backend_rule x" for x i
    by (simp add: fun_eq_iff backend_rule_def is_attach_or_txport_def)
  moreover have "backend_rule inst (set_fib b) = backend_rule inst b" for inst b
    by (simp add: backend_rule_def del: MARLIN_BE_F_ENCAP_REQUIRED_def)
  moreover have "instance_rule (x\<lparr>ci_ifindex := i\<rparr>) = instance_rule x" for x i by (simp add: instance_rule_def)
  moreover have "ratelimit_rule (check_result h c) = ratelimit_rule c"
    by (rule ratelimit_rule_cong) (simp_all add: check_result_def Let_def comp_def)
  moreover have "vips_rule bs (map (resolve_vip bs') vs) = vips_rule bs vs" for bs bs' vs
    by (simp add: vips_rule_def vip_rule_resolve comp_def)
  ultimately show ?thesis
    by (simp add: conf_rule_def) (simp add: check_result_def Let_def backends_rule_def sorted_wrt_map vips_rule_set_fib)
qed

lemma conf_shape_check_result: "conf_shape c \<Longrightarrow> conf_shape (check_result h c)"
proof -
  have "backend_shape (set_fib b) = backend_shape b" for b by (simp add: backend_shape_def del: MARLIN_BE_F_ENCAP_REQUIRED_def)
  moreover have "vip_shape (resolve_vip bs v) = vip_shape v" for bs v by (simp add: vip_shape_def member_shape_def)
  moreover have "instance_shape (x\<lparr>ci_ifindex := i\<rparr>) = instance_shape x" for x i by (simp add: instance_shape_def)
  ultimately show "conf_shape c \<Longrightarrow> conf_shape (check_result h c)"
    by (auto simp: conf_shape_def check_result_def Let_def)
qed

section \<open>Loading\<close>

lemma sections_parses: "parses (parse_sections h toptab (zero_conf\<lparr>mf_instance := inst\<rparr>)) (\<lambda>c. instance_shape inst \<longrightarrow> conf_shape c)"
proof -
  have zero: "mf_backends zero_conf = []" "mf_vips zero_conf = []" "acl_shape (mf_acl zero_conf)"
    by (simp_all add: zero_conf_def acl_shape_def zero_acl_def)
  show ?thesis
    unfolding parse_sections_def
    by (rule parse_facts parse_intros | (rule parses_weaken, rule parse_facts) | (auto simp: conf_shape_def zero; fail))+
qed

text \<open>Every member of a VIP names a backend of the configuration and has its identifier.\<close>

definition members_resolved :: "marlin_conf \<Rightarrow> bool" where
  "members_resolved conf \<longleftrightarrow> (\<forall>v\<in>set (mf_vips conf). \<forall>m\<in>set (cv_members v).
     \<exists>b. find_backend (mf_backends conf) (cm_backend_name m) = Some b \<and> cm_backend_id m = cb_id b)"

lemma members_resolved_check_result:
  assumes "conf_rule c"
  shows "members_resolved (check_result h c)"
proof -
  let ?bs = "map set_fib (mf_backends c)"
  have "\<exists>b. find_backend ?bs (cm_backend_name (resolve_member ?bs m)) = Some b \<and> cm_backend_id (resolve_member ?bs m) = cb_id b"
    if "v \<in> set (mf_vips c)" "m \<in> set (cv_members v)" for v m
  proof -
    have "find_backend (mf_backends c) (cm_backend_name m) \<noteq> None"
      using assms that by (auto simp: conf_rule_def vips_rule_def vip_rule_def members_rule_def)
    then obtain b where "find_backend ?bs (cm_backend_name m) = Some b" by (auto simp: find_backend_set_fib)
    then show ?thesis by (simp add: resolve_member_def)
  qed
  then show ?thesis by (auto simp: members_resolved_def check_result_def Let_def)
qed

lemma conf_load_run:
  assumes "conf_load h path CONF_LOAD_FULL enforce d = (r, d')"
  obtains (refused) "r = None" "diag_count d < MARLIN_CONF_DIAG_MAX \<longrightarrow> diag_count d < diag_count d'"
  | (loaded) toptab inst conf d1 d2 d3 where
      "run_state (open_conf_file h path enforce) d = (True, d1)" "diag_count d1 = diag_count d"
      "run_state (parse_instance toptab zero_instance) d1 = (inst, d2)" "diag_count d2 = diag_count d1"
      "run_state (parse_sections h toptab (zero_conf\<lparr>mf_instance := inst\<rparr>)) d2 = (conf, d3)" "diag_count d3 = diag_count d2"
      "conf_check h conf d3 = (True, the r, d')" "r \<noteq> None" "diag_count d' = diag_count d3"
proof -
  obtain ok d1 where o: "run_state (open_conf_file h path enforce) d = (ok, d1)" by (metis surj_pair)
  have g1: "diag_count d \<le> diag_count d1" using parses_grows [OF open_conf_file_parses, of d h path enforce] o by simp
  have fail: "diag_count d < diag_count d1" if "\<not> ok" "diag_count d < MARLIN_CONF_DIAG_MAX"
    using parsesD [OF open_conf_file_parses o] g1 that by fastforce
  have added: "diag_count d < diag_count (conf_diag_add m d1)" if "diag_count d < MARLIN_CONF_DIAG_MAX" for m
    using that g1 by (auto simp: conf_diag_add_def diag_append_def)
  show ?thesis
  proof (cases "ok \<and> h_toml_parse_file h path \<noteq> None \<and> h_alloc h ''conf'' 0")
    case False
    then show ?thesis
      using assms o fail added refused by (auto simp: conf_load_def Let_def split: option.splits if_splits)
  next
    case True
    then obtain toptab where t: "h_toml_parse_file h path = Some toptab" by blast
    obtain inst d2 where i: "run_state (parse_instance toptab zero_instance) d1 = (inst, d2)" by (metis surj_pair)
    obtain conf d3 where c: "run_state (parse_sections h toptab (zero_conf\<lparr>mf_instance := inst\<rparr>)) d2 = (conf, d3)" by (metis surj_pair)
    obtain good conf' d4 where k: "conf_check h conf d3 = (good, conf', d4)" by (metis prod_cases3)
    have g: "diag_count d1 \<le> diag_count d2" "diag_count d2 \<le> diag_count d3" "diag_count d3 \<le> diag_count d4"
      using parses_grows [OF instance_parses, of d1 toptab zero_instance] i parses_grows [OF sections_parses, of d2 h toptab inst] c
        conf_check_steps [OF k] by simp_all
    have good: "good \<longleftrightarrow> diag_count d4 = diag_count d3"
      using k by (auto simp: conf_check_def Let_def split_beta)
    have run: "conf_load h path CONF_LOAD_FULL enforce d =
        (if diag_count d3 \<noteq> diag_count d then (None, d3) else if \<not> good then (None, d4) else (Some conf', d4))"
      using True t o i c k by (simp add: conf_load_def Let_def)
    show ?thesis
    proof (cases "diag_count d3 = diag_count d \<and> good")
      case False
      then show ?thesis using run assms refused g g1 good by (auto split: if_splits)
    next
      case ok: True
      then have eq: "diag_count d1 = diag_count d" "diag_count d2 = diag_count d1" "diag_count d3 = diag_count d2" using g g1 by auto
      have r: "r = Some conf'" "d' = d4" using run ok assms by simp_all
      show ?thesis
        by (rule loaded [OF _ eq(1) i eq(2) c eq(3)]) (use True o k r ok good in simp_all)
    qed
  qed
qed

lemma conf_load_loaded:
  assumes "diag_count d < MARLIN_CONF_DIAG_MAX" "conf_load h path CONF_LOAD_FULL enforce d = (Some conf, d')"
  shows "conf_rule conf \<and> conf_shape conf \<and> members_resolved conf \<and> diag_count d' = diag_count d \<and>
    (\<exists>st. h_fstat h path = Some st \<and> (enforce \<longrightarrow> \<not> st_group_writable st \<and> \<not> st_other_writable st))"
  using assms(2)
proof (cases rule: conf_load_run)
  case (loaded toptab inst conf0 d1 d2 d3)
  note run = this
  have room: "diag_count d1 < MARLIN_CONF_DIAG_MAX" "diag_count d2 < MARLIN_CONF_DIAG_MAX" "diag_count d3 < MARLIN_CONF_DIAG_MAX"
    using assms(1) run by simp_all
  have "instance_shape inst" using parsesD [OF instance_parses run(3) room(1) run(4)] zero_instance_shape by blast
  then have "conf_shape conf0" using parsesD [OF sections_parses run(5) room(2) run(6)] by blast
  moreover have "conf = check_result h conf0 \<and> conf_rule conf0" using conf_check_steps [OF run(7)] room(3) by simp
  ultimately show ?thesis
    using parsesD [OF open_conf_file_parses run(1) assms(1) run(2)] run conf_rule_check_result conf_shape_check_result members_resolved_check_result by simp
qed simp

text \<open>C16: What the daemon runs with is valid. When loading a file succeeds, the file could be opened
  and, where permissions are enforced, is writable by its owner only; the configuration obeys every
  rule of \<^verbatim>\<open>conf_check\<close> and every bound of the model: names and paths fit their arrays, a VIP has at least
  one key, all of one port and protocol and canonical for its family, prefix lengths fit their
  family, an IPv4 prefix has no stray bytes, the encapsulation flag follows the mode, the VNI has 24
  bits, every weight is positive and every member has the identifier of the backend it names.\<close>

theorem conf_load_sound:
  assumes "diag_count d < MARLIN_CONF_DIAG_MAX" "conf_load h path CONF_LOAD_FULL enforce d = (Some conf, d')"
  shows "conf_rule conf \<and> conf_shape conf \<and> members_resolved conf \<and> diag_count d' = diag_count d \<and>
    (\<exists>st. h_fstat h path = Some st \<and> (enforce \<longrightarrow> \<not> st_group_writable st \<and> \<not> st_other_writable st))"
  by (rule conf_load_loaded [OF assms])

text \<open>A file with an interface and one backend.\<close>

definition sample_toml :: toml where
  "sample_toml = TOML_TABLE [
     (''instance'', TOML_TABLE [(''interface'', TOML_STRING ''eth0'')]),
     (''backend'', TOML_ARRAY [TOML_TABLE [(''name'', TOML_STRING ''b1''), (''id'', TOML_INT64 1),
        (''addr'', TOML_STRING ''10.0.0.1''), (''mode'', TOML_STRING ''l2dsr'')]])]"

definition sample_host :: host where
  "sample_host = \<lparr>h_if_nametoindex = (\<lambda>_. 2), h_mtu = (\<lambda>_. Some 1500), h_alloc = (\<lambda>_ _. True), h_open = (\<lambda>_. True),
     h_fstat = (\<lambda>_. Some \<lparr>st_group_writable = False, st_other_writable = False, st_other_readable = False\<rparr>),
     h_fdopen = (\<lambda>_. True), h_toml_parse_file = (\<lambda>_. Some sample_toml)\<rparr>"

lemmas accessor_defs = get_int_def get_str_def get_bool_def req_str_def toml_get_def cstr_def

lemmas parse_section_defs = parse_instance_def parse_instance_iface_def parse_instance_paths_def parse_instance_tunnel_src_def
  parse_instance_tx_ports_def parse_instance_max_frame_def parse_sections_def parse_acl_def parse_ratelimit_def parse_backends_def
  parse_vips_def parse_one_backend_def parse_backend_id_def parse_backend_addr_def parse_backend_mode_def parse_backend_state_def
  parse_backend_mac_def parse_backend_fib_egress_def parse_backend_encap_def parse_backend_inner_mac_def

definition loaded_conf :: marlin_conf where
  "loaded_conf = zero_conf\<lparr>mf_instance := zero_instance\<lparr>ci_iface := ''eth0'', ci_object := MARLIN_DEFAULT_OBJ,
       ci_pin_dir := MARLIN_DEFAULT_PIN_DIR\<rparr>,
     mf_backends := [zero_conf_backend\<lparr>cb_name := ''b1'', cb_id := 1, cb_abi := zero_backend\<lparr>be_addr := 0x0100000a, be_flags := 64\<rparr>\<rparr>]\<rparr>"

lemma sample_parse:
  "run_state (parse_instance sample_toml zero_instance) d = (mf_instance loaded_conf, d)"
  "run_state (parse_sections sample_host sample_toml (zero_conf\<lparr>mf_instance := mf_instance loaded_conf\<rparr>)) d = (loaded_conf, d)"
proof -
  have ip: "conf_parse_ipv4 ''10.0.0.1'' = Some 0x0100000a"
    by (simp add: conf_parse_ipv4_def inet_pton4_def  pton_octet_def isdigit_def dec_val_def)
  show "run_state (parse_instance sample_toml zero_instance) d = (mf_instance loaded_conf, d)"
    by (simp add: sample_toml_def parse_section_defs accessor_defs loaded_conf_def IF_NAMESIZE_def)
  show "run_state (parse_sections sample_host sample_toml (zero_conf\<lparr>mf_instance := mf_instance loaded_conf\<rparr>)) d = (loaded_conf, d)"
    by (simp add: sample_toml_def sample_host_def parse_section_defs accessor_defs loaded_conf_def MARLIN_CONF_NAME_MAX_def ip
        conf_parse_mode_def backend_set_encap_dport_default_def zero_conf_backend_def zero_backend_def zero_conf_def)
qed

lemma loaded_conf_rule: "conf_rule loaded_conf"
  by (simp add: conf_rule_def loaded_conf_def zero_conf_def zero_instance_def zero_conf_backend_def
      zero_backend_def zero_acl_def instance_rule_def backends_rule_def backend_rule_def vips_rule_def acl_rule_def
      acl_list_rule_def ratelimit_rule_def MAX_BACKENDS_def ENCAP_MODE_def MARLIN_MODE_VXLAN_def)

lemma sample_load:
  "\<exists>c d. conf_load sample_host ''marlin.conf'' CONF_LOAD_FULL True conf_diag_reset = (Some c, d)"
proof -
  have reset: "diag_count conf_diag_reset < MARLIN_CONF_DIAG_MAX" by (simp add: conf_diag_reset_def MARLIN_CONF_DIAG_MAX_def)
  obtain ok c d where k: "conf_check sample_host loaded_conf conf_diag_reset = (ok, c, d)" by (metis prod_cases3)
  then have "ok" using conf_check_steps [OF k] reset loaded_conf_rule by simp
  then show ?thesis
    using k sample_parse [of conf_diag_reset]
    by (simp add: conf_load_def open_conf_file_def sample_host_def Let_def)
qed

theorem conf_load_sound_witness:
  "\<exists>c d. conf_load sample_host ''marlin.conf'' CONF_LOAD_FULL True conf_diag_reset = (Some c, d) \<and> conf_rule c \<and> conf_shape c \<and> members_resolved c"
proof -
  obtain c d where "conf_load sample_host ''marlin.conf'' CONF_LOAD_FULL True conf_diag_reset = (Some c, d)" using sample_load by blast
  then show ?thesis
    using conf_load_sound [of conf_diag_reset sample_host "''marlin.conf''" True c d]
    by (auto simp: conf_diag_reset_def MARLIN_CONF_DIAG_MAX_def)
qed

text \<open>C21: A refusal always says why and a success never complains: while there is room for a message,
  loading returns no configuration just when it has added one.\<close>

theorem conf_load_reports:
  assumes "diag_count d < MARLIN_CONF_DIAG_MAX"
  shows "fst (conf_load h path CONF_LOAD_FULL enforce d) = None \<longleftrightarrow>
    diag_count d < diag_count (snd (conf_load h path CONF_LOAD_FULL enforce d))"
proof -
  obtain r d' where run: "conf_load h path CONF_LOAD_FULL enforce d = (r, d')" by (metis surj_pair)
  then show ?thesis
  proof (cases rule: conf_load_run)
    case (loaded toptab inst conf d1 d2 d3)
    then show ?thesis using run by auto
  qed (use run assms in auto)
qed

theorem conf_load_reports_witness:
  "diag_count (snd (conf_load sample_host ''marlin.conf'' CONF_LOAD_FULL True conf_diag_reset)) = 0"
proof -
  obtain c d where "conf_load sample_host ''marlin.conf'' CONF_LOAD_FULL True conf_diag_reset = (Some c, d)" using sample_load by blast
  then show ?thesis
    using conf_load_reports [of conf_diag_reset sample_host "''marlin.conf''" True]
    by (simp add: conf_diag_reset_def MARLIN_CONF_DIAG_MAX_def)
qed

definition packed_flags :: "bool \<Rightarrow> bool \<Rightarrow> bool \<Rightarrow> bool \<Rightarrow> bool \<Rightarrow> u32 \<Rightarrow> u32 \<Rightarrow> u32" where
  "packed_flags a r h p q c d = (if a then VIP_ACL else 0) OR (if r then VIP_RATELIMIT else 0) OR (if h then VIP_HASH_5TUPLE else 0) OR
     (if p then VIP_HASH_PORTS else 0) OR (if q then VIP_QUIC else 0) OR
     (push_bit 8 c AND VIP_QUIC_CID_LEN_MASK) OR (push_bit 16 d AND VIP_DSCP_MASK)"

lemma bit_packed_flags:
  assumes "n < 32"
  shows "bit (packed_flags a r h p q c d) n \<longleftrightarrow> (a \<and> n = 0) \<or> (r \<and> n = 1) \<or> (h \<and> n = 2) \<or> (p \<and> n = 4) \<or> (q \<and> n = 3) \<or>
    (8 \<le> n \<and> n < 13 \<and> bit c (n - 8)) \<or> (16 \<le> n \<and> n < 22 \<and> bit d (n - 16))"
proof -
  have exp: "bit (2 ^ m :: u32) n \<longleftrightarrow> n = m" for m using assms by (auto simp: bit_exp_iff)
  have field: "bit (push_bit s w AND push_bit s (mask k)) n \<longleftrightarrow> s \<le> n \<and> n < s + k \<and> bit w (n - s)" for s k and w :: u32
    using assms by (auto simp: bit_and_iff bit_push_bit_iff bit_mask_iff)
  have cond: "bit (if b then w else 0) n \<longleftrightarrow> b \<and> bit w n" for b and w :: u32 by simp
  have lit: "VIP_ACL = 2 ^ 0" "VIP_RATELIMIT = 2 ^ 1" "VIP_HASH_5TUPLE = 2 ^ 2" "VIP_HASH_PORTS = 2 ^ 4" "VIP_QUIC = 2 ^ 3"
    "VIP_QUIC_CID_LEN_MASK = push_bit 8 (mask 5)" "VIP_DSCP_MASK = push_bit 16 (mask 6)"
    by (simp_all add: VIP_QUIC_CID_LEN_MASK_def VIP_DSCP_MASK_def mask_eq_exp_minus_1)
  show ?thesis
    unfolding packed_flags_def lit bit_or_iff cond exp field by (simp add: disj_assoc)
qed

lemma packed_flags_fields:
  "VIP_QUIC_CID_LEN (packed_flags a r h p q c d) = take_bit 5 c" "VIP_DSCP (packed_flags a r h p q c d) = take_bit 6 d"
proof -
  have m: "VIP_QUIC_CID_LEN_MASK = push_bit 8 (mask 5)" "VIP_DSCP_MASK = push_bit 16 (mask 6)"
    by (simp_all add: VIP_QUIC_CID_LEN_MASK_def VIP_DSCP_MASK_def mask_eq_exp_minus_1)
  show "VIP_QUIC_CID_LEN (packed_flags a r h p q c d) = take_bit 5 c"
    unfolding VIP_QUIC_CID_LEN_def m
    by (rule bit_word_eqI) (auto simp: bit_drop_bit_eq bit_and_iff bit_push_bit_iff bit_mask_iff bit_take_bit_iff bit_packed_flags)
  show "VIP_DSCP (packed_flags a r h p q c d) = take_bit 6 d"
    unfolding VIP_DSCP_def m
    by (rule bit_word_eqI) (auto simp: bit_drop_bit_eq bit_and_iff bit_push_bit_iff bit_mask_iff bit_take_bit_iff bit_packed_flags)
qed

lemma packed_flags_bits:
  "packed_flags a r h p q c d AND VIP_ACL \<noteq> 0 \<longleftrightarrow> a" "packed_flags a r h p q c d AND VIP_RATELIMIT \<noteq> 0 \<longleftrightarrow> r"
  "packed_flags a r h p q c d AND VIP_HASH_5TUPLE \<noteq> 0 \<longleftrightarrow> h" "packed_flags a r h p q c d AND VIP_HASH_PORTS \<noteq> 0 \<longleftrightarrow> p"
  "packed_flags a r h p q c d AND VIP_QUIC \<noteq> 0 \<longleftrightarrow> q"
proof -
  have lit: "VIP_ACL = 2 ^ 0" "VIP_RATELIMIT = 2 ^ 1" "VIP_HASH_5TUPLE = 2 ^ 2" "VIP_HASH_PORTS = 2 ^ 4" "VIP_QUIC = 2 ^ 3"
    by simp_all
  have nz: "w AND 2 ^ n \<noteq> 0 \<longleftrightarrow> bit w n" if "n < 32" for w :: u32 and n
    using that by (metis and_exp_eq_0_iff_not_bit)
  show "packed_flags a r h p q c d AND VIP_ACL \<noteq> 0 \<longleftrightarrow> a" "packed_flags a r h p q c d AND VIP_RATELIMIT \<noteq> 0 \<longleftrightarrow> r"
    "packed_flags a r h p q c d AND VIP_HASH_5TUPLE \<noteq> 0 \<longleftrightarrow> h" "packed_flags a r h p q c d AND VIP_HASH_PORTS \<noteq> 0 \<longleftrightarrow> p"
    "packed_flags a r h p q c d AND VIP_QUIC \<noteq> 0 \<longleftrightarrow> q"
    unfolding lit by (simp_all only: nz [of 0] nz [of 1] nz [of 2] nz [of 3] nz [of 4]) (simp_all add: nz bit_packed_flags)
qed
text \<open>C32: The flags of a VIP survive the packing. When the flags of a VIP are read without complaint,
  every flag bit is set just when the file sets its key to true, and the two numeric fields read
  back, with the data plane's own accessors, as the numbers in the file: neither field disturbs the
  other or the flags.\<close>

theorem vip_flags_roundtrip:
  assumes "diag_count d < MARLIN_CONF_DIAG_MAX" "run_state (parse_vip_flag_bits tab zero_conf_vip) d = (v, d')"
    and "diag_count d' = diag_count d"
  shows "uint (VIP_QUIC_CID_LEN (vm_flags (cv_meta v))) = int_in tab ''quic_cid_len'' \<and>
    uint (VIP_DSCP (vm_flags (cv_meta v))) = int_in tab ''dscp'' \<and>
    (vm_flags (cv_meta v) AND VIP_ACL \<noteq> 0 \<longleftrightarrow> toml_get tab ''acl'' = TOML_BOOLEAN True) \<and>
    (vm_flags (cv_meta v) AND VIP_RATELIMIT \<noteq> 0 \<longleftrightarrow> toml_get tab ''ratelimit'' = TOML_BOOLEAN True) \<and>
    (vm_flags (cv_meta v) AND VIP_HASH_5TUPLE \<noteq> 0 \<longleftrightarrow> toml_get tab ''hash_5tuple'' = TOML_BOOLEAN True) \<and>
    (vm_flags (cv_meta v) AND VIP_HASH_PORTS \<noteq> 0 \<longleftrightarrow> toml_get tab ''hash_ports'' = TOML_BOOLEAN True) \<and>
    (vm_flags (cv_meta v) AND VIP_QUIC \<noteq> 0 \<longleftrightarrow> toml_get tab ''quic'' = TOML_BOOLEAN True)"
proof -
  let ?F = "packed_flags (toml_get tab ''acl'' = TOML_BOOLEAN True) (toml_get tab ''ratelimit'' = TOML_BOOLEAN True)
     (toml_get tab ''hash_5tuple'' = TOML_BOOLEAN True) (toml_get tab ''hash_ports'' = TOML_BOOLEAN True)
     (toml_get tab ''quic'' = TOML_BOOLEAN True) (word_of_int (int_in tab ''quic_cid_len'')) (word_of_int (int_in tab ''dscp''))"
  have *: "vm_flags (cv_meta v) = ?F"
      "0 \<le> int_in tab ''quic_cid_len''" "int_in tab ''quic_cid_len'' \<le> 31" "0 \<le> int_in tab ''dscp''" "int_in tab ''dscp'' \<le> 63"
    using parsesD [OF vip_flag_bits_parses assms(2,1,3)]
    by (simp_all add: packed_flags_def flag_in_def zero_conf_vip_def or.assoc del: VIP_ACL_def VIP_RATELIMIT_def VIP_HASH_5TUPLE_def
         VIP_HASH_PORTS_def VIP_QUIC_def)
  have "uint (take_bit n (word_of_int i :: u32)) = i" if "0 \<le> i" "i < 2 ^ n" "n < 32" for i n
  proof -
    have "i < 2 ^ 32" using that by (smt (verit) power_strict_increasing_iff)
    then show ?thesis using that by (simp add: unsigned_take_bit_eq uint_word_of_int_eq take_bit_int_eq_self)
  qed
  from this [of "int_in tab ''quic_cid_len''" 5] this [of "int_in tab ''dscp''" 6]
  show ?thesis unfolding *(1) packed_flags_fields packed_flags_bits using *(2-5) by simp
qed

theorem vip_flags_roundtrip_witness:
  "let v = fst (run_state (parse_vip_flag_bits (TOML_TABLE [(''quic'', TOML_BOOLEAN True), (''quic_cid_len'', TOML_INT64 8),
     (''dscp'', TOML_INT64 46)]) zero_conf_vip) conf_diag_reset)
   in VIP_QUIC_CID_LEN (vm_flags (cv_meta v)) = 8 \<and> VIP_DSCP (vm_flags (cv_meta v)) = 46 \<and> vm_flags (cv_meta v) AND VIP_QUIC \<noteq> 0 \<and>
      vm_flags (cv_meta v) AND VIP_ACL = 0"
proof -
  let ?t = "TOML_TABLE [(''quic'', TOML_BOOLEAN True), (''quic_cid_len'', TOML_INT64 8), (''dscp'', TOML_INT64 46)]"
  obtain v d where run: "run_state (parse_vip_flag_bits ?t zero_conf_vip) conf_diag_reset = (v, d)" by (metis surj_pair)
  have "d = conf_diag_reset"
    using run by (simp add: parse_vip_flag_bits_def set_field_def accessor_defs Let_def)
  moreover have "toml_get ?t ''quic'' = TOML_BOOLEAN True" "toml_get ?t ''acl'' = TOML_UNKNOWN" "int_in ?t ''quic_cid_len'' = 8" "int_in ?t ''dscp'' = 46"
    by (simp_all add: toml_get_def cstr_def int_in_def)
  moreover have "w = numeral n" if "uint w = numeral n" for w :: u32 and n using that by (metis word_of_int_numeral word_of_int_uint)
  ultimately show ?thesis
    using vip_flags_roundtrip [OF _ run] unfolding run
    by (simp add: Let_def conf_diag_reset_def MARLIN_CONF_DIAG_MAX_def del: VIP_ACL_def VIP_QUIC_def)
qed

end
