(* ===== verification/Marlind_Fwd_Gen.thy ===== *)
theory Marlind_Fwd_Gen
  imports Marlin_Hash
begin

text \<open>
  Generation of a forwarding-table block by weighted rendezvous hashing (\<^verbatim>\<open>fwd_gen.c\<close>).

  The equal-weight path compares 64-bit digests and is modelled on words. The weighted path compares
  C doubles; their arithmetic is a parameter, a record of the operations the code applies, over a
  linearly ordered type of values (no score is a NaN, since a weight is at least one and the
  argument of the logarithm is positive). The scores are written with these operations as the code
  writes them, and nothing is assumed of them, so the theorems hold for every rounding.
\<close>

section \<open>Definitions\<close>

record fwd_gen_member =
  fg_backend_id :: u16
  fg_weight :: u32
  fg_addr :: u32
  fg_vni :: u32
  fg_inner_mac :: mac

record 'f fpu =
  fp_of_u64 :: "u64 \<Rightarrow> 'f"
  fp_of_u32 :: "u32 \<Rightarrow> 'f"
  fp_two53 :: 'f
  fp_div :: "'f \<Rightarrow> 'f \<Rightarrow> 'f"
  fp_log :: "'f \<Rightarrow> 'f"

definition build_row_buf :: "u32 \<Rightarrow> bytes" where
  "build_row_buf row_index =
    (let buf = replicate 8 0;
         buf = buf[0 := ucast (row_index AND 0xff)];
         buf = buf[1 := ucast (drop_bit 8 row_index AND 0xff)];
         buf = buf[2 := ucast (drop_bit 16 row_index AND 0xff)]
     in buf[3 := ucast (drop_bit 24 row_index AND 0xff)])"

definition build_score_buf :: "u64 \<Rightarrow> fwd_gen_member \<Rightarrow> bytes" where
  "build_score_buf row_seed member =
     map (\<lambda>k. ucast (drop_bit (8 * k) row_seed)) [0..<8] @ le_bytes 4 (fg_addr member) @
     [ucast (fg_vni member AND 0xff), ucast (drop_bit 8 (fg_vni member) AND 0xff),
      ucast (drop_bit 16 (fg_vni member) AND 0xff), 0] @ le_bytes 6 (fg_inner_mac member) @ [0, 0]"

definition normalise :: "'f fpu \<Rightarrow> u64 \<Rightarrow> 'f" where
  "normalise fp digest = fp_div fp (fp_of_u64 fp (drop_bit 11 digest + 1)) (fp_two53 fp)"

text \<open>The digest of a member in a row, and its score.\<close>

definition member_digest :: "bytes \<Rightarrow> u64 \<Rightarrow> fwd_gen_member \<Rightarrow> u64" where
  "member_digest table_seed row_seed member = marlind_siphash (build_score_buf row_seed member) 24 table_seed"

definition member_score :: "'f fpu \<Rightarrow> bytes \<Rightarrow> u64 \<Rightarrow> fwd_gen_member \<Rightarrow> 'f" where
  "member_score fp table_seed row_seed member =
     fp_div fp (fp_log fp (normalise fp (member_digest table_seed row_seed member))) (fp_of_u32 fp (fg_weight member))"

text \<open>The two loops from index \<open>i\<close> on.\<close>

fun pick_equal_loop :: "bytes \<Rightarrow> u64 \<Rightarrow> nat \<Rightarrow> u64 \<Rightarrow> u16 \<Rightarrow> fwd_gen_member list \<Rightarrow> u16" where
  "pick_equal_loop table_seed row_seed i best_digest best_id [] = best_id"
| "pick_equal_loop table_seed row_seed i best_digest best_id (m # ms) =
    (let digest = member_digest table_seed row_seed m in
     if i = 0 \<or> digest > best_digest \<or> (digest = best_digest \<and> fg_backend_id m < best_id)
     then pick_equal_loop table_seed row_seed (i + 1) digest (fg_backend_id m) ms
     else pick_equal_loop table_seed row_seed (i + 1) best_digest best_id ms)"

definition pick_row_equal_weight :: "bytes \<Rightarrow> u64 \<Rightarrow> fwd_gen_member list \<Rightarrow> u16" where
  "pick_row_equal_weight table_seed row_seed members =
     pick_equal_loop table_seed row_seed 0 0 (ucast MARLIN_NO_BACKEND) members"

fun pick_weighted_loop :: "'f::linorder fpu \<Rightarrow> bytes \<Rightarrow> u64 \<Rightarrow> nat \<Rightarrow> 'f \<Rightarrow> u16 \<Rightarrow> fwd_gen_member list \<Rightarrow> u16" where
  "pick_weighted_loop fp table_seed row_seed i best_score best_id [] = best_id"
| "pick_weighted_loop fp table_seed row_seed i best_score best_id (m # ms) =
    (let score = member_score fp table_seed row_seed m in
     if i = 0 \<or> score > best_score \<or> (score = best_score \<and> fg_backend_id m < best_id)
     then pick_weighted_loop fp table_seed row_seed (i + 1) score (fg_backend_id m) ms
     else pick_weighted_loop fp table_seed row_seed (i + 1) best_score best_id ms)"

definition pick_row_weighted :: "'f::linorder fpu \<Rightarrow> bytes \<Rightarrow> u64 \<Rightarrow> fwd_gen_member list \<Rightarrow> u16" where
  "pick_row_weighted fp table_seed row_seed members =
     pick_weighted_loop fp table_seed row_seed 0 (fp_of_u64 fp 0) (ucast MARLIN_NO_BACKEND) members"

definition equal_weights :: "fwd_gen_member list \<Rightarrow> bool" where
  "equal_weights members \<longleftrightarrow> \<not> (\<exists>m \<in> set (drop 1 members). fg_weight m \<noteq> fg_weight (members ! 0))"

definition fwd_gen_row :: "'f::linorder fpu \<Rightarrow> bytes \<Rightarrow> fwd_gen_member list \<Rightarrow> u32 \<Rightarrow> u32" where
  "fwd_gen_row fp table_seed members row =
    (let row_seed = marlind_siphash (build_row_buf row) 8 table_seed in
     if equal_weights members then ucast (pick_row_equal_weight table_seed row_seed members)
     else ucast (pick_row_weighted fp table_seed row_seed members))"

definition fwd_gen_block :: "'f::linorder fpu \<Rightarrow> bytes \<Rightarrow> fwd_gen_member list \<Rightarrow> u32 list" where
  "fwd_gen_block fp table_seed members =
    (if members = [] then replicate (unat TABLE_SIZE) 0
     else map (\<lambda>row. fwd_gen_row fp table_seed members (of_nat row)) [0..<unat TABLE_SIZE])"

section \<open>The contract of a row\<close>

text \<open>
  A row goes to the member with the highest score, the lowest identifier among equals. All that
  matters of the table follows from that: the order of the members is irrelevant, and a change of
  membership moves only the rows it must.
\<close>

locale rendezvous =
  fixes pick :: "'m list \<Rightarrow> 'i::linorder" and score :: "'m \<Rightarrow> 's::linorder" and ident :: "'m \<Rightarrow> 'i"
  assumes pick_best: "ms \<noteq> [] \<Longrightarrow> \<exists>m \<in> set ms. pick ms = ident m \<and>
    (\<forall>m' \<in> set ms. score m' < score m \<or> score m' = score m \<and> ident m \<le> ident m')"
begin

lemma pick_mem: "ms \<noteq> [] \<Longrightarrow> pick ms \<in> ident ` set ms"
  using pick_best by fastforce

lemma pick_unique:
  assumes "m \<in> set ms" "\<And>m'. m' \<in> set ms \<Longrightarrow> score m' < score m \<or> score m' = score m \<and> ident m \<le> ident m'"
  shows "pick ms = ident m"
proof -
  obtain b where "b \<in> set ms" "pick ms = ident b" "score m < score b \<or> score m = score b \<and> ident b \<le> ident m"
    using pick_best [of ms] assms(1) by (metis list.set_cases list.discI)
  then show ?thesis using assms(2) [of b] by auto
qed

lemma pick_set: "set ms = set ms' \<Longrightarrow> ms \<noteq> [] \<Longrightarrow> pick ms = pick ms'"
proof -
  assume eq: "set ms = set ms'" and "ms \<noteq> []"
  obtain b where "b \<in> set ms" "pick ms = ident b" "\<forall>m' \<in> set ms. score m' < score b \<or> score m' = score b \<and> ident b \<le> ident m'"
    using pick_best [OF \<open>ms \<noteq> []\<close>] by blast
  then show ?thesis using pick_unique [of b ms'] eq by simp
qed

lemma pick_subset:
  assumes "set ms' \<subseteq> set ms" "pick ms = ident b" "b \<in> set ms'" "b \<in> set ms"
    and "\<forall>m' \<in> set ms. score m' < score b \<or> score m' = score b \<and> ident b \<le> ident m'"
  shows "pick ms' = pick ms"
  using pick_unique [of b ms'] assms by auto

lemma pick_remove:
  assumes "set ms' \<subseteq> set ms" "ms' \<noteq> []" "\<And>m. m \<in> set ms \<Longrightarrow> ident m = pick ms \<Longrightarrow> m \<in> set ms'"
  shows "pick ms' = pick ms"
proof -
  have "ms \<noteq> []" using assms(1,2) by auto
  then obtain b where "b \<in> set ms" "pick ms = ident b" "\<forall>m' \<in> set ms. score m' < score b \<or> score m' = score b \<and> ident b \<le> ident m'"
    using pick_best by blast
  then show ?thesis using pick_subset [of ms' ms b] assms by auto
qed

lemma pick_add:
  assumes "ms \<noteq> []"
  shows "pick (m # ms) = pick ms \<or> pick (m # ms) = ident m"
proof -
  obtain b where b: "b \<in> set (m # ms)" "pick (m # ms) = ident b"
    "\<forall>m' \<in> set (m # ms). score m' < score b \<or> score m' = score b \<and> ident b \<le> ident m'"
    using pick_best [of "m # ms"] by blast
  show ?thesis
  proof (cases "b \<in> set ms")
    case True
    then have "pick ms = ident b" using b(3) by (intro pick_unique) auto
    then show ?thesis using b(2) by simp
  qed (use b in simp)
qed

end

text \<open>A running maximum, and the two loops as instances of it.\<close>

fun best_loop :: "('m \<Rightarrow> 's::linorder) \<Rightarrow> ('m \<Rightarrow> 'i::linorder) \<Rightarrow> 's \<Rightarrow> 'i \<Rightarrow> 'm list \<Rightarrow> 'i" where
  "best_loop score ident s b [] = b"
| "best_loop score ident s b (m # ms) =
    (if score m > s \<or> (score m = s \<and> ident m < b) then best_loop score ident (score m) (ident m) ms
     else best_loop score ident s b ms)"

lemma best_loop_best:
  "\<exists>m \<in> set (b # ms). best_loop score ident (score b) (ident b) ms = ident m \<and>
    (\<forall>m' \<in> set (b # ms). score m' < score m \<or> score m' = score m \<and> ident m \<le> ident m')"
proof (induction ms arbitrary: b)
  case (Cons x xs)
  let ?take = "score x > score b \<or> (score x = score b \<and> ident x < ident b)"
  let ?b = "if ?take then x else b"
  obtain m where m: "m \<in> set (?b # xs)" "best_loop score ident (score ?b) (ident ?b) xs = ident m"
    "\<forall>m' \<in> set (?b # xs). score m' < score m \<or> score m' = score m \<and> ident m \<le> ident m'"
    using Cons [of ?b] by blast
  have "best_loop score ident (score b) (ident b) (x # xs) = ident m" using m(2) by auto
  moreover have "score m' < score m \<or> score m' = score m \<and> ident m \<le> ident m'" if "m' \<in> {x, b}" for m'
    using m(3) [rule_format, of ?b] that by (auto split: if_splits)
  moreover have "m \<in> set (b # x # xs)" using m(1) by (auto split: if_splits)
  ultimately show ?case using m(3) by (intro bexI [of _ m]) auto
qed auto

lemma equal_loop_best:
  "0 < i \<Longrightarrow> pick_equal_loop seed row i s b ms = best_loop (member_digest seed row) fg_backend_id s b ms"
  by (induction ms arbitrary: i s b) (auto simp: Let_def)

lemma weighted_loop_best:
  "0 < i \<Longrightarrow> pick_weighted_loop fp seed row i s b ms = best_loop (member_score fp seed row) fg_backend_id s b ms"
  by (induction ms arbitrary: i s b) (auto simp: Let_def)

interpretation equal: rendezvous "pick_row_equal_weight seed row" "member_digest seed row" fg_backend_id
  for seed row
proof
  fix ms :: "fwd_gen_member list" assume "ms \<noteq> []"
  then obtain b xs where "ms = b # xs" by (cases ms) auto
  then show "\<exists>m \<in> set ms. pick_row_equal_weight seed row ms = fg_backend_id m \<and>
      (\<forall>m' \<in> set ms. member_digest seed row m' < member_digest seed row m \<or>
         member_digest seed row m' = member_digest seed row m \<and> fg_backend_id m \<le> fg_backend_id m')"
    using best_loop_best [of b xs "member_digest seed row" fg_backend_id]
    by (simp add: pick_row_equal_weight_def equal_loop_best Let_def)
qed

interpretation weighted: rendezvous "pick_row_weighted fp seed row" "member_score fp seed row" fg_backend_id
  for fp :: "'f::linorder fpu" and seed row
proof
  fix ms :: "fwd_gen_member list" assume "ms \<noteq> []"
  then obtain b xs where "ms = b # xs" by (cases ms) auto
  then show "\<exists>m \<in> set ms. pick_row_weighted fp seed row ms = fg_backend_id m \<and>
      (\<forall>m' \<in> set ms. member_score fp seed row m' < member_score fp seed row m \<or>
         member_score fp seed row m' = member_score fp seed row m \<and> fg_backend_id m \<le> fg_backend_id m')"
    using best_loop_best [of b xs "member_score fp seed row" fg_backend_id]
    by (simp add: pick_row_weighted_def weighted_loop_best Let_def)
qed

section \<open>Properties of a block\<close>

lemma equal_weights_iff: "ms \<noteq> [] \<Longrightarrow> equal_weights ms \<longleftrightarrow> (\<forall>a\<in>set ms. \<forall>b\<in>set ms. fg_weight a = fg_weight b)"
  by (cases ms) (auto simp: equal_weights_def)

lemma length_fwd_gen_block [simp]: "length (fwd_gen_block fp seed ms) = unat TABLE_SIZE"
  by (simp add: fwd_gen_block_def del: TABLE_SIZE_def)

lemma nth_fwd_gen_block:
  "row < unat TABLE_SIZE \<Longrightarrow> ms \<noteq> [] \<Longrightarrow> fwd_gen_block fp seed ms ! row = fwd_gen_row fp seed ms (of_nat row)"
  by (simp add: fwd_gen_block_def del: TABLE_SIZE_def)

text \<open>The table does not depend on the order or the repetition of the members: two instances that
  know the same set of members and the same seed compute the same block, row by row.\<close>

theorem fwd_gen_block_agrees:
  assumes "set ms = set ms'"
  shows "fwd_gen_block fp seed ms = fwd_gen_block fp seed ms'"
proof (cases "ms = []")
  case False
  then have ne: "ms' \<noteq> []" using assms by auto
  have "equal_weights ms = equal_weights ms'" using False ne assms by (simp add: equal_weights_iff)
  then have "fwd_gen_row fp seed ms row = fwd_gen_row fp seed ms' row" for row
    using equal.pick_set [OF assms False, of seed] weighted.pick_set [OF assms False, of fp seed]
    by (simp add: fwd_gen_row_def Let_def)
  then show ?thesis using False ne by (simp add: fwd_gen_block_def)
qed (use assms in \<open>simp add: fwd_gen_block_def\<close>)

text \<open>Concrete values: three members, and integers for doubles.\<close>

definition sample_member :: "u16 \<Rightarrow> fwd_gen_member" where
  "sample_member n = \<lparr>fg_backend_id = n, fg_weight = 1, fg_addr = ucast n, fg_vni = 0, fg_inner_mac = 0\<rparr>"

definition int_fpu :: "int fpu" where
  "int_fpu = \<lparr>fp_of_u64 = uint, fp_of_u32 = uint, fp_two53 = 2 ^ 53, fp_div = (div), fp_log = (\<lambda>x. x)\<rparr>"

theorem fwd_gen_block_agrees_witness:
  "fwd_gen_block int_fpu (replicate 16 0) [sample_member 1, sample_member 2] =
   fwd_gen_block int_fpu (replicate 16 0) [sample_member 2, sample_member 1, sample_member 2]"
  using fwd_gen_block_agrees [of "[sample_member 1, sample_member 2]" "[sample_member 2, sample_member 1, sample_member 2]"
      int_fpu "replicate 16 0"]
  by (simp add: insert_commute)

text \<open>C18: A change of membership moves only the rows it must. Every row goes to one of the members.
  When members are removed, a row whose backend stays keeps it; when one is added, a row keeps its
  backend or goes to the new one. (Membership changes that also change whether all weights are
  equal switch between the two scores and are excluded.)\<close>

theorem fwd_gen_minimal_disruption:
  assumes row: "row < unat TABLE_SIZE" and sub: "set ms' \<subseteq> set ms" and ne: "ms' \<noteq> []"
    and mode: "equal_weights ms' = equal_weights ms"
  shows "fwd_gen_block fp seed ms ! row \<in> (\<lambda>m. ucast (fg_backend_id m)) ` set ms \<and>
    ((\<forall>m\<in>set ms. ucast (fg_backend_id m) = fwd_gen_block fp seed ms ! row \<longrightarrow> m \<in> set ms') \<longrightarrow>
       fwd_gen_block fp seed ms' ! row = fwd_gen_block fp seed ms ! row) \<and>
    (\<forall>m. ms = m # ms' \<longrightarrow> fwd_gen_block fp seed ms ! row \<in> {fwd_gen_block fp seed ms' ! row, ucast (fg_backend_id m)})"
proof -
  have ne': "ms \<noteq> []" using sub ne by auto
  let ?seed = "marlind_siphash (build_row_buf (of_nat row)) 8 seed"
  define pick where "pick = (if equal_weights ms then pick_row_equal_weight seed ?seed else pick_row_weighted fp seed ?seed)"
  have block: "fwd_gen_block fp seed ms ! row = ucast (pick ms)" "fwd_gen_block fp seed ms' ! row = ucast (pick ms')"
    using nth_fwd_gen_block [OF row ne', of fp seed] nth_fwd_gen_block [OF row ne, of fp seed] mode
    by (simp_all add: pick_def fwd_gen_row_def Let_def)
  have inj: "(ucast (a :: u16) :: u32) = ucast b \<longleftrightarrow> a = b" for a b
    by (simp add: word_unat_eq_iff unat_ucast_up_le)
  have "pick ms \<in> fg_backend_id ` set ms"
    using equal.pick_mem [OF ne', of seed ?seed] weighted.pick_mem [OF ne', of fp seed ?seed] by (simp add: pick_def)
  moreover have "pick ms' = pick ms" if "\<And>m. m \<in> set ms \<Longrightarrow> fg_backend_id m = pick ms \<Longrightarrow> m \<in> set ms'"
    using equal.pick_remove [OF sub ne, of seed ?seed] weighted.pick_remove [OF sub ne, of fp seed ?seed] that
    by (simp add: pick_def split: if_splits)
  moreover have "pick ms = pick ms' \<or> pick ms = fg_backend_id m" if "ms = m # ms'" for m
    using equal.pick_add [OF ne, of seed ?seed m] weighted.pick_add [OF ne, of fp seed ?seed m] that
    by (simp add: pick_def split: if_splits)
  ultimately show ?thesis unfolding block by (auto simp: inj)
qed

theorem fwd_gen_minimal_disruption_witness:
  "fwd_gen_block int_fpu (replicate 16 0) [sample_member 3, sample_member 1] ! 7 \<in>
    {fwd_gen_block int_fpu (replicate 16 0) [sample_member 1] ! 7, 3}"
proof -
  have "equal_weights [sample_member 3, sample_member 1]" "equal_weights [sample_member 1]"
    by (simp_all add: equal_weights_def sample_member_def)
  then show ?thesis
    using fwd_gen_minimal_disruption [of 7 "[sample_member 1]" "[sample_member 3, sample_member 1]" int_fpu "replicate 16 0"]
    by (simp add: sample_member_def [of 3])
qed

end
