(* ===== verification/Marlind_Reconcile.thy ===== *)
theory Marlind_Reconcile
  imports Marlind_Conf_Load Marlind_Fwd_Gen
begin

text \<open>
  Bringing the live maps to a configuration (\<^verbatim>\<open>reconcile.c\<close>). The daemon changes one map element
  per system call while packets are being forwarded, so the state keeps, besides the maps and the
  diagnostics, the list of all the contents the maps have had. Every call may fail. What the kernel
  decides (which calls fail, how far a batch gets, the order in which keys are enumerated) is a
  parameter.
\<close>

section \<open>The system and the state\<close>

record sys =
  sys_map_fd :: "string \<Rightarrow> int option"
  sys_error :: "nat \<Rightarrow> bool"
  sys_batch :: "nat \<Rightarrow> nat"
  sys_next_error :: "nat \<Rightarrow> bool"
  sys_vip_keys :: "(vip_key \<rightharpoonup> vip_meta) \<Rightarrow> vip_key list"
  sys_tx_keys :: "(u32 \<rightharpoonup> u32) \<Rightarrow> u32 list"
  sys_acl4_keys :: "(acl_key4 \<rightharpoonup> u32) \<Rightarrow> acl_key4 list"
  sys_acl6_keys :: "(acl_key6 \<rightharpoonup> u32) \<Rightarrow> acl_key6 list"
  sys_stack :: "u16 \<Rightarrow> u16"
  sys_socket :: bool

record rc =
  rc_maps :: bpf_maps
  rc_diag :: conf_diag
  rc_ops :: nat
  rc_trace :: "bpf_maps list"

type_synonym 'a rcm = "(rc, 'a) state"

definition rc_report :: "string \<Rightarrow> unit rcm" where
  "rc_report fmt = State (\<lambda>s. ((), s\<lparr>rc_diag := conf_diag_add fmt (rc_diag s)\<rparr>))"

text \<open>A system call that writes a map: it fails for a reason of the kernel's, or because the change
  is not possible, and otherwise the maps have new contents.\<close>

definition syscall :: "sys \<Rightarrow> (bpf_maps \<Rightarrow> bpf_maps option) \<Rightarrow> bool rcm" where
  "syscall sys f = State (\<lambda>s.
     case (if sys_error sys (rc_ops s) then None else f (rc_maps s)) of
       None \<Rightarrow> (False, s\<lparr>rc_ops := rc_ops s + 1\<rparr>)
     | Some m \<Rightarrow> (True, s\<lparr>rc_maps := m, rc_ops := rc_ops s + 1, rc_trace := rc_trace s @ [m]\<rparr>))"

definition or_report :: "bool rcm \<Rightarrow> string \<Rightarrow> bool rcm" where
  "or_report call fmt = do { ok \<leftarrow> call; if ok then State_Monad.return True else do { rc_report fmt; State_Monad.return False } }"

definition and_then :: "bool rcm \<Rightarrow> bool rcm \<Rightarrow> bool rcm" where
  "and_then a b = do { ok \<leftarrow> a; if ok then b else State_Monad.return False }"

fun all_ok :: "('a \<Rightarrow> bool rcm) \<Rightarrow> 'a list \<Rightarrow> bool rcm" where
  "all_ok f [] = State_Monad.return True"
| "all_ok f (x # xs) = and_then (f x) (all_ok f xs)"

text \<open>Array maps have a fixed set of indices; deleting an absent key of a hash reports \<^verbatim>\<open>ENOENT\<close>, which
  every caller takes for success.\<close>

definition array_set :: "u32 \<Rightarrow> 'v \<Rightarrow> (u32 \<rightharpoonup> 'v) \<Rightarrow> (u32 \<rightharpoonup> 'v) option" where
  "array_set k v m = (if m k = None then None else Some (m(k \<mapsto> v)))"

text \<open>A hash or a trie holds so many elements: a new key needs a free one.\<close>

definition has_room :: "nat \<Rightarrow> 'k \<Rightarrow> ('k \<rightharpoonup> 'v) \<Rightarrow> bool" where
  "has_room n k m \<longleftrightarrow> m k \<noteq> None \<or> card (dom m) < n"

text \<open>The keys \<^verbatim>\<open>bpf_map_get_next_key\<close> returns before its first error.\<close>

definition readable :: "sys \<Rightarrow> 'k list \<Rightarrow> 'k list" where
  "readable sys ks = map snd (takeWhile (\<lambda>(i, _). \<not> sys_next_error sys i) (enumerate 0 ks))"

section \<open>Maps and forwarding blocks\<close>

definition find_map_fd :: "sys \<Rightarrow> string \<Rightarrow> int rcm" where
  "find_map_fd sys name =
    (case sys_map_fd sys name of
       None \<Rightarrow> do { rc_report ''no such map: %s (was marlin.bpf.o built from the same ABI as this marlind?)''; State_Monad.return (- 1) }
     | Some fd \<Rightarrow>
         if fd < 0 then do { rc_report ''map %s has no open file descriptor''; State_Monad.return fd }
         else State_Monad.return fd)"

definition open_maps :: "sys \<Rightarrow> bool rcm" where
  "open_maps sys = do {
     fds \<leftarrow> State_Monad.traverse_list (find_map_fd sys)
       [''config'', ''backends'', ''fwd_table'', ''vip_map'', ''tx_ports'', ''acl_allow_v4'', ''acl_block_v4'', ''acl_allow_v6'', ''acl_block_v6''];
     State_Monad.return (list_all (\<lambda>fd. fd \<ge> 0) fds) }"

definition fwd_elem :: "u32 \<Rightarrow> u32 \<Rightarrow> bpf_maps \<Rightarrow> bpf_maps option" where
  "fwd_elem k v m = map_option (\<lambda>t. m\<lparr>m_fwd_table := t\<rparr>) (array_set k v (m_fwd_table m))"

definition fwd_batch :: "sys \<Rightarrow> u32 \<Rightarrow> u32 list \<Rightarrow> bool rcm" where
  "fwd_batch sys base values = do {
     s \<leftarrow> State_Monad.get;
     let n = min (sys_batch sys (rc_ops s)) (unat TABLE_SIZE);
     and_then (all_ok (\<lambda>i. syscall sys (fwd_elem (base + of_nat i) (values ! i))) [0..<n])
       (State_Monad.return (n = unat TABLE_SIZE)) }"

definition write_fwd_block :: "host \<Rightarrow> sys \<Rightarrow> u32 \<Rightarrow> u32 list \<Rightarrow> bool rcm" where
  "write_fwd_block h sys vip_num values = do {
     s \<leftarrow> State_Monad.get;
     if \<not> h_alloc h ''fwd keys'' (rc_ops s) then do { rc_report ''out of memory writing fwd_table[%u]''; State_Monad.return False }
     else do {
       let base = vip_num * TABLE_SIZE;
       done \<leftarrow> fwd_batch sys base values;
       if done then State_Monad.return True
       else all_ok (\<lambda>i. or_report (syscall sys (fwd_elem (base + of_nat i) (values ! i))) ''fwd_table[%u]: %s'') [0..<unat TABLE_SIZE] } }"

definition zero_fwd_block :: "host \<Rightarrow> sys \<Rightarrow> u32 \<Rightarrow> bool rcm" where
  "zero_fwd_block h sys vip_num = do {
     s \<leftarrow> State_Monad.get;
     if \<not> h_alloc h ''zeros'' (rc_ops s) then do { rc_report ''out of memory zeroing fwd_table[%u]''; State_Monad.return False }
     else write_fwd_block h sys vip_num (replicate (unat TABLE_SIZE) 0) }"

section \<open>VIP numbers\<close>

text \<open>One row at a time; the result is the baseline, or nothing after an error.\<close>

fun read_baseline_loop :: "sys \<Rightarrow> (vip_key \<rightharpoonup> vip_meta) \<Rightarrow> nat \<Rightarrow> vip_key list \<Rightarrow> vip_alloc_baseline list option rcm" where
  "read_baseline_loop sys vm count [] =
    (if sys_next_error sys count then do { rc_report ''reading vip_map keys: %s''; State_Monad.return None } else State_Monad.return (Some []))"
| "read_baseline_loop sys vm count (k # ks) =
    (if sys_next_error sys count then do { rc_report ''reading vip_map keys: %s''; State_Monad.return None }
     else if count = max_vips then do { rc_report ''vip_map baseline exceeds MAX_VIPS (%u)''; State_Monad.return None }
     else (case vm k of
       None \<Rightarrow> do { rc_report ''reading vip_map value: %s''; State_Monad.return None }
     | Some meta \<Rightarrow>
         if vm_vip_num meta \<ge> MAX_VIPS then do { rc_report ''vip_map baseline vip_num %u exceeds MAX_VIPS (%u)''; State_Monad.return None }
         else do {
           rest \<leftarrow> read_baseline_loop sys vm (count + 1) ks;
           State_Monad.return (map_option (\<lambda>bs. \<lparr>vb_key = k, vb_vip_num = unat (vm_vip_num meta)\<rparr> # bs) rest) }))"

definition read_vip_baseline :: "sys \<Rightarrow> vip_alloc_baseline list option rcm" where
  "read_vip_baseline sys = do {
     s \<leftarrow> State_Monad.get;
     let vm = m_vip_map (rc_maps s);
     read_baseline_loop sys vm 0 (sys_vip_keys sys vm) }"

definition conf_entries :: "marlin_conf \<Rightarrow> vip_alloc_entry list" where
  "conf_entries conf = map (\<lambda>v. \<lparr>va_keys = Some (cv_keys v), va_vip_num = 0\<rparr>) (mf_vips conf)"

definition set_vip_nums :: "marlin_conf \<Rightarrow> vip_alloc_entry list \<Rightarrow> marlin_conf" where
  "set_vip_nums conf entries = conf\<lparr>mf_vips :=
     map2 (\<lambda>v e. v\<lparr>cv_meta := (cv_meta v)\<lparr>vm_vip_num := of_nat (va_vip_num e)\<rparr>\<rparr>) (mf_vips conf) entries\<rparr>"

definition allocate_vip_nums :: "marlin_conf \<Rightarrow> vip_alloc_baseline list \<Rightarrow> (marlin_conf \<times> vip_alloc_plan) option rcm" where
  "allocate_vip_nums conf baseline =
    (if length (mf_vips conf) > max_vips
     then do { rc_report ''%u [[vip]] entries, more than MAX_VIPS (%u)''; State_Monad.return None }
     else (case vip_alloc (conf_entries conf) baseline of (ok, entries, plan) \<Rightarrow>
       if \<not> ok then do { rc_report ''cannot safely allocate and order [[vip]] entries within MAX_VIPS (%u) blocks''; State_Monad.return None }
       else State_Monad.return (Some (set_vip_nums conf entries, plan))))"

section \<open>Access-list tries\<close>

definition acl_v4_key_eq :: "acl_key4 \<Rightarrow> acl_key4 \<Rightarrow> bool" where
  "acl_v4_key_eq lhs rhs \<longleftrightarrow> ak4_prefixlen lhs = ak4_prefixlen rhs \<and> ak4_addr lhs = ak4_addr rhs"

definition acl_v6_key_eq :: "acl_key6 \<Rightarrow> acl_key6 \<Rightarrow> bool" where
  "acl_v6_key_eq lhs rhs \<longleftrightarrow> ak6_prefixlen lhs = ak6_prefixlen rhs \<and> quad_bytes (ak6_addr lhs) = quad_bytes (ak6_addr rhs)"

definition want_v4 :: "conf_acl_entry \<Rightarrow> acl_key4" where
  "want_v4 e = \<lparr>ak4_prefixlen = ca_prefixlen e, ak4_addr = le_val (take 4 (ca_addr e))\<rparr>"

definition want_v6 :: "conf_acl_entry \<Rightarrow> acl_key6" where
  "want_v6 e = \<lparr>ak6_prefixlen = ca_prefixlen e, ak6_addr = quad_of (take 16 (ca_addr e))\<rparr>"

definition acl_elem ::
  "(bpf_maps \<Rightarrow> ('k \<rightharpoonup> u32)) \<Rightarrow> (((('k \<rightharpoonup> u32) \<Rightarrow> ('k \<rightharpoonup> u32)) \<Rightarrow> bpf_maps \<Rightarrow> bpf_maps)) \<Rightarrow> 'k \<Rightarrow> u32 \<Rightarrow> bpf_maps \<Rightarrow> bpf_maps option" where
  "acl_elem trie upd k v m = (if has_room MAX_ACL_ENTRIES k (trie m) then Some (upd (\<lambda>t. t(k \<mapsto> v)) m) else None)"

text \<open>The two functions of the code differ in the type of the key only; \<open>trie\<close> and \<open>upd\<close> stand for the
  trie's file descriptor.\<close>

definition reconcile_acl ::
  "host \<Rightarrow> sys \<Rightarrow> (bpf_maps \<Rightarrow> ('k \<rightharpoonup> u32)) \<Rightarrow> (((('k \<rightharpoonup> u32) \<Rightarrow> ('k \<rightharpoonup> u32)) \<Rightarrow> bpf_maps \<Rightarrow> bpf_maps)) \<Rightarrow> 'k list \<Rightarrow> (conf_acl_entry \<Rightarrow> 'k) \<Rightarrow>
   ('k \<Rightarrow> 'k \<Rightarrow> bool) \<Rightarrow> string \<Rightarrow> string \<Rightarrow> conf_acl_entry list \<Rightarrow> bool rcm" where
  "reconcile_acl h sys trie upd keys want key_eq upd_msg del_msg entries = do {
     s \<leftarrow> State_Monad.get;
     if \<not> h_alloc h ''existing'' (rc_ops s) then do { rc_report ''out of memory reconciling an ACL trie''; State_Monad.return False }
     else do {
       let existing = take MAX_ACL_ENTRIES (readable sys keys);
       and_then
         (all_ok (\<lambda>(i, e). or_report (syscall sys (acl_elem trie upd (want e) (of_nat i))) upd_msg)
            (enumerate 0 entries))
         (all_ok (\<lambda>k. if list_ex (\<lambda>e. key_eq (want e) k) entries then State_Monad.return True
                       else or_report (syscall sys (\<lambda>m. Some (upd (\<lambda>t. t(k := None)) m))) del_msg) existing) } }"

definition reconcile_acl_v4 ::
  "host \<Rightarrow> sys \<Rightarrow> (bpf_maps \<Rightarrow> (acl_key4 \<rightharpoonup> u32)) \<Rightarrow> (((acl_key4 \<rightharpoonup> u32) \<Rightarrow> (acl_key4 \<rightharpoonup> u32)) \<Rightarrow> bpf_maps \<Rightarrow> bpf_maps) \<Rightarrow>
   conf_acl_entry list \<Rightarrow> bool rcm" where
  "reconcile_acl_v4 h sys trie upd entries = do {
     s \<leftarrow> State_Monad.get;
     reconcile_acl h sys trie upd (sys_acl4_keys sys (trie (rc_maps s))) want_v4 acl_v4_key_eq
       ''acl trie (v4) update failed: %s'' ''acl trie (v4) delete failed: %s'' entries }"

definition reconcile_acl_v6 ::
  "host \<Rightarrow> sys \<Rightarrow> (bpf_maps \<Rightarrow> (acl_key6 \<rightharpoonup> u32)) \<Rightarrow> (((acl_key6 \<rightharpoonup> u32) \<Rightarrow> (acl_key6 \<rightharpoonup> u32)) \<Rightarrow> bpf_maps \<Rightarrow> bpf_maps) \<Rightarrow>
   conf_acl_entry list \<Rightarrow> bool rcm" where
  "reconcile_acl_v6 h sys trie upd entries = do {
     s \<leftarrow> State_Monad.get;
     reconcile_acl h sys trie upd (sys_acl6_keys sys (trie (rc_maps s))) want_v6 acl_v6_key_eq
       ''acl trie (v6) update failed: %s'' ''acl trie (v6) delete failed: %s'' entries }"

definition acl_lists_bits :: "marlin_conf \<Rightarrow> u16" where
  "acl_lists_bits conf =
    (let bits = 0;
         bits = (if length (ac_allow_v4 (mf_acl conf)) > 0 then bits OR ACL_LISTS_BIT ACL_LIST_ALLOW ACL_FAMILY_V4 else bits);
         bits = (if length (ac_block_v4 (mf_acl conf)) > 0 then bits OR ACL_LISTS_BIT ACL_LIST_BLOCK ACL_FAMILY_V4 else bits);
         bits = (if length (ac_allow_v6 (mf_acl conf)) > 0 then bits OR ACL_LISTS_BIT ACL_LIST_ALLOW ACL_FAMILY_V6 else bits)
     in if length (ac_block_v6 (mf_acl conf)) > 0 then bits OR ACL_LISTS_BIT ACL_LIST_BLOCK ACL_FAMILY_V6 else bits)"

section \<open>The configuration map\<close>

definition derive_max_frame :: "host \<Rightarrow> sys \<Rightarrow> string \<Rightarrow> u16 option rcm" where
  "derive_max_frame h sys iface =
    (if \<not> sys_socket sys then do { rc_report ''socket() failed deriving max_frame: %s''; State_Monad.return None }
     else (case h_mtu h iface of
       None \<Rightarrow> do { rc_report ''could not read the MTU of %s to derive max_frame: %s''; State_Monad.return None }
     | Some mtu \<Rightarrow>
         if mtu < 0 \<or> mtu + int ETH_HLEN > 0xffff then do { rc_report ''the MTU (%d) of %s does not fit max_frame''; State_Monad.return None }
         else State_Monad.return (Some (word_of_int (mtu + int ETH_HLEN)))))"

definition any_backend_encapsulates :: "marlin_conf \<Rightarrow> bool" where
  "any_backend_encapsulates conf \<longleftrightarrow> list_ex (\<lambda>b. be_flags (cb_abi b) AND MARLIN_BE_F_ENCAP_REQUIRED \<noteq> 0) (mf_backends conf)"

definition config_value :: "marlin_conf \<Rightarrow> u16 \<Rightarrow> u16 \<Rightarrow> marlin_config" where
  "config_value conf max_frame acl_lists =
    (let value = zero_config\<lparr>cfg_tunnel_src := ci_tunnel_src (mf_instance conf), cfg_max_frame := max_frame, cfg_acl_lists := acl_lists\<rparr>;
         value = (if ac_enabled (mf_acl conf) then value\<lparr>cfg_flags := cfg_flags value OR CFG_ACL_ENABLE\<rparr> else value)
     in if cr_enabled (mf_ratelimit conf)
        then value\<lparr>cfg_flags := cfg_flags value OR CFG_RL_ENABLE,
          cfg_rl_refill := marlind_scale_refill (cr_tokens_per_sec (mf_ratelimit conf)),
          cfg_rl_burst := marlind_scale_burst (cr_burst_packets (mf_ratelimit conf))\<rparr>
        else value)"

definition config_elem :: "marlin_config \<Rightarrow> bpf_maps \<Rightarrow> bpf_maps option" where
  "config_elem v m = map_option (\<lambda>t. m\<lparr>m_config := t\<rparr>) (array_set 0 v (m_config m))"

definition write_config :: "host \<Rightarrow> sys \<Rightarrow> marlin_conf \<Rightarrow> u16 \<Rightarrow> bool rcm" where
  "write_config h sys conf acl_lists_override = do {
     derived \<leftarrow> (if ci_max_frame_set (mf_instance conf) then State_Monad.return (Some (ci_max_frame (mf_instance conf)))
       else derive_max_frame h sys (ci_iface (mf_instance conf)));
     if derived = None \<and> any_backend_encapsulates conf
     then do { rc_report ''max_frame could not be derived and at least one backend encapsulates; the egress-MTU check would be silently disabled'';
               State_Monad.return False }
     else or_report (syscall sys (config_elem (config_value conf (case derived of Some f \<Rightarrow> f | None \<Rightarrow> 0) acl_lists_override))) ''config: %s'' }"

text \<open>\<^verbatim>\<open>ARRAY[0]\<close> always exists, zeroed if never written.\<close>

definition live_config :: "bpf_maps \<Rightarrow> marlin_config" where
  "live_config m = (case m_config m 0 of Some c \<Rightarrow> c | None \<Rightarrow> zero_config)"

definition read_old_acl_lists :: "bpf_maps \<Rightarrow> u16" where
  "read_old_acl_lists m = cfg_acl_lists (live_config m)"

section \<open>Ports and backends\<close>

fun resolve_tx_ports :: "host \<Rightarrow> string list \<Rightarrow> u32 list option rcm" where
  "resolve_tx_ports h [] = State_Monad.return (Some [])"
| "resolve_tx_ports h (p # ps) =
    (let i = h_if_nametoindex h p in
     if i = 0 then do { rc_report ''instance.tx_ports[%u] (%s) does not resolve to an interface''; State_Monad.return None }
     else do { r \<leftarrow> resolve_tx_ports h ps; State_Monad.return (map_option (\<lambda>is. i # is) r) })"

definition ifindex_in :: "u32 list \<Rightarrow> u32 \<Rightarrow> bool" where
  "ifindex_in arr ifindex = list_ex (\<lambda>i. i = ifindex) arr"

definition tx_port_elem :: "u32 \<Rightarrow> bpf_maps \<Rightarrow> bpf_maps option" where
  "tx_port_elem i m =
    (if has_room MAX_TX_PORTS i (m_tx_ports m) then Some (m\<lparr>m_tx_ports := (m_tx_ports m)(i \<mapsto> i)\<rparr>) else None)"

definition add_tx_ports :: "sys \<Rightarrow> u32 list \<Rightarrow> bool rcm" where
  "add_tx_ports sys wanted =
    all_ok (\<lambda>i. or_report (syscall sys (tx_port_elem i)) ''tx_ports[%u]: %s'') wanted"

definition remove_stale_tx_ports :: "sys \<Rightarrow> u32 list \<Rightarrow> bool rcm" where
  "remove_stale_tx_ports sys wanted = do {
     s \<leftarrow> State_Monad.get;
     let existing = take MAX_TX_PORTS (readable sys (sys_tx_keys sys (m_tx_ports (rc_maps s))));
     all_ok (\<lambda>i. if ifindex_in wanted i then State_Monad.return True
       else or_report (syscall sys (\<lambda>m. Some (m\<lparr>m_tx_ports := (m_tx_ports m)(i := None)\<rparr>))) ''tx_ports delete failed for ifindex %u: %s'') existing }"

text \<open>
  The index of a backend is passed to the kernel as the address of its 16-bit identifier, and the
  kernel reads four bytes there: the two that follow the identifier in \<^verbatim>\<open>struct conf_backend\<close> are the
  first two of \<^verbatim>\<open>egress\<close>.
\<close>

definition backend_key :: "conf_backend \<Rightarrow> u32" where
  "backend_key b = le_val (le_bytes 2 (cb_id b) @ take 2 (map (\<lambda>c. word_of_nat (of_char c)) (cb_egress b) @ [0, 0 :: u8]))"

definition backend_elem :: "u32 \<Rightarrow> backend \<Rightarrow> bpf_maps \<Rightarrow> bpf_maps option" where
  "backend_elem k v m = map_option (\<lambda>t. m\<lparr>m_backends := t\<rparr>) (array_set k v (m_backends m))"

definition backend_value :: "host \<Rightarrow> conf_backend \<Rightarrow> backend" where
  "backend_value h b = (let value = (cb_abi b)\<lparr>be_id := cb_id b\<rparr>
     in if cb_has_egress b then value\<lparr>be_egress_ifindex := h_if_nametoindex h (cb_egress b)\<rparr> else value)"

definition write_backends :: "host \<Rightarrow> sys \<Rightarrow> marlin_conf \<Rightarrow> bool rcm" where
  "write_backends h sys conf =
    all_ok (\<lambda>b. or_report (syscall sys (backend_elem (backend_key b) (backend_value h b))) ''backends[%u] (%s): %s'') (mf_backends conf)"

definition backend_id_wanted :: "marlin_conf \<Rightarrow> u16 \<Rightarrow> bool" where
  "backend_id_wanted conf bid = list_ex (\<lambda>b. cb_id b = bid) (mf_backends conf)"

text \<open>Here too the kernel reads two bytes more than the loop variable has.\<close>

definition retire_key :: "sys \<Rightarrow> u16 \<Rightarrow> u32" where
  "retire_key sys bid = le_val (le_bytes 2 bid @ le_bytes 2 (sys_stack sys bid))"

definition retire_stale_backends :: "sys \<Rightarrow> marlin_conf \<Rightarrow> bool rcm" where
  "retire_stale_backends sys conf =
    all_ok (\<lambda>n. do {
      s \<leftarrow> State_Monad.get;
      let bid = of_nat n;
      if (case m_backends (rc_maps s) (retire_key sys bid) of None \<Rightarrow> True | Some cur \<Rightarrow> be_id cur \<noteq> bid) then State_Monad.return True
      else if backend_id_wanted conf bid then State_Monad.return True
      else or_report (syscall sys (backend_elem (retire_key sys bid) zero_backend)) ''retiring backends[%u]: %s'' }) [1..<unat MAX_BACKENDS]"

section \<open>VIPs\<close>

definition key_in_conf :: "marlin_conf \<Rightarrow> vip_key \<Rightarrow> bool" where
  "key_in_conf conf key = list_ex (\<lambda>v. list_ex (\<lambda>k. vip_key_eq key k) (cv_keys v)) (mf_vips conf)"

definition remove_stale_vip_keys :: "sys \<Rightarrow> marlin_conf \<Rightarrow> vip_alloc_baseline list \<Rightarrow> bool rcm" where
  "remove_stale_vip_keys sys conf baseline =
    all_ok (\<lambda>b. if key_in_conf conf (vb_key b) then State_Monad.return True
      else or_report (syscall sys (\<lambda>m. Some (m\<lparr>m_vip_map := (m_vip_map m)(vb_key b := None)\<rparr>))) ''vip_map delete failed: %s'') baseline"

definition release_stale_vip_blocks :: "host \<Rightarrow> sys \<Rightarrow> nat list \<Rightarrow> bool rcm" where
  "release_stale_vip_blocks h sys release = all_ok (\<lambda>num. zero_fwd_block h sys (of_nat num)) release"

definition fwd_members :: "marlin_conf \<Rightarrow> conf_vip \<Rightarrow> fwd_gen_member list" where
  "fwd_members conf vip = map (\<lambda>m.
     case find (\<lambda>b. cb_id b = cm_backend_id m) (mf_backends conf) of
       None \<Rightarrow> \<lparr>fg_backend_id = 0, fg_weight = 0, fg_addr = 0, fg_vni = 0, fg_inner_mac = 0\<rparr>
     | Some b \<Rightarrow> \<lparr>fg_backend_id = cb_id b, fg_weight = cm_weight m, fg_addr = be_addr (cb_abi b), fg_vni = be_vni (cb_abi b),
         fg_inner_mac = be_inner_mac (cb_abi b)\<rparr>) (cv_members vip)"

definition vip_elem :: "vip_key \<Rightarrow> vip_meta \<Rightarrow> bpf_maps \<Rightarrow> bpf_maps option" where
  "vip_elem k v m = (if has_room max_vips k (m_vip_map m) then Some (m\<lparr>m_vip_map := (m_vip_map m)(k \<mapsto> v)\<rparr>) else None)"

definition write_vip :: "'f::linorder fpu \<Rightarrow> host \<Rightarrow> sys \<Rightarrow> marlin_conf \<Rightarrow> conf_vip \<Rightarrow> bool rcm" where
  "write_vip fp h sys conf vip = do {
     s \<leftarrow> State_Monad.get;
     if cv_members vip \<noteq> [] \<and> \<not> h_alloc h ''members'' (rc_ops s) \<or> \<not> h_alloc h ''block'' (rc_ops s)
     then do { rc_report ''out of memory generating vip[%u]''; State_Monad.return False }
     else and_then
       (write_fwd_block h sys (vm_vip_num (cv_meta vip)) (fwd_gen_block fp (cv_table_seed vip) (fwd_members conf vip)))
       (all_ok (\<lambda>k. or_report (syscall sys (vip_elem k (cv_meta vip))) ''vip_map: %s'') (cv_keys vip)) }"

section \<open>The whole\<close>

text \<open>The changes to the maps, in the order of \<^verbatim>\<open>reconcile_apply\<close>.\<close>

definition reconcile_tables :: "'f::linorder fpu \<Rightarrow> host \<Rightarrow> sys \<Rightarrow> marlin_conf \<Rightarrow> vip_alloc_plan \<Rightarrow> u16 \<Rightarrow> bool rcm" where
  "reconcile_tables fp h sys conf plan final_acl_lists = do {
     ports \<leftarrow> resolve_tx_ports h (ci_tx_ports (mf_instance conf));
     case ports of
       None \<Rightarrow> State_Monad.return False
     | Some tx_want \<Rightarrow>
         and_then (add_tx_ports sys tx_want)
        (and_then (write_backends h sys conf)
        (and_then (all_ok (\<lambda>i. write_vip fp h sys conf (mf_vips conf ! i)) (plan_write_order plan))
        (and_then (release_stale_vip_blocks h sys (plan_release plan))
        (and_then (retire_stale_backends sys conf)
        (and_then (remove_stale_tx_ports sys tx_want)
          (write_config h sys conf final_acl_lists)))))) }"

definition reconcile_maps ::
  "'f::linorder fpu \<Rightarrow> host \<Rightarrow> sys \<Rightarrow> marlin_conf \<Rightarrow> vip_alloc_baseline list \<Rightarrow> vip_alloc_plan \<Rightarrow> u16 \<Rightarrow> bool rcm" where
  "reconcile_maps fp h sys conf baseline plan final_acl_lists =
    and_then (remove_stale_vip_keys sys conf baseline)
   (and_then (do { s \<leftarrow> State_Monad.get; write_config h sys conf (read_old_acl_lists (rc_maps s) OR final_acl_lists) })
   (and_then (reconcile_acl_v4 h sys m_acl_allow_v4 m_acl_allow_v4_update (ac_allow_v4 (mf_acl conf)))
   (and_then (reconcile_acl_v4 h sys m_acl_block_v4 m_acl_block_v4_update (ac_block_v4 (mf_acl conf)))
   (and_then (reconcile_acl_v6 h sys m_acl_allow_v6 m_acl_allow_v6_update (ac_allow_v6 (mf_acl conf)))
   (and_then (reconcile_acl_v6 h sys m_acl_block_v6 m_acl_block_v6_update (ac_block_v6 (mf_acl conf)))
     (reconcile_tables fp h sys conf plan final_acl_lists))))))"

definition reconcile_apply :: "'f::linorder fpu \<Rightarrow> host \<Rightarrow> sys \<Rightarrow> marlin_conf \<Rightarrow> (bool \<times> marlin_conf) rcm" where
  "reconcile_apply fp h sys conf = do {
     let final_acl_lists = acl_lists_bits conf;
     opened \<leftarrow> open_maps sys;
     if \<not> opened then State_Monad.return (False, conf)
     else do {
       base \<leftarrow> read_vip_baseline sys;
       case base of
         None \<Rightarrow> State_Monad.return (False, conf)
       | Some baseline \<Rightarrow> do {
           alloc \<leftarrow> allocate_vip_nums conf baseline;
           case alloc of
             None \<Rightarrow> State_Monad.return (False, conf)
           | Some (conf, plan) \<Rightarrow> do {
               ok \<leftarrow> reconcile_maps fp h sys conf baseline plan final_acl_lists;
               State_Monad.return (ok, conf) } } } }"

end
