(* ===== verification/Marlind_Reconcile_Logic.thy ===== *)
theory Marlind_Reconcile_Logic
  imports Marlind_Reconcile
begin

text \<open>
  A logic for the calls of \<open>Marlind_Reconcile\<close>: what holds after every change of the maps, and what
  holds at the end. Each group of calls changes one map only, so a property of the other maps holds
  throughout it.
\<close>

section \<open>Running calls against the maps\<close>

text \<open>
  \<open>runs P a I Q\<close>: started on maps that satisfy \<open>P\<close>, the call \<open>a\<close> makes every contents it gives the maps
  satisfy \<open>I\<close>, whether it succeeds or not (the last of them being the current one), and when it
  succeeds the maps satisfy \<open>Q\<close>. A quiet call
  leaves the maps alone.
\<close>

definition runs :: "(bpf_maps \<Rightarrow> bool) \<Rightarrow> bool rcm \<Rightarrow> (bpf_maps \<Rightarrow> bool) \<Rightarrow> (bpf_maps \<Rightarrow> bool) \<Rightarrow> bool" where
  "runs P a I Q \<longleftrightarrow> (\<forall>s. P (rc_maps s) \<longrightarrow>
     (\<exists>new. rc_trace (snd (run_state a s)) = rc_trace s @ new \<and> (\<forall>m\<in>set new. I m) \<and>
       rc_maps (snd (run_state a s)) = last (rc_maps s # new)) \<and>
     (fst (run_state a s) \<longrightarrow> Q (rc_maps (snd (run_state a s)))))"

definition quiet :: "'a rcm \<Rightarrow> bool" where
  "quiet a \<longleftrightarrow> (\<forall>s. rc_maps (snd (run_state a s)) = rc_maps s \<and> rc_trace (snd (run_state a s)) = rc_trace s)"

named_theorems quiet_intros \<open>calls that leave the maps alone\<close>

lemma quiet_return [quiet_intros]: "quiet (State_Monad.return x)"
  by (simp add: quiet_def)

lemma quiet_report [quiet_intros]: "quiet (rc_report m)"
  by (simp add: quiet_def rc_report_def)

lemma quiet_bind [quiet_intros]: "quiet a \<Longrightarrow> (\<And>x. quiet (f x)) \<Longrightarrow> quiet (State_Monad.bind a f)"
  by (simp add: quiet_def split_beta)

lemma quiet_if [quiet_intros]: "quiet a \<Longrightarrow> quiet b \<Longrightarrow> quiet (if c then a else b)"
  by simp

lemma quiet_option [quiet_intros]: "quiet a \<Longrightarrow> (\<And>x. quiet (f x)) \<Longrightarrow> quiet (case v of None \<Rightarrow> a | Some x \<Rightarrow> f x)"
  by (cases v) simp_all

lemma runsI:
  assumes "\<And>s. P (rc_maps s) \<Longrightarrow> \<exists>r s' new. run_state a s = (r, s') \<and> rc_trace s' = rc_trace s @ new \<and> (\<forall>m\<in>set new. I m) \<and>
    rc_maps s' = last (rc_maps s # new) \<and> (r \<longrightarrow> Q (rc_maps s'))"
  shows "runs P a I Q"
  unfolding runs_def using assms by fastforce

lemma runsD:
  assumes "runs P a I Q" "run_state a s = (r, s')" "P (rc_maps s)"
  shows "\<exists>new. rc_trace s' = rc_trace s @ new \<and> (\<forall>m\<in>set new. I m) \<and> rc_maps s' = last (rc_maps s # new) \<and> (r \<longrightarrow> Q (rc_maps s'))"
  using assms unfolding runs_def by (metis fst_conv snd_conv)

lemma runs_mono:
  assumes "runs P a I Q" "\<And>m. P' m \<Longrightarrow> P m" "\<And>m. I m \<Longrightarrow> I' m" "\<And>m. Q m \<Longrightarrow> Q' m"
  shows "runs P' a I' Q'"
  using assms unfolding runs_def by meson

lemma runs_return: "(\<And>m. P m \<Longrightarrow> b \<Longrightarrow> Q m) \<Longrightarrow> runs P (State_Monad.return b) I Q"
  by (simp add: runs_def)

lemma runs_quiet: "quiet a \<Longrightarrow> runs P a I P"
  by (simp add: runs_def quiet_def)

lemma runs_quiet_bind:
  assumes "quiet a" "\<And>x. runs P (f x) I Q"
  shows "runs P (State_Monad.bind a f) I Q"
proof (rule runsI)
  fix s :: rc
  assume P: "P (rc_maps s)"
  obtain x s1 where run: "run_state a s = (x, s1)" by (metis surj_pair)
  then have s1: "rc_maps s1 = rc_maps s" "rc_trace s1 = rc_trace s" using assms(1) unfolding quiet_def by (metis snd_conv)+
  obtain r s' where run': "run_state (f x) s1 = (r, s')" by (metis surj_pair)
  have "\<exists>new. rc_trace s' = rc_trace s1 @ new \<and> (\<forall>m\<in>set new. I m) \<and> rc_maps s' = last (rc_maps s1 # new) \<and> (r \<longrightarrow> Q (rc_maps s'))"
    using P by (intro runsD [OF assms(2) run']) (simp add: s1)
  then show "\<exists>r s' new. run_state (State_Monad.bind a f) s = (r, s') \<and> rc_trace s' = rc_trace s @ new \<and> (\<forall>m\<in>set new. I m) \<and>
      rc_maps s' = last (rc_maps s # new) \<and> (r \<longrightarrow> Q (rc_maps s'))"
    using run run' s1 by auto
qed

lemma runs_get:
  assumes "\<And>s. runs (\<lambda>m. P m \<and> m = rc_maps s) (f s) I Q"
  shows "runs P (State_Monad.bind State_Monad.get f) I Q"
  using assms unfolding runs_def by simp

lemma runs_syscall:
  assumes "\<And>m m'. P m \<Longrightarrow> f m = Some m' \<Longrightarrow> I m' \<and> Q m'"
  shows "runs P (syscall sys f) I Q"
  using assms unfolding runs_def syscall_def by (auto split: option.splits if_splits)

lemma runs_or_report: "runs P a I Q \<Longrightarrow> runs P (or_report a msg) I Q"
  unfolding runs_def or_report_def by (simp add: rc_report_def split_beta)

lemma runs_seq:
  assumes a: "runs P a I R" and b: "runs R b I Q" and c: "runs I c I Q" "\<And>m. P m \<Longrightarrow> I m"
  shows "runs P (do { ok \<leftarrow> a; if ok then b else c }) I Q"
proof (rule runsI)
  fix s :: rc
  assume P: "P (rc_maps s)"
  obtain r1 s1 where run: "run_state a s = (r1, s1)" by (metis surj_pair)
  obtain new where new: "rc_trace s1 = rc_trace s @ new" "\<forall>m\<in>set new. I m" "rc_maps s1 = last (rc_maps s # new)" and R: "r1 \<longrightarrow> R (rc_maps s1)"
    using runsD [OF a run P] by blast
  obtain r s' where run': "run_state (if r1 then b else c) s1 = (r, s')" by (metis surj_pair)
  have "I (rc_maps s1)" using new c(2) [OF P] by (cases new rule: rev_cases) auto
  then have "\<exists>new'. rc_trace s' = rc_trace s1 @ new' \<and> (\<forall>m\<in>set new'. I m) \<and> rc_maps s' = last (rc_maps s1 # new') \<and> (r \<longrightarrow> Q (rc_maps s'))"
    using runsD [OF b, of s1 r s'] runsD [OF c(1), of s1 r s'] run' R by (cases r1) auto
  then obtain new' where "rc_trace s' = rc_trace s1 @ new'" "\<forall>m\<in>set new'. I m" "rc_maps s' = last (rc_maps s1 # new')" "r \<longrightarrow> Q (rc_maps s')"
    by blast
  then show "\<exists>r s' new. run_state (do { ok \<leftarrow> a; if ok then b else c }) s = (r, s') \<and> rc_trace s' = rc_trace s @ new \<and> (\<forall>m\<in>set new. I m) \<and>
      rc_maps s' = last (rc_maps s # new) \<and> (r \<longrightarrow> Q (rc_maps s'))"
    using run run' new by (auto intro!: exI [of _ "new @ new'"])
qed

lemma runs_and_then:
  assumes a: "runs P a I R" and b: "runs R b I Q"
  shows "runs P (and_then a b) I Q"
proof (rule runsI)
  fix s :: rc
  assume P: "P (rc_maps s)"
  obtain r1 s1 where run: "run_state a s = (r1, s1)" by (metis surj_pair)
  obtain new where new: "rc_trace s1 = rc_trace s @ new" "\<forall>m\<in>set new. I m" "rc_maps s1 = last (rc_maps s # new)" and R: "r1 \<longrightarrow> R (rc_maps s1)"
    using runsD [OF a run P] by blast
  show "\<exists>r s' new. run_state (and_then a b) s = (r, s') \<and> rc_trace s' = rc_trace s @ new \<and> (\<forall>m\<in>set new. I m) \<and>
      rc_maps s' = last (rc_maps s # new) \<and> (r \<longrightarrow> Q (rc_maps s'))"
  proof (cases r1)
    case True
    obtain r s' where run': "run_state b s1 = (r, s')" by (metis surj_pair)
    obtain new' where "rc_trace s' = rc_trace s1 @ new'" "\<forall>m\<in>set new'. I m" "rc_maps s' = last (rc_maps s1 # new')" "r \<longrightarrow> Q (rc_maps s')"
      using runsD [OF b run'] R True by blast
    then show ?thesis using run run' new True by (auto simp: and_then_def intro!: exI [of _ "new @ new'"])
  qed (use run new in \<open>auto simp: and_then_def\<close>)
qed

lemma runs_all_ok:
  assumes "\<And>ys x zs. xs = ys @ x # zs \<Longrightarrow> runs (P ys) (f x) I (P (ys @ [x]))"
  shows "runs (P []) (all_ok f xs) I (P xs)"
proof -
  have "runs (P ys) (all_ok f zs) I (P xs)" if "xs = ys @ zs" for ys zs
    using that
  proof (induction zs arbitrary: ys)
    case Nil
    then show ?case by (simp add: runs_return)
  next
    case (Cons z zs)
    show ?case
      unfolding all_ok.simps
      by (rule runs_and_then [OF assms [OF Cons(2)] Cons(1)]) (simp add: Cons(2))
  qed
  from this [of "[]" xs] show ?thesis by simp
qed

lemma runs_all_ok_inv:
  assumes "\<And>x. x \<in> set xs \<Longrightarrow> runs P (f x) I P"
  shows "runs P (all_ok f xs) I P"
  using runs_all_ok [where P = "\<lambda>_. P"] assms by (metis in_set_conv_decomp)

section \<open>What each group of calls changes\<close>

text \<open>A property that a kind of update preserves holds throughout the calls that make only such
  updates.\<close>

lemma refuse: "runs P (do { rc_report msg; State_Monad.return False }) I Q"
  by (rule runs_quiet_bind [OF quiet_report]) (simp add: runs_return)

lemma runs_if: "(c \<Longrightarrow> runs P a I Q) \<Longrightarrow> (\<not> c \<Longrightarrow> runs P b I Q) \<Longrightarrow> runs P (if c then a else b) I Q"
  by simp

lemma fwd_elem_frame: "(\<And>m t. R m \<Longrightarrow> R (m\<lparr>m_fwd_table := t\<rparr>)) \<Longrightarrow> runs R (syscall sys (fwd_elem k v)) R R"
  by (rule runs_syscall) (auto simp: fwd_elem_def)

lemma fwd_block_frame:
  assumes "\<And>m t. R m \<Longrightarrow> R (m\<lparr>m_fwd_table := t\<rparr>)"
  shows "runs R (write_fwd_block h sys n vs) R R"
proof -
  have elem: "runs R (syscall sys (fwd_elem k v)) R R" for k v
    by (rule fwd_elem_frame) (rule assms)
  have all: "runs (\<lambda>m. R m \<and> Q m) (all_ok (\<lambda>i. syscall sys (fwd_elem (b + of_nat i) (vs ! i))) xs) R R" for b xs Q
    by (rule runs_mono [OF runs_all_ok_inv [OF elem]]) simp_all
  have batch: "runs (\<lambda>m. R m \<and> Q m) (fwd_batch sys b vs) R R" for b Q
    unfolding fwd_batch_def Let_def
    by (rule runs_get, rule runs_and_then [where R = R], rule runs_mono [OF all [where Q = "\<lambda>_. True"]]) (auto intro: runs_return)
  have loop: "runs R (all_ok (\<lambda>i. or_report (syscall sys (fwd_elem (b + of_nat i) (vs ! i))) msg) xs) R R" for b msg xs
    by (rule runs_all_ok_inv) (rule runs_or_report, rule elem)
  show ?thesis
    unfolding write_fwd_block_def Let_def
    by (rule runs_get, rule runs_if [OF refuse runs_seq [OF batch _ loop]]) (auto intro: runs_return)
qed

lemma tx_ports_frame:
  assumes "\<And>m t. R m \<Longrightarrow> R (m\<lparr>m_tx_ports := t\<rparr>)"
  shows "runs R (add_tx_ports sys ps) R R" "runs R (remove_stale_tx_ports sys ps) R R"
proof -
  show "runs R (add_tx_ports sys ps) R R"
    unfolding add_tx_ports_def
    by (intro runs_all_ok_inv runs_or_report runs_syscall) (auto simp: assms tx_port_elem_def split: if_splits)
  show "runs R (remove_stale_tx_ports sys ps) R R"
    unfolding remove_stale_tx_ports_def Let_def
    by (rule runs_get, rule runs_mono [where P = R, OF runs_all_ok_inv [OF runs_if [OF runs_return runs_or_report [OF runs_syscall]]]])
       (auto simp: assms)
qed

lemma backends_frame:
  assumes "\<And>m t. R m \<Longrightarrow> R (m\<lparr>m_backends := t\<rparr>)"
  shows "runs R (write_backends h sys conf) R R" "runs R (retire_stale_backends sys conf) R R"
proof -
  have elem: "runs R (or_report (syscall sys (backend_elem k v)) msg) R R" for k v msg
    by (intro runs_or_report runs_syscall) (auto simp: backend_elem_def assms)
  then show "runs R (write_backends h sys conf) R R"
    unfolding write_backends_def by (intro runs_all_ok_inv)
  show "runs R (retire_stale_backends sys conf) R R"
    unfolding retire_stale_backends_def Let_def
    by (intro runs_all_ok_inv runs_get runs_if runs_return runs_mono [where P = R, OF elem]) auto
qed

lemma stale_keys_frame:
  assumes "\<And>m t. R m \<Longrightarrow> R (m\<lparr>m_vip_map := t\<rparr>)"
  shows "runs R (remove_stale_vip_keys sys conf baseline) R R"
  unfolding remove_stale_vip_keys_def
  by (intro runs_all_ok_inv runs_if runs_return runs_or_report runs_syscall) (auto simp: assms)

lemma release_frame:
  assumes "\<And>m t. R m \<Longrightarrow> R (m\<lparr>m_fwd_table := t\<rparr>)"
  shows "runs R (release_stale_vip_blocks h sys rs) R R"
  unfolding release_stale_vip_blocks_def zero_fwd_block_def
  by (intro runs_all_ok_inv runs_get runs_if refuse runs_mono [where P = R, OF fwd_block_frame]) (auto simp: assms)

lemma write_vip_frame:
  assumes "\<And>m t. R m \<Longrightarrow> R (m\<lparr>m_fwd_table := t\<rparr>)" "\<And>m t. R m \<Longrightarrow> R (m\<lparr>m_vip_map := t\<rparr>)"
  shows "runs R (write_vip fp h sys conf v) R R"
  unfolding write_vip_def
  by (intro runs_get runs_if refuse runs_and_then [where R = R] runs_mono [where P = R, OF fwd_block_frame] runs_all_ok_inv runs_or_report runs_syscall)
     (auto simp: assms vip_elem_def split: if_splits)

lemma quiet_derive [quiet_intros]: "quiet (derive_max_frame h sys iface)"
  unfolding derive_max_frame_def by (intro quiet_intros)

lemma quiet_resolve [quiet_intros]: "quiet (resolve_tx_ports h ps)"
  by (induction ps) (simp_all add: Let_def quiet_intros)

lemma write_config_runs:
  assumes "\<And>m f. P m \<Longrightarrow> m_config m 0 \<noteq> None \<Longrightarrow> I (m\<lparr>m_config := (m_config m)(0 \<mapsto> config_value conf f L)\<rparr>) \<and>
      Q (m\<lparr>m_config := (m_config m)(0 \<mapsto> config_value conf f L)\<rparr>)"
  shows "runs P (write_config h sys conf L) I Q"
  unfolding write_config_def
  by (intro runs_quiet_bind quiet_if quiet_return quiet_derive runs_if refuse runs_or_report runs_syscall)
     (use assms in \<open>auto simp: config_elem_def array_set_def split: if_splits simp del: fun_upd_apply\<close>)

lemma tables_frame:
  assumes "\<And>m t. R m \<Longrightarrow> R (m\<lparr>m_tx_ports := t\<rparr>)" "\<And>m t. R m \<Longrightarrow> R (m\<lparr>m_backends := t\<rparr>)"
    and "\<And>m t. R m \<Longrightarrow> R (m\<lparr>m_fwd_table := t\<rparr>)" "\<And>m t. R m \<Longrightarrow> R (m\<lparr>m_vip_map := t\<rparr>)" "\<And>m. R m \<Longrightarrow> I m"
    and "runs R (write_config h sys conf final) I Q"
  shows "runs R (reconcile_tables fp h sys conf plan final) I Q"
proof -
  have weak: "runs R a R R \<Longrightarrow> runs R a I R" for a
    by (erule runs_mono) (auto intro: assms(5))
  show ?thesis
    unfolding reconcile_tables_def
  proof (rule runs_quiet_bind [OF quiet_resolve])
    fix ports
    show "runs R (case ports of None \<Rightarrow> State_Monad.return False | Some tx_want \<Rightarrow>
         and_then (add_tx_ports sys tx_want)
        (and_then (write_backends h sys conf)
        (and_then (all_ok (\<lambda>i. write_vip fp h sys conf (mf_vips conf ! i)) (plan_write_order plan))
        (and_then (release_stale_vip_blocks h sys (plan_release plan))
        (and_then (retire_stale_backends sys conf)
        (and_then (remove_stale_tx_ports sys tx_want)
          (write_config h sys conf final))))))) I Q"
    proof (cases ports)
      case (Some tx)
      show ?thesis
        unfolding Some option.case
        by (intro runs_and_then [where R = R] weak tx_ports_frame backends_frame release_frame runs_all_ok_inv write_vip_frame assms)
    qed (simp add: runs_return)
  qed
qed

lemma read_baseline_quiet [quiet_intros]: "quiet (read_baseline_loop sys vm n ks)"
  by (induction sys vm n ks rule: read_baseline_loop.induct)
     (auto intro!: quiet_intros split: option.splits)

lemma read_vip_baseline_quiet [quiet_intros]: "quiet (read_vip_baseline sys)"
  unfolding read_vip_baseline_def Let_def
  by (rule quiet_bind) (simp_all add: quiet_def [of State_Monad.get] quiet_intros)

lemma allocate_quiet [quiet_intros]: "quiet (allocate_vip_nums conf baseline)"
  unfolding allocate_vip_nums_def by (auto intro!: quiet_intros split: prod.splits)

lemma find_map_fd_quiet [quiet_intros]: "quiet (find_map_fd sys n)"
  unfolding find_map_fd_def by (intro quiet_intros)

lemma quiet_traverse [quiet_intros]: "(\<And>x. quiet (f x)) \<Longrightarrow> quiet (State_Monad.traverse_list f xs)"
  by (induction xs) (simp_all add: quiet_intros)

lemma open_maps_quiet [quiet_intros]: "quiet (open_maps sys)"
  unfolding open_maps_def by (intro quiet_intros)

text \<open>Everything before the changes to the maps leaves them alone; what follows is one run of
  \<^const>\<open>reconcile_maps\<close>.\<close>

lemma quietD: "quiet a \<Longrightarrow> run_state a s = (x, s') \<Longrightarrow> rc_maps s' = rc_maps s \<and> rc_trace s' = rc_trace s"
  unfolding quiet_def by (metis snd_conv)

lemma reconcile_apply_cases:
  assumes "run_state (reconcile_apply fp h sys conf) s = ((ok, conf'), s')"
  obtains (refused) "\<not> ok" "rc_maps s' = rc_maps s" "rc_trace s' = rc_trace s"
  | (ran) baseline entries plan s0 s1 s2 where
      "run_state (read_vip_baseline sys) s0 = (Some baseline, s1)" "rc_maps s0 = rc_maps s"
      "length (mf_vips conf) \<le> max_vips" "vip_alloc (conf_entries conf) baseline = (True, entries, plan)"
      "conf' = set_vip_nums conf entries"
      "run_state (reconcile_maps fp h sys conf' baseline plan (acl_lists_bits conf)) s2 = (ok, s')"
      "rc_maps s2 = rc_maps s" "rc_trace s2 = rc_trace s"
proof -
  obtain opened s0 where o: "run_state (open_maps sys) s = (opened, s0)" by (metis surj_pair)
  obtain base s1 where b: "run_state (read_vip_baseline sys) s0 = (base, s1)" by (metis surj_pair)
  note q0 = quietD [OF open_maps_quiet o] and q1 = quietD [OF read_vip_baseline_quiet b]
  show ?thesis
  proof (cases "opened \<and> base \<noteq> None")
    case False
    then show ?thesis
      using assms o b q0 q1 refused by (cases opened; cases base) (auto simp: reconcile_apply_def Let_def)
  next
    case True
    then obtain baseline where base: "base = Some baseline" by blast
    obtain alloc s2 where a: "run_state (allocate_vip_nums conf baseline) s1 = (alloc, s2)" by (metis surj_pair)
    note q2 = quietD [OF allocate_quiet a]
    show ?thesis
    proof (cases alloc)
      case None
      then show ?thesis using assms o b a True base q0 q1 q2 refused by (auto simp: reconcile_apply_def Let_def)
    next
      case (Some cp)
      obtain c plan where cp: "cp = (c, plan)" by (cases cp)
      obtain entries where e: "length (mf_vips conf) \<le> max_vips" "vip_alloc (conf_entries conf) baseline = (True, entries, plan)"
          "c = set_vip_nums conf entries"
        using a Some cp by (auto simp: allocate_vip_nums_def split: if_splits prod.splits)
      have "conf' = c" "run_state (reconcile_maps fp h sys c baseline plan (acl_lists_bits conf)) s2 = (ok, s')"
        using assms o b a True base Some cp by (auto simp: reconcile_apply_def Let_def split: prod.splits)
      then show ?thesis
        using ran [OF b [unfolded base] _ e(1,2), of s2] e q0 q1 q2 by simp
    qed
  qed
qed

lemma set_vip_nums_acl [simp]: "mf_acl (set_vip_nums conf es) = mf_acl conf" "mf_instance (set_vip_nums conf es) = mf_instance conf"
  "mf_backends (set_vip_nums conf es) = mf_backends conf"
  by (simp_all add: set_vip_nums_def)

lemma acl_lists_bits_vip_nums: "acl_lists_bits (set_vip_nums conf es) = acl_lists_bits conf"
  by (simp add: acl_lists_bits_def Let_def)

text \<open>What the kernel documents of key enumeration when nobody else changes the map.\<close>

definition enumerates :: "(('k \<rightharpoonup> 'v) \<Rightarrow> 'k list) \<Rightarrow> bool" where
  "enumerates ks \<longleftrightarrow> (\<forall>t. finite (dom t) \<longrightarrow> set (ks t) = dom t \<and> distinct (ks t))"

definition reads_ok :: "sys \<Rightarrow> bool" where
  "reads_ok sys \<longleftrightarrow> (\<forall>i. \<not> sys_next_error sys i) \<and> enumerates (sys_acl4_keys sys) \<and> enumerates (sys_acl6_keys sys) \<and>
     enumerates (sys_tx_keys sys) \<and> enumerates (sys_vip_keys sys)"

lemma readable_all: "reads_ok sys \<Longrightarrow> readable sys ks = ks"
proof -
  assume "reads_ok sys"
  then have "takeWhile (\<lambda>(i, _). \<not> sys_next_error sys i) (enumerate 0 ks) = enumerate 0 ks"
    by (simp add: reads_ok_def takeWhile_eq_all_conv split_beta)
  then show ?thesis unfolding readable_def by (simp only: map_snd_enumerate)
qed

lemma enumerates_take:
  assumes "reads_ok sys" "enumerates ks" "finite (dom t)" "card (dom t) \<le> n"
  shows "dom t \<subseteq> set (take n (readable sys (ks t)))"
proof -
  have "length (ks t) = card (dom t)" using assms(2,3) unfolding enumerates_def by (metis distinct_card)
  then show ?thesis using assms by (simp add: readable_all enumerates_def)
qed

section \<open>The history of the maps only grows\<close>

definition grows :: "'a rcm \<Rightarrow> bool" where
  "grows a \<longleftrightarrow> (\<forall>s. \<exists>new. rc_trace (snd (run_state a s)) = rc_trace s @ new)"

named_theorems grows_intros \<open>calls that only add to the history\<close>

lemma grows_quiet: "quiet a \<Longrightarrow> grows a"
  by (simp add: grows_def quiet_def)

lemma grows_get [grows_intros]: "grows State_Monad.get"
  by (simp add: grows_def)

lemma grows_bind [grows_intros]: "grows a \<Longrightarrow> (\<And>x. grows (f x)) \<Longrightarrow> grows (State_Monad.bind a f)"
  unfolding grows_def by (simp add: split_beta) (metis append_assoc)

lemma grows_if [grows_intros]: "grows a \<Longrightarrow> grows b \<Longrightarrow> grows (if c then a else b)"
  by simp

lemma grows_option [grows_intros]: "grows a \<Longrightarrow> (\<And>x. grows (f x)) \<Longrightarrow> grows (case v of None \<Rightarrow> a | Some x \<Rightarrow> f x)"
  by (cases v) simp_all

lemma grows_prod [grows_intros]: "(\<And>x y. grows (f x y)) \<Longrightarrow> grows (case p of (x, y) \<Rightarrow> f x y)"
  by (cases p) simp

lemma grows_Let [grows_intros]: "(\<And>x. grows (f x)) \<Longrightarrow> grows (Let v f)"
  by simp

lemma grows_syscall [grows_intros]: "grows (syscall sys f)"
  by (auto simp: grows_def syscall_def split: option.splits)

lemma grows_return [grows_intros]: "grows (State_Monad.return x)"
  by (rule grows_quiet [OF quiet_return])

lemma grows_report [grows_intros]: "grows (rc_report m)"
  by (rule grows_quiet [OF quiet_report])

lemma grows_or_report [grows_intros]: "grows a \<Longrightarrow> grows (or_report a m)"
  unfolding or_report_def by (intro grows_intros)

lemma grows_and_then [grows_intros]: "grows a \<Longrightarrow> grows b \<Longrightarrow> grows (and_then a b)"
  unfolding and_then_def by (intro grows_intros)

lemma grows_all_ok [grows_intros]: "(\<And>x. grows (f x)) \<Longrightarrow> grows (all_ok f xs)"
  by (induction xs) (simp_all add: grows_return grows_and_then)

lemma grows_write_fwd_block [grows_intros]: "grows (write_fwd_block h sys n vs)"
  unfolding write_fwd_block_def fwd_batch_def by (rule grows_intros)+

lemma grows_write_vip [grows_intros]: "grows (write_vip fp h sys conf v)"
  unfolding write_vip_def by (rule grows_intros)+

lemma grows_write_config [grows_intros]: "grows (write_config h sys conf L)"
  unfolding write_config_def derive_max_frame_def by (rule grows_intros)+

lemma grows_acl [grows_intros]: "grows (reconcile_acl_v4 h sys t u es)" "grows (reconcile_acl_v6 h sys t6 u6 es)"
  unfolding reconcile_acl_v4_def reconcile_acl_v6_def reconcile_acl_def by ((rule grows_intros)+)[1] ((rule grows_intros)+)[1]

lemma grows_tables [grows_intros]: "grows (reconcile_tables fp h sys conf plan L)"
  unfolding reconcile_tables_def add_tx_ports_def write_backends_def release_stale_vip_blocks_def zero_fwd_block_def
    retire_stale_backends_def remove_stale_tx_ports_def
  by (rule grows_quiet [OF quiet_resolve] grows_intros)+

lemma grows_reconcile_apply: "grows (reconcile_apply fp h sys conf)"
  unfolding reconcile_apply_def reconcile_maps_def remove_stale_vip_keys_def
  by (rule grows_quiet [OF open_maps_quiet] grows_quiet [OF read_vip_baseline_quiet] grows_quiet [OF allocate_quiet] grows_intros)+

section \<open>A concrete system\<close>

text \<open>A kernel whose third map write fails, and which enumerates every finite map.\<close>

definition some_keys :: "('k \<rightharpoonup> 'v) \<Rightarrow> 'k list" where
  "some_keys t = (SOME ks. set ks = dom t \<and> distinct ks)"

lemma enumerates_some_keys: "enumerates some_keys"
  unfolding enumerates_def
proof (intro allI impI)
  fix t :: "'k \<rightharpoonup> 'v"
  assume "finite (dom t)"
  then have "\<exists>ks. set ks = dom t \<and> distinct ks" by (rule finite_distinct_list)
  then show "set (some_keys t) = dom t \<and> distinct (some_keys t)" unfolding some_keys_def by (rule someI_ex)
qed

definition reload_sys :: sys where
  "reload_sys = \<lparr>sys_map_fd = (\<lambda>_. Some 3), sys_error = (\<lambda>n. n = 2), sys_batch = (\<lambda>_. 0), sys_next_error = (\<lambda>_. False),
     sys_vip_keys = some_keys, sys_tx_keys = some_keys, sys_acl4_keys = some_keys, sys_acl6_keys = some_keys,
     sys_stack = (\<lambda>_. 0), sys_socket = True\<rparr>"

lemma reload_sys_reads: "reads_ok reload_sys"
  by (simp add: reads_ok_def reload_sys_def enumerates_some_keys)

end
