(* ===== verification/Marlind_Blocks.thy ===== *)
theory Marlind_Blocks
  imports Marlind_Reconcile_Logic
begin

text \<open>
  Forwarding blocks: the rows of a VIP number in \<^verbatim>\<open>fwd_table\<close>, and what writing a block does to the
  table, row by row, however far the batch call gets and wherever a write fails. Shared by
  reconciliation and the seeding tool.
\<close>

section \<open>Rows\<close>

abbreviation table_size :: nat where "table_size \<equiv> unat TABLE_SIZE"

definition row :: "u32 \<Rightarrow> nat \<Rightarrow> u32" where
  "row n i = n * TABLE_SIZE + of_nat i"

lemma row_eq_same [simp]: "i < table_size \<Longrightarrow> j < table_size \<Longrightarrow> row n i = row n j \<longleftrightarrow> i = j"
  by (auto simp: row_def unat_of_nat dest: arg_cong [where f = unat])

lemma unat_row:
  assumes "n < MAX_VIPS" "i < table_size"
  shows "unat (row n i) = unat n * table_size + i"
proof -
  have "unat n < 100" using assms(1) by (simp add: word_less_nat_alt)
  then show ?thesis using assms(2) by (simp add: row_def unat_word_ariths unat_of_nat)
qed

lemma row_eq_iff:
  assumes "n < MAX_VIPS" "n' < MAX_VIPS" "i < table_size" "j < table_size"
  shows "row n i = row n' j \<longleftrightarrow> n = n' \<and> i = j"
proof
  assume "row n i = row n' j"
  then have "unat n * table_size + i = unat n' * table_size + j" using unat_row assms by metis
  then have "unat n = unat n' \<and> i = j" using assms(3,4) by (auto dest: arg_cong [where f = "\<lambda>x. x div 65536"] arg_cong [where f = "\<lambda>x. x mod 65536"])
  then show "n = n' \<and> i = j" by (simp add: word_unat_eq_iff)
qed simp

section \<open>Writing a block\<close>

lemma runs_contra: "(\<And>m. \<not> P m) \<Longrightarrow> runs P a I Q"
  unfolding runs_def by blast

text \<open>Between two contents of the table: outside the block nothing has changed, inside every row is the
  old one or the new one.\<close>

definition mixed :: "u32 \<Rightarrow> u32 list \<Rightarrow> bpf_maps \<Rightarrow> bpf_maps \<Rightarrow> bool" where
  "mixed n vs m0 m \<longleftrightarrow> (\<exists>t. m = m0\<lparr>m_fwd_table := t\<rparr> \<and>
     (\<forall>k. (\<forall>i<table_size. k \<noteq> row n i) \<longrightarrow> t k = m_fwd_table m0 k) \<and>
     (\<forall>i<table_size. t (row n i) = m_fwd_table m0 (row n i) \<or> t (row n i) = Some (vs ! i)))"

definition holds_block :: "u32 \<Rightarrow> u32 list \<Rightarrow> bpf_maps \<Rightarrow> bool" where
  "holds_block n vs m \<longleftrightarrow> (\<forall>i<table_size. m_fwd_table m (row n i) = Some (vs ! i))"

lemma mixed_refl: "mixed n vs m m"
  unfolding mixed_def by (intro exI [of _ "m_fwd_table m"]) simp

lemma mixed_maps: "mixed n vs m0 m \<Longrightarrow> m_vip_map m = m_vip_map m0 \<and> m_backends m = m_backends m0"
  by (auto simp: mixed_def)

lemma mixed_other:
  assumes "mixed n vs m0 m" "n' \<noteq> n" "n < MAX_VIPS" "n' < MAX_VIPS" "i < table_size"
  shows "m_fwd_table m (row n' i) = m_fwd_table m0 (row n' i)"
proof -
  have "\<forall>j<table_size. row n' i \<noteq> row n j" using assms row_eq_iff by blast
  then show ?thesis using assms(1) by (auto simp: mixed_def)
qed

lemma mixed_row:
  "mixed n vs m0 m \<Longrightarrow> i < table_size \<Longrightarrow>
   m_fwd_table m (row n i) = m_fwd_table m0 (row n i) \<or> m_fwd_table m (row n i) = Some (vs ! i)"
  by (auto simp: mixed_def)

lemma mixed_elem:
  assumes "mixed n vs m0 m" "fwd_elem (row n i) (vs ! i) m = Some m'" "i < table_size"
  shows "mixed n vs m0 m' \<and> m_fwd_table m' (row n i) = Some (vs ! i) \<and>
    (\<forall>j<table_size. m_fwd_table m (row n j) = Some (vs ! j) \<longrightarrow> m_fwd_table m' (row n j) = Some (vs ! j))"
proof -
  obtain t where t: "m = m0\<lparr>m_fwd_table := t\<rparr>"
    "\<forall>k. (\<forall>i<table_size. k \<noteq> row n i) \<longrightarrow> t k = m_fwd_table m0 k"
    "\<forall>i<table_size. t (row n i) = m_fwd_table m0 (row n i) \<or> t (row n i) = Some (vs ! i)"
    using assms(1) unfolding mixed_def by blast
  have m': "m' = m0\<lparr>m_fwd_table := t(row n i \<mapsto> vs ! i)\<rparr>"
    using assms(2) t(1) by (auto simp: fwd_elem_def array_set_def split: if_splits)
  have "mixed n vs m0 m'"
    unfolding mixed_def m' using t(2,3) assms(3) by (intro exI [of _ "t(row n i \<mapsto> vs ! i)"]) auto
  then show ?thesis using m' t(1) assms(3) by auto
qed

lemma elem_runs:
  assumes "set (ys @ [i]) \<subseteq> {..<table_size}"
  shows "runs (\<lambda>m. mixed n vs m0 m \<and> (\<forall>j\<in>set ys. m_fwd_table m (row n j) = Some (vs ! j)))
    (syscall sys (fwd_elem (row n i) (vs ! i))) (mixed n vs m0)
    (\<lambda>m. mixed n vs m0 m \<and> (\<forall>j\<in>set (ys @ [i]). m_fwd_table m (row n j) = Some (vs ! j)))"
  by (rule runs_syscall) (use mixed_elem [of n vs m0] assms in \<open>auto simp: subset_iff\<close>)

lemma rows_runs:
  assumes "\<And>i P I Q. runs P (syscall sys (fwd_elem (row n i) (vs ! i))) I Q \<Longrightarrow> runs P (f i) I Q" "k \<le> table_size"
  shows "runs (mixed n vs m0) (all_ok f [0..<k]) (mixed n vs m0)
    (\<lambda>m. mixed n vs m0 m \<and> (\<forall>j<k. m_fwd_table m (row n j) = Some (vs ! j)))"
proof -
  let ?P = "\<lambda>ys m. mixed n vs m0 m \<and> (\<forall>j\<in>set ys. m_fwd_table m (row n j) = Some (vs ! j))"
  have "runs (?P []) (all_ok f [0..<k]) (mixed n vs m0) (?P [0..<k])"
  proof (rule runs_all_ok)
    fix ys i zs assume "[0..<k] = ys @ i # zs"
    then have "set (ys @ [i]) \<subseteq> set [0..<k]" by auto
    then have "set (ys @ [i]) \<subseteq> {..<table_size}" using assms(2) by force
    then show "runs (?P ys) (f i) (mixed n vs m0) (?P (ys @ [i]))" by (intro assms(1) elem_runs)
  qed
  then show ?thesis by (rule runs_mono) auto
qed

text \<open>A batch call, and the loop over single rows when it does not get to the end.\<close>

lemma fill_runs:
  assumes "\<And>i P I Q. runs P (syscall sys (fwd_elem (row n i) (vs ! i))) I Q \<Longrightarrow> runs P (f i) I Q"
  shows "runs (\<lambda>m. m = m0) (do { done \<leftarrow> fwd_batch sys (n * TABLE_SIZE) vs; if done then State_Monad.return True else all_ok f [0..<table_size] })
    (mixed n vs m0) (\<lambda>m. mixed n vs m0 m \<and> holds_block n vs m)"
proof (rule runs_seq)
  let ?Q = "\<lambda>m. mixed n vs m0 m \<and> holds_block n vs m"
  show "runs (\<lambda>m. m = m0) (fwd_batch sys (n * TABLE_SIZE) vs) (mixed n vs m0) ?Q"
    unfolding fwd_batch_def Let_def
  proof (rule runs_get)
    fix s
    let ?k = "min (sys_batch sys (rc_ops s)) table_size"
    have "runs (mixed n vs m0) (all_ok (\<lambda>i. syscall sys (fwd_elem (row n i) (vs ! i))) [0..<?k]) (mixed n vs m0)
        (\<lambda>m. mixed n vs m0 m \<and> (\<forall>j<?k. m_fwd_table m (row n j) = Some (vs ! j)))"
      by (rule rows_runs) simp_all
    then show "runs (\<lambda>m. m = m0 \<and> m = rc_maps s)
        (and_then (all_ok (\<lambda>i. syscall sys (fwd_elem (n * TABLE_SIZE + of_nat i) (vs ! i))) [0..<?k]) (State_Monad.return (?k = table_size)))
        (mixed n vs m0) ?Q"
      unfolding row_def [symmetric]
      by (rule runs_and_then [OF runs_mono runs_return, where R = "\<lambda>m. mixed n vs m0 m \<and> (\<forall>j<?k. m_fwd_table m (row n j) = Some (vs ! j))"])
        (auto simp: mixed_refl holds_block_def)
  qed
  show "runs ?Q (State_Monad.return True) (mixed n vs m0) ?Q" by (rule runs_return)
  show "runs (mixed n vs m0) (all_ok f [0..<table_size]) (mixed n vs m0) ?Q"
    unfolding holds_block_def by (rule rows_runs [OF assms]) simp_all
qed (simp add: mixed_refl)

lemma write_fwd_block_runs:
  "runs (\<lambda>m. m = m0) (write_fwd_block h sys n vs) (mixed n vs m0) (\<lambda>m. mixed n vs m0 m \<and> holds_block n vs m)"
  unfolding write_fwd_block_def Let_def row_def [symmetric]
  by (rule runs_get, rule runs_if, rule refuse, rule runs_mono [OF fill_runs]) (auto intro: runs_or_report simp: row_def)

end
