(* ===== verification/Marlin_Seed.thy ===== *)
theory Marlin_Seed
  imports Marlind_Blocks Marlin_Acl
begin

text \<open>
  The seeding tool (\<^verbatim>\<open>tools/marlin_seed.c\<close>): it adds and removes one VIP with one backend on the pinned
  maps of a running data plane. The maps, the system calls and their failures are those of
  \<open>Marlind_Reconcile\<close>; what the tool prints is left out, its exit code is kept.
\<close>

section \<open>Arguments\<close>

definition SEED_HASH_KEY :: key128 where
  "SEED_HASH_KEY = le_val [0x6d, 0x61, 0x72, 0x6c, 0x69, 0x6e, 0x2d, 0x73, 0x65, 0x65, 0x64, 0x00, 0x00, 0x00, 0x00, 0x00]"

text \<open>\<^verbatim>\<open>strtoul\<close> with base 0: white space, a sign, then \<^verbatim>\<open>0x\<close> and hexadecimal, \<^verbatim>\<open>0\<close> and octal, or decimal
  digits. The result is the value, the rest of the string and whether \<^verbatim>\<open>errno\<close> was set.\<close>

definition is_base_digit :: "int \<Rightarrow> char \<Rightarrow> bool" where
  "is_base_digit b c \<longleftrightarrow> 0 \<le> hex_nibble c \<and> hex_nibble c < b"

definition base_val :: "int \<Rightarrow> string \<Rightarrow> int" where
  "base_val b ds = foldl (\<lambda>n c. n * b + hex_nibble c) 0 ds"

definition strtoul0 :: "string \<Rightarrow> u64 \<times> string \<times> bool" where
  "strtoul0 s =
    (let s1 = dropWhile isspace s;
         neg = (s1 \<noteq> [] \<and> hd s1 = CHR ''-'');
         s2 = (if s1 \<noteq> [] \<and> (hd s1 = CHR ''-'' \<or> hd s1 = CHR ''+'') then List.tl s1 else s1);
         hex = (take 2 s2 \<in> {''0x'', ''0X''} \<and> length s2 > 2 \<and> is_base_digit 16 (s2 ! 2));
         b = (if hex then 16 else if take 1 s2 = ''0'' then 8 else 10);
         s3 = (if hex then drop 2 s2 else s2);
         ds = takeWhile (is_base_digit b) s3;
         rest = dropWhile (is_base_digit b) s3 in
     if ds = [] then (0, s, False)
     else if base_val b ds \<ge> 2 ^ 64 then (- 1, rest, True)
     else (if neg then - of_int (base_val b ds) else of_int (base_val b ds), rest, False))"

definition parse_u32 :: "string \<Rightarrow> u64 \<Rightarrow> u32 option" where
  "parse_u32 s maxv =
    (case strtoul0 s of (v, end, err) \<Rightarrow>
       if s = [] \<or> end \<noteq> [] \<or> err \<or> v > maxv then None else Some (ucast v))"

definition build_key :: "string \<Rightarrow> string \<Rightarrow> string \<Rightarrow> vip_key option" where
  "build_key vip port proto =
    (case inet_pton4 vip of
       None \<Rightarrow> None
     | Some a \<Rightarrow>
         (case parse_u32 port 0xffff of
            None \<Rightarrow> None
          | Some port_v \<Rightarrow>
              (case parse_u32 proto 0xff of
                 None \<Rightarrow> None
               | Some proto_v \<Rightarrow>
                   Some \<lparr>vk_addr = (le_val a, 0, 0, 0), vk_port = bswap16 (ucast port_v), vk_proto = ucast proto_v, vk_family = AF_INET\<rparr>)))"

section \<open>The maps\<close>

text \<open>What the tool sees of the system: the descriptor behind a pinned path, the success of an allocation,
  and the map calls.\<close>

record seed_host =
  sd_obj_get :: "string \<Rightarrow> int"
  sd_alloc :: "nat \<Rightarrow> bool"
  sd_sys :: sys

definition map_fd :: "seed_host \<Rightarrow> string \<Rightarrow> string \<Rightarrow> int" where
  "map_fd sd pindir name = sd_obj_get sd (take 511 (pindir @ ''/'' @ name))"

definition fill_fwd_table :: "seed_host \<Rightarrow> u32 \<Rightarrow> u32 \<Rightarrow> bool rcm" where
  "fill_fwd_table sd vip_num backend_id = do {
     s \<leftarrow> State_Monad.get;
     if \<not> sd_alloc sd (rc_ops s) then State_Monad.return False
     else do {
       let base = vip_num * TABLE_SIZE;
       let values = replicate (unat TABLE_SIZE) backend_id;
       done \<leftarrow> fwd_batch (sd_sys sd) base values;
       if done then State_Monad.return True
       else all_ok (\<lambda>i. syscall (sd_sys sd) (fwd_elem (base + of_nat i) (values ! i))) [0..<unat TABLE_SIZE] } }"

definition vip_num_still_referenced :: "sys \<Rightarrow> (vip_key \<rightharpoonup> vip_meta) \<Rightarrow> u32 \<Rightarrow> bool" where
  "vip_num_still_referenced sys vm vip_num =
     list_ex (\<lambda>key. case vm key of Some meta \<Rightarrow> vm_vip_num meta = vip_num | None \<Rightarrow> False) (readable sys (sys_vip_keys sys vm))"

section \<open>Commands\<close>

definition seed_meta :: "u32 \<Rightarrow> u32 \<Rightarrow> vip_meta" where
  "seed_meta vip_num flags = \<lparr>vm_vip_num = vip_num, vm_flags = flags, vm_hash_key = SEED_HASH_KEY\<rparr>"

text \<open>The writes of each command, in their order: the block before the key, the key before the block.\<close>

definition add_writes :: "seed_host \<Rightarrow> vip_key \<Rightarrow> vip_meta \<Rightarrow> u32 \<Rightarrow> bool rcm" where
  "add_writes sd key meta backend_id =
    and_then (fill_fwd_table sd (vm_vip_num meta) backend_id) (syscall (sd_sys sd) (vip_elem key meta))"

definition del_writes :: "seed_host \<Rightarrow> vip_key \<Rightarrow> u32 \<Rightarrow> bool rcm" where
  "del_writes sd key vip_num =
    and_then (syscall (sd_sys sd) (\<lambda>m. Some (m\<lparr>m_vip_map := (m_vip_map m)(key := None)\<rparr>)))
     (do { s \<leftarrow> State_Monad.get;
           if vip_num_still_referenced (sd_sys sd) (m_vip_map (rc_maps s)) vip_num then State_Monad.return True
           else fill_fwd_table sd vip_num MARLIN_NO_BACKEND })"

definition exit_code :: "bool rcm \<Rightarrow> int rcm" where
  "exit_code a = do { ok \<leftarrow> a; State_Monad.return (if ok then 0 else 1) }"

definition cmd_add :: "seed_host \<Rightarrow> string list \<Rightarrow> int rcm" where
  "cmd_add sd argv =
    (case argv of
       [pindir, vip, port, proto, vip_num, flags, backend_id] \<Rightarrow>
         (case (build_key vip port proto, parse_u32 vip_num (ucast MAX_VIPS - 1), parse_u32 flags 0xffffffff, parse_u32 backend_id (ucast MAX_BACKENDS - 1)) of
            (Some key, Some vip_num, Some flags, Some backend_id) \<Rightarrow>
              if backend_id = MARLIN_NO_BACKEND then State_Monad.return 1
              else if map_fd sd pindir ''vip_map'' < 0 then State_Monad.return 1
              else if map_fd sd pindir ''fwd_table'' < 0 then State_Monad.return 1
              else exit_code (add_writes sd key (seed_meta vip_num flags) backend_id)
          | _ \<Rightarrow> State_Monad.return 1)
     | _ \<Rightarrow> State_Monad.return 1)"

definition cmd_del :: "seed_host \<Rightarrow> string list \<Rightarrow> int rcm" where
  "cmd_del sd argv =
    (case argv of
       [pindir, vip, port, proto, vip_num] \<Rightarrow>
         (case (build_key vip port proto, parse_u32 vip_num (ucast MAX_VIPS - 1)) of
            (Some key, Some vip_num) \<Rightarrow>
              if map_fd sd pindir ''vip_map'' < 0 then State_Monad.return 1
              else if map_fd sd pindir ''fwd_table'' < 0 then State_Monad.return 1
              else exit_code (del_writes sd key vip_num)
          | _ \<Rightarrow> State_Monad.return 1)
     | _ \<Rightarrow> State_Monad.return 1)"

definition seed_main :: "seed_host \<Rightarrow> string list \<Rightarrow> int rcm" where
  "seed_main sd args =
    (if args = [''--version''] then State_Monad.return 0
     else (case args of
       [] \<Rightarrow> State_Monad.return 1
     | cmd # argv \<Rightarrow>
         if cmd = ''add'' then cmd_add sd argv
         else if cmd = ''del'' then cmd_del sd argv
         else State_Monad.return 1))"

section \<open>What the writes do\<close>

lemma fill_fwd_table_runs:
  "runs (\<lambda>m. m = m0) (fill_fwd_table sd n b) (mixed n (replicate table_size b) m0)
     (\<lambda>m. mixed n (replicate table_size b) m0 m \<and> holds_block n (replicate table_size b) m)"
  unfolding fill_fwd_table_def Let_def row_def [symmetric]
  by (rule runs_get, rule runs_if, rule runs_return, simp, rule runs_mono [OF fill_runs]) (auto simp: row_def)

text \<open>During an addition: until the key is there the table may be a mixture in its block; once the key is
  there the block is complete. Nothing else changes.\<close>

definition adding :: "vip_key \<Rightarrow> vip_meta \<Rightarrow> u32 \<Rightarrow> bpf_maps \<Rightarrow> bpf_maps \<Rightarrow> bool" where
  "adding key meta b m0 m \<longleftrightarrow> (\<exists>m1. mixed (vm_vip_num meta) (replicate table_size b) m0 m1 \<and>
     (m = m1 \<or> m = m1\<lparr>m_vip_map := (m_vip_map m0)(key \<mapsto> meta)\<rparr> \<and> holds_block (vm_vip_num meta) (replicate table_size b) m1))"

lemma add_writes_runs:
  "runs (\<lambda>m. m = m0) (add_writes sd key meta b) (adding key meta b m0)
     (\<lambda>m. adding key meta b m0 m \<and> m_vip_map m = (m_vip_map m0)(key \<mapsto> meta) \<and> holds_block (vm_vip_num meta) (replicate table_size b) m)"
proof -
  let ?vs = "replicate table_size b" and ?n = "vm_vip_num meta"
  have fill: "runs (\<lambda>m. m = m0) (fill_fwd_table sd ?n b) (adding key meta b m0) (\<lambda>m. mixed ?n ?vs m0 m \<and> holds_block ?n ?vs m)"
    by (rule runs_mono [OF fill_fwd_table_runs]) (auto simp: adding_def)
  show ?thesis
    unfolding add_writes_def
  proof (rule runs_and_then [OF fill], rule runs_syscall)
    fix m m' assume m: "mixed ?n ?vs m0 m \<and> holds_block ?n ?vs m" and "vip_elem key meta m = Some m'"
    then have m': "m' = m\<lparr>m_vip_map := (m_vip_map m0)(key \<mapsto> meta)\<rparr>"
      using mixed_maps by (auto simp: vip_elem_def split: if_splits)
    then have "adding key meta b m0 m'" using m unfolding adding_def by blast
    then show "adding key meta b m0 m' \<and> adding key meta b m0 m' \<and> m_vip_map m' = (m_vip_map m0)(key \<mapsto> meta) \<and> holds_block ?n ?vs m'"
      using m m' by (simp add: holds_block_def)
  qed
qed

text \<open>During a deletion: the key is gone from the first write on, and a block is touched only when no key
  that is left leads to it.\<close>

definition deleting :: "vip_key \<Rightarrow> u32 \<Rightarrow> bpf_maps \<Rightarrow> bpf_maps \<Rightarrow> bool" where
  "deleting key n m0 m \<longleftrightarrow> (\<exists>m1. m1 = m0\<lparr>m_vip_map := (m_vip_map m0)(key := None)\<rparr> \<and>
     (m = m1 \<or> mixed n (replicate table_size 0) m1 m \<and> (\<forall>k meta. m_vip_map m1 k = Some meta \<longrightarrow> vm_vip_num meta \<noteq> n)))"

lemma still_referenced_iff:
  assumes "reads_ok sys" "finite (dom vm)"
  shows "vip_num_still_referenced sys vm n \<longleftrightarrow> (\<exists>k meta. vm k = Some meta \<and> vm_vip_num meta = n)"
proof -
  have "set (readable sys (sys_vip_keys sys vm)) = dom vm"
    using assms by (simp add: readable_all) (simp add: reads_ok_def enumerates_def)
  then show ?thesis by (fastforce simp: vip_num_still_referenced_def list_ex_iff split: option.splits)
qed

lemma del_writes_runs:
  assumes "reads_ok (sd_sys sd)" "finite (dom (m_vip_map m0))"
  shows "runs (\<lambda>m. m = m0) (del_writes sd key n) (deleting key n m0)
    (\<lambda>m. m_vip_map m = (m_vip_map m0)(key := None) \<and>
      ((\<forall>k meta. m_vip_map m k = Some meta \<longrightarrow> vm_vip_num meta \<noteq> n) \<longrightarrow> holds_block n (replicate table_size 0) m))"
proof -
  define m1 where "m1 = m0\<lparr>m_vip_map := (m_vip_map m0)(key := None)\<rparr>"
  let ?Q = "\<lambda>m. m_vip_map m = (m_vip_map m0)(key := None) \<and>
      ((\<forall>k meta. m_vip_map m k = Some meta \<longrightarrow> vm_vip_num meta \<noteq> n) \<longrightarrow> holds_block n (replicate table_size 0) m)"
  have "finite (dom (m_vip_map m1))" using assms(2) by (simp add: m1_def)
  note ref = still_referenced_iff [OF assms(1) this, of n]
  have fill: "runs (\<lambda>m. m = m1) (fill_fwd_table sd n MARLIN_NO_BACKEND) (deleting key n m0) ?Q" if "\<not> vip_num_still_referenced (sd_sys sd) (m_vip_map m1) n"
    by (rule runs_mono [OF fill_fwd_table_runs]) (use that ref m1_def mixed_maps in \<open>auto simp: deleting_def\<close>)
  show ?thesis
    unfolding del_writes_def
  proof (rule runs_and_then [where R = "\<lambda>m. m = m1"])
    show "runs (\<lambda>m. m = m0) (syscall (sd_sys sd) (\<lambda>m. Some (m\<lparr>m_vip_map := (m_vip_map m)(key := None)\<rparr>))) (deleting key n m0) (\<lambda>m. m = m1)"
      by (rule runs_syscall) (auto simp: deleting_def m1_def)
    show "runs (\<lambda>m. m = m1)
       (do { s \<leftarrow> State_Monad.get;
             if vip_num_still_referenced (sd_sys sd) (m_vip_map (rc_maps s)) n then State_Monad.return True else fill_fwd_table sd n MARLIN_NO_BACKEND })
       (deleting key n m0) ?Q"
    proof (rule runs_get)
      fix s
      show "runs (\<lambda>m. m = m1 \<and> m = rc_maps s)
        (if vip_num_still_referenced (sd_sys sd) (m_vip_map (rc_maps s)) n then State_Monad.return True else fill_fwd_table sd n MARLIN_NO_BACKEND)
        (deleting key n m0) ?Q"
      proof (cases "rc_maps s = m1")
        case True
        show ?thesis unfolding True
        proof (rule runs_if)
          assume "vip_num_still_referenced (sd_sys sd) (m_vip_map m1) n"
          then show "runs (\<lambda>m. m = m1 \<and> m = m1) (State_Monad.return True) (deleting key n m0) ?Q"
            unfolding ref by (intro runs_return) (auto simp: m1_def split: if_splits)
        qed (rule runs_mono [OF fill], auto)
      qed (rule runs_contra, simp)
    qed
  qed
qed

lemma parse_u32_bound:
  assumes "parse_u32 str maxv = Some v" "maxv < 2 ^ 32"
  shows "unat v \<le> unat maxv"
proof -
  obtain x :: u64 where x: "v = ucast x" "x \<le> maxv"
    using assms(1) by (auto simp: parse_u32_def not_less split: prod.splits if_splits)
  then have "unat x \<le> unat maxv" "unat v = unat x mod 2 ^ 32" by (simp_all add: word_le_nat_alt unsigned_ucast_eq take_bit_eq_mod)
  then show ?thesis using le_trans mod_less_eq_dividend by metis
qed

lemma exit_code_run:
  "run_state (exit_code a) s = (rc, s') \<longleftrightarrow> (\<exists>ok. run_state a s = (ok, s') \<and> rc = (if ok then 0 else 1))"
  by (auto simp: exit_code_def split: prod.splits)

lemma cmd_add_cases:
  assumes "run_state (cmd_add sd argv) s = (rc, s')"
  obtains (refused) "rc = 1" "s' = s"
  | (ran) key n flags b ok where "build_key (argv ! 1) (argv ! 2) (argv ! 3) = Some key" "n < MAX_VIPS" "b \<noteq> MARLIN_NO_BACKEND" "b < MAX_BACKENDS"
      "run_state (add_writes sd key (seed_meta n flags) b) s = (ok, s')" "rc = (if ok then 0 else 1)"
proof -
  have num: "n < MAX_VIPS" if "parse_u32 x (ucast MAX_VIPS - 1) = Some n" for x n
    using parse_u32_bound [OF that] by (simp add: word_less_nat_alt)
  have be: "b < MAX_BACKENDS" if "parse_u32 x (ucast MAX_BACKENDS - 1) = Some b" for x b
    using parse_u32_bound [OF that] by (simp add: word_less_nat_alt)
  show ?thesis
  proof (cases "run_state (cmd_add sd argv) s = (1, s)")
    case True
    then show ?thesis using assms refused by simp
  next
    case False
    then show ?thesis
      using assms
      by (auto simp: cmd_add_def exit_code_run simp del: MAX_VIPS_def MAX_BACKENDS_def split: list.splits option.splits prod.splits if_splits
          intro!: ran dest: num be)
  qed
qed

lemma cmd_del_cases:
  assumes "run_state (cmd_del sd argv) s = (rc, s')"
  obtains (refused) "rc = 1" "s' = s"
  | (ran) key n ok where "build_key (argv ! 1) (argv ! 2) (argv ! 3) = Some key" "n < MAX_VIPS"
      "run_state (del_writes sd key n) s = (ok, s')" "rc = (if ok then 0 else 1)"
proof -
  have num: "n < MAX_VIPS" if "parse_u32 x (ucast MAX_VIPS - 1) = Some n" for x n
    using parse_u32_bound [OF that] by (simp add: word_less_nat_alt)
  show ?thesis
  proof (cases "run_state (cmd_del sd argv) s = (1, s)")
    case True
    then show ?thesis using assms refused by simp
  next
    case False
    then show ?thesis
      using assms
      by (auto simp: cmd_del_def exit_code_run simp del: MAX_VIPS_def split: list.splits option.splits prod.splits if_splits
          intro!: ran dest: num)
  qed
qed

section \<open>Properties\<close>

definition block_kept :: "u32 \<Rightarrow> bpf_maps \<Rightarrow> bpf_maps \<Rightarrow> bool" where
  "block_kept n m0 m \<longleftrightarrow> (\<forall>i<table_size. m_fwd_table m (row n i) = m_fwd_table m0 (row n i))"

text \<open>A key leads where it led before, or to a whole block of the new backend; the blocks of all other
  numbers are as they were.\<close>

definition seed_added :: "u32 \<Rightarrow> u32 \<Rightarrow> bpf_maps \<Rightarrow> bpf_maps \<Rightarrow> bool" where
  "seed_added n b m0 m \<longleftrightarrow>
     (\<forall>k meta. m_vip_map m k = Some meta \<longrightarrow> m_vip_map m0 k = Some meta \<or> vm_vip_num meta = n \<and> holds_block n (replicate table_size b) m) \<and>
     (\<forall>n'<MAX_VIPS. n' \<noteq> n \<longrightarrow> block_kept n' m0 m)"

lemma adding_added:
  assumes "adding key meta b m0 m" "vm_vip_num meta < MAX_VIPS"
  shows "seed_added (vm_vip_num meta) b m0 m"
proof -
  obtain m1 where m1: "mixed (vm_vip_num meta) (replicate table_size b) m0 m1"
    "m = m1 \<or> m = m1\<lparr>m_vip_map := (m_vip_map m0)(key \<mapsto> meta)\<rparr> \<and> holds_block (vm_vip_num meta) (replicate table_size b) m1"
    using assms(1) unfolding adding_def by blast
  then have "block_kept n' m0 m" if "n' < MAX_VIPS" "n' \<noteq> vm_vip_num meta" for n'
    using mixed_other [OF m1(1) that(2) assms(2) that(1)] by (auto simp: block_kept_def)
  then show ?thesis using m1 mixed_maps by (auto simp: seed_added_def holds_block_def split: if_splits)
qed


text \<open>A system on which the third write fails, and two addresses that share a number.\<close>

definition seed_sample :: seed_host where
  "seed_sample = \<lparr>sd_obj_get = (\<lambda>_. 3), sd_alloc = (\<lambda>_. True), sd_sys = reload_sys\<rparr>"

definition seed_key :: "u32 \<Rightarrow> vip_key" where
  "seed_key a = \<lparr>vk_addr = (a, 0, 0, 0), vk_port = bswap16 80, vk_proto = 6, vk_family = AF_INET\<rparr>"

definition seed_maps :: bpf_maps where
  "seed_maps = acl_sample_maps\<lparr>m_fwd_table := (\<lambda>k. if k < MAX_VIPS * TABLE_SIZE then Some 0 else None),
     m_vip_map := [seed_key 0x0100000a \<mapsto> seed_meta 3 0, seed_key 0x0200000a \<mapsto> seed_meta 3 0]\<rparr>"

definition seed_state :: rc where
  "seed_state = \<lparr>rc_maps = seed_maps, rc_diag = conf_diag_reset, rc_ops = 0, rc_trace = []\<rparr>"

definition seed_args :: "string list" where
  "seed_args = [''/sys/fs/bpf/marlin'', ''10.0.0.1'', ''80'', ''6'', ''0x3'']"




end
