(* ===== verification/Marlind_Reconcile_Vip.thy ===== *)
theory Marlind_Reconcile_Vip
  imports Marlind_Blocks
begin

text \<open>
  What a reload does to the services: the writes of \<open>reconcile_apply\<close> refine the publication that
  \<open>Marlind_Vip_Alloc\<close> proves safe. There a block is rewritten in one step and a step never fails;
  here every row is a system call that may fail. The result is stated on the contents of the maps
  after every call: each row a key leads to is the one the key had, or the new one of its own VIP.
\<close>

section \<open>The abstract state behind the maps\<close>

definition vip_block :: "'f::linorder fpu \<Rightarrow> marlin_conf \<Rightarrow> conf_vip \<Rightarrow> u32 list" where
  "vip_block fp conf v = fwd_gen_block fp (cv_table_seed v) (fwd_members conf v)"

text \<open>A block holds what the abstract state says it holds.\<close>

definition block_holds :: "'f::linorder fpu \<Rightarrow> marlin_conf \<Rightarrow> bpf_maps \<Rightarrow> bpf_maps \<Rightarrow> nat \<Rightarrow> block_content \<Rightarrow> bool" where
  "block_holds fp conf m0 m n c =
    (case c of
       OldBlock \<Rightarrow> \<forall>i<table_size. m_fwd_table m (row (of_nat n) i) = m_fwd_table m0 (row (of_nat n) i)
     | EntryBlock e \<Rightarrow> holds_block (of_nat n) (vip_block fp conf (mf_vips conf ! e)) m
     | ZeroedBlock \<Rightarrow> holds_block (of_nat n) (replicate table_size 0) m)"

definition sim :: "'f::linorder fpu \<Rightarrow> marlin_conf \<Rightarrow> bpf_maps \<Rightarrow> publish_state \<Rightarrow> bpf_maps \<Rightarrow> bool" where
  "sim fp conf m0 s m \<longleftrightarrow> (\<forall>k. map_option (unat \<circ> vm_vip_num) (m_vip_map m k) = fst s k) \<and>
     (\<forall>k n. fst s k = Some n \<longrightarrow> n < max_vips) \<and> (\<forall>n<max_vips. block_holds fp conf m0 m n (snd s n))"

text \<open>The row that a key leads to for one value of the flow hash is the row the key had, or the new row of
  a VIP that has this key.\<close>

definition row_ok :: "'f::linorder fpu \<Rightarrow> marlin_conf \<Rightarrow> bpf_maps \<Rightarrow> bpf_maps \<Rightarrow> vip_key \<Rightarrow> u32 \<Rightarrow> nat \<Rightarrow> bool" where
  "row_ok fp conf m0 m k n i \<longleftrightarrow>
     (\<exists>meta0. m_vip_map m0 k = Some meta0 \<and> vm_vip_num meta0 = n \<and> m_fwd_table m (row n i) = m_fwd_table m0 (row n i)) \<or>
     (\<exists>v\<in>set (mf_vips conf). k \<in> set (cv_keys v) \<and> m_fwd_table m (row n i) = Some (vip_block fp conf v ! i))"

definition isolated :: "'f::linorder fpu \<Rightarrow> marlin_conf \<Rightarrow> bpf_maps \<Rightarrow> bpf_maps \<Rightarrow> bool" where
  "isolated fp conf m0 m \<longleftrightarrow> (\<forall>k meta. m_vip_map m k = Some meta \<longrightarrow> (\<forall>i<table_size. row_ok fp conf m0 m k (vm_vip_num meta) i))"

text \<open>The allocated entries are the VIPs of the configuration, and the baseline is the live map.\<close>

definition plan_for :: "marlin_conf \<Rightarrow> bpf_maps \<Rightarrow> vip_alloc_entry list \<Rightarrow> (vip_key \<rightharpoonup> nat) \<Rightarrow> bool" where
  "plan_for conf m0 es base \<longleftrightarrow> length es = length (mf_vips conf) \<and>
     (\<forall>e<length es. va_key_list (es ! e) = cv_keys (mf_vips conf ! e) \<and> va_vip_num (es ! e) < max_vips \<and>
        vm_vip_num (cv_meta (mf_vips conf ! e)) = of_nat (va_vip_num (es ! e))) \<and>
     (\<forall>k. base k = map_option (unat \<circ> vm_vip_num) (m_vip_map m0 k))"

lemma num_word: "n < max_vips \<Longrightarrow> unat (of_nat n :: u32) = n"
  by (simp add: unat_of_nat)

lemma num_less: "n < max_vips \<Longrightarrow> (of_nat n :: u32) < MAX_VIPS"
  by (simp add: word_less_nat_alt unat_of_nat)

lemma num_eq: "n < max_vips \<Longrightarrow> n' < max_vips \<Longrightarrow> (of_nat n :: u32) = of_nat n' \<longleftrightarrow> n = n'"
  by (metis num_word)

lemma sim_key:
  assumes "sim fp conf m0 s m" "m_vip_map m k = Some meta"
  shows "fst s k = Some (unat (vm_vip_num meta)) \<and> unat (vm_vip_num meta) < max_vips \<and>
    block_holds fp conf m0 m (unat (vm_vip_num meta)) (snd s (unat (vm_vip_num meta)))"
proof -
  have "fst s k = Some (unat (vm_vip_num meta))" using assms unfolding sim_def by (metis comp_apply option.simps(9))
  then show ?thesis using assms(1) unfolding sim_def by blast
qed

text \<open>A content that the abstract state describes is isolated when that state is safe.\<close>

lemma safe_row:
  assumes "plan_for conf m0 es base" "traffic_ok es base s" "fst s k = Some n"
    and "block_holds fp conf m0 m n (snd s n)" "i < table_size" "n < max_vips"
  shows "row_ok fp conf m0 m k (of_nat n) i"
proof -
  consider "snd s n = OldBlock" "base k = Some n" | e where "e < length es" "k \<in> set (va_key_list (es ! e))" "snd s n = EntryBlock e"
    using assms(2,3) unfolding traffic_ok_def by blast
  then show ?thesis
  proof cases
    case 1
    then obtain meta0 where "m_vip_map m0 k = Some meta0" "unat (vm_vip_num meta0) = n"
      using assms(1) by (auto simp: plan_for_def)
    then show ?thesis using 1 assms(4,5) by (auto simp: row_ok_def block_holds_def)
  next
    case 2
    then show ?thesis using assms(1,4,5) by (auto simp: row_ok_def block_holds_def holds_block_def plan_for_def)
  qed
qed

lemma sim_isolated:
  assumes "plan_for conf m0 es base" "traffic_ok es base s" "sim fp conf m0 s m"
  shows "isolated fp conf m0 m"
  unfolding isolated_def
proof (intro allI impI)
  fix k meta i
  assume k: "m_vip_map m k = Some meta" and i: "i < table_size"
  note key = sim_key [OF assms(3) k]
  have "row_ok fp conf m0 m k (of_nat (unat (vm_vip_num meta))) i"
    using key by (intro safe_row [OF assms(1,2) _ _ i]) simp_all
  then show "row_ok fp conf m0 m k (vm_vip_num meta) i" by simp
qed

section \<open>Calls that realise a publication\<close>

definition realises ::
  "'f::linorder fpu \<Rightarrow> marlin_conf \<Rightarrow> bpf_maps \<Rightarrow> vip_alloc_entry list \<Rightarrow> (vip_key \<rightharpoonup> nat) \<Rightarrow> publish_op list \<Rightarrow> bool rcm \<Rightarrow> bool" where
  "realises fp conf m0 es base ops a \<longleftrightarrow> (\<forall>s. throughout (traffic_ok es base) ops s \<longrightarrow>
     runs (sim fp conf m0 s) a (isolated fp conf m0) (sim fp conf m0 (fold publish_step ops s)))"

lemma realises_and_then:
  "realises fp conf m0 es base xs a \<Longrightarrow> realises fp conf m0 es base ys b \<Longrightarrow> realises fp conf m0 es base (xs @ ys) (and_then a b)"
  unfolding realises_def throughout_append fold_append comp_apply by (intro allI impI, elim conjE, rule runs_and_then) blast+

lemma realises_return: "realises fp conf m0 es base [] (State_Monad.return True)"
  by (simp add: realises_def runs_return)

lemma realises_refuse: "realises fp conf m0 es base ops (do { rc_report msg; State_Monad.return False })"
  by (simp add: realises_def refuse)

lemma realises_if: "(c \<Longrightarrow> realises fp conf m0 es base ops a) \<Longrightarrow> (\<not> c \<Longrightarrow> realises fp conf m0 es base ops b) \<Longrightarrow> realises fp conf m0 es base ops (if c then a else b)"
  by simp

lemma realises_get: "(\<And>s. realises fp conf m0 es base ops (f s)) \<Longrightarrow> realises fp conf m0 es base ops (State_Monad.bind State_Monad.get f)"
  unfolding realises_def by (intro allI impI runs_get) (blast intro: runs_mono)

lemma realises_all_ok:
  "(\<And>x. x \<in> set xs \<Longrightarrow> realises fp conf m0 es base (g x) (f x)) \<Longrightarrow> realises fp conf m0 es base (concat (map g xs)) (all_ok f xs)"
  by (induction xs) (simp_all add: realises_return realises_and_then)

text \<open>A call that leaves both tables alone realises nothing.\<close>

lemma realises_frame:
  assumes "plan_for conf m0 es base" "\<And>s. runs (sim fp conf m0 s) a (sim fp conf m0 s) (sim fp conf m0 s)"
  shows "realises fp conf m0 es base [] a"
  unfolding realises_def using runs_mono [OF assms(2)] sim_isolated [OF assms(1)] by simp blast

lemma sim_other [simp]:
  "sim fp conf m0 s (m\<lparr>m_tx_ports := t1\<rparr>) = sim fp conf m0 s m" "sim fp conf m0 s (m\<lparr>m_backends := t2\<rparr>) = sim fp conf m0 s m"
  "sim fp conf m0 s (m\<lparr>m_config := t3\<rparr>) = sim fp conf m0 s m"
  by (simp_all add: sim_def block_holds_def holds_block_def cong: block_content.case_cong)

section \<open>The calls\<close>

lemma realises_delete:
  assumes "plan_for conf m0 es base"
  shows "realises fp conf m0 es base [DeleteKey k] (or_report (syscall sys (\<lambda>m. Some (m\<lparr>m_vip_map := (m_vip_map m)(k := None)\<rparr>))) msg)"
  unfolding realises_def
proof (intro allI impI runs_or_report runs_syscall)
  fix s m m'
  assume safe: "throughout (traffic_ok es base) [DeleteKey k] s" and m: "sim fp conf m0 s m" "Some (m\<lparr>m_vip_map := (m_vip_map m)(k := None)\<rparr>) = Some m'"
  obtain vm blk where s: "s = (vm, blk)" by fastforce
  have "sim fp conf m0 (publish_step (DeleteKey k) s) m'"
    using m by (auto simp: s sim_def block_holds_def holds_block_def split: block_content.splits)
  then show "isolated fp conf m0 m' \<and> sim fp conf m0 (fold publish_step [DeleteKey k] s) m'"
    using sim_isolated [OF assms, of "publish_step (DeleteKey k) s"] safe by simp
qed

lemma realises_publish:
  assumes "plan_for conf m0 es base" "n < max_vips" "vm_vip_num meta = of_nat n"
  shows "realises fp conf m0 es base [PublishKey k n] (or_report (syscall sys (vip_elem k meta)) msg)"
  unfolding realises_def
proof (intro allI impI runs_or_report runs_syscall)
  fix s m m'
  assume safe: "throughout (traffic_ok es base) [PublishKey k n] s" and m: "sim fp conf m0 s m" "vip_elem k meta m = Some m'"
  obtain vm blk where s: "s = (vm, blk)" by fastforce
  have m': "m' = m\<lparr>m_vip_map := (m_vip_map m)(k \<mapsto> meta)\<rparr>" using m(2) by (simp add: vip_elem_def split: if_splits)
  have "sim fp conf m0 (publish_step (PublishKey k n) s) m'"
    using m(1) assms(2,3) num_word [OF assms(2)] by (auto simp: m' s sim_def block_holds_def holds_block_def split: block_content.splits)
  then show "isolated fp conf m0 m' \<and> sim fp conf m0 (fold publish_step [PublishKey k n] s) m'"
    using sim_isolated [OF assms(1), of "publish_step (PublishKey k n) s"] safe by simp
qed

text \<open>While a block is rewritten, its rows are partly those of the state before and partly those of the
  state after, and both are safe.\<close>

lemma block_holds_other:
  assumes "mixed (of_nat n) vs m m'" "n' \<noteq> n" "n < max_vips" "n' < max_vips" "block_holds fp conf m0 m n' c"
  shows "block_holds fp conf m0 m' n' c"
proof -
  have "\<forall>i<table_size. m_fwd_table m' (row (of_nat n') i) = m_fwd_table m (row (of_nat n') i)"
    using mixed_other [OF assms(1), of "of_nat n'"] num_less assms num_eq by blast
  then show ?thesis using assms(5) by (auto simp: block_holds_def holds_block_def split: block_content.splits)
qed

lemma mixed_isolated:
  assumes plan: "plan_for conf m0 es base" and safe: "traffic_ok es base (vm, blk)" "traffic_ok es base (vm, blk(n := c))"
    and sim: "sim fp conf m0 (vm, blk) m" and mix: "mixed (of_nat n) vs m m'" and n: "n < max_vips"
    and new: "\<And>m'. holds_block (of_nat n) vs m' \<Longrightarrow> block_holds fp conf m0 m' n c"
  shows "isolated fp conf m0 m'"
  unfolding isolated_def
proof (intro allI impI)
  fix k meta i
  assume k: "m_vip_map m' k = Some meta" and i: "i < table_size"
  then have k': "m_vip_map m k = Some meta" using mixed_maps [OF mix] by simp
  define n' where "n' = unat (vm_vip_num meta)"
  have key: "vm k = Some n'" "n' < max_vips" "block_holds fp conf m0 m n' (blk n')" "of_nat n' = vm_vip_num meta"
    using sim_key [OF sim k'] by (simp_all add: n'_def)
  have "row_ok fp conf m0 m' k (of_nat n') i"
  proof (cases "n' = n")
    case False
    then have "block_holds fp conf m0 m' n' (blk n')" using block_holds_other [OF mix _ n key(2,3)] by blast
    then show ?thesis using key by (intro safe_row [OF plan safe(1) _ _ i]) simp_all
  next
    case True
    define full where "full = m'\<lparr>m_fwd_table := \<lambda>x. if \<exists>j<table_size. x = row (of_nat n) j then Some (vs ! (THE j. j < table_size \<and> x = row (of_nat n) j)) else m_fwd_table m' x\<rparr>"
    have full: "m_fwd_table full (row (of_nat n) j) = Some (vs ! j)" if "j < table_size" for j
      using that by (auto simp: full_def intro!: arg_cong [where f = "(!) vs"] the_equality)
    then have "block_holds fp conf m0 full n c" by (intro new) (simp add: holds_block_def)
    then have new_row: "row_ok fp conf m0 full k (of_nat n) i"
      using safe_row [OF plan safe(2), of k n] key(1) True i n by simp
    have old_row: "row_ok fp conf m0 m k (of_nat n) i"
      using safe_row [OF plan safe(1), of k n] key True i n by simp
    show ?thesis
      using mixed_row [OF mix i] full [OF i] old_row new_row unfolding row_ok_def True by auto
  qed
  then show "row_ok fp conf m0 m' k (vm_vip_num meta) i" using key(4) by simp
qed

lemma realises_block:
  assumes plan: "plan_for conf m0 es base" and n: "n < max_vips"
    and step: "\<And>vm blk. publish_step op (vm, blk) = (vm, blk(n := c))"
    and new: "\<And>m'. holds_block (of_nat n) vs m' \<Longrightarrow> block_holds fp conf m0 m' n c"
  shows "realises fp conf m0 es base [op] (write_fwd_block h sys (of_nat n) vs)"
  unfolding realises_def runs_def
proof (intro allI impI)
  fix s and rs :: rc
  assume safe: "throughout (traffic_ok es base) [op] s" and m: "sim fp conf m0 s (rc_maps rs)"
  obtain vm blk where s: "s = (vm, blk)" by fastforce
  have safe': "traffic_ok es base (vm, blk)" "traffic_ok es base (vm, blk(n := c))" using safe by (simp_all add: s step)
  have iso: "isolated fp conf m0 m'" if "mixed (of_nat n) vs (rc_maps rs) m'" for m'
    using mixed_isolated [OF plan safe' m [unfolded s] that n new] .
  have fin: "sim fp conf m0 (vm, blk(n := c)) m'" if "mixed (of_nat n) vs (rc_maps rs) m'" "holds_block (of_nat n) vs m'" for m'
  proof -
    have "block_holds fp conf m0 m' n' ((blk(n := c)) n')" if "n' < max_vips" for n'
    proof (cases "n' = n")
      case False
      have "block_holds fp conf m0 (rc_maps rs) n' (blk n')" using m that by (simp add: s sim_def)
      then have "block_holds fp conf m0 m' n' (blk n')" by (rule block_holds_other [OF \<open>mixed (of_nat n) vs (rc_maps rs) m'\<close> False n that])
      then show ?thesis using False by simp
    qed (simp add: new [OF \<open>holds_block (of_nat n) vs m'\<close>])
    then show ?thesis using m mixed_maps [OF that(1)] by (simp add: s sim_def del: fun_upd_apply)
  qed
  show "(\<exists>new. rc_trace (snd (run_state (write_fwd_block h sys (of_nat n) vs) rs)) = rc_trace rs @ new \<and> (\<forall>m\<in>set new. isolated fp conf m0 m) \<and>
      rc_maps (snd (run_state (write_fwd_block h sys (of_nat n) vs) rs)) = last (rc_maps rs # new)) \<and>
    (fst (run_state (write_fwd_block h sys (of_nat n) vs) rs) \<longrightarrow> sim fp conf m0 (fold publish_step [op] s) (rc_maps (snd (run_state (write_fwd_block h sys (of_nat n) vs) rs))))"
    using runsD [OF write_fwd_block_runs prod.collapse [symmetric] refl, of h sys "of_nat n" vs rs] iso fin by (auto simp: s step)
qed

lemma realises_write_vip:
  assumes plan: "plan_for conf m0 es base" and e: "e < length es"
  shows "realises fp conf m0 es base (entry_ops es e) (write_vip fp h sys conf (mf_vips conf ! e))"
proof -
  let ?v = "mf_vips conf ! e" and ?n = "va_vip_num (es ! e)"
  have n: "?n < max_vips" "vm_vip_num (cv_meta ?v) = of_nat ?n" and keys: "va_key_list (es ! e) = cv_keys ?v"
    using plan e by (simp_all add: plan_for_def)
  have "realises fp conf m0 es base ([WriteBlock ?n e] @ concat (map (\<lambda>k. [PublishKey k ?n]) (cv_keys ?v)))
    (and_then (write_fwd_block h sys (of_nat ?n) (vip_block fp conf ?v))
      (all_ok (\<lambda>k. or_report (syscall sys (vip_elem k (cv_meta ?v))) ''vip_map: %s'') (cv_keys ?v)))"
    by (intro realises_and_then realises_all_ok realises_publish [OF plan n] realises_block [OF plan n(1), where c = "EntryBlock e"])
      (simp_all add: block_holds_def)
  then show ?thesis
    unfolding write_vip_def n(2) vip_block_def [symmetric]
    by (intro realises_get realises_if realises_refuse) (simp add: entry_ops_def keys)
qed

lemma realises_release:
  assumes "plan_for conf m0 es base" "set ns \<subseteq> {..<max_vips}"
  shows "realises fp conf m0 es base (map ZeroBlock ns) (release_stale_vip_blocks h sys ns)"
proof -
  have "realises fp conf m0 es base [ZeroBlock n] (zero_fwd_block h sys (of_nat n))" if "n \<in> set ns" for n
    unfolding zero_fwd_block_def
    by (intro realises_get realises_if realises_refuse realises_block [OF assms(1), where c = ZeroedBlock])
      (use that assms(2) in \<open>auto simp: block_holds_def\<close>)
  from realises_all_ok [of ns, OF this] show ?thesis
    unfolding release_stale_vip_blocks_def by simp
qed

lemma realises_remove_stale:
  assumes "plan_for conf m0 es base"
  shows "realises fp conf m0 es base (map DeleteKey (filter (\<lambda>k. \<not> key_in_conf conf k) (map vb_key baseline))) (remove_stale_vip_keys sys conf baseline)"
proof -
  have "realises fp conf m0 es base (if key_in_conf conf (vb_key b) then [] else [DeleteKey (vb_key b)])
     (if key_in_conf conf (vb_key b) then State_Monad.return True
      else or_report (syscall sys (\<lambda>m. Some (m\<lparr>m_vip_map := (m_vip_map m)(vb_key b := None)\<rparr>))) ''vip_map delete failed: %s'')" for b
    by (simp add: realises_return realises_delete [OF assms])
  from realises_all_ok [of baseline, OF this]
  have "realises fp conf m0 es base (concat (map (\<lambda>b. if key_in_conf conf (vb_key b) then [] else [DeleteKey (vb_key b)]) baseline)) (remove_stale_vip_keys sys conf baseline)"
    unfolding remove_stale_vip_keys_def .
  moreover have "concat (map (\<lambda>b. if key_in_conf conf (vb_key b) then [] else [DeleteKey (vb_key b)]) baseline) =
      map DeleteKey (filter (\<lambda>k. \<not> key_in_conf conf k) (map vb_key baseline))"
    by (induction baseline) auto
  ultimately show ?thesis by simp
qed

lemma acl_runs_frame:
  assumes "\<And>f m. R m \<Longrightarrow> R (upd f m)"
  shows "runs R (reconcile_acl h sys trie upd keys want eq um dm es) R R"
proof -
  have add: "runs R (all_ok (\<lambda>(i, e). or_report (syscall sys (acl_elem trie upd (want e) (of_nat i))) um) xs) R R" for xs
    by (rule runs_all_ok_inv) (auto simp: assms acl_elem_def split: prod.splits if_splits intro!: runs_or_report runs_syscall)
  have del: "runs R (all_ok (\<lambda>k. if list_ex (\<lambda>e. eq (want e) k) es then State_Monad.return True
      else or_report (syscall sys (\<lambda>m. Some (upd (\<lambda>t. t(k := None)) m))) dm) ks) R R" for ks
    by (rule runs_all_ok_inv) (auto simp: assms intro!: runs_return runs_or_report runs_syscall)
  show ?thesis
    unfolding reconcile_acl_def Let_def
    by (rule runs_get, rule runs_if, rule refuse, rule runs_and_then [OF runs_mono [OF add] del]) simp_all
qed

lemma acl_v4_frame: "(\<And>f m. R m \<Longrightarrow> R (upd f m)) \<Longrightarrow> runs R (reconcile_acl_v4 h sys trie upd es) R R"
  unfolding reconcile_acl_v4_def by (rule runs_get, rule runs_mono [OF acl_runs_frame]) auto

lemma acl_v6_frame: "(\<And>f m. R m \<Longrightarrow> R (upd f m)) \<Longrightarrow> runs R (reconcile_acl_v6 h sys trie upd es) R R"
  unfolding reconcile_acl_v6_def by (rule runs_get, rule runs_mono [OF acl_runs_frame]) auto

lemma sim_acl [simp]:
  "sim fp conf m0 s (m_acl_allow_v4_update f m) = sim fp conf m0 s m" "sim fp conf m0 s (m_acl_block_v4_update f m) = sim fp conf m0 s m"
  "sim fp conf m0 s (m_acl_allow_v6_update g m) = sim fp conf m0 s m" "sim fp conf m0 s (m_acl_block_v6_update g m) = sim fp conf m0 s m"
  by (simp_all add: sim_def block_holds_def holds_block_def cong: block_content.case_cong)

lemma realises_tables:
  assumes plan: "plan_for conf m0 es base" and "set (plan_write_order p) \<subseteq> {..<length es}" "set (plan_release p) \<subseteq> {..<max_vips}"
  shows "realises fp conf m0 es base (concat (map (entry_ops es) (plan_write_order p)) @ map ZeroBlock (plan_release p))
    (reconcile_tables fp h sys conf p L)"
proof -
  note frame = realises_frame [OF plan]
  have tx: "realises fp conf m0 es base [] (add_tx_ports sys w)" "realises fp conf m0 es base [] (remove_stale_tx_ports sys w)" for w
    by (intro frame tx_ports_frame; simp)+
  have be: "realises fp conf m0 es base [] (write_backends h sys conf)" "realises fp conf m0 es base [] (retire_stale_backends sys conf)"
    by (intro frame backends_frame; simp)+
  have cfg: "realises fp conf m0 es base [] (write_config h sys conf L)"
    by (intro frame write_config_runs) simp
  have vips: "realises fp conf m0 es base (concat (map (entry_ops es) (plan_write_order p))) (all_ok (\<lambda>i. write_vip fp h sys conf (mf_vips conf ! i)) (plan_write_order p))"
    using assms(2) by (intro realises_all_ok realises_write_vip [OF plan]) auto
  note rel = realises_release [OF plan assms(3), where fp = fp and h = h and sys = sys]
  have main: "realises fp conf m0 es base ([] @ [] @ concat (map (entry_ops es) (plan_write_order p)) @ map ZeroBlock (plan_release p) @ [] @ [] @ [])
     (and_then (add_tx_ports sys w) (and_then (write_backends h sys conf)
       (and_then (all_ok (\<lambda>i. write_vip fp h sys conf (mf_vips conf ! i)) (plan_write_order p))
       (and_then (release_stale_vip_blocks h sys (plan_release p))
       (and_then (retire_stale_backends sys conf) (and_then (remove_stale_tx_ports sys w) (write_config h sys conf L)))))))" for w
    by (intro realises_and_then tx be vips rel cfg)
  show ?thesis
    unfolding reconcile_tables_def realises_def
  proof (intro allI impI runs_quiet_bind quiet_resolve)
    fix s ports
    assume safe: "throughout (traffic_ok es base) (concat (map (entry_ops es) (plan_write_order p)) @ map ZeroBlock (plan_release p)) s"
    show "runs (sim fp conf m0 s) (case ports of None \<Rightarrow> State_Monad.return False | Some tx_want \<Rightarrow>
       and_then (add_tx_ports sys tx_want) (and_then (write_backends h sys conf)
       (and_then (all_ok (\<lambda>i. write_vip fp h sys conf (mf_vips conf ! i)) (plan_write_order p))
       (and_then (release_stale_vip_blocks h sys (plan_release p))
       (and_then (retire_stale_backends sys conf) (and_then (remove_stale_tx_ports sys tx_want) (write_config h sys conf L)))))))
      (isolated fp conf m0) (sim fp conf m0 (fold publish_step (concat (map (entry_ops es) (plan_write_order p)) @ map ZeroBlock (plan_release p)) s))"
    proof (cases ports)
      case (Some w)
      show ?thesis using main [of w, unfolded realises_def, THEN spec, THEN mp, of s] safe unfolding Some by simp
    qed (simp add: runs_return)
  qed
qed

lemma realises_maps:
  assumes plan: "plan_for conf m0 es base" and "set (plan_write_order p) \<subseteq> {..<length es}" "set (plan_release p) \<subseteq> {..<max_vips}"
    and owner: "\<And>b. b \<in> set baseline \<Longrightarrow> key_in_conf conf (vb_key b) \<longleftrightarrow> vip_alloc_owner es (vb_key b) \<noteq> VIP_ALLOC_NUM_UNSET"
  shows "realises fp conf m0 es base (publish_ops es baseline p) (reconcile_maps fp h sys conf baseline p L)"
proof -
  have dels: "filter (\<lambda>k. \<not> key_in_conf conf k) (map vb_key baseline) = filter (\<lambda>k. vip_alloc_owner es k = VIP_ALLOC_NUM_UNSET) (map vb_key baseline)"
    using owner by (intro filter_cong) auto
  note frame = realises_frame [OF plan]
  have cfg: "realises fp conf m0 es base [] (do { s \<leftarrow> State_Monad.get; write_config h sys conf (read_old_acl_lists (rc_maps s) OR L) })"
    by (intro realises_get frame write_config_runs) simp
  have acl: "realises fp conf m0 es base [] (reconcile_acl_v4 h sys m_acl_allow_v4 m_acl_allow_v4_update a4)"
    "realises fp conf m0 es base [] (reconcile_acl_v4 h sys m_acl_block_v4 m_acl_block_v4_update b4)"
    "realises fp conf m0 es base [] (reconcile_acl_v6 h sys m_acl_allow_v6 m_acl_allow_v6_update a6)"
    "realises fp conf m0 es base [] (reconcile_acl_v6 h sys m_acl_block_v6 m_acl_block_v6_update b6)" for a4 b4 a6 b6
    by (rule frame, rule acl_v4_frame acl_v6_frame, simp)+
  have "realises fp conf m0 es base (map DeleteKey (filter (\<lambda>k. \<not> key_in_conf conf k) (map vb_key baseline)) @ [] @ [] @ [] @ [] @ [] @
      concat (map (entry_ops es) (plan_write_order p)) @ map ZeroBlock (plan_release p)) (reconcile_maps fp h sys conf baseline p L)"
    unfolding reconcile_maps_def
    by (intro realises_and_then realises_remove_stale [OF plan] cfg acl realises_tables [OF assms(1-3)])
  then show ?thesis unfolding publish_ops_def dels by simp
qed

section \<open>The values of the keys\<close>

definition keys_meta :: "marlin_conf \<Rightarrow> nat list \<Rightarrow> bpf_maps \<Rightarrow> bool" where
  "keys_meta conf ws m \<longleftrightarrow> (\<forall>e\<in>set ws. \<forall>k\<in>set (cv_keys (mf_vips conf ! e)). m_vip_map m k = Some (cv_meta (mf_vips conf ! e)))"

lemma keys_meta_other [simp]:
  "keys_meta conf ws (m\<lparr>m_tx_ports := t1\<rparr>) = keys_meta conf ws m" "keys_meta conf ws (m\<lparr>m_backends := t2\<rparr>) = keys_meta conf ws m"
  "keys_meta conf ws (m\<lparr>m_config := t3\<rparr>) = keys_meta conf ws m" "keys_meta conf ws (m\<lparr>m_fwd_table := t4\<rparr>) = keys_meta conf ws m"
  by (simp_all add: keys_meta_def)

lemma write_vip_meta:
  assumes "distinct (concat (map cv_keys (mf_vips conf)))" "set (ys @ [e]) \<subseteq> {..<length (mf_vips conf)}" "e \<notin> set ys"
  shows "runs (keys_meta conf ys) (write_vip fp h sys conf (mf_vips conf ! e)) (\<lambda>_. True) (keys_meta conf (ys @ [e]))"
proof -
  let ?v = "mf_vips conf ! e"
  let ?P = "\<lambda>ks m. keys_meta conf ys m \<and> (\<forall>k\<in>set ks. m_vip_map m k = Some (cv_meta ?v))"
  have other: "k \<notin> set (cv_keys ?v)" if "e' \<in> set ys" "k \<in> set (cv_keys (mf_vips conf ! e'))" for e' k
    using distinct_concat_nth [OF assms(1), of e' e k] that assms(2,3) by auto
  have key: "runs (?P ks) (or_report (syscall sys (vip_elem k (cv_meta ?v))) msg) (\<lambda>_. True) (?P (ks @ [k]))" if "k \<in> set (cv_keys ?v)" for ks k msg
    by (intro runs_or_report runs_syscall) (use that other in \<open>auto simp: vip_elem_def keys_meta_def split: if_splits\<close>)
  have keys: "runs (?P []) (all_ok (\<lambda>k. or_report (syscall sys (vip_elem k (cv_meta ?v))) msg) (cv_keys ?v)) (\<lambda>_. True) (?P (cv_keys ?v))" for msg
    by (rule runs_all_ok) (rule key, simp)
  have block: "runs (keys_meta conf ys) (write_fwd_block h sys n vs) (\<lambda>_. True) (?P [])" for n vs
    by (rule runs_mono [OF fwd_block_frame [where R = "keys_meta conf ys"]]) simp_all
  have main: "runs (keys_meta conf ys) (and_then (write_fwd_block h sys n vs)
     (all_ok (\<lambda>k. or_report (syscall sys (vip_elem k (cv_meta ?v))) msg) (cv_keys ?v))) (\<lambda>_. True) (keys_meta conf (ys @ [e]))" for n vs msg
    by (rule runs_mono [OF runs_and_then [OF block keys]]) (auto simp: keys_meta_def)
  show ?thesis
    unfolding write_vip_def by (intro runs_get runs_if refuse runs_mono [OF main]) simp_all
qed

lemma tables_meta:
  assumes "distinct (concat (map cv_keys (mf_vips conf)))" "set (plan_write_order p) \<subseteq> {..<length (mf_vips conf)}" "distinct (plan_write_order p)"
  shows "runs (\<lambda>_. True) (reconcile_tables fp h sys conf p L) (\<lambda>_. True) (keys_meta conf (plan_write_order p))"
proof -
  let ?K = "keys_meta conf (plan_write_order p)"
  have weak: "runs R a R R \<Longrightarrow> runs R a (\<lambda>_. True) R" for R a by (erule runs_mono) simp_all
  have vips: "runs (\<lambda>_. True) (all_ok (\<lambda>i. write_vip fp h sys conf (mf_vips conf ! i)) (plan_write_order p)) (\<lambda>_. True) ?K"
  proof -
    have "runs (keys_meta conf []) (all_ok (\<lambda>i. write_vip fp h sys conf (mf_vips conf ! i)) (plan_write_order p)) (\<lambda>_. True) ?K"
    proof (rule runs_all_ok)
      fix ys e zs assume "plan_write_order p = ys @ e # zs"
      then show "runs (keys_meta conf ys) (write_vip fp h sys conf (mf_vips conf ! e)) (\<lambda>_. True) (keys_meta conf (ys @ [e]))"
        using assms(2,3) by (intro write_vip_meta [OF assms(1)]) auto
    qed
    then show ?thesis by (rule runs_mono) (simp_all add: keys_meta_def)
  qed
  have main: "runs (\<lambda>_. True) (and_then (add_tx_ports sys w) (and_then (write_backends h sys conf)
       (and_then (all_ok (\<lambda>i. write_vip fp h sys conf (mf_vips conf ! i)) (plan_write_order p))
       (and_then (release_stale_vip_blocks h sys (plan_release p))
       (and_then (retire_stale_backends sys conf) (and_then (remove_stale_tx_ports sys w) (write_config h sys conf L))))))) (\<lambda>_. True) ?K" for w
    by (rule runs_and_then [OF tx_ports_frame(1)] runs_and_then [OF backends_frame(1)] runs_and_then [OF vips] TrueI
        runs_and_then [OF weak [OF release_frame, where R = ?K]] runs_and_then [OF weak [OF backends_frame(2), where R = ?K]]
        runs_and_then [OF weak [OF tx_ports_frame(2), where R = ?K]] write_config_runs | simp)+
  show ?thesis
    unfolding reconcile_tables_def
  proof (rule runs_quiet_bind [OF quiet_resolve])
    fix ports
    show "runs (\<lambda>_. True) (case ports of None \<Rightarrow> State_Monad.return False | Some tx_want \<Rightarrow>
       and_then (add_tx_ports sys tx_want) (and_then (write_backends h sys conf)
       (and_then (all_ok (\<lambda>i. write_vip fp h sys conf (mf_vips conf ! i)) (plan_write_order p))
       (and_then (release_stale_vip_blocks h sys (plan_release p))
       (and_then (retire_stale_backends sys conf) (and_then (remove_stale_tx_ports sys tx_want) (write_config h sys conf L))))))) (\<lambda>_. True) ?K"
      by (cases ports) (simp_all add: runs_return main)
  qed
qed

lemma maps_meta:
  assumes "distinct (concat (map cv_keys (mf_vips conf)))" "set (plan_write_order p) \<subseteq> {..<length (mf_vips conf)}" "distinct (plan_write_order p)"
  shows "runs (\<lambda>_. True) (reconcile_maps fp h sys conf baseline p L) (\<lambda>_. True) (keys_meta conf (plan_write_order p))"
  unfolding reconcile_maps_def
  by (rule runs_and_then [OF stale_keys_frame] runs_and_then [OF runs_get] runs_and_then [OF acl_v4_frame] runs_and_then [OF acl_v6_frame]
      tables_meta [OF assms] write_config_runs TrueI | simp)+

lemma runs_conj: "runs P a I Q \<Longrightarrow> runs (\<lambda>_. True) a (\<lambda>_. True) Q' \<Longrightarrow> runs P a I (\<lambda>m. Q m \<and> Q' m)"
  unfolding runs_def by blast

section \<open>The baseline\<close>

lemma read_baseline_Some:
  "run_state (read_baseline_loop sys vm n ks) s = (Some bs, s') \<Longrightarrow>
   map vb_key bs = ks \<and> (\<forall>b\<in>set bs. map_option (unat \<circ> vm_vip_num) (vm (vb_key b)) = Some (vb_vip_num b) \<and> vb_vip_num b < max_vips)"
proof (induction sys vm n ks arbitrary: bs s s' rule: read_baseline_loop.induct)
  case (2 sys vm count k ks)
  then obtain meta where meta: "vm k = Some meta" "\<not> sys_next_error sys count" "count \<noteq> max_vips" "\<not> MAX_VIPS \<le> vm_vip_num meta"
    by (auto split: if_splits option.splits prod.splits)
  then obtain rest where rest: "run_state (read_baseline_loop sys vm (count + 1) ks) s = (Some rest, s')"
    "bs = \<lparr>vb_key = k, vb_vip_num = unat (vm_vip_num meta)\<rparr> # rest"
    using 2(2) by (auto split: prod.splits)
  then show ?case using 2(1) [OF meta(2,3) meta(1) meta(4) rest(1)] meta by (simp add: word_less_nat_alt not_le)
qed (auto split: if_splits prod.splits)

lemma baseline_live:
  assumes "run_state (read_vip_baseline sys) s = (Some bs, s')" "enumerates (sys_vip_keys sys)" "finite (dom (m_vip_map (rc_maps s)))"
  shows "baseline_map bs k = map_option (unat \<circ> vm_vip_num) (m_vip_map (rc_maps s) k)" "distinct (map vb_key bs)"
    "vb_key ` set bs = dom (m_vip_map (rc_maps s))" "\<forall>b\<in>set bs. vb_vip_num b < max_vips"
proof -
  let ?vm = "m_vip_map (rc_maps s)"
  have keys: "map vb_key bs = sys_vip_keys sys ?vm" and
    nums: "\<forall>b\<in>set bs. map_option (unat \<circ> vm_vip_num) (?vm (vb_key b)) = Some (vb_vip_num b) \<and> vb_vip_num b < max_vips"
    using read_baseline_Some [of sys ?vm 0 "sys_vip_keys sys ?vm" s bs s'] assms(1) by (simp_all add: read_vip_baseline_def Let_def)
  show dist: "distinct (map vb_key bs)" and dom: "vb_key ` set bs = dom ?vm" and "\<forall>b\<in>set bs. vb_vip_num b < max_vips"
    using keys nums assms(2,3) unfolding enumerates_def by (metis, metis list.set_map, blast)
  show "baseline_map bs k = map_option (unat \<circ> vm_vip_num) (?vm k)"
  proof (cases "k \<in> dom ?vm")
    case True
    then have "k \<in> vb_key ` set bs" using dom by simp
    then obtain b where b: "b \<in> set bs" "vb_key b = k" by blast
    then have "map_of (map (\<lambda>b. (vb_key b, vb_vip_num b)) bs) k = Some (vb_vip_num b)"
      using dist by (intro map_of_is_SomeI) (auto simp: comp_def)
    then show ?thesis using nums b by (auto simp: baseline_map_def)
  next
    case False
    then have "map_of (map (\<lambda>b. (vb_key b, vb_vip_num b)) bs) k = None" using dom [symmetric] by (auto simp: map_of_eq_None_iff simp del: domIff)
    then show ?thesis using False by (auto simp: baseline_map_def domIff)
  qed
qed

section \<open>The allocation of a configuration\<close>

lemma key_eq_alloc: "vip_key_eq a b \<longleftrightarrow> vip_alloc_key_eq b a"
  by (auto simp: vip_key_eq_def vip_alloc_key_eq_def)

lemma key_list_conf_entries: "map va_key_list (conf_entries conf) = map cv_keys (mf_vips conf)"
  by (simp add: conf_entries_def va_key_list_def)

lemma conf_keys_distinct:
  assumes "conf_rule conf"
  shows "distinct (concat (map cv_keys (mf_vips conf)))"
proof -
  have "sorted_wrt (\<lambda>k k2. \<not> vip_key_eq k k2) (concat (map cv_keys (mf_vips conf)))" using assms by (simp add: conf_rule_def vips_rule_def)
  then have "sorted_wrt (\<noteq>) (concat (map cv_keys (mf_vips conf)))"
    by (rule sorted_wrt_mono_rel [rotated]) (auto simp: vip_key_eq_def split: if_splits)
  moreover have "sorted_wrt (\<noteq>) xs \<Longrightarrow> distinct xs" for xs :: "vip_key list" by (induction xs) auto
  ultimately show ?thesis by blast
qed

lemma conf_keys_ok:
  assumes "conf_rule conf" "conf_shape conf" "distinct (map vb_key bs)" "\<forall>b\<in>set bs. canonical_key (vb_key b)"
  shows "keys_ok (conf_entries conf) bs"
  using assms conf_keys_distinct [OF assms(1)]
  by (auto simp: keys_ok_def key_list_conf_entries conf_shape_def vip_shape_def key_shape_def)

lemma alloc_plan:
  assumes alloc: "vip_alloc (conf_entries conf) bs = (True, es, p)"
    and base: "\<And>k. baseline_map bs k = map_option (unat \<circ> vm_vip_num) (m_vip_map m0 k)"
  shows "plan_for (set_vip_nums conf es) m0 es (baseline_map bs)" "length es = length (mf_vips conf)"
    "set (plan_write_order p) = {..<length es}" "distinct (plan_write_order p)" "set (plan_release p) \<subseteq> {..<max_vips}"
    "map cv_keys (mf_vips (set_vip_nums conf es)) = map cv_keys (mf_vips conf)"
proof -
  note S = vip_alloc_success [OF alloc]
  have keys: "map va_key_list es = map cv_keys (mf_vips conf)" using va_key_list_cong [OF S(1)] key_list_conf_entries by simp
  then show len: "length es = length (mf_vips conf)" by (metis length_map)
  show "set (plan_write_order p) = {..<length es}" "distinct (plan_write_order p)" using S(4,5) by simp_all
  show "set (plan_release p) \<subseteq> {..<max_vips}" unfolding S(7) by auto
  show "map cv_keys (mf_vips (set_vip_nums conf es)) = map cv_keys (mf_vips conf)"
    using len by (intro nth_equalityI) (simp_all add: set_vip_nums_def)
  have "va_key_list (es ! e) = cv_keys (mf_vips conf ! e)" if "e < length es" for e
    using keys len that by (metis nth_map)
  moreover have "va_vip_num (es ! e) < max_vips" if "e < length es" for e using S(3) that by (auto simp: subset_iff)
  ultimately show "plan_for (set_vip_nums conf es) m0 es (baseline_map bs)"
    using len base by (simp add: plan_for_def set_vip_nums_def)
qed

lemma owner_in_conf:
  assumes "vip_alloc (conf_entries conf) bs = (True, es, p)" "length (mf_vips conf) \<le> max_vips"
  shows "key_in_conf (set_vip_nums conf es) k \<longleftrightarrow> vip_alloc_owner es k \<noteq> VIP_ALLOC_NUM_UNSET"
proof -
  note S = vip_alloc_success [OF assms(1)]
  have keys: "map va_key_list es = map cv_keys (mf_vips conf)" using va_key_list_cong [OF S(1)] key_list_conf_entries by simp
  have len: "length es = length (mf_vips conf)" using keys by (metis length_map)
  have "key_in_conf (set_vip_nums conf es) k \<longleftrightarrow> (\<exists>ks\<in>set (map cv_keys (mf_vips (set_vip_nums conf es))). \<exists>x\<in>set ks. vip_alloc_key_eq x k)"
    by (auto simp: key_in_conf_def list_ex_iff key_eq_alloc)
  also have "map cv_keys (mf_vips (set_vip_nums conf es)) = map va_key_list es"
    unfolding keys using len by (intro nth_equalityI) (simp_all add: set_vip_nums_def)
  finally have "key_in_conf (set_vip_nums conf es) k \<longleftrightarrow> (\<exists>i<length es. \<exists>x\<in>set (va_key_list (es ! i)). vip_alloc_key_eq x k)"
    by (simp add: Bex_def in_set_conv_nth [of _ es]) blast
  also have "\<dots> \<longleftrightarrow> first_index (\<lambda>i. \<exists>x\<in>set (va_key_list (es ! i)). vip_alloc_key_eq x k) (length es) \<noteq> None"
    by (auto simp: first_index_None)
  also have "\<dots> \<longleftrightarrow> vip_alloc_owner es k \<noteq> VIP_ALLOC_NUM_UNSET"
  proof (cases "first_index (\<lambda>i. \<exists>x\<in>set (va_key_list (es ! i)). vip_alloc_key_eq x k) (length es)")
    case (Some i)
    then have "vip_alloc_owner es k = i" by (simp add: vip_alloc_owner_def)
    moreover have "i < length es" using first_index_Some [OF Some] by simp
    ultimately show ?thesis using Some assms(2) len by (simp add: VIP_ALLOC_NUM_UNSET_def)
  qed (simp add: vip_alloc_owner_def)
  finally show ?thesis .
qed

section \<open>A reload\<close>

text \<open>The services of a configuration, and no other, are in the maps: every key leads to its VIP's own
  number, whose block is the generated one.\<close>

definition services_published :: "'f::linorder fpu \<Rightarrow> marlin_conf \<Rightarrow> bpf_maps \<Rightarrow> bool" where
  "services_published fp conf m \<longleftrightarrow> dom (m_vip_map m) = (\<Union>v\<in>set (mf_vips conf). set (cv_keys v)) \<and>
     (\<forall>v\<in>set (mf_vips conf). (\<forall>k\<in>set (cv_keys v). m_vip_map m k = Some (cv_meta v)) \<and>
        vm_vip_num (cv_meta v) < MAX_VIPS \<and> holds_block (vm_vip_num (cv_meta v)) (vip_block fp conf v) m) \<and>
     distinct (map (\<lambda>v. vm_vip_num (cv_meta v)) (mf_vips conf))"

lemma published_services:
  assumes plan: "plan_for conf m0 es base" and dist: "distinct (nums es)"
    and pub: "published es {..<length es} (fst s)" "\<forall>e<length es. snd s (va_vip_num (es ! e)) = EntryBlock e"
    and sim: "sim fp conf m0 s m" and meta: "keys_meta conf ws m" "set ws = {..<length es}"
  shows "services_published fp conf m"
proof -
  let ?vs = "mf_vips conf"
  have len: "length ?vs = length es" using plan by (simp add: plan_for_def)
  have entry: "va_key_list (es ! e) = cv_keys (?vs ! e)" "va_vip_num (es ! e) < max_vips" "vm_vip_num (cv_meta (?vs ! e)) = of_nat (va_vip_num (es ! e))"
    if "e < length es" for e
    using plan that by (simp_all add: plan_for_def)
  have dom: "dom (m_vip_map m) = dom (fst s)"
  proof -
    have "fst s = (\<lambda>k. map_option (unat \<circ> vm_vip_num) (m_vip_map m k))" using sim by (auto simp: sim_def)
    then show ?thesis by (auto simp: domIff)
  qed
  have "k \<in> dom (fst s) \<longleftrightarrow> (\<exists>e<length es. k \<in> set (va_key_list (es ! e)))" for k
    using pub(1) unfolding published_def by blast
  then have "dom (m_vip_map m) = (\<Union>e<length es. set (va_key_list (es ! e)))" unfolding dom by blast
  also have "\<dots> = (\<Union>e<length ?vs. set (cv_keys (?vs ! e)))" by (simp add: len entry(1))
  also have "\<dots> = (\<Union>v\<in>set ?vs. set (cv_keys v))" by (simp add: set_conv_nth UNION_eq) blast
  finally have doms: "dom (m_vip_map m) = (\<Union>v\<in>set ?vs. set (cv_keys v))" .
  have each: "(\<forall>k\<in>set (cv_keys (?vs ! e)). m_vip_map m k = Some (cv_meta (?vs ! e))) \<and>
      vm_vip_num (cv_meta (?vs ! e)) < MAX_VIPS \<and> holds_block (vm_vip_num (cv_meta (?vs ! e))) (vip_block fp conf (?vs ! e)) m" if e: "e < length es" for e
  proof -
    have "block_holds fp conf m0 m (va_vip_num (es ! e)) (EntryBlock e)" using sim pub(2) e entry(2) [OF e] unfolding sim_def by metis
    then show ?thesis using meta e num_less [OF entry(2) [OF e]] entry(3) [OF e] by (auto simp: keys_meta_def block_holds_def)
  qed
  have "\<forall>v\<in>set ?vs. (\<forall>k\<in>set (cv_keys v). m_vip_map m k = Some (cv_meta v)) \<and>
      vm_vip_num (cv_meta v) < MAX_VIPS \<and> holds_block (vm_vip_num (cv_meta v)) (vip_block fp conf v) m"
    using each len by (metis in_set_conv_nth)
  moreover have "map (\<lambda>v. vm_vip_num (cv_meta v)) ?vs = map of_nat (nums es)"
    using len entry(3) by (intro nth_equalityI) simp_all
  moreover have "distinct (map of_nat (nums es) :: u32 list)"
  proof -
    have "\<forall>n\<in>set (nums es). n < max_vips" using entry(2) by (auto simp: set_conv_nth)
    then have "inj_on (of_nat :: nat \<Rightarrow> u32) (set (nums es))" using num_eq by (blast intro: inj_onI)
    then show ?thesis using dist unfolding distinct_map by blast
  qed
  ultimately show ?thesis unfolding services_published_def using doms by simp
qed

lemma reconcile_apply_isolated:
  assumes sys: "enumerates (sys_vip_keys sys)" "finite (dom (m_vip_map (rc_maps s)))" "\<forall>k\<in>dom (m_vip_map (rc_maps s)). canonical_key k"
    and conf: "conf_rule conf" "conf_shape conf"
    and run: "run_state (reconcile_apply fp h sys conf) s = ((ok, conf'), s')"
  shows "\<exists>new. rc_trace s' = rc_trace s @ new \<and> (\<forall>m\<in>set new. isolated fp conf' (rc_maps s) m) \<and>
    (ok \<longrightarrow> services_published fp conf' (rc_maps s'))"
  using run
proof (cases rule: reconcile_apply_cases)
  case (ran bs es p s0 s1 s2)
  note B = baseline_live [OF ran(1) sys(1) sys(2) [folded ran(2)]]
  have base: "baseline_map bs k = map_option (unat \<circ> vm_vip_num) (m_vip_map (rc_maps s) k)" for k using B(1) ran(2) by simp
  have canon: "\<forall>b\<in>set bs. canonical_key (vb_key b)" using B(3) sys(3) ran(2) by (metis imageI)
  note P = alloc_plan [OF ran(4) base, folded ran(5)]
  note pub = vip_alloc_publishes [OF ran(4) conf_keys_ok [OF conf B(2) canon]]
  let ?s = "(baseline_map bs, \<lambda>_ :: nat. OldBlock)"
  have "baseline_map bs k = Some n \<Longrightarrow> n < max_vips" for k n
    using B(4) by (auto simp: baseline_map_def dest!: map_of_SomeD)
  then have start: "sim fp conf' (rc_maps s) ?s (rc_maps s2)" using base ran(7) by (auto simp: sim_def block_holds_def)
  have "realises fp conf' (rc_maps s) es (baseline_map bs) (publish_ops es bs p) (reconcile_maps fp h sys conf' bs p (acl_lists_bits conf))"
    using owner_in_conf [OF ran(4,3)] by (intro realises_maps P) (simp_all add: P ran(5))
  then have R: "runs (sim fp conf' (rc_maps s) ?s) (reconcile_maps fp h sys conf' bs p (acl_lists_bits conf)) (isolated fp conf' (rc_maps s))
      (sim fp conf' (rc_maps s) (fold publish_step (publish_ops es bs p) ?s))"
    using pub(1) unfolding realises_def by blast
  have len: "length (mf_vips conf') = length es" using P(1) by (simp add: plan_for_def)
  have M: "runs (\<lambda>_. True) (reconcile_maps fp h sys conf' bs p (acl_lists_bits conf)) (\<lambda>_. True) (keys_meta conf' (plan_write_order p))"
    by (rule maps_meta) (simp_all add: P conf_keys_distinct [OF conf(1)] len)
  obtain new where new: "rc_trace s' = rc_trace s2 @ new" "\<forall>m\<in>set new. isolated fp conf' (rc_maps s) m"
    "ok \<longrightarrow> sim fp conf' (rc_maps s) (fold publish_step (publish_ops es bs p) ?s) (rc_maps s') \<and> keys_meta conf' (plan_write_order p) (rc_maps s')"
    using runsD [OF runs_conj [OF R M] ran(6) start] by blast
  have "ok \<longrightarrow> services_published fp conf' (rc_maps s')"
    using published_services [OF P(1) vip_alloc_success(2) [OF ran(4)] pub(2,3)] new(3) P(3) by blast
  then show ?thesis using new ran(8) by auto
qed (intro exI [of _ "[]"], simp)

text \<open>C6: A reload never shows a packet another service's backends, row by row. Whatever the running system
  and the new configuration are, and however the batch writes and single writes of
  \<^verbatim>\<open>reconcile_apply\<close> fail, after every single system call each key of \<^verbatim>\<open>vip_map\<close> leads, for every value of
  the flow hash, to the row it led to before the reload, unchanged, or to the row generated for
  the VIP of the new configuration that has this key. When the reload reports success, exactly the
  services of the configuration are in the maps: every key has its VIP's own entry and number, and
  the whole block of that number is the generated one.\<close>

theorem reconcile_isolates_services:
  assumes "enumerates (sys_vip_keys sys)" "finite (dom (m_vip_map (rc_maps s)))" "\<forall>k\<in>dom (m_vip_map (rc_maps s)). canonical_key k"
    and "conf_rule conf" "conf_shape conf"
    and "run_state (reconcile_apply fp h sys conf) s = ((ok, conf'), s')"
  shows "\<exists>new. rc_trace s' = rc_trace s @ new \<and> (\<forall>m\<in>set new. isolated fp conf' (rc_maps s) m) \<and>
    (ok \<longrightarrow> services_published fp conf' (rc_maps s'))"
  by (rule reconcile_apply_isolated [OF assms])

lemma vip_block_pick:
  assumes "i < table_size" "cv_members v \<noteq> []"
  shows "\<exists>g\<in>set (fwd_members conf v). vip_block fp conf v ! i = ucast (fg_backend_id g)"
proof -
  have ne: "fwd_members conf v \<noteq> []" using assms(2) by (simp add: fwd_members_def)
  show ?thesis
    unfolding vip_block_def nth_fwd_gen_block [OF assms(1) ne] fwd_gen_row_def Let_def
    by (cases "equal_weights (fwd_members conf v)") (simp_all, metis equal.pick_mem [OF ne] imageE, metis weighted.pick_mem [OF ne] imageE)
qed

lemma vip_block_member:
  assumes "i < table_size"
  shows "vip_block fp conf v ! i = 0 \<or> (\<exists>b\<in>set (cv_members v). vip_block fp conf v ! i = ucast (cm_backend_id b))"
proof (cases "cv_members v = []")
  case True
  then show ?thesis using assms by (simp add: vip_block_def fwd_members_def fwd_gen_block_def)
next
  case False
  have "fg_backend_id g = 0 \<or> (\<exists>b\<in>set (cv_members v). fg_backend_id g = cm_backend_id b)" if "g \<in> set (fwd_members conf v)" for g
    using that by (auto simp: fwd_members_def dest!: find_SomeD split: option.splits)
  then show ?thesis using vip_block_pick [OF assms False, of conf fp] by fastforce
qed

lemma vip_block_backend:
  assumes "i < table_size" "cv_members v \<noteq> []" "members_resolved conf" "v \<in> set (mf_vips conf)"
  shows "\<exists>mb\<in>set (cv_members v). \<exists>b. find_backend (mf_backends conf) (cm_backend_name mb) = Some b \<and> vip_block fp conf v ! i = ucast (cb_id b)"
proof -
  obtain g where g: "g \<in> set (fwd_members conf v)" "vip_block fp conf v ! i = ucast (fg_backend_id g)"
    using vip_block_pick [OF assms(1,2), of conf fp] by blast
  then obtain mb where mb: "mb \<in> set (cv_members v)"
    "g = (case find (\<lambda>b. cb_id b = cm_backend_id mb) (mf_backends conf) of
       None \<Rightarrow> \<lparr>fg_backend_id = 0, fg_weight = 0, fg_addr = 0, fg_vni = 0, fg_inner_mac = 0\<rparr>
     | Some b \<Rightarrow> \<lparr>fg_backend_id = cb_id b, fg_weight = cm_weight mb, fg_addr = be_addr (cb_abi b), fg_vni = be_vni (cb_abi b),
         fg_inner_mac = be_inner_mac (cb_abi b)\<rparr>)"
    unfolding fwd_members_def by auto
  obtain b where b: "find_backend (mf_backends conf) (cm_backend_name mb) = Some b" "cm_backend_id mb = cb_id b"
    using assms(3,4) mb(1) unfolding members_resolved_def by blast
  then have "b \<in> set (mf_backends conf)" by (auto simp: find_backend_def dest: find_SomeD)
  then have "find (\<lambda>b. cb_id b = cm_backend_id mb) (mf_backends conf) \<noteq> None" using b(2) by (auto simp: find_None_iff)
  then obtain b' where b': "find (\<lambda>b. cb_id b = cm_backend_id mb) (mf_backends conf) = Some b'" by blast
  moreover from this have "cb_id b' = cb_id b" using b(2) by (auto dest: find_SomeD)
  ultimately show ?thesis using mb g(2) b(1) by auto
qed

text \<open>A running system with one service, and a configuration that gives its address another backend and
  adds a second address.\<close>

definition live_key :: "u32 \<Rightarrow> vip_key" where
  "live_key a = \<lparr>vk_addr = (a, 0, 0, 0), vk_port = bswap16 80, vk_proto = IPPROTO_TCP, vk_family = AF_INET\<rparr>"

definition live_state :: rc where
  "live_state = \<lparr>rc_maps = \<lparr>m_config = [0 \<mapsto> zero_config], m_mctx_scratch = Map.empty, m_backends = (\<lambda>k. if k < MAX_BACKENDS then Some zero_backend else None),
       m_fwd_table = (\<lambda>k. if k < MAX_VIPS * TABLE_SIZE then Some 7 else None), m_vip_map = [live_key 1 \<mapsto> \<lparr>vm_vip_num = 0, vm_flags = 0, vm_hash_key = 5\<rparr>],
       m_tx_ports = Map.empty, m_acl_allow_v4 = Map.empty, m_acl_block_v4 = Map.empty, m_acl_allow_v6 = Map.empty, m_acl_block_v6 = Map.empty,
       m_ratelimit = Map.empty, m_vip_stats = Map.empty, m_backend_stats = Map.empty, m_drop_stats = Map.empty\<rparr>,
     rc_diag = conf_diag_reset, rc_ops = 0, rc_trace = []\<rparr>"

definition live_conf :: marlin_conf where
  "live_conf = loaded_conf\<lparr>mf_vips := [\<lparr>cv_keys = [live_key 1, live_key 2], cv_meta = \<lparr>vm_vip_num = MARLIN_CONF_VIP_NUM_UNSET, vm_flags = 0, vm_hash_key = 9\<rparr>,
     cv_table_seed = replicate 16 3, cv_members = [\<lparr>cm_backend_name = ''b1'', cm_backend_id = 1, cm_weight = 1\<rparr>]\<rparr>]\<rparr>"

lemma live_conf_ok: "conf_rule live_conf" "conf_shape live_conf"
proof -
  have shape: "conf_shape loaded_conf"
    by (simp add: conf_shape_def loaded_conf_def zero_conf_def instance_shape_def ports_shape_def zero_instance_def acl_shape_def zero_acl_def
        backend_shape_def zero_conf_backend_def zero_backend_def IF_NAMESIZE_def PATH_MAX_def MARLIN_DEFAULT_OBJ_def MARLIN_DEFAULT_PIN_DIR_def
        MARLIN_CONF_NAME_MAX_def ENCAP_MODE_def MARLIN_BE_F_ENCAP_REQUIRED_def MARLIN_MODE_VXLAN_def MARLIN_MODE_L2DSR_def)
  then show "conf_shape live_conf"
    by (simp add: conf_shape_def live_conf_def vip_shape_def key_shape_def canonical_key_def live_key_def member_shape_def MARLIN_CONF_NAME_MAX_def)
  show "conf_rule live_conf"
    using loaded_conf_rule
    by (simp add: conf_rule_def live_conf_def vips_rule_def vip_rule_def group_rule_def members_rule_def vip_key_eq_def live_key_def ratelimit_rule_def
        loaded_conf_def zero_conf_backend_def zero_conf_def find_backend_def strneq_def IPPROTO_TCP_def IPPROTO_SCTP_def)
qed

lemma live_state_ok: "finite (dom (m_vip_map (rc_maps live_state)))" "\<forall>k\<in>dom (m_vip_map (rc_maps live_state)). canonical_key k" "rc_trace live_state = []"
  "enumerates (sys_vip_keys reload_sys)"
  by (simp_all add: live_state_def live_key_def canonical_key_def reload_sys_def enumerates_some_keys)

theorem reconcile_isolates_services_witness:
  "list_all (isolated int_fpu (snd (fst (run_state (reconcile_apply int_fpu sample_host reload_sys live_conf) live_state))) (rc_maps live_state))
     (rc_trace (snd (run_state (reconcile_apply int_fpu sample_host reload_sys live_conf) live_state)))"
proof -
  obtain ok conf' s' where run: "run_state (reconcile_apply int_fpu sample_host reload_sys live_conf) live_state = ((ok, conf'), s')"
    by (metis surj_pair)
  show ?thesis
    using reconcile_isolates_services [OF live_state_ok(4,1,2) live_conf_ok run] live_state_ok(3) by (auto simp: run list_all_iff)
qed

section \<open>Backends with an egress interface\<close>

lemma backend_key_big:
  assumes "cb_egress b = c # cs" "c \<noteq> CHR 0x00"
  shows "\<not> unat (backend_key b) < unat MAX_BACKENDS"
proof
  assume "unat (backend_key b) < unat MAX_BACKENDS"
  then have "unat (backend_key b) < 2 ^ 16" by simp
  then have small: "take_bit 16 (backend_key b) = backend_key b"
    by (simp add: word_unat_eq_iff unsigned_take_bit_eq take_bit_nat_eq_self)
  let ?w = "word_of_nat (of_char c) :: u8"
  have "(of_char c :: nat) < 256" by (metis of_char_mod_256 mod_less_divisor zero_less_numeral)
  then have "unat ?w = of_char c" by (simp add: unat_of_nat)
  moreover have "(of_char c :: nat) \<noteq> 0" using assms(2) by (cases c) (simp add: of_char_def)
  ultimately have "?w \<noteq> 0" by (metis unat_0)
  then obtain j where j: "bit ?w j" by (metis bit_eqI bit_0_eq bot_fun_def bot_bool_def)
  then have "j < 8" using bit_imp_le_length by fastforce
  moreover from this have "(16 + j) div 8 = 2" "(16 + j) mod 8 = j" by presburger+
  moreover obtain x where key: "backend_key b = le_val (le_bytes 2 (cb_id b) @ [?w, x])"
  proof
    have "take 2 (map (\<lambda>c. word_of_nat (of_char c)) (c # cs) @ [0, 0 :: u8]) = [?w, hd (map (\<lambda>c. word_of_nat (of_char c)) cs @ [0])]"
      by (cases cs) simp_all
    then show "backend_key b = le_val (le_bytes 2 (cb_id b) @ [?w, hd (map (\<lambda>c. word_of_nat (of_char c)) cs @ [0])])"
      unfolding backend_key_def assms(1) by (rule arg_cong)
  qed
  moreover have "length (le_bytes 2 (cb_id b)) = 2" by simp
  moreover from this have "(le_bytes 2 (cb_id b) @ [?w, x]) ! 2 = ?w" by (metis nth_append_length)
  ultimately have "bit (backend_key b) (16 + j)"
    using j unfolding key bit_le_val by simp
  then show False using small by (metis bit_take_bit_iff not_add_less1)
qed

lemma write_backends_refused:
  assumes "b \<in> set (mf_backends conf)" "cb_egress b = c # cs" "c \<noteq> CHR 0x00"
  shows "runs (\<lambda>m. array_map (unat MAX_BACKENDS) (m_backends m)) (write_backends h sys conf) (\<lambda>_. True) (\<lambda>_. False)"
proof -
  let ?P = "\<lambda>ys m. array_map (unat MAX_BACKENDS) (m_backends m) \<and> b \<notin> set ys"
  have "runs (?P []) (write_backends h sys conf) (\<lambda>_. True) (?P (mf_backends conf))"
    unfolding write_backends_def
  proof (intro runs_all_ok runs_or_report runs_syscall)
    fix ys x zs m m'
    assume P: "?P ys m" and m': "backend_elem (backend_key x) (backend_value h x) m = Some m'"
    then have "unat (backend_key x) < unat MAX_BACKENDS" "m_backends m' = (m_backends m)(backend_key x \<mapsto> backend_value h x)"
      by (auto simp: backend_elem_def array_set_def array_map_def split: if_splits)
    then show "True \<and> ?P (ys @ [x]) m'"
      using P backend_key_big [OF assms(2,3)] by (auto simp: array_map_def)
  qed
  then show ?thesis by (rule runs_mono) (use assms(1) in simp_all)
qed

text \<open>C22: No configuration with an egress interface can be applied. With the map \<^verbatim>\<open>backends\<close> at its declared
  size, if some backend names an egress interface, then \<^verbatim>\<open>reconcile_apply\<close> reports failure, whatever the
  host and the kernel do: the kernel reads four bytes at the address of the 16-bit identifier, two
  of them being the first characters of the interface name, and refuses the index.\<close>

theorem egress_backend_refused:
  assumes "b \<in> set (mf_backends conf)" "cb_egress b = c # cs" "c \<noteq> CHR 0x00"
    and "array_map (unat MAX_BACKENDS) (m_backends (rc_maps s))"
    and "run_state (reconcile_apply fp h sys conf) s = ((ok, conf'), s')"
  shows "\<not> ok"
  using assms(5)
proof (cases rule: reconcile_apply_cases)
  case (ran bs es p s0 s1 s2)
  let ?A = "\<lambda>m. array_map (unat MAX_BACKENDS) (m_backends m)"
  have weak: "runs ?A a ?A ?A \<Longrightarrow> runs ?A a (\<lambda>_. True) ?A" for a by (erule runs_mono) simp_all
  have stop: "runs (\<lambda>_. False) a (\<lambda>_. True) (\<lambda>_. False)" for a by (rule runs_contra) simp
  have be: "runs ?A (write_backends h sys conf') (\<lambda>_. True) (\<lambda>_. False)"
    using write_backends_refused [of b conf'] assms(1-3) ran(5) by simp
  have tables: "runs ?A (reconcile_tables fp h sys conf' p L) (\<lambda>_. True) (\<lambda>_. False)" for L
    unfolding reconcile_tables_def
  proof (rule runs_quiet_bind [OF quiet_resolve])
    fix ports
    show "runs ?A (case ports of None \<Rightarrow> State_Monad.return False | Some tx_want \<Rightarrow>
       and_then (add_tx_ports sys tx_want) (and_then (write_backends h sys conf')
       (and_then (all_ok (\<lambda>i. write_vip fp h sys conf' (mf_vips conf' ! i)) (plan_write_order p))
       (and_then (release_stale_vip_blocks h sys (plan_release p))
       (and_then (retire_stale_backends sys conf') (and_then (remove_stale_tx_ports sys tx_want) (write_config h sys conf' L))))))) (\<lambda>_. True) (\<lambda>_. False)"
    proof (cases ports)
      case (Some w)
      show ?thesis unfolding Some option.case by (rule runs_and_then [OF weak [OF tx_ports_frame(1)] runs_and_then [OF be stop]]) simp
    qed (simp add: runs_return)
  qed
  have "runs ?A (reconcile_maps fp h sys conf' bs p L) (\<lambda>_. True) (\<lambda>_. False)" for L
    unfolding reconcile_maps_def
    by (rule runs_and_then [OF weak [OF stale_keys_frame]] runs_and_then [OF runs_get [where Q = ?A]] runs_and_then [OF weak [OF acl_v4_frame]]
        runs_and_then [OF weak [OF acl_v6_frame]] tables write_config_runs | simp)+
  then show ?thesis using runsD [OF _ ran(6)] assms(4) ran(7) by fastforce
qed

definition egress_conf :: marlin_conf where
  "egress_conf = loaded_conf\<lparr>mf_backends := [zero_conf_backend\<lparr>cb_name := ''b1'', cb_id := 1, cb_egress := ''eth1'', cb_has_egress := True\<rparr>]\<rparr>"

theorem egress_backend_refused_witness:
  "\<not> fst (fst (run_state (reconcile_apply int_fpu sample_host reload_sys egress_conf) live_state))"
proof -
  obtain ok conf' s' where run: "run_state (reconcile_apply int_fpu sample_host reload_sys egress_conf) live_state = ((ok, conf'), s')"
    by (metis surj_pair)
  have "array_map (unat MAX_BACKENDS) (m_backends (rc_maps live_state))"
    by (simp add: array_map_def live_state_def word_less_nat_alt)
  then have "\<not> ok" by (intro egress_backend_refused [OF _ _ _ _ run, of "hd (mf_backends egress_conf)" "CHR ''e''" "''th1''"]) (simp_all add: egress_conf_def)
  then show ?thesis by (simp add: run)
qed

end
