(* ===== verification/Marlind_Reconcile_Live.thy ===== *)
theory Marlind_Reconcile_Live
  imports Marlind_Reconcile_Vip
begin

text \<open>
  When a reload succeeds: on a host whose calls succeed, a configuration that fits the maps is applied
  completely. The logic is that of \<open>Marlind_Reconcile_Logic\<close> with success as part of what is shown. After
  success the map \<^verbatim>\<open>backends\<close> holds the configured backends.
\<close>

section \<open>Calls that complete\<close>

definition completes :: "(bpf_maps \<Rightarrow> bool) \<Rightarrow> bool rcm \<Rightarrow> (bpf_maps \<Rightarrow> bool) \<Rightarrow> bool" where
  "completes P a Q \<longleftrightarrow> (\<forall>s. P (rc_maps s) \<longrightarrow> fst (run_state a s) \<and> Q (rc_maps (snd (run_state a s))))"

lemma completes_return: "completes P (State_Monad.return True) P"
  by (simp add: completes_def)

lemma completes_mono: "completes P a Q \<Longrightarrow> (\<And>m. P' m \<Longrightarrow> P m) \<Longrightarrow> (\<And>m. Q m \<Longrightarrow> Q' m) \<Longrightarrow> completes P' a Q'"
  unfolding completes_def by blast

lemma completes_and_then: "completes P a R \<Longrightarrow> completes R b Q \<Longrightarrow> completes P (and_then a b) Q"
  unfolding completes_def and_then_def by (simp add: split_beta)

lemma completes_or_report: "completes P a Q \<Longrightarrow> completes P (or_report a msg) Q"
  unfolding completes_def or_report_def by (simp add: split_beta)

lemma completes_all_ok:
  assumes "\<And>ys x zs. xs = ys @ x # zs \<Longrightarrow> completes (P ys) (f x) (P (ys @ [x]))"
  shows "completes (P []) (all_ok f xs) (P xs)"
proof -
  have "completes (P ys) (all_ok f zs) (P xs)" if "xs = ys @ zs" for ys zs
    using that
  proof (induction zs arbitrary: ys)
    case Nil
    then show ?case by (simp add: completes_return)
  next
    case (Cons z zs)
    show ?case unfolding all_ok.simps by (rule completes_and_then [OF assms [OF Cons(2)] Cons(1)]) (simp add: Cons(2))
  qed
  from this [of "[]" xs] show ?thesis by simp
qed

lemma completes_all_ok_inv: "(\<And>x. x \<in> set xs \<Longrightarrow> completes P (f x) P) \<Longrightarrow> completes P (all_ok f xs) P"
  using completes_all_ok [where P = "\<lambda>_. P"] by (metis in_set_conv_decomp)

lemma completes_get: "(\<And>s. completes (\<lambda>m. P m \<and> m = rc_maps s) (f s) Q) \<Longrightarrow> completes P (State_Monad.bind State_Monad.get f) Q"
  unfolding completes_def by simp

lemma completes_quiet_bind:
  assumes "quiet a" "\<And>x s t. run_state a s = (x, t) \<Longrightarrow> completes P (f x) Q"
  shows "completes P (State_Monad.bind a f) Q"
  unfolding completes_def
proof (intro allI impI)
  fix s :: rc
  assume "P (rc_maps s)"
  moreover obtain x t where "run_state a s = (x, t)" by (metis surj_pair)
  ultimately show "fst (run_state (State_Monad.bind a f) s) \<and> Q (rc_maps (snd (run_state (State_Monad.bind a f) s)))"
    using quietD [OF assms(1)] assms(2) by (simp add: completes_def)
qed

lemma completes_guard:
  assumes "\<And>s. \<not> c s" "completes P b Q"
  shows "completes P (State_Monad.bind State_Monad.get (\<lambda>s. if c s then a s else b)) Q"
  using assms unfolding completes_def by simp

lemma completes_if: "(c \<Longrightarrow> completes P a Q) \<Longrightarrow> (\<not> c \<Longrightarrow> completes P b Q) \<Longrightarrow> completes P (if c then a else b) Q"
  by simp

text \<open>A host on which no call fails.\<close>

definition healthy :: "host \<Rightarrow> sys \<Rightarrow> bool" where
  "healthy h sys \<longleftrightarrow> (\<forall>n. \<exists>fd\<ge>0. sys_map_fd sys n = Some fd) \<and> (\<forall>i. \<not> sys_error sys i) \<and> reads_ok sys \<and> (\<forall>w n. h_alloc h w n)"

lemma completes_syscall:
  assumes "healthy h sys" "\<And>m. P m \<Longrightarrow> \<exists>m'. f m = Some m' \<and> Q m'"
  shows "completes P (syscall sys f) Q"
  using assms unfolding completes_def syscall_def healthy_def by (fastforce split: option.splits)

section \<open>Room\<close>

definition bounded :: "'k set \<Rightarrow> nat \<Rightarrow> bool" where
  "bounded B n \<longleftrightarrow> finite B \<and> card B \<le> n"

lemma room:
  assumes "dom t \<subseteq> B" "bounded B n" "k \<in> B"
  shows "has_room n k t"
proof (cases "k \<in> dom t")
  case False
  then have "dom t \<subset> B" using assms by blast
  then have "card (dom t) < card B" using assms(2) by (simp add: bounded_def psubset_card_mono)
  then show ?thesis using assms(2) by (simp add: has_room_def bounded_def)
qed (auto simp: has_room_def)

text \<open>The keys a reload may bring into each hash and trie, with those that are there.\<close>

record key_bounds =
  kb_vip :: "vip_key set"
  kb_tx :: "u32 set"
  kb_allow4 :: "acl_key4 set"
  kb_block4 :: "acl_key4 set"
  kb_allow6 :: "acl_key6 set"
  kb_block6 :: "acl_key6 set"

definition key_bounds_of :: "host \<Rightarrow> marlin_conf \<Rightarrow> bpf_maps \<Rightarrow> key_bounds" where
  "key_bounds_of h conf m =
    \<lparr>kb_vip = set (concat (map cv_keys (mf_vips conf))),
     kb_tx = dom (m_tx_ports m) \<union> h_if_nametoindex h ` set (ci_tx_ports (mf_instance conf)),
     kb_allow4 = dom (m_acl_allow_v4 m) \<union> want_v4 ` set (ac_allow_v4 (mf_acl conf)),
     kb_block4 = dom (m_acl_block_v4 m) \<union> want_v4 ` set (ac_block_v4 (mf_acl conf)),
     kb_allow6 = dom (m_acl_allow_v6 m) \<union> want_v6 ` set (ac_allow_v6 (mf_acl conf)),
     kb_block6 = dom (m_acl_block_v6 m) \<union> want_v6 ` set (ac_block_v6 (mf_acl conf))\<rparr>"

definition within :: "key_bounds \<Rightarrow> bpf_maps \<Rightarrow> bool" where
  "within kb m \<longleftrightarrow> m_config m 0 \<noteq> None \<and> array_map (unat MAX_BACKENDS) (m_backends m) \<and>
     array_map (max_vips * table_size) (m_fwd_table m) \<and> dom (m_vip_map m) \<subseteq> kb_vip kb \<and> dom (m_tx_ports m) \<subseteq> kb_tx kb \<and>
     dom (m_acl_allow_v4 m) \<subseteq> kb_allow4 kb \<and> dom (m_acl_block_v4 m) \<subseteq> kb_block4 kb \<and>
     dom (m_acl_allow_v6 m) \<subseteq> kb_allow6 kb \<and> dom (m_acl_block_v6 m) \<subseteq> kb_block6 kb"

lemma within_config: "within kb m \<Longrightarrow> within kb (m\<lparr>m_config := (m_config m)(0 \<mapsto> c)\<rparr>)"
  by (simp add: within_def)

section \<open>The steps\<close>

lemma acl_completes:
  assumes "healthy h sys" "bounded B MAX_ACL_ENTRIES" "want ` set entries \<subseteq> B"
    and "\<And>m. R m \<Longrightarrow> dom (trie m) \<subseteq> B" "\<And>m f. R m \<Longrightarrow> dom (f (trie m)) \<subseteq> B \<Longrightarrow> R (upd f m)"
  shows "completes R (reconcile_acl h sys trie upd keys want eq um dm entries) R"
proof -
  have add: "completes R (all_ok (\<lambda>(i, e). or_report (syscall sys (acl_elem trie upd (want e) (of_nat i))) um) (enumerate 0 entries)) R"
  proof (rule completes_all_ok_inv, clarify)
    fix i e assume "(i, e) \<in> set (enumerate 0 entries)"
    then have "want e \<in> B" using assms(3) by (auto simp: in_set_enumerate_eq)
    then have "acl_elem trie upd (want e) (of_nat i) m = Some (upd (\<lambda>t. t(want e \<mapsto> of_nat i)) m) \<and> R (upd (\<lambda>t. t(want e \<mapsto> of_nat i)) m)" if "R m" for m
      using room [OF assms(4) [OF that] assms(2)] assms(4,5) that by (auto simp: acl_elem_def)
    then show "completes R (or_report (syscall sys (acl_elem trie upd (want e) (of_nat i))) um) R"
      by (intro completes_or_report completes_syscall [OF assms(1)]) blast
  qed
  have del: "completes R (all_ok (\<lambda>k. if list_ex (\<lambda>e. eq (want e) k) entries then State_Monad.return True
      else or_report (syscall sys (\<lambda>m. Some (upd (\<lambda>t. t(k := None)) m))) dm) ks) R" for ks
  proof (intro completes_all_ok_inv completes_if completes_return completes_or_report completes_syscall [OF assms(1)])
    fix k m assume "R m"
    moreover from this have "dom ((trie m)(k := None)) \<subseteq> B" using assms(4) by auto
    ultimately have "R (upd (\<lambda>t. t(k := None)) m)" by (rule assms(5))
    then show "\<exists>m'. Some (upd (\<lambda>t. t(k := None)) m) = Some m' \<and> R m'" by blast
  qed
  show ?thesis
    unfolding reconcile_acl_def Let_def using assms(1) by (intro completes_guard completes_and_then [OF add del]) (simp add: healthy_def)
qed

lemma acls_complete:
  assumes "healthy h sys"
  shows "bounded (kb_allow4 kb) MAX_ACL_ENTRIES \<Longrightarrow> want_v4 ` set es4 \<subseteq> kb_allow4 kb \<Longrightarrow>
      completes (within kb) (reconcile_acl_v4 h sys m_acl_allow_v4 m_acl_allow_v4_update es4) (within kb)"
    "bounded (kb_block4 kb) MAX_ACL_ENTRIES \<Longrightarrow> want_v4 ` set es4 \<subseteq> kb_block4 kb \<Longrightarrow>
      completes (within kb) (reconcile_acl_v4 h sys m_acl_block_v4 m_acl_block_v4_update es4) (within kb)"
    "bounded (kb_allow6 kb) MAX_ACL_ENTRIES \<Longrightarrow> want_v6 ` set es6 \<subseteq> kb_allow6 kb \<Longrightarrow>
      completes (within kb) (reconcile_acl_v6 h sys m_acl_allow_v6 m_acl_allow_v6_update es6) (within kb)"
    "bounded (kb_block6 kb) MAX_ACL_ENTRIES \<Longrightarrow> want_v6 ` set es6 \<subseteq> kb_block6 kb \<Longrightarrow>
      completes (within kb) (reconcile_acl_v6 h sys m_acl_block_v6 m_acl_block_v6_update es6) (within kb)"
  unfolding reconcile_acl_v4_def reconcile_acl_v6_def
  by (rule completes_get, rule completes_mono [where P = "within kb"], erule (1) acl_completes [OF assms]; simp add: within_def)+

lemma fwd_elem_within: "within kb m \<Longrightarrow> fwd_elem k v m = Some m' \<Longrightarrow> within kb m'"
  by (auto simp: fwd_elem_def array_set_def within_def array_map_def split: if_splits)

lemma runs_keeps:
  assumes "runs R a R R" "R (rc_maps s)"
  shows "R (rc_maps (snd (run_state a s)))"
proof -
  obtain new where "\<forall>m\<in>set new. R m" "rc_maps (snd (run_state a s)) = last (rc_maps s # new)"
    using runsD [OF assms(1) prod.collapse [symmetric] assms(2)] by blast
  then show ?thesis using assms(2) by (cases new rule: rev_cases) simp_all
qed

lemma completes_or_else:
  assumes "runs P a P P" "completes P b P"
  shows "completes P (do { done \<leftarrow> a; if done then State_Monad.return True else b }) P"
  using runs_keeps [OF assms(1)] assms(2) unfolding completes_def by (simp add: split_beta)

lemma fwd_block_completes:
  assumes "healthy h sys" "n < MAX_VIPS"
  shows "completes (within kb) (write_fwd_block h sys n vs) (within kb)"
proof -
  have elem: "completes (within kb) (syscall sys (fwd_elem (row n i) v)) (within kb)" if "i < table_size" for i v
  proof (rule completes_syscall [OF assms(1)])
    fix m assume m: "within kb m"
    have "unat (row n i) < max_vips * table_size"
      using unat_row [OF assms(2) that] assms(2) that by (simp add: word_less_nat_alt)
    then have "m_fwd_table m (row n i) \<noteq> None" using m by (auto simp: within_def array_map_def)
    then show "\<exists>m'. fwd_elem (row n i) v m = Some m' \<and> within kb m'"
      using fwd_elem_within [OF m] by (fastforce simp: fwd_elem_def array_set_def)
  qed
  have batch: "runs (within kb) (fwd_batch sys b vs) (within kb) (within kb)" for b
    unfolding fwd_batch_def Let_def
    by (rule runs_get, rule runs_and_then [where R = "within kb"], rule runs_mono [where P = "within kb", OF runs_all_ok_inv [OF runs_syscall]])
      (auto intro: fwd_elem_within runs_return)
  have loop: "completes (within kb) (all_ok (\<lambda>i. or_report (syscall sys (fwd_elem (row n i) (vs ! i))) ''fwd_table[%u]: %s'') [0..<table_size]) (within kb)"
    by (intro completes_all_ok_inv completes_or_report elem) simp
  show ?thesis
    unfolding write_fwd_block_def Let_def row_def [symmetric]
    using assms(1) by (intro completes_guard completes_or_else batch loop) (simp add: healthy_def)
qed

lemma vip_completes:
  assumes "healthy h sys" "vm_vip_num (cv_meta v) < MAX_VIPS" "bounded (kb_vip kb) max_vips" "set (cv_keys v) \<subseteq> kb_vip kb"
  shows "completes (within kb) (write_vip fp h sys conf v) (within kb)"
proof -
  have key: "completes (within kb) (or_report (syscall sys (vip_elem k (cv_meta v))) msg) (within kb)" if "k \<in> set (cv_keys v)" for k msg
  proof (intro completes_or_report completes_syscall [OF assms(1)])
    fix m assume m: "within kb m"
    have k: "k \<in> kb_vip kb" using assms(4) that by blast
    have "dom (m_vip_map m) \<subseteq> kb_vip kb" using m by (simp add: within_def)
    then have "has_room max_vips k (m_vip_map m)" using assms(3) k by (rule room)
    then show "\<exists>m'. vip_elem k (cv_meta v) m = Some m' \<and> within kb m'" using m k by (simp add: vip_elem_def within_def)
  qed
  have "completes (within kb) (and_then (write_fwd_block h sys (vm_vip_num (cv_meta v)) vs)
     (all_ok (\<lambda>k. or_report (syscall sys (vip_elem k (cv_meta v))) ''vip_map: %s'') (cv_keys v))) (within kb)" for vs
    by (intro completes_and_then [OF fwd_block_completes [OF assms(1,2)]] completes_all_ok_inv key)
  then show ?thesis
    unfolding write_vip_def using assms(1) by (intro completes_guard) (simp_all add: healthy_def)
qed

lemma release_completes:
  assumes "healthy h sys" "set ns \<subseteq> {..<max_vips}"
  shows "completes (within kb) (release_stale_vip_blocks h sys ns) (within kb)"
  unfolding release_stale_vip_blocks_def zero_fwd_block_def
  using assms by (intro completes_all_ok_inv completes_guard fwd_block_completes num_less) (auto simp: healthy_def)

definition frame_known :: "host \<Rightarrow> sys \<Rightarrow> marlin_conf \<Rightarrow> bool" where
  "frame_known h sys conf \<longleftrightarrow> ci_max_frame_set (mf_instance conf) \<or> \<not> any_backend_encapsulates conf \<or>
     sys_socket sys \<and> (\<exists>mtu. h_mtu h (ci_iface (mf_instance conf)) = Some mtu \<and> 0 \<le> mtu \<and> mtu + int ETH_HLEN \<le> 0xffff)"

lemma config_completes:
  assumes "healthy h sys" "frame_known h sys conf"
  shows "completes (within kb) (write_config h sys conf L) (within kb)"
proof -
  have conf_elem: "completes (within kb) (or_report (syscall sys (config_elem c)) msg) (within kb)" for c msg
  proof (intro completes_or_report completes_syscall [OF assms(1)])
    fix m assume m: "within kb m"
    then have "m_config m 0 \<noteq> None" by (simp add: within_def)
    then show "\<exists>m'. config_elem c m = Some m' \<and> within kb m'"
      using within_config [OF m, of c] by (auto simp: config_elem_def array_set_def)
  qed
  show ?thesis
    unfolding write_config_def
  proof (rule completes_quiet_bind)
    fix derived s t
    assume "run_state (if ci_max_frame_set (mf_instance conf) then State_Monad.return (Some (ci_max_frame (mf_instance conf)))
       else derive_max_frame h sys (ci_iface (mf_instance conf))) s = (derived, t)"
    then have "derived \<noteq> None \<or> \<not> any_backend_encapsulates conf"
      using assms(2) by (auto simp: frame_known_def derive_max_frame_def split: if_splits)
    then show "completes (within kb) (if derived = None \<and> any_backend_encapsulates conf
         then do { rc_report ''max_frame could not be derived and at least one backend encapsulates; the egress-MTU check would be silently disabled'';
                   State_Monad.return False }
         else or_report (syscall sys (config_elem (config_value conf (case derived of Some f \<Rightarrow> f | None \<Rightarrow> 0) L))) ''config: %s'') (within kb)"
      using conf_elem by auto
  qed (intro quiet_if quiet_return quiet_derive)
qed

lemma tx_ports_complete:
  assumes "healthy h sys" "bounded (kb_tx kb) MAX_TX_PORTS"
  shows "set ws \<subseteq> kb_tx kb \<Longrightarrow> completes (within kb) (add_tx_ports sys ws) (within kb)"
    "completes (within kb) (remove_stale_tx_ports sys ws) (within kb)"
proof -
  assume ws: "set ws \<subseteq> kb_tx kb"
  show "completes (within kb) (add_tx_ports sys ws) (within kb)"
    unfolding add_tx_ports_def
  proof (intro completes_all_ok_inv completes_or_report completes_syscall [OF assms(1)])
    fix i m assume "i \<in> set ws" and m: "within kb m"
    then have i: "i \<in> kb_tx kb" using ws by blast
    have "dom (m_tx_ports m) \<subseteq> kb_tx kb" using m by (simp add: within_def)
    then have "has_room MAX_TX_PORTS i (m_tx_ports m)" using assms(2) i by (rule room)
    then show "\<exists>m'. tx_port_elem i m = Some m' \<and> within kb m'" using m i by (simp add: tx_port_elem_def within_def)
  qed
next
  have del: "completes (within kb) (all_ok (\<lambda>i. if ifindex_in ws i then State_Monad.return True
     else or_report (syscall sys (\<lambda>m. Some (m\<lparr>m_tx_ports := (m_tx_ports m)(i := None)\<rparr>))) msg) js) (within kb)" for msg js
    by (intro completes_all_ok_inv completes_if completes_return completes_or_report completes_syscall [OF assms(1)]) (auto simp: within_def)
  show "completes (within kb) (remove_stale_tx_ports sys ws) (within kb)"
    unfolding remove_stale_tx_ports_def Let_def by (intro completes_get completes_mono [OF del]) simp_all
qed

lemma backend_key_small: "cb_egress b = [] \<Longrightarrow> backend_key b = ucast (cb_id b)"
proof (rule bit_word_eqI)
  fix i assume "cb_egress b = []"
  moreover have "le_bytes 2 (cb_id b) = [ucast (cb_id b), ucast (drop_bit 8 (cb_id b))]" by (simp add: numeral_2_eq_2)
  moreover have "bit (cb_id b) i \<Longrightarrow> i < 16" using bit_imp_le_length by fastforce
  ultimately show "bit (backend_key b) i = bit (ucast (cb_id b) :: u32) i"
    by (auto simp: backend_key_def bit_le_val bit_simps nth_Cons')
qed

lemma backend_elem_within:
  assumes "within kb m" "unat k < unat MAX_BACKENDS"
  shows "\<exists>m'. backend_elem k v m = Some m' \<and> within kb m'"
proof -
  have arr: "array_map (unat MAX_BACKENDS) (m_backends m)" using assms(1) by (simp add: within_def)
  then have "m_backends m k \<noteq> None" using assms(2) unfolding array_map_def by blast
  moreover have "array_map (unat MAX_BACKENDS) ((m_backends m)(k \<mapsto> v))" using arr assms(2) unfolding array_map_def by (metis fun_upd_apply option.distinct(1))
  ultimately show ?thesis using assms(1) by (auto simp: backend_elem_def array_set_def within_def)
qed

lemma backends_complete:
  assumes "healthy h sys" "\<forall>b\<in>set (mf_backends conf). cb_egress b = [] \<and> (ucast (cb_id b) :: u32) < MAX_BACKENDS"
  shows "completes (within kb) (write_backends h sys conf) (within kb)" "completes (within kb) (retire_stale_backends sys conf) (within kb)"
proof -
  show "completes (within kb) (write_backends h sys conf) (within kb)"
    unfolding write_backends_def
  proof (intro completes_all_ok_inv completes_or_report completes_syscall [OF assms(1)])
    fix b m assume "b \<in> set (mf_backends conf)" and m: "within kb m"
    then have "unat (backend_key b) < unat MAX_BACKENDS" using assms(2) backend_key_small by (metis word_less_nat_alt)
    then show "\<exists>m'. backend_elem (backend_key b) (backend_value h b) m = Some m' \<and> within kb m'" by (rule backend_elem_within [OF m])
  qed
  show "completes (within kb) (retire_stale_backends sys conf) (within kb)"
    unfolding retire_stale_backends_def Let_def
  proof (intro completes_all_ok_inv completes_get)
    fix n s
    let ?k = "retire_key sys (word_of_nat n)"
    show "completes (\<lambda>m. within kb m \<and> m = rc_maps s)
       (if (case m_backends (rc_maps s) ?k of None \<Rightarrow> True | Some cur \<Rightarrow> be_id cur \<noteq> word_of_nat n) then State_Monad.return True
        else if backend_id_wanted conf (word_of_nat n) then State_Monad.return True
        else or_report (syscall sys (backend_elem ?k zero_backend)) ''retiring backends[%u]: %s'') (within kb)"
    proof (intro completes_if completes_or_report completes_syscall [OF assms(1)])
      fix m assume set: "\<not> (case m_backends (rc_maps s) ?k of None \<Rightarrow> True | Some cur \<Rightarrow> be_id cur \<noteq> word_of_nat n)" and m: "within kb m \<and> m = rc_maps s"
      then have "m_backends m ?k \<noteq> None" by (auto split: option.splits)
      then have "unat ?k < unat MAX_BACKENDS" using m by (auto simp: within_def array_map_def)
      then show "\<exists>m'. backend_elem ?k zero_backend m = Some m' \<and> within kb m'" using backend_elem_within m by blast
    qed (auto intro: completes_mono [OF completes_return])
  qed
qed

section \<open>The backends after a reload\<close>

definition backends_published :: "host \<Rightarrow> marlin_conf \<Rightarrow> bpf_maps \<Rightarrow> bool" where
  "backends_published h conf m \<longleftrightarrow> (\<forall>b\<in>set (mf_backends conf). m_backends m (ucast (cb_id b)) = Some (backend_value h b))"

lemma low_half: "ucast (le_val (le_bytes 2 w @ bs) :: u32) = (w :: u16)"
proof (rule bit_word_eqI)
  fix i assume "i < LENGTH(16)"
  then have i: "i < 16" by simp
  have "le_bytes 2 w = [ucast w, ucast (drop_bit 8 w)]" by (simp add: numeral_2_eq_2)
  then show "bit (ucast (le_val (le_bytes 2 w @ bs) :: u32) :: u16) i = bit w i"
    using i by (auto simp: bit_le_val bit_simps nth_Cons')
qed

lemma retire_key_low: "ucast (retire_key sys bid) = bid"
  unfolding retire_key_def by (rule low_half)

lemma backend_key_low: "ucast (backend_key b) = cb_id b"
  unfolding backend_key_def by (rule low_half)

lemma low_neq:
  assumes "ucast (k :: u32) \<noteq> (w :: u16)"
  shows "ucast w \<noteq> k"
proof
  assume "ucast w = k"
  moreover have "ucast (ucast w :: u32) = w" by (rule bit_word_eqI) (auto simp: bit_simps)
  ultimately show False using assms by blast
qed

lemma write_backends_published:
  assumes "\<forall>b\<in>set (mf_backends conf). cb_egress b = []" "sorted_wrt (\<lambda>b c. cb_id b \<noteq> cb_id c) (mf_backends conf)"
  shows "runs (\<lambda>_. True) (write_backends h sys conf) (\<lambda>_. True) (backends_published h conf)"
proof -
  let ?P = "\<lambda>ys m. \<forall>b\<in>set ys. m_backends m (ucast (cb_id b)) = Some (backend_value h b)"
  have "runs (?P []) (write_backends h sys conf) (\<lambda>_. True) (?P (mf_backends conf))"
    unfolding write_backends_def
  proof (rule runs_all_ok [where P = ?P], intro runs_or_report runs_syscall)
    fix ys x zs m m'
    assume xs: "mf_backends conf = ys @ x # zs" and P: "?P ys m" and m': "backend_elem (backend_key x) (backend_value h x) m = Some m'"
    have "m_backends m' = (m_backends m)(backend_key x \<mapsto> backend_value h x)"
      using m' by (auto simp: backend_elem_def array_set_def split: if_splits)
    moreover have "backend_key x = ucast (cb_id x)" using assms(1) xs by (intro backend_key_small) simp
    moreover have "ucast (cb_id b) \<noteq> backend_key x" if "b \<in> set ys" for b
      using assms(2) xs that by (intro low_neq) (auto simp: backend_key_low sorted_wrt_append)
    ultimately show "True \<and> ?P (ys @ [x]) m'" using P by auto
  qed
  then show ?thesis by (rule runs_mono) (simp_all add: backends_published_def)
qed

lemma retire_keeps_published: "runs (backends_published h conf) (retire_stale_backends sys conf) (\<lambda>_. True) (backends_published h conf)"
proof -
  let ?R = "backends_published h conf"
  have "runs ?R (retire_stale_backends sys conf) ?R ?R"
    unfolding retire_stale_backends_def Let_def
  proof (intro runs_all_ok_inv runs_get runs_if runs_or_report runs_syscall)
    fix n s m m'
    assume "\<not> backend_id_wanted conf (word_of_nat n)" and R: "?R m \<and> m = rc_maps s"
      and m': "backend_elem (retire_key sys (word_of_nat n)) zero_backend m = Some m'"
    then have "ucast (cb_id b) \<noteq> retire_key sys (word_of_nat n)" if "b \<in> set (mf_backends conf)" for b
      using that by (intro low_neq) (auto simp: retire_key_low backend_id_wanted_def list_ex_iff)
    moreover have "m_backends m' = (m_backends m)(retire_key sys (word_of_nat n) \<mapsto> zero_backend)"
      using m' by (auto simp: backend_elem_def array_set_def split: if_splits)
    ultimately show "?R m' \<and> ?R m'" using R by (auto simp: backends_published_def)
  qed (auto intro: runs_mono [OF runs_return])
  then show ?thesis by (rule runs_mono) simp_all
qed

lemma maps_backends_published:
  assumes "\<forall>b\<in>set (mf_backends conf). cb_egress b = []" "sorted_wrt (\<lambda>b c. cb_id b \<noteq> cb_id c) (mf_backends conf)"
  shows "runs (\<lambda>_. True) (reconcile_maps fp h sys conf bs p L) (\<lambda>_. True) (backends_published h conf)"
proof -
  let ?T = "\<lambda>_ :: bpf_maps. True" and ?B = "backends_published h conf"
  have weak: "runs ?B a ?B ?B \<Longrightarrow> runs ?B a ?T ?B" for a by (erule runs_mono) simp_all
  have tables: "runs ?T (reconcile_tables fp h sys conf p L) ?T ?B"
    unfolding reconcile_tables_def
  proof (rule runs_quiet_bind [OF quiet_resolve])
    fix ports
    have "runs ?B (all_ok (\<lambda>i. write_vip fp h sys conf (mf_vips conf ! i)) (plan_write_order p)) ?B ?B"
      by (intro runs_all_ok_inv write_vip_frame) (simp_all add: backends_published_def)
    note steps = this release_frame [where R = ?B and h = h and sys = sys and rs = "plan_release p"] tx_ports_frame(2) [where R = ?B and sys = sys]
    show "runs ?T (case ports of None \<Rightarrow> State_Monad.return False | Some tx_want \<Rightarrow>
       and_then (add_tx_ports sys tx_want) (and_then (write_backends h sys conf)
       (and_then (all_ok (\<lambda>i. write_vip fp h sys conf (mf_vips conf ! i)) (plan_write_order p))
       (and_then (release_stale_vip_blocks h sys (plan_release p))
       (and_then (retire_stale_backends sys conf) (and_then (remove_stale_tx_ports sys tx_want) (write_config h sys conf L))))))) ?T ?B"
    proof (cases ports)
      case (Some w)
      show ?thesis
        unfolding Some option.case
        by (rule runs_and_then [OF tx_ports_frame(1)] runs_and_then [OF write_backends_published [OF assms]] runs_and_then [OF weak [OF steps(1)]]
            runs_and_then [OF weak [OF steps(2)]] runs_and_then [OF retire_keeps_published] runs_and_then [OF weak [OF steps(3)]] write_config_runs
            | simp add: backends_published_def)+
    qed (simp add: runs_return)
  qed
  show ?thesis
    unfolding reconcile_maps_def
    by (rule runs_and_then [OF stale_keys_frame] runs_and_then [OF runs_get [where Q = ?T]] runs_and_then [OF acl_v4_frame]
        runs_and_then [OF acl_v6_frame] tables write_config_runs | simp)+
qed

lemma applied_backends:
  assumes "run_state (reconcile_apply fp h sys conf) s = ((True, conf'), s')" "conf_rule conf" "\<forall>b\<in>set (mf_backends conf). cb_egress b = []"
  shows "backends_published h conf (rc_maps s')"
  using assms(1)
proof (cases rule: reconcile_apply_cases)
  case (ran bs es p s0 s1 s2)
  have "sorted_wrt (\<lambda>b c. cb_id b \<noteq> cb_id c) (mf_backends conf)"
    using assms(2) unfolding conf_rule_def backends_rule_def by (blast intro: sorted_wrt_mono_rel [rotated])
  then have "runs (\<lambda>_. True) (reconcile_maps fp h sys conf' bs p (acl_lists_bits conf)) (\<lambda>_. True) (backends_published h conf')"
    using assms(3) by (intro maps_backends_published) (simp_all add: ran(5) set_vip_nums_def)
  then have "backends_published h conf' (rc_maps s')" using runsD [OF _ ran(6)] by blast
  then show ?thesis by (simp add: backends_published_def ran(5) set_vip_nums_def)
qed simp

section \<open>The whole reload\<close>

lemma stale_keys_complete:
  assumes "healthy h sys" "conf_shape conf"
    and "vb_key ` set bs = dom (m_vip_map m0)" "\<forall>k\<in>dom (m_vip_map m0). canonical_key k"
    and "within (kb\<lparr>kb_vip := dom (m_vip_map m0)\<rparr>) m0"
    and "map cv_keys (mf_vips conf') = map cv_keys (mf_vips conf)" "kb_vip kb = set (concat (map cv_keys (mf_vips conf)))"
  shows "completes (\<lambda>m. m = m0) (remove_stale_vip_keys sys conf' bs) (within kb)"
proof -
  let ?kb = "kb\<lparr>kb_vip := dom (m_vip_map m0)\<rparr>"
  let ?P = "\<lambda>(ys :: vip_alloc_baseline list) m. within ?kb m \<and> (\<forall>b\<in>set ys. m_vip_map m (vb_key b) \<noteq> None \<longrightarrow> key_in_conf conf' (vb_key b))"
  have "completes (?P []) (remove_stale_vip_keys sys conf' bs) (?P bs)"
    unfolding remove_stale_vip_keys_def
  proof (rule completes_all_ok [where P = ?P], rule completes_if)
    fix ys zs :: "vip_alloc_baseline list" and b
    assume "key_in_conf conf' (vb_key (b :: vip_alloc_baseline))"
    then show "completes (?P ys) (State_Monad.return True) (?P (ys @ [b]))" by (intro completes_mono [OF completes_return]) auto
  next
    fix ys zs :: "vip_alloc_baseline list" and b
    show "completes (?P ys) (or_report (syscall sys (\<lambda>m. Some (m\<lparr>m_vip_map := (m_vip_map m)(vb_key b := None)\<rparr>))) ''vip_map delete failed: %s'') (?P (ys @ [b]))"
      by (intro completes_or_report completes_syscall [OF assms(1)]) (auto simp: within_def)
  qed
  then show ?thesis
  proof (rule completes_mono)
    fix m assume P: "?P bs m"
    have "k \<in> kb_vip kb" if "k \<in> dom (m_vip_map m)" for k
    proof -
      have k: "k \<in> dom (m_vip_map m0)" using P that by (auto simp: within_def)
      then have "k \<in> vb_key ` set bs" using assms(3) by simp
      then have "key_in_conf conf' k" using P that by auto
      then obtain ks x where ks: "ks \<in> set (map cv_keys (mf_vips conf'))" "x \<in> set ks" "vip_alloc_key_eq x k"
        by (auto simp: key_in_conf_def list_ex_iff key_eq_alloc)
      then have "x \<in> kb_vip kb" using assms(6,7) by auto
      moreover have "canonical_key x" using ks assms(2,6) by (auto simp: conf_shape_def vip_shape_def key_shape_def)
      ultimately show ?thesis using ks(3) k assms(4) key_eq_iff by blast
    qed
    then show "within kb m" using P by (auto simp: within_def)
  qed (use assms(5) in simp)
qed

lemma resolve_total: "\<forall>p\<in>set ps. h_if_nametoindex h p \<noteq> 0 \<Longrightarrow> run_state (resolve_tx_ports h ps) s = (Some (map (h_if_nametoindex h) ps), s)"
  by (induction ps) (simp_all add: Let_def)

lemma open_maps_total: "healthy h sys \<Longrightarrow> run_state (open_maps sys) s = (True, s)"
proof -
  assume healthy: "healthy h sys"
  have "\<exists>fd\<ge>0. run_state (find_map_fd sys n) s = (fd, s)" for n s
  proof -
    obtain fd where "sys_map_fd sys n = Some fd" "0 \<le> fd" using healthy unfolding healthy_def by blast
    then show ?thesis by (simp add: find_map_fd_def)
  qed
  then obtain fd where fd: "\<And>n s. 0 \<le> fd n s \<and> run_state (find_map_fd sys n) s = (fd n s, s)" by metis
  then show ?thesis by (simp add: open_maps_def)
qed

lemma read_baseline_total:
  assumes "\<forall>i. \<not> sys_next_error sys i" "n + length ks \<le> max_vips" "\<forall>k\<in>set ks. \<exists>meta. vm k = Some meta \<and> vm_vip_num meta < MAX_VIPS"
  shows "\<exists>bs. run_state (read_baseline_loop sys vm n ks) s = (Some bs, s)"
  using assms(2,3)
proof (induction ks arbitrary: n)
  case (Cons k ks)
  then obtain bs where "run_state (read_baseline_loop sys vm (n + 1) ks) s = (Some bs, s)" by force
  moreover obtain meta where "vm k = Some meta" "\<not> MAX_VIPS \<le> vm_vip_num meta" using Cons(3) by (auto simp: not_le)
  ultimately show ?case using Cons(2) assms(1) by simp
qed (simp add: assms(1))

lemma keys_checked_total:
  assumes "\<forall>v\<in>set vs. cv_keys v \<noteq> []" "n + length (concat (map cv_keys vs)) \<le> max_vips"
  shows "keys_checked (map (\<lambda>v. \<lparr>va_keys = Some (cv_keys v), va_vip_num = 0\<rparr>) vs) n"
  using assms by (induction vs arbitrary: n) (auto simp: va_key_list_def)

text \<open>What a configuration needs of the maps and of the host: the arrays at their declared size, room
  for the keys to come beside those that are there, a free number, ports that exist, a known frame
  size, and no egress interface.\<close>

definition fits :: "host \<Rightarrow> sys \<Rightarrow> marlin_conf \<Rightarrow> bpf_maps \<Rightarrow> bool" where
  "fits h sys conf m \<longleftrightarrow>
     m_config m 0 \<noteq> None \<and> array_map (unat MAX_BACKENDS) (m_backends m) \<and> array_map (max_vips * table_size) (m_fwd_table m) \<and>
     bounded (dom (m_vip_map m)) max_vips \<and> (\<forall>meta\<in>ran (m_vip_map m). vm_vip_num meta < MAX_VIPS) \<and>
     length (mf_vips conf) + card (vm_vip_num ` ran (m_vip_map m)) < max_vips \<and>
     (let kb = key_bounds_of h conf m in bounded (kb_tx kb) MAX_TX_PORTS \<and>
        bounded (kb_allow4 kb) MAX_ACL_ENTRIES \<and> bounded (kb_block4 kb) MAX_ACL_ENTRIES \<and>
        bounded (kb_allow6 kb) MAX_ACL_ENTRIES \<and> bounded (kb_block6 kb) MAX_ACL_ENTRIES) \<and>
     (\<forall>p\<in>set (ci_tx_ports (mf_instance conf)). h_if_nametoindex h p \<noteq> 0) \<and>
     (\<forall>b\<in>set (mf_backends conf). cb_egress b = []) \<and> frame_known h sys conf"

lemma tables_complete:
  assumes healthy: "healthy h sys" and kb: "bounded (kb_tx kb) MAX_TX_PORTS" "bounded (kb_vip kb) max_vips"
    and frame: "frame_known h sys conf"
    and backends: "\<forall>b\<in>set (mf_backends conf). cb_egress b = [] \<and> (ucast (cb_id b) :: u32) < MAX_BACKENDS"
    and ports: "\<forall>i\<in>set (ci_tx_ports (mf_instance conf)). h_if_nametoindex h i \<noteq> 0 \<and> h_if_nametoindex h i \<in> kb_tx kb"
    and vips: "\<forall>i\<in>set (plan_write_order p). vm_vip_num (cv_meta (mf_vips conf ! i)) < MAX_VIPS \<and> set (cv_keys (mf_vips conf ! i)) \<subseteq> kb_vip kb"
    and release: "set (plan_release p) \<subseteq> {..<max_vips}"
  shows "completes (within kb) (reconcile_tables fp h sys conf p L) (within kb)"
proof -
  let ?ports = "map (h_if_nametoindex h) (ci_tx_ports (mf_instance conf))"
  have "set ?ports \<subseteq> kb_tx kb" using ports by auto
  moreover have "completes (within kb) (write_vip fp h sys conf (mf_vips conf ! i)) (within kb)" if "i \<in> set (plan_write_order p)" for i
    using vips that by (intro vip_completes [OF healthy _ kb(2)]) blast+
  ultimately have "completes (within kb)
      (and_then (add_tx_ports sys ?ports) (and_then (write_backends h sys conf)
      (and_then (all_ok (\<lambda>i. write_vip fp h sys conf (mf_vips conf ! i)) (plan_write_order p))
      (and_then (release_stale_vip_blocks h sys (plan_release p))
      (and_then (retire_stale_backends sys conf) (and_then (remove_stale_tx_ports sys ?ports) (write_config h sys conf L))))))) (within kb)"
    by (intro completes_and_then [where R = "within kb"] tx_ports_complete [OF healthy kb(1)] backends_complete [OF healthy backends]
        completes_all_ok_inv release_completes [OF healthy release] config_completes [OF healthy frame])
  moreover have "run_state (resolve_tx_ports h (ci_tx_ports (mf_instance conf))) s = (Some ?ports, s)" for s
    using ports by (intro resolve_total) blast
  ultimately show ?thesis unfolding reconcile_tables_def by (intro completes_quiet_bind [OF quiet_resolve]) auto
qed

lemma maps_complete:
  assumes healthy: "healthy h sys" and fits: "fits h sys conf m0" and conf: "conf_rule conf" "conf_shape conf"
    and canon: "\<forall>k\<in>dom (m_vip_map m0). canonical_key k" and bs: "vb_key ` set bs = dom (m_vip_map m0)"
    and alloc: "vip_alloc (conf_entries conf) bs = (True, es, p)" "\<And>k. baseline_map bs k = map_option (unat \<circ> vm_vip_num) (m_vip_map m0 k)"
  shows "completes (\<lambda>m. m = m0) (reconcile_maps fp h sys (set_vip_nums conf es) bs p L) (within (key_bounds_of h conf m0))"
proof -
  let ?kb = "key_bounds_of h conf m0" and ?conf = "set_vip_nums conf es"
  note P = alloc_plan [OF alloc]
  have kb: "kb_vip ?kb = set (concat (map cv_keys (mf_vips conf)))" by (simp add: key_bounds_of_def)
  have bounds: "bounded (kb_tx ?kb) MAX_TX_PORTS" "bounded (kb_allow4 ?kb) MAX_ACL_ENTRIES" "bounded (kb_block4 ?kb) MAX_ACL_ENTRIES"
    "bounded (kb_allow6 ?kb) MAX_ACL_ENTRIES" "bounded (kb_block6 ?kb) MAX_ACL_ENTRIES"
    using fits by (simp_all add: fits_def Let_def)
  have "length (concat (map cv_keys (mf_vips conf))) \<le> max_vips" using conf(1) unfolding conf_rule_def vips_rule_def by blast
  then have vips: "bounded (kb_vip ?kb) max_vips" unfolding kb bounded_def by (meson List.finite_set card_length le_trans)
  have frame: "frame_known h sys ?conf" using fits by (simp add: fits_def frame_known_def set_vip_nums_def any_backend_encapsulates_def)
  have "vm_vip_num (cv_meta (mf_vips ?conf ! i)) < MAX_VIPS \<and> set (cv_keys (mf_vips ?conf ! i)) \<subseteq> kb_vip ?kb" if "i \<in> set (plan_write_order p)" for i
  proof -
    have i: "i < length (mf_vips ?conf)" "i < length es" using that P(1,3) by (simp_all add: plan_for_def)
    then have "cv_keys (mf_vips ?conf ! i) \<in> set (map cv_keys (mf_vips conf))" using P(6) by (metis length_map nth_map nth_mem)
    then show ?thesis using i P(1) num_less unfolding kb by (auto simp: plan_for_def)
  qed
  then have tables: "completes (within ?kb) (reconcile_tables fp h sys ?conf p L) (within ?kb)" for L
    using fits conf(1) by (intro tables_complete [OF healthy bounds(1) vips frame _ _ _ P(5)])
      (auto simp: fits_def conf_rule_def backends_rule_def set_vip_nums_def key_bounds_of_def)
  have "within (?kb\<lparr>kb_vip := dom (m_vip_map m0)\<rparr>) m0" using fits by (auto simp: within_def key_bounds_of_def fits_def)
  note stale = stale_keys_complete [OF healthy conf(2) bs canon this P(6) kb]
  have widen: "completes (within ?kb) (State_Monad.bind State_Monad.get (\<lambda>s. write_config h sys ?conf (f s))) (within ?kb)" for f
    by (intro completes_get completes_mono [OF config_completes [OF healthy frame]]) simp_all
  show ?thesis
    unfolding reconcile_maps_def
    by (intro completes_and_then [OF stale] completes_and_then [where R = "within ?kb"] widen acls_complete [OF healthy] bounds tables)
      (simp_all add: set_vip_nums_def key_bounds_of_def)
qed

lemma baseline_total:
  assumes "healthy h sys" "fits h sys conf (rc_maps s)"
  obtains bs where "run_state (read_vip_baseline sys) s = (Some bs, s)" "length bs \<le> max_vips"
    "card (vb_vip_num ` set bs) \<le> card (vm_vip_num ` ran (m_vip_map (rc_maps s)))"
proof -
  let ?vm = "m_vip_map (rc_maps s)"
  have fin: "finite (dom ?vm)" "card (dom ?vm) \<le> max_vips" and nums: "\<And>k meta. ?vm k = Some meta \<Longrightarrow> vm_vip_num meta < MAX_VIPS"
    using assms(2) by (auto simp: fits_def bounded_def ran_def)
  have en: "enumerates (sys_vip_keys sys)" "\<forall>i. \<not> sys_next_error sys i" using assms(1) by (simp_all add: healthy_def reads_ok_def)
  then have keys: "set (sys_vip_keys sys ?vm) = dom ?vm" "distinct (sys_vip_keys sys ?vm)" using fin(1) unfolding enumerates_def by blast+
  then have len: "length (sys_vip_keys sys ?vm) \<le> max_vips" using fin(2) by (metis distinct_card)
  have "\<forall>k\<in>set (sys_vip_keys sys ?vm). \<exists>meta. ?vm k = Some meta \<and> vm_vip_num meta < MAX_VIPS" using keys(1) nums by blast
  then obtain bs where bs: "run_state (read_baseline_loop sys ?vm 0 (sys_vip_keys sys ?vm)) s = (Some bs, s)"
    using read_baseline_total [OF en(2)] len by (metis add_0)
  note B = read_baseline_Some [OF bs]
  have "length bs \<le> max_vips" using B len by (metis length_map)
  moreover have sub: "vb_vip_num ` set bs \<subseteq> unat ` vm_vip_num ` ran ?vm"
  proof
    fix n assume "n \<in> vb_vip_num ` set bs"
    then obtain b where "b \<in> set bs" "n = vb_vip_num b" by blast
    then obtain meta where "?vm (vb_key b) = Some meta" "n = unat (vm_vip_num meta)" using B by fastforce
    then show "n \<in> unat ` vm_vip_num ` ran ?vm" by (auto simp: ran_def)
  qed
  moreover have "card (vb_vip_num ` set bs) \<le> card (vm_vip_num ` ran ?vm)"
    using fin(1) sub by (intro surj_card_le) (simp_all add: finite_ran)
  ultimately show ?thesis using that [of bs] bs by (simp add: read_vip_baseline_def Let_def)
qed

lemma reconcile_apply_total:
  assumes "healthy h sys" "fits h sys conf (rc_maps s)" "conf_rule conf" "conf_shape conf" "\<forall>k\<in>dom (m_vip_map (rc_maps s)). canonical_key k"
  obtains es s' where "run_state (reconcile_apply fp h sys conf) s = ((True, set_vip_nums conf es), s')" "length es = length (mf_vips conf)"
    "services_published fp (set_vip_nums conf es) (rc_maps s')"
proof -
  have en: "enumerates (sys_vip_keys sys)" and fin: "finite (dom (m_vip_map (rc_maps s)))"
    using assms(1,2) by (simp_all add: healthy_def reads_ok_def fits_def bounded_def)
  obtain bs where bs: "run_state (read_vip_baseline sys) s = (Some bs, s)" "length bs \<le> max_vips"
    "card (vb_vip_num ` set bs) \<le> card (vm_vip_num ` ran (m_vip_map (rc_maps s)))"
    by (rule baseline_total [OF assms(1,2)])
  note B = baseline_live [OF bs(1) en fin]
  have room: "length (mf_vips conf) + card (vm_vip_num ` ran (m_vip_map (rc_maps s))) < max_vips" using assms(2) unfolding fits_def by blast
  have "\<forall>v\<in>set (mf_vips conf). cv_keys v \<noteq> []" "0 + length (concat (map cv_keys (mf_vips conf))) \<le> max_vips"
    using assms(3,4) unfolding conf_shape_def vip_shape_def conf_rule_def vips_rule_def by auto
  then have "keys_checked (conf_entries conf) 0" unfolding conf_entries_def by (rule keys_checked_total)
  then have "fst (vip_alloc (conf_entries conf) bs)" using vip_alloc_total [of "conf_entries conf" bs] bs(2,3) room B(4) by (simp add: conf_entries_def)
  then obtain es p where alloc: "vip_alloc (conf_entries conf) bs = (True, es, p)" by (metis prod.collapse)
  let ?conf = "set_vip_nums conf es"
  have "run_state (allocate_vip_nums conf bs) s = (Some (?conf, p), s)" using room alloc by (simp add: allocate_vip_nums_def)
  moreover have "fst (run_state (reconcile_maps fp h sys ?conf bs p (acl_lists_bits conf)) s)"
    using maps_complete [OF assms B(3) alloc B(1)] unfolding completes_def by blast
  ultimately obtain s' where run: "run_state (reconcile_apply fp h sys conf) s = ((True, ?conf), s')"
    using open_maps_total [OF assms(1)] bs(1) by (simp add: reconcile_apply_def Let_def split_beta)
  with reconcile_apply_isolated [OF en fin assms(5,3,4) run] alloc_plan(2) [OF alloc B(1)] that show ?thesis by blast
qed


text \<open>A system without failures, on which the running system of the samples is reloaded.\<close>

definition healthy_sys :: sys where
  "healthy_sys = reload_sys\<lparr>sys_error := (\<lambda>_. False)\<rparr>"

lemma healthy_sys_ok: "healthy sample_host healthy_sys"
  by (simp add: healthy_def healthy_sys_def reload_sys_def sample_host_def reads_ok_def enumerates_some_keys)

lemma live_fits: "fits sample_host healthy_sys live_conf (rc_maps live_state)"
proof -
  have "array_map (unat MAX_BACKENDS) (m_backends (rc_maps live_state))" "array_map (max_vips * table_size) (m_fwd_table (rc_maps live_state))"
    by (auto simp: array_map_def live_state_def word_less_nat_alt)
  moreover have "frame_known sample_host healthy_sys live_conf"
    by (simp add: frame_known_def sample_host_def healthy_sys_def reload_sys_def ETH_HLEN_def)
  moreover have "ran (m_vip_map (rc_maps live_state)) = {\<lparr>vm_vip_num = 0, vm_flags = 0, vm_hash_key = 5\<rparr>}"
    by (auto simp: live_state_def ran_def split: if_splits)
  ultimately show ?thesis
    by (simp add: fits_def Let_def key_bounds_of_def bounded_def live_state_def live_conf_def loaded_conf_def zero_conf_def zero_instance_def zero_acl_def
        zero_conf_backend_def)
qed


end
