(* ===== verification/Marlind_Reconcile_Acl.thy ===== *)
theory Marlind_Reconcile_Acl
  imports Marlind_Reconcile_Logic Marlin_Acl
begin

text \<open>
  The access lists during a reload: the four tries come to hold exactly the configured rules, and at
  no point does the hint of the \<^verbatim>\<open>config\<close> map hide a rule from the data plane. The locale \<open>acl_trie\<close>
  is the interface between the reconciliation of one trie and the trie it works on.
\<close>

section \<open>One trie\<close>

definition trie_of :: "(conf_acl_entry \<Rightarrow> 'k) \<Rightarrow> (nat \<times> conf_acl_entry) list \<Rightarrow> ('k \<rightharpoonup> u32)" where
  "trie_of want es = fold (\<lambda>(i, e) t. t(want e \<mapsto> of_nat i)) es Map.empty"

lemma trie_of_snoc: "trie_of want (es @ [(i, e)]) = (trie_of want es)(want e \<mapsto> of_nat i)"
  by (simp add: trie_of_def)

lemma dom_trie_of: "dom (trie_of want es) = want ` snd ` set es"
proof (induction es rule: rev_induct)
  case (snoc x xs)
  then show ?case by (cases x) (simp add: trie_of_snoc del: fun_upd_apply)
qed (simp add: trie_of_def)

lemma snd_enumerate: "snd ` set (enumerate n xs) = set xs"
  by (metis list.set_map map_snd_enumerate)

locale acl_trie =
  fixes trie :: "bpf_maps \<Rightarrow> ('k \<rightharpoonup> u32)" and upd :: "(('k \<rightharpoonup> u32) \<Rightarrow> ('k \<rightharpoonup> u32)) \<Rightarrow> bpf_maps \<Rightarrow> bpf_maps"
    and want :: "conf_acl_entry \<Rightarrow> 'k" and key_eq :: "'k \<Rightarrow> 'k \<Rightarrow> bool"
  assumes trie_upd: "trie (upd f m) = f (trie m)"
    and key_eq: "key_eq (want e) k \<longleftrightarrow> want e = k"
begin

lemma adds:
  assumes add: "\<And>m e v. J m \<Longrightarrow> e \<in> set entries \<Longrightarrow> has_room MAX_ACL_ENTRIES (want e) (trie m) \<Longrightarrow> J (upd (\<lambda>t. t(want e \<mapsto> v)) m)"
  shows "runs (\<lambda>m. J m \<and> dom (trie m) \<subseteq> D)
    (all_ok (\<lambda>(i, e). or_report (syscall sys (acl_elem trie upd (want e) (of_nat i))) um) (enumerate 0 entries)) J
    (\<lambda>m. J m \<and> (\<exists>t0. dom t0 \<subseteq> D \<and> trie m = t0 ++ trie_of want (enumerate 0 entries)))"
proof -
  define P1 where "P1 ys m \<longleftrightarrow> J m \<and> (\<exists>t0. dom t0 \<subseteq> D \<and> trie m = t0 ++ trie_of want ys)" for ys m
  have "runs (P1 []) (all_ok (\<lambda>(i, e). or_report (syscall sys (acl_elem trie upd (want e) (of_nat i))) um) (enumerate 0 entries)) J
      (P1 (enumerate 0 entries))"
  proof (rule runs_all_ok)
    fix ys zs and ie :: "nat \<times> conf_acl_entry"
    assume split: "enumerate 0 entries = ys @ ie # zs"
    obtain i e where ie: "ie = (i, e)" by (cases ie)
    have "ie \<in> set (enumerate 0 entries)" using split by simp
    then have e: "e \<in> set entries" using ie snd_enumerate by (metis image_eqI snd_conv)
    show "runs (P1 ys) (case ie of (i, e) \<Rightarrow> or_report (syscall sys (acl_elem trie upd (want e) (of_nat i))) um) J (P1 (ys @ [ie]))"
      unfolding ie prod.case
      by (intro runs_or_report runs_syscall) (auto simp: P1_def acl_elem_def add [OF _ e] trie_upd trie_of_snoc split: if_splits simp del: fun_upd_apply; blast)
  qed
  then show ?thesis by (rule runs_mono) (auto simp: P1_def trie_of_def)
qed

lemma deletes:
  assumes del: "\<And>m k. J m \<Longrightarrow> J (upd (\<lambda>t. t(k := None)) m)"
  shows "runs (\<lambda>m. J m \<and> (\<exists>t0. dom t0 \<subseteq> D \<and> trie m = t0 ++ T))
    (all_ok (\<lambda>k. if list_ex (\<lambda>e. key_eq (want e) k) entries then State_Monad.return True
      else or_report (syscall sys (\<lambda>m. Some (upd (\<lambda>t. t(k := None)) m))) dm) ks) J
    (\<lambda>m. J m \<and> (\<exists>t0. dom t0 \<subseteq> D \<and> trie m = (t0 ++ T) |` (- (set ks - want ` set entries))))"
proof -
  define P2 where "P2 ys m \<longleftrightarrow> J m \<and> (\<exists>t0. dom t0 \<subseteq> D \<and> trie m = (t0 ++ T) |` (- (set ys - want ` set entries)))" for ys m
  have "runs (P2 []) (all_ok (\<lambda>k. if list_ex (\<lambda>e. key_eq (want e) k) entries then State_Monad.return True
      else or_report (syscall sys (\<lambda>m. Some (upd (\<lambda>t. t(k := None)) m))) dm) ks) J (P2 ks)"
  proof (rule runs_all_ok)
    fix ys k zs
    show "runs (P2 ys) (if list_ex (\<lambda>e. key_eq (want e) k) entries then State_Monad.return True
      else or_report (syscall sys (\<lambda>m. Some (upd (\<lambda>t. t(k := None)) m))) dm) J (P2 (ys @ [k]))"
    proof (cases "k \<in> want ` set entries")
      case True
      then have "list_ex (\<lambda>e. key_eq (want e) k) entries" by (auto simp: list_ex_iff key_eq)
      moreover have "set (ys @ [k]) - want ` set entries = set ys - want ` set entries" using True by auto
      ultimately show ?thesis by (simp, intro runs_return) (simp add: P2_def)
    next
      case False
      then have "\<not> list_ex (\<lambda>e. key_eq (want e) k) entries" by (auto simp: list_ex_iff key_eq)
      moreover have "(t |` (- (set ys - want ` set entries)))(k := None) = t |` (- (set (ys @ [k]) - want ` set entries))" for t :: "'k \<rightharpoonup> u32"
        using False by (auto simp: restrict_map_def fun_eq_iff)
      ultimately show ?thesis
        by (simp, intro runs_or_report runs_syscall) (auto simp: P2_def del trie_upd; blast)
    qed
  qed
  then show ?thesis by (rule runs_mono) (auto simp: P2_def restrict_map_def)
qed

lemma kept_rules:
  assumes "dom t0 \<subseteq> set ks"
  shows "(t0 ++ trie_of want (enumerate 0 entries)) |` (- (set ks - want ` set entries)) = trie_of want (enumerate 0 entries)" (is "?t = ?T")
proof
  fix k
  show "?t k = ?T k"
  proof (cases "k \<in> want ` set entries")
    case True
    then have "k \<in> dom ?T" by (simp add: dom_trie_of snd_enumerate)
    then show ?thesis using True by (auto simp: restrict_map_def map_add_def)
  next
    case False
    then have "?T k = None" by (metis domIff dom_trie_of snd_enumerate)
    then show ?thesis using False assms by (auto simp: restrict_map_def map_add_def domIff)
  qed
qed

lemma reconcile:
  assumes add: "\<And>m e v. J m \<Longrightarrow> e \<in> set entries \<Longrightarrow> has_room MAX_ACL_ENTRIES (want e) (trie m) \<Longrightarrow> J (upd (\<lambda>t. t(want e \<mapsto> v)) m)"
    and del: "\<And>m k. J m \<Longrightarrow> J (upd (\<lambda>t. t(k := None)) m)"
    and start: "\<And>m. P m \<Longrightarrow> J m \<and> dom (trie m) \<subseteq> set (take MAX_ACL_ENTRIES (readable sys keys))"
  shows "runs P (reconcile_acl h sys trie upd keys want key_eq um dm entries) J
    (\<lambda>m. J m \<and> trie m = trie_of want (enumerate 0 entries))"
  unfolding reconcile_acl_def Let_def
proof (rule runs_get)
  fix s :: rc
  let ?ex = "take MAX_ACL_ENTRIES (readable sys keys)" and ?T = "trie_of want (enumerate 0 entries)"
  let ?run = "and_then (all_ok (\<lambda>(i, e). or_report (syscall sys (acl_elem trie upd (want e) (of_nat i))) um) (enumerate 0 entries))
    (all_ok (\<lambda>k. if list_ex (\<lambda>e. key_eq (want e) k) entries then State_Monad.return True
      else or_report (syscall sys (\<lambda>m. Some (upd (\<lambda>t. t(k := None)) m))) dm) ?ex)"
  note run = runs_and_then [OF adds [where J = J and entries = entries and D = "set ?ex", OF add] deletes [where J = J, OF del]]
  have "runs (\<lambda>m. P m \<and> m = rc_maps s) ?run J (\<lambda>m. J m \<and> trie m = ?T)"
    by (rule runs_mono [OF run]) (use start kept_rules [of _ ?ex entries] in auto)
  moreover have "runs (\<lambda>m. P m \<and> m = rc_maps s) (do { rc_report msg; State_Monad.return False }) J (\<lambda>m. J m \<and> trie m = ?T)" for msg
    by (rule runs_quiet_bind [OF quiet_report]) (simp add: runs_return)
  ultimately show "runs (\<lambda>m. P m \<and> m = rc_maps s)
     (if \<not> h_alloc h ''existing'' (rc_ops s) then do { rc_report ''out of memory reconciling an ACL trie''; State_Monad.return False } else ?run)
     J (\<lambda>m. J m \<and> trie m = ?T)" by simp
qed

end

interpretation allow4: acl_trie m_acl_allow_v4 m_acl_allow_v4_update want_v4 acl_v4_key_eq
  by unfold_locales (auto simp: acl_v4_key_eq_def)

interpretation block4: acl_trie m_acl_block_v4 m_acl_block_v4_update want_v4 acl_v4_key_eq
  by unfold_locales (auto simp: acl_v4_key_eq_def)

lemma acl_v6_key_eq_iff: "acl_v6_key_eq a b \<longleftrightarrow> a = b"
proof -
  have "quad_bytes p = quad_bytes q \<longleftrightarrow> p = q" for p q
  proof
    assume eq: "quad_bytes p = quad_bytes q"
    obtain a b c d a' b' c' d' where pq: "p = (a, b, c, d)" "q = (a', b', c', d')" by (metis prod.collapse)
    have "le_bytes 4 a = le_bytes 4 a'" "le_bytes 4 b = le_bytes 4 b'" "le_bytes 4 c = le_bytes 4 c'" "le_bytes 4 d = le_bytes 4 d'"
      using eq by (simp_all add: pq quad_bytes_def)
    moreover have "le_val (le_bytes 4 x) = x" for x :: u32 by simp
    ultimately show "p = q" unfolding pq by metis
  qed simp
  then show ?thesis by (cases a; cases b) (auto simp: acl_v6_key_eq_def)
qed

interpretation allow6: acl_trie m_acl_allow_v6 m_acl_allow_v6_update want_v6 acl_v6_key_eq
  by unfold_locales (auto simp: acl_v6_key_eq_iff)

interpretation block6: acl_trie m_acl_block_v6 m_acl_block_v6_update want_v6 acl_v6_key_eq
  by unfold_locales (auto simp: acl_v6_key_eq_iff)

section \<open>The access-list hint\<close>

definition acl_hint_ok :: "bpf_maps \<Rightarrow> bool" where
  "acl_hint_ok m \<longleftrightarrow> acl_lists_cover m (cfg_acl_lists (live_config m))"

definition trie_bounded :: "('k \<rightharpoonup> u32) \<Rightarrow> bool" where
  "trie_bounded t \<longleftrightarrow> finite (dom t) \<and> card (dom t) \<le> MAX_ACL_ENTRIES"

text \<open>The bits of the configuration's own hint.\<close>

definition conf_list :: "marlin_conf \<Rightarrow> acl_list \<Rightarrow> acl_family \<Rightarrow> conf_acl_entry list" where
  "conf_list conf l f = (case (l, f) of
     (ACL_LIST_ALLOW, ACL_FAMILY_V4) \<Rightarrow> ac_allow_v4 (mf_acl conf) | (ACL_LIST_BLOCK, ACL_FAMILY_V4) \<Rightarrow> ac_block_v4 (mf_acl conf)
   | (ACL_LIST_ALLOW, ACL_FAMILY_V6) \<Rightarrow> ac_allow_v6 (mf_acl conf) | (ACL_LIST_BLOCK, ACL_FAMILY_V6) \<Rightarrow> ac_block_v6 (mf_acl conf))"

lemma acl_lists_bits_iff: "acl_lists_bits conf AND ACL_LISTS_BIT l f \<noteq> 0 \<longleftrightarrow> conf_list conf l f \<noteq> []"
  by (cases l; cases f) (simp_all add: acl_lists_bits_def conf_list_def ACL_LISTS_BIT_def Let_def)

lemma or_and_nz: "(a AND x \<noteq> 0 \<or> b AND x \<noteq> 0) \<Longrightarrow> (a OR b) AND x \<noteq> (0 :: u16)"
  by (auto simp: bit.conj_disj_distrib2 or_eq_0_iff)

abbreviation T4 :: "conf_acl_entry list \<Rightarrow> (acl_key4 \<rightharpoonup> u32)" where
  "T4 es \<equiv> trie_of want_v4 (enumerate 0 es)"

abbreviation T6 :: "conf_acl_entry list \<Rightarrow> (acl_key6 \<rightharpoonup> u32)" where
  "T6 es \<equiv> trie_of want_v6 (enumerate 0 es)"

definition tries_done :: "marlin_conf \<Rightarrow> bpf_maps \<Rightarrow> bool" where
  "tries_done conf m \<longleftrightarrow>
     m_acl_allow_v4 m = trie_of want_v4 (enumerate 0 (ac_allow_v4 (mf_acl conf))) \<and>
     m_acl_block_v4 m = trie_of want_v4 (enumerate 0 (ac_block_v4 (mf_acl conf))) \<and>
     m_acl_allow_v6 m = trie_of want_v6 (enumerate 0 (ac_allow_v6 (mf_acl conf))) \<and>
     m_acl_block_v6 m = trie_of want_v6 (enumerate 0 (ac_block_v6 (mf_acl conf)))"

lemma trie_of_nonempty: "trie_of want (enumerate 0 es) \<noteq> Map.empty \<longleftrightarrow> es \<noteq> []"
  by (metis dom_eq_empty_conv dom_trie_of image_is_empty set_empty snd_enumerate)

lemma tries_done_cover: "tries_done conf m \<Longrightarrow> acl_lists_cover m (acl_lists_bits conf)"
  by (simp add: tries_done_def acl_lists_cover_def trie_of_nonempty acl_lists_bits_iff conf_list_def)

text \<open>The state while the tries are being changed, the hint being \<open>H\<close>.\<close>

definition tries_bounded :: "bpf_maps \<Rightarrow> bool" where
  "tries_bounded m \<longleftrightarrow> trie_bounded (m_acl_allow_v4 m) \<and> trie_bounded (m_acl_block_v4 m) \<and>
     trie_bounded (m_acl_allow_v6 m) \<and> trie_bounded (m_acl_block_v6 m)"

definition hinted :: "u16 \<Rightarrow> bpf_maps \<Rightarrow> bool" where
  "hinted H m \<longleftrightarrow> cfg_acl_lists (live_config m) = H \<and> acl_lists_cover m H"

lemma hinted_ok: "hinted H m \<Longrightarrow> acl_hint_ok m"
  by (simp add: hinted_def acl_hint_ok_def)

lemma hinted_updates:
  "hinted H m \<Longrightarrow> hinted H (m_acl_allow_v4_update (\<lambda>t. t(k4 := None)) m)"
  "hinted H m \<Longrightarrow> hinted H (m_acl_block_v4_update (\<lambda>t. t(k4 := None)) m)"
  "hinted H m \<Longrightarrow> hinted H (m_acl_allow_v6_update (\<lambda>t. t(k6 := None)) m)"
  "hinted H m \<Longrightarrow> hinted H (m_acl_block_v6_update (\<lambda>t. t(k6 := None)) m)"
  "hinted H m \<Longrightarrow> H AND ACL_LISTS_BIT ACL_LIST_ALLOW ACL_FAMILY_V4 \<noteq> 0 \<Longrightarrow> hinted H (m_acl_allow_v4_update f4 m)"
  "hinted H m \<Longrightarrow> H AND ACL_LISTS_BIT ACL_LIST_BLOCK ACL_FAMILY_V4 \<noteq> 0 \<Longrightarrow> hinted H (m_acl_block_v4_update f4 m)"
  "hinted H m \<Longrightarrow> H AND ACL_LISTS_BIT ACL_LIST_ALLOW ACL_FAMILY_V6 \<noteq> 0 \<Longrightarrow> hinted H (m_acl_allow_v6_update f6 m)"
  "hinted H m \<Longrightarrow> H AND ACL_LISTS_BIT ACL_LIST_BLOCK ACL_FAMILY_V6 \<noteq> 0 \<Longrightarrow> hinted H (m_acl_block_v6_update f6 m)"
  by (auto simp: hinted_def acl_lists_cover_def live_config_def)

definition wide_hint :: "marlin_conf \<Rightarrow> bpf_maps \<Rightarrow> bool" where
  "wide_hint conf m \<longleftrightarrow> (\<exists>H. hinted H m \<and> (\<forall>l f. conf_list conf l f \<noteq> [] \<longrightarrow> H AND ACL_LISTS_BIT l f \<noteq> 0))"

lemma wide_hint_ok: "wide_hint conf m \<Longrightarrow> acl_hint_ok m"
  by (auto simp: wide_hint_def hinted_ok)

lemma wide_hint_deletes:
  "wide_hint conf m \<Longrightarrow> wide_hint conf (m_acl_allow_v4_update (\<lambda>t. t(k4 := None)) m)"
  "wide_hint conf m \<Longrightarrow> wide_hint conf (m_acl_block_v4_update (\<lambda>t. t(k4 := None)) m)"
  "wide_hint conf m \<Longrightarrow> wide_hint conf (m_acl_allow_v6_update (\<lambda>t. t(k6 := None)) m)"
  "wide_hint conf m \<Longrightarrow> wide_hint conf (m_acl_block_v6_update (\<lambda>t. t(k6 := None)) m)"
  unfolding wide_hint_def by (blast intro: hinted_updates(1-4))+

lemma wide_hint_adds:
  "wide_hint conf m \<Longrightarrow> e \<in> set (ac_allow_v4 (mf_acl conf)) \<Longrightarrow> wide_hint conf (m_acl_allow_v4_update f4 m)"
  "wide_hint conf m \<Longrightarrow> e \<in> set (ac_block_v4 (mf_acl conf)) \<Longrightarrow> wide_hint conf (m_acl_block_v4_update f4 m)"
  "wide_hint conf m \<Longrightarrow> e \<in> set (ac_allow_v6 (mf_acl conf)) \<Longrightarrow> wide_hint conf (m_acl_allow_v6_update f6 m)"
  "wide_hint conf m \<Longrightarrow> e \<in> set (ac_block_v6 (mf_acl conf)) \<Longrightarrow> wide_hint conf (m_acl_block_v6_update f6 m)"
proof -
  have bit: "conf_list conf l f \<noteq> []" if "e \<in> set (conf_list conf l f)" for l f using that by auto
  note b = bit [of ACL_LIST_ALLOW ACL_FAMILY_V4] bit [of ACL_LIST_BLOCK ACL_FAMILY_V4] bit [of ACL_LIST_ALLOW ACL_FAMILY_V6]
    bit [of ACL_LIST_BLOCK ACL_FAMILY_V6]
  note b' = b [unfolded conf_list_def prod.case acl_list.case acl_family.case]
  show "wide_hint conf m \<Longrightarrow> e \<in> set (ac_allow_v4 (mf_acl conf)) \<Longrightarrow> wide_hint conf (m_acl_allow_v4_update f4 m)"
    using b(1) hinted_updates(5) unfolding wide_hint_def by (fastforce simp: conf_list_def)
  show "wide_hint conf m \<Longrightarrow> e \<in> set (ac_block_v4 (mf_acl conf)) \<Longrightarrow> wide_hint conf (m_acl_block_v4_update f4 m)"
    using b(2) hinted_updates(6) unfolding wide_hint_def by (fastforce simp: conf_list_def)
  show "wide_hint conf m \<Longrightarrow> e \<in> set (ac_allow_v6 (mf_acl conf)) \<Longrightarrow> wide_hint conf (m_acl_allow_v6_update f6 m)"
    using b(3) hinted_updates(7) unfolding wide_hint_def by (fastforce simp: conf_list_def)
  show "wide_hint conf m \<Longrightarrow> e \<in> set (ac_block_v6 (mf_acl conf)) \<Longrightarrow> wide_hint conf (m_acl_block_v6_update f6 m)"
    using b(4) hinted_updates(8) unfolding wide_hint_def by (fastforce simp: conf_list_def)
qed

text \<open>What holds after every call: the hint covers the tries, and none has more rules than it may have.\<close>

definition acl_safe :: "bpf_maps \<Rightarrow> bool" where
  "acl_safe m \<longleftrightarrow> acl_hint_ok m \<and> tries_bounded m"

lemma wide_hint_safe: "wide_hint conf m \<Longrightarrow> tries_bounded m \<Longrightarrow> acl_safe m"
  by (simp add: acl_safe_def wide_hint_ok)

lemma widen_runs:
  "runs acl_safe
     (do { s \<leftarrow> State_Monad.get; write_config h sys conf (read_old_acl_lists (rc_maps s) OR acl_lists_bits conf) })
     acl_safe (\<lambda>m. wide_hint conf m \<and> tries_bounded m)"
proof (rule runs_get, rule write_config_runs)
  fix s :: rc and m :: bpf_maps and f
  let ?H = "read_old_acl_lists (rc_maps s) OR acl_lists_bits conf"
  let ?m = "m\<lparr>m_config := (m_config m)(0 \<mapsto> config_value conf f ?H)\<rparr>"
  assume m: "acl_safe m \<and> m = rc_maps s" "m_config m 0 \<noteq> None"
  have cover: "acl_lists_cover m (cfg_acl_lists (live_config m))" using m by (auto simp: acl_hint_ok_def acl_safe_def)
  have "cfg_acl_lists (live_config ?m) = ?H" by (simp add: live_config_def config_value_def Let_def zero_config_def)
  moreover have "acl_lists_cover ?m ?H"
    using cover m or_and_nz unfolding acl_lists_cover_def read_old_acl_lists_def by simp
  ultimately have "hinted ?H ?m" by (simp add: hinted_def)
  moreover have "conf_list conf l f' \<noteq> [] \<longrightarrow> ?H AND ACL_LISTS_BIT l f' \<noteq> 0" for l f'
    using acl_lists_bits_iff or_and_nz by blast
  ultimately have "wide_hint conf ?m" unfolding wide_hint_def by blast
  then show "acl_safe ?m \<and> wide_hint conf ?m \<and> tries_bounded ?m"
    using m wide_hint_ok by (auto simp: tries_bounded_def acl_safe_def)
qed

lemma acl_v4_runs:
  assumes "reads_ok sys" "acl_trie trie upd want_v4 acl_v4_key_eq"
    and "\<And>m e v. J m \<Longrightarrow> e \<in> set entries \<Longrightarrow> has_room MAX_ACL_ENTRIES (want_v4 e) (trie m) \<Longrightarrow> J (upd (\<lambda>t. t(want_v4 e \<mapsto> v)) m)" "\<And>m k. J m \<Longrightarrow> J (upd (\<lambda>t. t(k := None)) m)"
  shows "runs (\<lambda>m. J m \<and> trie_bounded (trie m)) (reconcile_acl_v4 h sys trie upd entries) J
    (\<lambda>m. J m \<and> trie m = trie_of want_v4 (enumerate 0 entries))"
  unfolding reconcile_acl_v4_def
proof (rule runs_get, rule acl_trie.reconcile [OF assms(2)])
  fix s :: rc and m :: bpf_maps
  assume "(J m \<and> trie_bounded (trie m)) \<and> m = rc_maps s"
  then show "J m \<and> dom (trie m) \<subseteq> set (take MAX_ACL_ENTRIES (readable sys (sys_acl4_keys sys (trie (rc_maps s)))))"
    using assms(1) enumerates_take [OF assms(1), of "sys_acl4_keys sys" "trie m" MAX_ACL_ENTRIES]
    by (auto simp: trie_bounded_def reads_ok_def simp del: MAX_ACL_ENTRIES_def)
qed (use assms in blast)+

lemma acl_v6_runs:
  assumes "reads_ok sys" "acl_trie trie upd want_v6 acl_v6_key_eq"
    and "\<And>m e v. J m \<Longrightarrow> e \<in> set entries \<Longrightarrow> has_room MAX_ACL_ENTRIES (want_v6 e) (trie m) \<Longrightarrow> J (upd (\<lambda>t. t(want_v6 e \<mapsto> v)) m)" "\<And>m k. J m \<Longrightarrow> J (upd (\<lambda>t. t(k := None)) m)"
  shows "runs (\<lambda>m. J m \<and> trie_bounded (trie m)) (reconcile_acl_v6 h sys trie upd entries) J
    (\<lambda>m. J m \<and> trie m = trie_of want_v6 (enumerate 0 entries))"
  unfolding reconcile_acl_v6_def
proof (rule runs_get, rule acl_trie.reconcile [OF assms(2)])
  fix s :: rc and m :: bpf_maps
  assume "(J m \<and> trie_bounded (trie m)) \<and> m = rc_maps s"
  then show "J m \<and> dom (trie m) \<subseteq> set (take MAX_ACL_ENTRIES (readable sys (sys_acl6_keys sys (trie (rc_maps s)))))"
    using assms(1) enumerates_take [OF assms(1), of "sys_acl6_keys sys" "trie m" MAX_ACL_ENTRIES]
    by (auto simp: trie_bounded_def reads_ok_def simp del: MAX_ACL_ENTRIES_def)
qed (use assms in blast)+

text \<open>One trie after the other.\<close>

lemma trie_bounded_put: "trie_bounded t \<Longrightarrow> has_room MAX_ACL_ENTRIES k t \<Longrightarrow> trie_bounded (t(k \<mapsto> v))"
  by (auto simp: trie_bounded_def has_room_def card_insert_if insert_absorb simp del: MAX_ACL_ENTRIES_def)

lemma trie_bounded_drop: "trie_bounded t \<Longrightarrow> trie_bounded (t(k := None))"
  by (auto simp: trie_bounded_def intro: order_trans [OF card_mono] simp del: MAX_ACL_ENTRIES_def)

lemma acl_phases:
  assumes "reads_ok sys"
  shows "runs (\<lambda>m. wide_hint conf m \<and> tries_bounded m)
     (reconcile_acl_v4 h sys m_acl_allow_v4 m_acl_allow_v4_update (ac_allow_v4 (mf_acl conf)))
     acl_safe (\<lambda>m. wide_hint conf m \<and> tries_bounded m \<and> m_acl_allow_v4 m = T4 (ac_allow_v4 (mf_acl conf)))"
    and "runs (\<lambda>m. wide_hint conf m \<and> tries_bounded m \<and> m_acl_allow_v4 m = T4 (ac_allow_v4 (mf_acl conf)))
     (reconcile_acl_v4 h sys m_acl_block_v4 m_acl_block_v4_update (ac_block_v4 (mf_acl conf)))
     acl_safe (\<lambda>m. wide_hint conf m \<and> tries_bounded m \<and> m_acl_allow_v4 m = T4 (ac_allow_v4 (mf_acl conf)) \<and> m_acl_block_v4 m = T4 (ac_block_v4 (mf_acl conf)))"
    and "runs (\<lambda>m. wide_hint conf m \<and> tries_bounded m \<and> m_acl_allow_v4 m = T4 (ac_allow_v4 (mf_acl conf)) \<and> m_acl_block_v4 m = T4 (ac_block_v4 (mf_acl conf)))
     (reconcile_acl_v6 h sys m_acl_allow_v6 m_acl_allow_v6_update (ac_allow_v6 (mf_acl conf)))
     acl_safe (\<lambda>m. wide_hint conf m \<and> tries_bounded m \<and> m_acl_allow_v4 m = T4 (ac_allow_v4 (mf_acl conf)) \<and> m_acl_block_v4 m = T4 (ac_block_v4 (mf_acl conf)) \<and> m_acl_allow_v6 m = T6 (ac_allow_v6 (mf_acl conf)))"
    and "runs (\<lambda>m. wide_hint conf m \<and> tries_bounded m \<and> m_acl_allow_v4 m = T4 (ac_allow_v4 (mf_acl conf)) \<and> m_acl_block_v4 m = T4 (ac_block_v4 (mf_acl conf)) \<and> m_acl_allow_v6 m = T6 (ac_allow_v6 (mf_acl conf)))
     (reconcile_acl_v6 h sys m_acl_block_v6 m_acl_block_v6_update (ac_block_v6 (mf_acl conf)))
     acl_safe (\<lambda>m. wide_hint conf m \<and> tries_bounded m \<and> tries_done conf m)"
proof -
  note upd = wide_hint_deletes wide_hint_adds tries_bounded_def trie_bounded_put trie_bounded_drop wide_hint_ok acl_safe_def
  show "runs (\<lambda>m. wide_hint conf m \<and> tries_bounded m)
     (reconcile_acl_v4 h sys m_acl_allow_v4 m_acl_allow_v4_update (ac_allow_v4 (mf_acl conf)))
     acl_safe (\<lambda>m. wide_hint conf m \<and> tries_bounded m \<and> m_acl_allow_v4 m = T4 (ac_allow_v4 (mf_acl conf)))"
    by (rule runs_mono [OF acl_v4_runs [OF assms allow4.acl_trie_axioms, where J = "\<lambda>m. wide_hint conf m \<and> tries_bounded m"]])
       (auto simp: upd simp del: fun_upd_apply)
  show "runs (\<lambda>m. wide_hint conf m \<and> tries_bounded m \<and> m_acl_allow_v4 m = T4 (ac_allow_v4 (mf_acl conf)))
     (reconcile_acl_v4 h sys m_acl_block_v4 m_acl_block_v4_update (ac_block_v4 (mf_acl conf)))
     acl_safe (\<lambda>m. wide_hint conf m \<and> tries_bounded m \<and> m_acl_allow_v4 m = T4 (ac_allow_v4 (mf_acl conf)) \<and> m_acl_block_v4 m = T4 (ac_block_v4 (mf_acl conf)))"
    by (rule runs_mono [OF acl_v4_runs [OF assms block4.acl_trie_axioms, where J = "\<lambda>m. wide_hint conf m \<and> tries_bounded m \<and> m_acl_allow_v4 m = T4 (ac_allow_v4 (mf_acl conf))"]])
       (auto simp: upd simp del: fun_upd_apply)
  show "runs (\<lambda>m. wide_hint conf m \<and> tries_bounded m \<and> m_acl_allow_v4 m = T4 (ac_allow_v4 (mf_acl conf)) \<and> m_acl_block_v4 m = T4 (ac_block_v4 (mf_acl conf)))
     (reconcile_acl_v6 h sys m_acl_allow_v6 m_acl_allow_v6_update (ac_allow_v6 (mf_acl conf)))
     acl_safe (\<lambda>m. wide_hint conf m \<and> tries_bounded m \<and> m_acl_allow_v4 m = T4 (ac_allow_v4 (mf_acl conf)) \<and> m_acl_block_v4 m = T4 (ac_block_v4 (mf_acl conf)) \<and> m_acl_allow_v6 m = T6 (ac_allow_v6 (mf_acl conf)))"
    by (rule runs_mono [OF acl_v6_runs [OF assms allow6.acl_trie_axioms, where J = "\<lambda>m. wide_hint conf m \<and> tries_bounded m \<and> m_acl_allow_v4 m = T4 (ac_allow_v4 (mf_acl conf)) \<and> m_acl_block_v4 m = T4 (ac_block_v4 (mf_acl conf))"]])
       (auto simp: upd simp del: fun_upd_apply)
  show "runs (\<lambda>m. wide_hint conf m \<and> tries_bounded m \<and> m_acl_allow_v4 m = T4 (ac_allow_v4 (mf_acl conf)) \<and> m_acl_block_v4 m = T4 (ac_block_v4 (mf_acl conf)) \<and> m_acl_allow_v6 m = T6 (ac_allow_v6 (mf_acl conf)))
     (reconcile_acl_v6 h sys m_acl_block_v6 m_acl_block_v6_update (ac_block_v6 (mf_acl conf)))
     acl_safe (\<lambda>m. wide_hint conf m \<and> tries_bounded m \<and> tries_done conf m)"
    by (rule runs_mono [OF acl_v6_runs [OF assms block6.acl_trie_axioms, where J = "\<lambda>m. wide_hint conf m \<and> tries_bounded m \<and> m_acl_allow_v4 m = T4 (ac_allow_v4 (mf_acl conf)) \<and> m_acl_block_v4 m = T4 (ac_block_v4 (mf_acl conf)) \<and> m_acl_allow_v6 m = T6 (ac_allow_v6 (mf_acl conf))"]])
       (auto simp: upd tries_done_def simp del: fun_upd_apply)
qed

lemma acl_frame:
  "acl_safe (m\<lparr>m_vip_map := t\<rparr>) = acl_safe m" "tries_bounded (m\<lparr>m_vip_map := t\<rparr>) = tries_bounded m"
  "tries_bounded (m\<lparr>m_tx_ports := tx\<rparr>) = tries_bounded m" "tries_bounded (m\<lparr>m_backends := b\<rparr>) = tries_bounded m"
  "tries_bounded (m\<lparr>m_fwd_table := tx\<rparr>) = tries_bounded m" "tries_bounded (m\<lparr>m_config := c\<rparr>) = tries_bounded m"
  "wide_hint conf (m\<lparr>m_vip_map := t\<rparr>) = wide_hint conf m" "tries_done conf (m\<lparr>m_vip_map := t\<rparr>) = tries_done conf m"
  "wide_hint conf (m\<lparr>m_tx_ports := tx\<rparr>) = wide_hint conf m" "tries_done conf (m\<lparr>m_tx_ports := tx\<rparr>) = tries_done conf m"
  "wide_hint conf (m\<lparr>m_backends := b\<rparr>) = wide_hint conf m" "tries_done conf (m\<lparr>m_backends := b\<rparr>) = tries_done conf m"
  "wide_hint conf (m\<lparr>m_fwd_table := tx\<rparr>) = wide_hint conf m" "tries_done conf (m\<lparr>m_fwd_table := tx\<rparr>) = tries_done conf m"
  "tries_done conf (m\<lparr>m_config := c\<rparr>) = tries_done conf m"
  by (simp_all add: acl_safe_def acl_hint_ok_def tries_bounded_def wide_hint_def tries_done_def hinted_def acl_lists_cover_def live_config_def)

lemma config_value_lists [simp]: "cfg_acl_lists (config_value conf f L) = L"
  by (simp add: config_value_def Let_def)

lemma narrow_runs:
  "runs (\<lambda>m. wide_hint conf m \<and> tries_bounded m \<and> tries_done conf m) (write_config h sys conf (acl_lists_bits conf)) acl_safe
    (\<lambda>m. tries_done conf m \<and> acl_safe m \<and> (\<exists>f. live_config m = config_value conf f (acl_lists_bits conf)))"
proof (rule write_config_runs)
  fix m :: bpf_maps and f
  let ?m = "m\<lparr>m_config := (m_config m)(0 \<mapsto> config_value conf f (acl_lists_bits conf))\<rparr>"
  assume m: "wide_hint conf m \<and> tries_bounded m \<and> tries_done conf m"
  have live: "live_config ?m = config_value conf f (acl_lists_bits conf)" by (simp add: live_config_def)
  moreover have "tries_done conf ?m" using m acl_frame by simp
  moreover have "acl_hint_ok ?m"
    using tries_done_cover [OF \<open>tries_done conf ?m\<close>] unfolding acl_hint_ok_def live by simp
  moreover have "tries_bounded ?m" using m acl_frame by simp
  ultimately show "acl_safe ?m \<and> tries_done conf ?m \<and> acl_safe ?m \<and> (\<exists>f. live_config ?m = config_value conf f (acl_lists_bits conf))"
    unfolding acl_safe_def by blast
qed

lemma reconcile_maps_acl:
  assumes "reads_ok sys"
  shows "runs acl_safe (reconcile_maps fp h sys conf baseline plan (acl_lists_bits conf)) acl_safe
    (\<lambda>m. tries_done conf m \<and> acl_safe m \<and> (\<exists>f. live_config m = config_value conf f (acl_lists_bits conf)))"
  unfolding reconcile_maps_def
proof (rule runs_and_then [OF _ runs_and_then [OF widen_runs runs_and_then [OF acl_phases(1) [OF assms]
      runs_and_then [OF acl_phases(2) [OF assms] runs_and_then [OF acl_phases(3) [OF assms] runs_and_then [OF acl_phases(4) [OF assms]]]]]]])
  show "runs acl_safe (remove_stale_vip_keys sys conf baseline) acl_safe acl_safe"
    by (rule stale_keys_frame) (simp add: acl_frame)
  show "runs (\<lambda>m. wide_hint conf m \<and> tries_bounded m \<and> tries_done conf m) (reconcile_tables fp h sys conf plan (acl_lists_bits conf)) acl_safe
    (\<lambda>m. tries_done conf m \<and> acl_safe m \<and> (\<exists>f. live_config m = config_value conf f (acl_lists_bits conf)))"
    by (rule tables_frame) (auto simp: acl_frame narrow_runs intro: wide_hint_safe)
qed

lemma reconcile_apply_acl:
  assumes sys: "reads_ok sys" and start: "acl_safe (rc_maps s)"
    and run: "run_state (reconcile_apply fp h sys conf) s = ((ok, conf'), s')"
  shows "(\<exists>new. rc_trace s' = rc_trace s @ new \<and> (\<forall>m\<in>set new. acl_safe m) \<and> rc_maps s' = last (rc_maps s # new)) \<and>
    (ok \<longrightarrow> tries_done conf (rc_maps s') \<and> (\<exists>f. live_config (rc_maps s') = config_value conf f (acl_lists_bits conf)))"
  using run
proof (cases rule: reconcile_apply_cases)
  case (ran baseline entries plan s0 s1 s2)
  have same: "tries_done conf' = tries_done conf" "config_value conf' = config_value conf"
    using ran(5) by (simp_all add: fun_eq_iff tries_done_def config_value_def set_vip_nums_def Let_def)
  have bits: "acl_lists_bits conf' = acl_lists_bits conf" using ran(5) acl_lists_bits_vip_nums by simp
  from runsD [OF reconcile_maps_acl [OF sys, of fp h conf' baseline plan, unfolded same bits] ran(6)] start ran(7,8)
  show ?thesis by auto
qed auto

text \<open>C12: A reload never opens a hole in the source filter. As long as the map enumeration does what
  the kernel documents, every contents the maps have while the daemon works, after every single
  system call and also when a call fails half way, keeps the configuration's hint right: no trie
  with a rule in it is ever skipped by the data plane, and no trie outgrows its size. A run that succeeds leaves exactly the
  configured rules in the four tries and the configuration's own settings in the \<^verbatim>\<open>config\<close> map.\<close>

theorem reconcile_acl_never_open:
  assumes sys: "reads_ok sys" and start: "acl_safe (rc_maps s)"
    and run: "run_state (reconcile_apply fp h sys conf) s = ((ok, conf'), s')"
  shows "(\<exists>new. rc_trace s' = rc_trace s @ new \<and> (\<forall>m\<in>set new. acl_safe m) \<and> rc_maps s' = last (rc_maps s # new)) \<and>
    (ok \<longrightarrow> tries_done conf (rc_maps s') \<and> (\<exists>f. live_config (rc_maps s') = config_value conf f (acl_lists_bits conf)))"
  by (rule reconcile_apply_acl [OF assms])

text \<open>A system whose only rule blocks 10.0.0.0/8, and a configuration that allows 10.1.0.0/16 instead.\<close>

definition reload_maps :: bpf_maps where
  "reload_maps = acl_sample_maps\<lparr>m_config := [0 \<mapsto> zero_config\<lparr>cfg_acl_lists := 4\<rparr>]\<rparr>"

definition reload_conf :: marlin_conf where
  "reload_conf = loaded_conf\<lparr>mf_acl := zero_acl\<lparr>ac_allow_v4 := [\<lparr>ca_prefixlen = 16, ca_addr = [10, 1] @ replicate 14 0\<rparr>]\<rparr>\<rparr>"

definition reload_state :: rc where
  "reload_state = \<lparr>rc_maps = reload_maps, rc_diag = conf_diag_reset, rc_ops = 0, rc_trace = []\<rparr>"

theorem reconcile_acl_never_open_witness:
  "list_all acl_safe (rc_trace (snd (run_state (reconcile_apply int_fpu sample_host reload_sys reload_conf) reload_state)))"
proof -
  obtain ok conf' s' where run: "run_state (reconcile_apply int_fpu sample_host reload_sys reload_conf) reload_state = ((ok, conf'), s')"
    by (metis surj_pair)
  have "acl_safe (rc_maps reload_state)"
    by (simp add: acl_safe_def acl_hint_ok_def reload_state_def reload_maps_def acl_sample_maps_def live_config_def acl_lists_cover_def
        ACL_LISTS_BIT_def tries_bounded_def trie_bounded_def)
  note safe = reconcile_acl_never_open [OF reload_sys_reads this run]
  have "rc_trace reload_state = []" by (simp add: reload_state_def)
  then show ?thesis unfolding run list_all_iff using safe by auto
qed

end
