(* ===== verification/Marlind_Loader.thy ===== *)
theory Marlind_Loader
  imports Marlind_Compat Marlind_Reconcile_Acl
begin

text \<open>
  Starting the daemon: where its settings come from (\<^verbatim>\<open>config.c\<close>), what it demands of the host
  before it touches anything (\<^verbatim>\<open>preflight.c\<close>), how the object is loaded, pinned and attached
  (\<^verbatim>\<open>bpf_load.c\<close>), and logging (\<^verbatim>\<open>log.c\<close>).

  The system is the parameter \<open>dhost\<close>: what each call returns. The state keeps the BPF maps and the
  actions the outside can see, in order. A fatal error (\<^verbatim>\<open>die\<close>) ends the process with an exit code,
  so an operation returns a value or that code.
\<close>

section \<open>The process\<close>

datatype event =
    Ev_log string | Ev_print string | Ev_notify string
  | Ev_pin string | Ev_unlink string | Ev_rmdir string
  | Ev_attach u32 | Ev_detach

record daemon =
  dm_rc :: rc
  dm_events :: "event list"

datatype 'a outcome = Ret 'a | Die int

type_synonym 'a dm = "(daemon, 'a outcome) state"

definition dret :: "'a \<Rightarrow> 'a dm" where
  "dret x = State_Monad.return (Ret x)"

definition dseq :: "'a dm \<Rightarrow> ('a \<Rightarrow> 'b dm) \<Rightarrow> 'b dm" where
  "dseq m f = do { r \<leftarrow> m; case r of Ret x \<Rightarrow> f x | Die c \<Rightarrow> State_Monad.return (Die c) }"

definition dthen :: "unit dm \<Rightarrow> 'b dm \<Rightarrow> 'b dm" where
  "dthen m n = dseq m (\<lambda>_. n)"

definition emit :: "event \<Rightarrow> unit dm" where
  "emit e = State (\<lambda>s. (Ret (), s\<lparr>dm_events := dm_events s @ [e]\<rparr>))"

fun emit_all :: "event list \<Rightarrow> unit dm" where
  "emit_all [] = dret ()"
| "emit_all (e # es) = dthen (emit e) (emit_all es)"

definition EXIT_ATTACHED :: int where "EXIT_ATTACHED = 0"
definition EXIT_USAGE :: int where "EXIT_USAGE = 1"
definition EXIT_NOT_ATTACHED :: int where "EXIT_NOT_ATTACHED = 3"
definition EXIT_FOREIGN :: int where "EXIT_FOREIGN = 4"
definition EXIT_INCOMPATIBLE :: int where "EXIT_INCOMPATIBLE = 5"
definition EXIT_CONFIG :: int where "EXIT_CONFIG = 6"

definition MARLIN_PROG_NAME :: string where "MARLIN_PROG_NAME = ''xdp_main''"
definition MARLIN_VERSION_PIN :: string where "MARLIN_VERSION_PIN = ''version''"

datatype xdp_attach_mode = XDP_ATTACH_NATIVE | XDP_ATTACH_GENERIC

definition XDP_FLAGS_SKB_MODE :: u32 where "XDP_FLAGS_SKB_MODE = 2"
definition XDP_FLAGS_DRV_MODE :: u32 where "XDP_FLAGS_DRV_MODE = 4"

definition EBUSY :: int where "EBUSY = 16"
definition ENOENT :: int where "ENOENT = 2"

section \<open>The host\<close>

text \<open>An opened BPF object: its maps with their initial values, and the names of its programs.\<close>

record bpf_map =
  bm_name :: string
  bm_internal :: bool
  bm_initial_value :: "bytes option"

record bpf_object =
  bo_maps :: "bpf_map list"
  bo_progs :: "string list"

text \<open>What the ethtool requests return for an interface: the number of features (none when the request
  fails), their names and the blocks of active bits.\<close>

record ethtool =
  et_count :: "u32 option"
  et_names :: "(nat \<Rightarrow> string) option"
  et_active :: "(nat \<Rightarrow> u32) option"

text \<open>What the kernel says of a link; \<open>dh_links\<close> is the enumeration of the link ids, each with its
  information unless the link has gone, and \<open>dh_links_end\<close> the error that ends it.\<close>

record link_info =
  li_id :: u32
  li_is_xdp :: bool
  li_ifindex :: u32
  li_prog_id :: u32

text \<open>\<open>dh_setup\<close> is the success of a call that can only fail or return a descriptor, named by the call;
  \<open>dh_open_object\<close> has the number of the attempt, since the file may change between two of them; \<^verbatim>\<open>errno\<close>
  values are returned as such, 0 being success.\<close>

record dhost =
  dh_host :: host
  dh_sys :: sys
  dh_getenv :: "string \<Rightarrow> string option"
  dh_geteuid :: nat
  dh_readable :: "string \<Rightarrow> bool"
  dh_open_object :: "nat \<Rightarrow> string \<Rightarrow> bpf_object option"
  dh_bpffs_mounted :: bool
  dh_ethtool :: "string \<Rightarrow> ethtool option"
  dh_setup :: "string \<Rightarrow> bool"
  dh_set_pin_path :: "string \<Rightarrow> bool"
  dh_load :: int
  dh_pin_maps :: int
  dh_loaded_maps :: bpf_maps
  dh_unlink :: "string \<Rightarrow> int"
  dh_pin :: "string \<Rightarrow> bool"
  dh_link_create :: "int \<Rightarrow> u32 \<Rightarrow> int"
  dh_pinned_prog_id :: "string \<Rightarrow> u32 option"
  dh_links :: "(u32 \<times> link_info option) list"
  dh_links_end :: int
  dh_version_map :: "string \<Rightarrow> bytes option"
  dh_opendir :: "string \<Rightarrow> int + string list"
  dh_rmdir :: "string \<Rightarrow> int"

section \<open>Logging (log.c)\<close>

definition logmsg :: "string \<Rightarrow> unit dm" where
  "logmsg fmt = emit (Ev_log fmt)"

definition die_with :: "int \<Rightarrow> string \<Rightarrow> 'a dm" where
  "die_with code fmt = dseq (emit (Ev_log fmt)) (\<lambda>_. State_Monad.return (Die code))"

definition die :: "string \<Rightarrow> 'a dm" where
  "die fmt = die_with EXIT_USAGE fmt"

text \<open>\<^verbatim>\<open>sizeof(addr.sun_path)\<close> is 108.\<close>

definition notify :: "dhost \<Rightarrow> string \<Rightarrow> unit dm" where
  "notify dh fmt =
    (case dh_getenv dh ''NOTIFY_SOCKET'' of
       None \<Rightarrow> dret ()
     | Some sock_path \<Rightarrow>
         if sock_path = [] then dret ()
         else if length sock_path = 0 \<or> length sock_path \<ge> 108 then dret ()
         else if \<not> dh_setup dh ''socket(AF_UNIX)'' then dret ()
         else emit (Ev_notify fmt))"

section \<open>Settings (config.c)\<close>

record config =
  dc_iface :: string
  dc_ifindex :: int
  dc_obj_path :: string
  dc_pin_dir :: string
  dc_prog_pin :: string
  dc_conf_path :: "string option"
  dc_file :: "marlin_conf option"

definition zero_cfg :: config where
  "zero_cfg = \<lparr>dc_iface = [], dc_ifindex = 0, dc_obj_path = [], dc_pin_dir = [], dc_prog_pin = [], dc_conf_path = None, dc_file = None\<rparr>"

definition config_obj_path :: "dhost \<Rightarrow> string option \<Rightarrow> string" where
  "config_obj_path dh conf_path =
    (case conf_path of
       None \<Rightarrow> (case dh_getenv dh ''MARLIN_OBJ'' of
           None \<Rightarrow> MARLIN_DEFAULT_OBJ
         | Some obj_path \<Rightarrow> if obj_path = [] then MARLIN_DEFAULT_OBJ else obj_path)
     | Some path \<Rightarrow> (case fst (conf_load (dh_host dh) path CONF_LOAD_INSTANCE_ONLY False conf_diag_reset) of
           None \<Rightarrow> MARLIN_DEFAULT_OBJ
         | Some conf \<Rightarrow> take (PATH_MAX - 1) (ci_object (mf_instance conf))))"

definition warn_ignored_env :: "dhost \<Rightarrow> string \<Rightarrow> unit dm" where
  "warn_ignored_env dh name =
    (case dh_getenv dh name of
       None \<Rightarrow> dret ()
     | Some val \<Rightarrow> if val = [] then dret ()
         else logmsg ''--config given: ignoring %s (set in the environment but superseded by [instance])'')"

definition conf_diag_log :: "conf_diag \<Rightarrow> unit dm" where
  "conf_diag_log diag =
    dthen (emit_all (map (\<lambda>_. Ev_log ''%s: warning: %s'') (cd_warn diag)))
   (dthen (emit_all (map (\<lambda>_. Ev_log ''%s: %s'') (cd_msg diag)))
   (dthen (if cd_dropped diag > 0 then logmsg ''%s: %u further error(s) not shown'' else dret ())
          (if cd_warn_dropped diag > 0 then logmsg ''%s: %u further warning(s) not shown'' else dret ())))"

text \<open>\<^verbatim>\<open>snprintf\<close> into an array of \<^verbatim>\<open>PATH_MAX\<close> bytes fits when the text is shorter.\<close>

definition path_fits :: "string \<Rightarrow> bool" where
  "path_fits p \<longleftrightarrow> length p < PATH_MAX"

definition join_path :: "string \<Rightarrow> string \<Rightarrow> string" where
  "join_path dir name = dir @ ''/'' @ name"

definition resolve_ifindex :: "dhost \<Rightarrow> string \<Rightarrow> int" where
  "resolve_ifindex dh iface = sint (h_if_nametoindex (dh_host dh) iface)"

definition load_config_file :: "dhost \<Rightarrow> config \<Rightarrow> string \<Rightarrow> conf_load_mode \<Rightarrow> config dm" where
  "load_config_file dh cfg conf_path mode =
    dthen (warn_ignored_env dh ''IFACE'')
   (dthen (warn_ignored_env dh ''MARLIN_OBJ'')
   (dthen (warn_ignored_env dh ''MARLIN_PIN_DIR'')
   (case conf_load (dh_host dh) conf_path mode True conf_diag_reset of (file, diag) \<Rightarrow>
    dthen (conf_diag_log diag)
    (case file of
       None \<Rightarrow> die_with EXIT_CONFIG ''%s: configuration rejected (see above)''
     | Some conf \<Rightarrow>
         let inst = mf_instance conf;
             cfg = cfg\<lparr>dc_file := Some conf, dc_iface := ci_iface inst, dc_obj_path := ci_object inst\<rparr> in
         if \<not> path_fits (ci_pin_dir inst) then die_with EXIT_CONFIG ''%s: instance.pin_dir too long''
         else
           let cfg = cfg\<lparr>dc_pin_dir := ci_pin_dir inst\<rparr>;
               prog_pin = join_path (dc_pin_dir cfg) MARLIN_PROG_NAME in
           if \<not> path_fits prog_pin then die_with EXIT_CONFIG ''%s: instance.pin_dir too long''
           else
             let cfg = cfg\<lparr>dc_prog_pin := prog_pin, dc_ifindex := resolve_ifindex dh (dc_iface cfg)\<rparr> in
             if dc_ifindex cfg = 0 then die_with EXIT_CONFIG ''no such interface: %s'' else dret cfg))))"

definition load_config_env :: "dhost \<Rightarrow> config \<Rightarrow> config dm" where
  "load_config_env dh cfg =
    (case dh_getenv dh ''IFACE'' of
       None \<Rightarrow> die ''IFACE is unset -- set it in /etc/marlin/marlin.env, or use --config''
     | Some iface \<Rightarrow>
         if iface = [] then die ''IFACE is unset -- set it in /etc/marlin/marlin.env, or use --config''
         else
           let cfg = cfg\<lparr>dc_iface := iface, dc_obj_path := config_obj_path dh None\<rparr>;
               pindir = (case dh_getenv dh ''MARLIN_PIN_DIR'' of
                  None \<Rightarrow> MARLIN_DEFAULT_PIN_DIR
                | Some p \<Rightarrow> if p = [] then MARLIN_DEFAULT_PIN_DIR else p) in
           if \<not> path_fits pindir then die ''MARLIN_PIN_DIR too long''
           else
             let cfg = cfg\<lparr>dc_pin_dir := pindir\<rparr>;
                 prog_pin = join_path pindir MARLIN_PROG_NAME in
             if \<not> path_fits prog_pin then die ''MARLIN_PIN_DIR too long''
             else
               let cfg = cfg\<lparr>dc_prog_pin := prog_pin, dc_ifindex := resolve_ifindex dh iface\<rparr> in
               if dc_ifindex cfg = 0 then die ''no such interface: %s'' else dret cfg)"

definition load_config :: "dhost \<Rightarrow> string option \<Rightarrow> conf_load_mode \<Rightarrow> config dm" where
  "load_config dh conf_path mode =
    (let cfg = zero_cfg\<lparr>dc_conf_path := conf_path\<rparr> in
     case conf_path of
       None \<Rightarrow> load_config_env dh cfg
     | Some path \<Rightarrow> load_config_file dh cfg path mode)"

section \<open>The version in an object (build.h)\<close>

definition build_of :: "bytes \<Rightarrow> marlin_build" where
  "build_of v = \<lparr>mb_magic = le_val (take 4 v), mb_version = map (\<lambda>b. char_of (unat b)) (take MARLIN_VERSION_MAX (drop 4 v))\<rparr>"

definition marlin_find_build_map :: "bpf_object \<Rightarrow> bpf_map option" where
  "marlin_find_build_map obj =
     find (\<lambda>m. bm_internal m \<and>
       (case bm_initial_value m of
          None \<Rightarrow> False
        | Some v \<Rightarrow> length v = 68 \<and> mb_magic (build_of v) = MARLIN_BUILD_MAGIC)) (bo_maps obj)"

definition marlin_build_from_object :: "bpf_object \<Rightarrow> marlin_build option" where
  "marlin_build_from_object obj =
    (case marlin_find_build_map obj of
       None \<Rightarrow> None
     | Some m \<Rightarrow> map_option build_of (bm_initial_value m))"

section \<open>Preflight (preflight.c)\<close>

definition check_root :: "dhost \<Rightarrow> unit dm" where
  "check_root dh = (if dh_geteuid dh \<noteq> 0 then die ''must run as root'' else dret ())"

definition check_obj_readable :: "dhost \<Rightarrow> string \<Rightarrow> unit dm" where
  "check_obj_readable dh path =
    (if \<not> dh_readable dh path then die ''no object at %s -- build it: make -C data-plane'' else dret ())"

definition check_object_version :: "dhost \<Rightarrow> string \<Rightarrow> unit dm" where
  "check_object_version dh path =
    (case dh_open_object dh 0 path of
       None \<Rightarrow> die ''failed to open %s''
     | Some obj \<Rightarrow>
         (case marlin_build_from_object obj of
            None \<Rightarrow> die_with EXIT_INCOMPATIBLE ''%s carries no build version; marlind requires %s or newer''
          | Some build \<Rightarrow>
              let version = the (marlind_build_version build (MARLIN_VERSION_MAX + 1));
                  compat = marlind_bpf_object_supported version in
              if compat = MARLIND_COMPAT_TOO_OLD then die_with EXIT_INCOMPATIBLE ''%s is version %s; marlind requires %s or newer''
              else if compat = MARLIND_COMPAT_UNPARSEABLE
                then die_with EXIT_INCOMPATIBLE ''%s has an unparseable build version %s; marlind requires %s or newer''
              else dret ()))"

definition check_bpffs_mounted :: "dhost \<Rightarrow> unit dm" where
  "check_bpffs_mounted dh =
    (if \<not> dh_bpffs_mounted dh then die ''/sys/fs/bpf is not mounted: mount -t bpf bpf /sys/fs/bpf'' else dret ())"

definition ethtool_feature_count :: "ethtool \<Rightarrow> u32" where
  "ethtool_feature_count et = (case et_count et of None \<Rightarrow> 0 | Some n \<Rightarrow> n)"

definition ETH_GSTRING_LEN :: nat where "ETH_GSTRING_LEN = 32"

text \<open>The verdict and whether the feature was found.\<close>

definition ethtool_feature_active :: "dhost \<Rightarrow> string \<Rightarrow> string \<Rightarrow> bool \<times> bool" where
  "ethtool_feature_active dh iface feature =
    (case dh_ethtool dh iface of
       None \<Rightarrow> (False, False)
     | Some et \<Rightarrow>
         let nstrings = ethtool_feature_count et in
         if nstrings = 0 then (False, False)
         else (case et_names et of
            None \<Rightarrow> (False, False)
          | Some names \<Rightarrow>
              (case et_active et of
                 None \<Rightarrow> (False, False)
               | Some features \<Rightarrow>
                   (case find (\<lambda>i. strneq ETH_GSTRING_LEN (names i) feature) [0..<unat nstrings] of
                      None \<Rightarrow> (False, False)
                    | Some i \<Rightarrow> (features (i div 32) AND push_bit (i mod 32) 1 \<noteq> 0, True)))))"

definition check_offload_off :: "dhost \<Rightarrow> string \<Rightarrow> unit dm" where
  "check_offload_off dh iface =
    dthen (case ethtool_feature_active dh iface ''rx-lro'' of (active, found) \<Rightarrow>
             if found \<and> active then die ''LRO is on for %s: ethtool -K %s lro off'' else dret ())
          (case ethtool_feature_active dh iface ''rx-gro-hw'' of (active, found) \<Rightarrow>
             if found \<and> active then die ''hardware GRO is on for %s: ethtool -K %s rx-gro-hw off'' else dret ())"

definition preflight :: "dhost \<Rightarrow> config \<Rightarrow> unit dm" where
  "preflight dh cfg =
    dthen (check_root dh)
   (dthen (check_obj_readable dh (dc_obj_path cfg))
   (dthen (check_object_version dh (dc_obj_path cfg))
   (dthen (check_bpffs_mounted dh)
          (check_offload_off dh (dc_iface cfg)))))"

section \<open>Loading and attaching (bpf_load.c)\<close>

fun set_pin_paths :: "dhost \<Rightarrow> string \<Rightarrow> bpf_map list \<Rightarrow> string list dm" where
  "set_pin_paths dh pin_dir [] = dret []"
| "set_pin_paths dh pin_dir (m # ms) =
    (if bm_internal m then set_pin_paths dh pin_dir ms
     else
       let path = join_path pin_dir (bm_name m) in
       if \<not> path_fits path then die ''pin path too long for map %s''
       else if \<not> dh_set_pin_path dh path then die ''failed to set pin path for map %s''
       else dseq (set_pin_paths dh pin_dir ms) (\<lambda>ps. dret (path # ps)))"

definition install_maps :: "dhost \<Rightarrow> unit dm" where
  "install_maps dh = State (\<lambda>s. (Ret (), s\<lparr>dm_rc := (dm_rc s)\<lparr>rc_maps := dh_loaded_maps dh\<rparr>\<rparr>))"

definition load_and_pin_maps :: "dhost \<Rightarrow> string \<Rightarrow> string \<Rightarrow> bpf_object dm" where
  "load_and_pin_maps dh obj_path pin_dir =
    (case dh_open_object dh 1 obj_path of
       None \<Rightarrow> die ''failed to open %s''
     | Some obj \<Rightarrow>
         dseq (set_pin_paths dh pin_dir (bo_maps obj)) (\<lambda>paths.
           if dh_load dh \<noteq> 0 then die ''failed to load %s: %s''
           else dthen (install_maps dh)
             (if dh_pin_maps dh \<noteq> 0 then die ''failed to pin maps under %s: %s''
              else dthen (emit_all (map Ev_pin paths)) (dret obj))))"

text \<open>Removing what a previous run has pinned; a missing file is no error.\<close>

definition remove_stale_pin :: "dhost \<Rightarrow> string \<Rightarrow> unit dm" where
  "remove_stale_pin dh path =
    (if dh_unlink dh path \<noteq> 0 \<and> dh_unlink dh path \<noteq> ENOENT then die ''failed to remove stale pin %s: %s''
     else if dh_unlink dh path = 0 then emit (Ev_unlink path) else dret ())"

definition pin_version :: "dhost \<Rightarrow> bpf_object \<Rightarrow> string \<Rightarrow> unit dm" where
  "pin_version dh obj pin_dir =
    (case marlin_find_build_map obj of
       None \<Rightarrow> dret ()
     | Some m \<Rightarrow>
         let path = join_path pin_dir MARLIN_VERSION_PIN in
         if \<not> path_fits path then die ''pin path too long for the version map''
         else dthen (remove_stale_pin dh path)
           (if \<not> dh_pin dh path then die ''failed to pin the build-version map at %s: %s'' else emit (Ev_pin path)))"

definition pin_program :: "dhost \<Rightarrow> bpf_object \<Rightarrow> string \<Rightarrow> unit dm" where
  "pin_program dh obj prog_pin =
    (if MARLIN_PROG_NAME \<notin> set (bo_progs obj) then die ''%s has no program named %s''
     else dthen (remove_stale_pin dh prog_pin)
       (if \<not> dh_pin dh prog_pin then die ''failed to pin %s at %s: %s'' else emit (Ev_pin prog_pin)))"

definition attach_link :: "dhost \<Rightarrow> int \<Rightarrow> xdp_attach_mode \<Rightarrow> int dm" where
  "attach_link dh ifindex mode =
    (let flags = (if mode = XDP_ATTACH_GENERIC then XDP_FLAGS_SKB_MODE else XDP_FLAGS_DRV_MODE);
         link_fd = dh_link_create dh ifindex flags in
     if link_fd < 0 then
       if - link_fd = EBUSY then die ''%s already has an XDP program attached -- stop it first''
       else die ''failed to attach to ifindex %d: %s''
     else dthen (emit (Ev_attach flags)) (dret link_fd))"

end
