(* ===== verification/Marlind_Commands.thy ===== *)
theory Marlind_Commands
  imports Marlind_Loader
begin

text \<open>
  The commands of the daemon: the probe of the attach state, status, unpin and check
  (\<^verbatim>\<open>cmd_status.c\<close>, \<^verbatim>\<open>cmd_unpin.c\<close>, \<^verbatim>\<open>cmd_check.c\<close>), attach with its event loop and the reload on
  \<^verbatim>\<open>SIGHUP\<close> (\<^verbatim>\<open>cmd_attach.c\<close>), and the command line (\<^verbatim>\<open>main.c\<close>).

  The event loop takes what \<^verbatim>\<open>epoll_wait\<close> returns, call by call, as a list; when the list ends the
  daemon is waiting for the next event.
\<close>

section \<open>Probing (cmd_status.c)\<close>

record attach_info =
  ap_link_id :: u32
  ap_prog_id :: u32

fun probe_links :: "(u32 \<times> link_info option) list \<Rightarrow> int \<Rightarrow> u32 option \<Rightarrow> (int \<times> attach_info) option" where
  "probe_links [] ifindex pinned = None"
| "probe_links ((_, None) # ls) ifindex pinned = probe_links ls ifindex pinned"
| "probe_links ((_, Some info) # ls) ifindex pinned =
    (if \<not> li_is_xdp info \<or> li_ifindex info \<noteq> word_of_int ifindex then probe_links ls ifindex pinned
     else
       let probe = \<lparr>ap_link_id = li_id info, ap_prog_id = li_prog_id info\<rparr> in
       Some (if pinned = None \<or> li_prog_id info \<noteq> the pinned then EXIT_FOREIGN else EXIT_ATTACHED, probe))"

definition attach_probe :: "dhost \<Rightarrow> config \<Rightarrow> (int \<times> attach_info) dm" where
  "attach_probe dh cfg =
    (case probe_links (dh_links dh) (dc_ifindex cfg) (dh_pinned_prog_id dh (dc_prog_pin cfg)) of
       Some r \<Rightarrow> dret r
     | None \<Rightarrow>
         if dh_links_end dh \<noteq> - ENOENT then die ''failed to enumerate BPF links: %s''
         else dret (EXIT_NOT_ATTACHED, \<lparr>ap_link_id = 0, ap_prog_id = 0\<rparr>))"

text \<open>\<^verbatim>\<open>snprintf\<close> into the 64 bytes of the caller keeps 63 characters.\<close>

definition read_version :: "dhost \<Rightarrow> string \<Rightarrow> string" where
  "read_version dh pin_dir =
    (let path = join_path pin_dir MARLIN_VERSION_PIN in
     if \<not> path_fits path then []
     else (case dh_version_map dh path of
       None \<Rightarrow> []
     | Some v \<Rightarrow> take (MARLIN_VERSION_MAX - 1) (takeWhile (\<lambda>c. c \<noteq> NUL) (mb_version (build_of v)))))"

definition cmd_status :: "dhost \<Rightarrow> string option \<Rightarrow> int dm" where
  "cmd_status dh conf_path =
    dseq (load_config dh conf_path CONF_LOAD_INSTANCE_ONLY) (\<lambda>cfg.
    dseq (attach_probe dh cfg) (\<lambda>(rc, probe).
      dthen (emit (Ev_print
        (if rc = EXIT_FOREIGN then ''foreign: link %u on %s runs prog id %u, pins under %s expect a different program''
         else if rc = EXIT_ATTACHED then
           if read_version dh (dc_pin_dir cfg) \<noteq> [] then ''attached: %s %s (id %u) on %s (ifindex %d) via link %u; pins under %s''
           else ''attached: %s (id %u) on %s (ifindex %d) via link %u; pins under %s''
         else ''not attached: no XDP link on %s'')))
      (dret rc)))"

section \<open>Unpinning (cmd_unpin.c)\<close>

fun unlink_entries :: "dhost \<Rightarrow> string \<Rightarrow> string list \<Rightarrow> unit dm" where
  "unlink_entries dh pin_dir [] = dret ()"
| "unlink_entries dh pin_dir (d # ds) =
    (if d = ''.'' \<or> d = ''..'' \<or> \<not> path_fits (join_path pin_dir d) then unlink_entries dh pin_dir ds
     else dthen (if dh_unlink dh (join_path pin_dir d) = 0 then emit (Ev_unlink (join_path pin_dir d)) else dret ())
            (unlink_entries dh pin_dir ds))"

definition cmd_unpin :: "dhost \<Rightarrow> string option \<Rightarrow> int dm" where
  "cmd_unpin dh conf_path =
    dseq (load_config dh conf_path CONF_LOAD_INSTANCE_ONLY) (\<lambda>cfg.
    dseq (attach_probe dh cfg) (\<lambda>(rc, probe).
      if rc = EXIT_ATTACHED then die ''%s is currently attached -- stop the service before unpinning''
      else
        let err = dh_unlink dh (dc_prog_pin cfg) in
        if err \<noteq> 0 \<and> err \<noteq> ENOENT then die ''failed to remove %s: %s''
        else dthen (if err = 0 then emit (Ev_unlink (dc_prog_pin cfg)) else dret ())
          (case dh_opendir dh (dc_pin_dir cfg) of
             Inl err \<Rightarrow> if err = ENOENT then dret 0 else die ''failed to open %s: %s''
           | Inr entries \<Rightarrow>
               dthen (unlink_entries dh (dc_pin_dir cfg) entries)
               (let err = dh_rmdir dh (dc_pin_dir cfg) in
                if err \<noteq> 0 \<and> err \<noteq> ENOENT then die ''failed to remove %s: %s''
                else dthen (if err = 0 then emit (Ev_rmdir (dc_pin_dir cfg)) else dret ())
                    (dthen (logmsg ''removed pins under %s'') (dret 0))))))"

section \<open>Checking a file (cmd_check.c)\<close>

definition MARLIN_DEFAULT_CONF :: string where "MARLIN_DEFAULT_CONF = ''/etc/marlind/marlin.conf''"

definition cmd_check :: "dhost \<Rightarrow> string option \<Rightarrow> int dm" where
  "cmd_check dh conf_path =
    (let path = (case conf_path of Some p \<Rightarrow> p | None \<Rightarrow> MARLIN_DEFAULT_CONF) in
     case conf_load (dh_host dh) path CONF_LOAD_FULL False conf_diag_reset of (conf, diag) \<Rightarrow>
     dthen (emit_all (map (\<lambda>_. Ev_print ''%s: warning: %s'') (cd_warn diag)))
    (dthen (emit_all (map (\<lambda>_. Ev_print ''%s: %s'') (cd_msg diag)))
    (dthen (if cd_dropped diag > 0 then emit (Ev_print ''%s: %u further error(s) not shown'') else dret ())
    (case conf of
       None \<Rightarrow> dret EXIT_CONFIG
     | Some conf \<Rightarrow> dthen (emit (Ev_print ''%s: ok (%u backend(s), %u vip(s), %u address(es))'')) (dret 0)))))"

section \<open>Attaching (cmd_attach.c)\<close>

text \<open>Descriptors: each call is fatal when it fails.\<close>

fun setup_calls :: "dhost \<Rightarrow> (string \<times> string) list \<Rightarrow> unit dm" where
  "setup_calls dh [] = dret ()"
| "setup_calls dh ((call, msg) # cs) = (if \<not> dh_setup dh call then die msg else setup_calls dh cs)"

definition open_signal_fd :: "dhost \<Rightarrow> unit dm" where
  "open_signal_fd dh = setup_calls dh [(''sigprocmask'', ''sigprocmask: %s''), (''signalfd'', ''signalfd: %s'')]"

definition open_link_monitor :: "dhost \<Rightarrow> unit dm" where
  "open_link_monitor dh = setup_calls dh
     [(''socket(AF_NETLINK)'', ''failed to open netlink socket: %s''), (''bind'', ''failed to bind netlink socket: %s''),
      (''setsockopt'', ''failed to join RTNLGRP_LINK: %s'')]"

definition open_event_loop :: "dhost \<Rightarrow> unit dm" where
  "open_event_loop dh = setup_calls dh
     [(''epoll_create1'', ''epoll_create1: %s''), (''epoll_ctl(sig_fd)'', ''epoll_ctl(sig_fd): %s''),
      (''epoll_ctl(nl_fd)'', ''epoll_ctl(nl_fd): %s'')]"

text \<open>Netlink messages: a header of 16 bytes (length, type at offset 4), then the payload, the next
  message four-byte aligned. A read past the buffer is \<^const>\<open>None\<close>.\<close>

definition RTM_DELLINK :: u16 where "RTM_DELLINK = 17"

definition nlmsg_align :: "nat \<Rightarrow> nat" where
  "nlmsg_align n = (n + 3) div 4 * 4"

function nl_scan :: "bytes \<Rightarrow> nat \<Rightarrow> int \<Rightarrow> int \<Rightarrow> bool option" where
  "nl_scan buf off len ifindex =
    (if len < 16 then Some False
     else (case rd32 off buf of
       None \<Rightarrow> None
     | Some nlmsg_len \<Rightarrow>
         if unat nlmsg_len < 16 \<or> int (unat nlmsg_len) > len then Some False
         else (case rd16 (off + 4) buf of
           None \<Rightarrow> None
         | Some ty \<Rightarrow>
             (case (if ty = RTM_DELLINK then map_option (\<lambda>i. sint i = ifindex) (rd32 (off + 20) buf) else Some False) of
                None \<Rightarrow> None
              | Some hit \<Rightarrow>
                  if hit then Some True
                  else nl_scan buf (off + nlmsg_align (unat nlmsg_len)) (len - int (nlmsg_align (unat nlmsg_len))) ifindex))))"
  by pat_completeness auto
termination
  by (relation "measure (\<lambda>(_, _, len, _). nat len)") (auto simp: nlmsg_align_def)

declare nl_scan.simps [simp del]

text \<open>\<^verbatim>\<open>recv\<close> until the socket has nothing more: the buffer and the number of bytes received.\<close>

fun link_monitor_saw_dellink :: "(bytes \<times> nat) list \<Rightarrow> int \<Rightarrow> bool option" where
  "link_monitor_saw_dellink [] ifindex = Some False"
| "link_monitor_saw_dellink ((buf, len) # rs) ifindex =
    (case nl_scan buf 0 (int len) ifindex of
       None \<Rightarrow> None
     | Some True \<Rightarrow> Some True
     | Some False \<Rightarrow> link_monitor_saw_dellink rs ifindex)"

definition SIGHUP :: int where "SIGHUP = 1"

definition read_signal :: "int option \<Rightarrow> int" where
  "read_signal r = (case r of None \<Rightarrow> 0 | Some signo \<Rightarrow> signo)"

text \<open>\<^verbatim>\<open>reconcile_apply\<close> with the diagnostics of the caller.\<close>

definition apply_conf :: "'f::linorder fpu \<Rightarrow> dhost \<Rightarrow> marlin_conf \<Rightarrow> conf_diag \<Rightarrow> (bool \<times> marlin_conf \<times> conf_diag) dm" where
  "apply_conf fp dh conf diag = State (\<lambda>s.
     case run_state (reconcile_apply fp (dh_host dh) (dh_sys dh) conf) ((dm_rc s)\<lparr>rc_diag := diag\<rparr>) of
       ((ok, conf'), rc) \<Rightarrow> (Ret (ok, conf', rc_diag rc), s\<lparr>dm_rc := rc\<rparr>))"

definition handle_reload :: "'f::linorder fpu \<Rightarrow> dhost \<Rightarrow> config \<Rightarrow> config dm" where
  "handle_reload fp dh cfg =
    (case dc_conf_path cfg of
       None \<Rightarrow> dthen (logmsg ''SIGHUP has no effect in environment-managed mode (no --config given)'') (dret cfg)
     | Some path \<Rightarrow>
         (case conf_load (dh_host dh) path CONF_LOAD_FULL True conf_diag_reset of (loaded, diag) \<Rightarrow>
          (case loaded of
             None \<Rightarrow>
               dthen (conf_diag_log diag)
              (dthen (logmsg ''SIGHUP: %s rejected, keeping the previous generation attached'') (dret cfg))
           | Some conf_next \<Rightarrow>
               (case conf_check_against_previous conf_next (the (dc_file cfg)) diag of (accepted, diag) \<Rightarrow>
                if \<not> accepted then
                  dthen (conf_diag_log diag)
                 (dthen (logmsg ''SIGHUP: %s rejected (restart-only key or in-place edit), keeping the previous generation attached'') (dret cfg))
                else
                  dthen (conf_diag_log diag)
                 (dseq (apply_conf fp dh conf_next diag) (\<lambda>(ok, conf_next, diag).
                    if \<not> ok then
                      dthen (conf_diag_log diag)
                     (dthen (logmsg ''SIGHUP: %s: reconcile failed partway through -- maps may be a mix of old and new; fix the underlying problem and send SIGHUP again'')
                            (dret cfg))
                    else
                      dthen (logmsg ''SIGHUP: reloaded %s (%u backend(s), %u vip(s), %u address(es))'')
                     (dthen (notify dh ''STATUS=attached %s to %s (ifindex %d); reloaded %s'')
                            (dret (cfg\<lparr>dc_file := Some conf_next\<rparr>)))))))))"

definition reconcile_startup :: "'f::linorder fpu \<Rightarrow> dhost \<Rightarrow> config \<Rightarrow> config dm" where
  "reconcile_startup fp dh cfg =
    (case dc_file cfg of
       None \<Rightarrow> dret cfg
     | Some conf \<Rightarrow>
         dseq (apply_conf fp dh conf conf_diag_reset) (\<lambda>(ok, conf, diag).
           if \<not> ok then dthen (conf_diag_log diag) (die_with EXIT_CONFIG ''%s: reconcile failed; refusing to attach'')
           else dthen (conf_diag_log diag) (dret (cfg\<lparr>dc_file := Some conf\<rparr>))))"

text \<open>Everything before the link is created, and everything before the event loop.\<close>

definition attach_prepare :: "'f::linorder fpu \<Rightarrow> dhost \<Rightarrow> string option \<Rightarrow> config dm" where
  "attach_prepare fp dh conf_path =
    dseq (load_config dh conf_path CONF_LOAD_FULL) (\<lambda>cfg.
    dthen (preflight dh cfg)
   (dthen (open_signal_fd dh)
   (dthen (open_link_monitor dh)
   (dthen (open_event_loop dh)
   (dseq (load_and_pin_maps dh (dc_obj_path cfg) (dc_pin_dir cfg)) (\<lambda>obj.
    dthen (pin_version dh obj (dc_pin_dir cfg))
   (dseq (reconcile_startup fp dh cfg) (\<lambda>cfg.
    dthen (pin_program dh obj (dc_prog_pin cfg)) (dret cfg)))))))))"

definition announce_attached :: "dhost \<Rightarrow> xdp_attach_mode \<Rightarrow> config \<Rightarrow> config dm" where
  "announce_attached dh xdp_mode cfg =
    dthen (logmsg ''attached %s to %s (%s), pinned under %s'')
   (dthen (if xdp_mode = XDP_ATTACH_GENERIC
           then logmsg ''--xdp-mode=generic: this is an order-of-magnitude throughput regression versus native XDP (docs/design/02-architecture.md) -- not for production use''
           else dret ())
   (dthen (notify dh (''READY=1'' @ [CHR 0x0A] @ ''STATUS=attached %s to %s (ifindex %d); pins under %s''))
          (dret cfg)))"

definition attach_start :: "'f::linorder fpu \<Rightarrow> dhost \<Rightarrow> string option \<Rightarrow> xdp_attach_mode \<Rightarrow> config dm" where
  "attach_start fp dh conf_path xdp_mode =
    dseq (attach_prepare fp dh conf_path) (\<lambda>cfg.
    dseq (attach_link dh (dc_ifindex cfg) xdp_mode) (\<lambda>link_fd. announce_attached dh xdp_mode cfg))"

datatype ready = Ready_signal "int option" | Ready_netlink "(bytes \<times> nat) list"

text \<open>One result of \<^verbatim>\<open>epoll_wait\<close>: an error (interrupted or not), or ready descriptors, with the host as it
  is then.\<close>

datatype poll = Poll_error bool | Poll_ready dhost "ready list"

text \<open>Waiting goes on with settings, or the process returns a code; an illegal read kills it.\<close>

datatype loop = Waiting config | Returned int

definition EXIT_KILLED :: int where "EXIT_KILLED = 139"

fun handle_ready :: "'f::linorder fpu \<Rightarrow> dhost \<Rightarrow> config \<Rightarrow> ready list \<Rightarrow> loop dm" where
  "handle_ready fp dh cfg [] = dret (Waiting cfg)"
| "handle_ready fp dh cfg (Ready_signal r # es) =
    (if read_signal r = SIGHUP then dseq (handle_reload fp dh cfg) (\<lambda>cfg. handle_ready fp dh cfg es)
     else dthen (logmsg ''stopping: detaching %s from %s'')
         (dthen (notify dh ''STOPPING=1'')
         (dthen (emit Ev_detach) (dret (Returned EXIT_ATTACHED)))))"
| "handle_ready fp dh cfg (Ready_netlink msgs # es) =
    (case link_monitor_saw_dellink msgs (dc_ifindex cfg) of
       None \<Rightarrow> State_Monad.return (Die EXIT_KILLED)
     | Some True \<Rightarrow>
         dthen (logmsg ''%s was removed -- the datapath is no longer attached'')
        (dthen (notify dh ''STATUS=%s removed; datapath no longer attached'')
               (dret (Returned EXIT_NOT_ATTACHED)))
     | Some False \<Rightarrow> handle_ready fp dh cfg es)"

fun attach_loop :: "'f::linorder fpu \<Rightarrow> config \<Rightarrow> poll list \<Rightarrow> loop dm" where
  "attach_loop fp cfg [] = dret (Waiting cfg)"
| "attach_loop fp cfg (Poll_error eintr # ps) = (if eintr then attach_loop fp cfg ps else die ''epoll_wait: %s'')"
| "attach_loop fp cfg (Poll_ready dh es # ps) =
    dseq (handle_ready fp dh cfg es) (\<lambda>r. case r of Waiting cfg \<Rightarrow> attach_loop fp cfg ps | Returned c \<Rightarrow> dret (Returned c))"

definition cmd_attach :: "'f::linorder fpu \<Rightarrow> dhost \<Rightarrow> string option \<Rightarrow> xdp_attach_mode \<Rightarrow> poll list \<Rightarrow> loop dm" where
  "cmd_attach fp dh conf_path xdp_mode polls = dseq (attach_start fp dh conf_path xdp_mode) (\<lambda>cfg. attach_loop fp cfg polls)"

section \<open>The command line (main.c)\<close>

datatype mode = MODE_NONE | MODE_ATTACH | MODE_STATUS | MODE_UNPIN | MODE_CHECK

definition OPT_XDP_MODE :: int where "OPT_XDP_MODE = 256"

text \<open>The characters the code compares options with.\<close>

definition opt_chr :: "char \<Rightarrow> int" where
  "opt_chr c = of_char c"

definition long_opts :: "(string \<times> bool \<times> int) list" where
  "long_opts = [(''attach'', False, opt_chr (CHR ''a'')), (''status'', False, opt_chr (CHR ''s'')), (''unpin'', False, opt_chr (CHR ''u'')),
     (''check'', False, opt_chr (CHR ''k'')), (''config'', True, opt_chr (CHR ''c'')), (''help'', False, opt_chr (CHR ''h'')),
     (''version'', False, opt_chr (CHR ''V'')), (''xdp-mode'', True, OPT_XDP_MODE)]"

text \<open>\<^verbatim>\<open>getopt_long\<close> with the option string \<^verbatim>\<open>+c:hV\<close>: a long option may be abbreviated as long as it is
  unambiguous, short options may be grouped, the first operand ends the scan. The result is the
  options found, and the operands left, or nothing after an option that is not recognised.\<close>

definition long_match :: "string \<Rightarrow> (bool \<times> int) option" where
  "long_match name =
    (case map_of long_opts name of
       Some opt \<Rightarrow> Some opt
     | None \<Rightarrow> (case filter (\<lambda>(n, _). take (length name) n = name) long_opts of
         [(_, opt)] \<Rightarrow> Some opt
       | _ \<Rightarrow> None))"

definition add_opt :: "int \<times> string option \<Rightarrow> (int \<times> string option) list \<times> string list option \<Rightarrow> (int \<times> string option) list \<times> string list option" where
  "add_opt x = (\<lambda>(os, rest). (x # os, rest))"

function getopt_all :: "string \<Rightarrow> string list \<Rightarrow> (int \<times> string option) list \<times> string list option" where
  "getopt_all (c # cs) args =
    (if c = CHR ''c'' then
       if cs \<noteq> [] then add_opt (opt_chr c, Some cs) (getopt_all [] args)
       else (case args of [] \<Rightarrow> ([], None) | a # args \<Rightarrow> add_opt (opt_chr c, Some a) (getopt_all [] args))
     else if c = CHR ''h'' \<or> c = CHR ''V'' then add_opt (opt_chr c, None) (getopt_all cs args)
     else ([], None))"
| "getopt_all [] [] = ([], Some [])"
| "getopt_all [] (arg # args) =
    (if arg = ''--'' then ([], Some args)
     else if arg = ''-'' \<or> take 1 arg \<noteq> ''-'' then ([], Some (arg # args))
     else if take 2 arg = ''--'' then
       let body = drop 2 arg;
           name = takeWhile (\<lambda>c. c \<noteq> CHR ''='') body;
           val = (if CHR ''='' \<in> set body then Some (drop (length name + 1) body) else None) in
       (case long_match name of
          None \<Rightarrow> ([], None)
        | Some (False, v) \<Rightarrow> if val \<noteq> None then ([], None) else add_opt (v, None) (getopt_all [] args)
        | Some (True, v) \<Rightarrow>
            (case val of
               Some x \<Rightarrow> add_opt (v, Some x) (getopt_all [] args)
             | None \<Rightarrow> (case args of [] \<Rightarrow> ([], None) | a # args \<Rightarrow> add_opt (v, Some a) (getopt_all [] args))))
     else getopt_all (drop 1 arg) args)"
  by pat_completeness auto
termination
  by (relation "measures [\<lambda>(cs, args). length cs + sum_list (map length args), \<lambda>(cs, args). length args]")
    (auto simp: Let_def)

record main_opts =
  mo_mode :: mode
  mo_conf_path :: "string option"
  mo_xdp_mode :: xdp_attach_mode
  mo_xdp_mode_set :: bool
  mo_want_help :: bool
  mo_want_version :: bool

definition mode_from_opt :: "int \<Rightarrow> mode" where
  "mode_from_opt opt =
    (if opt = opt_chr (CHR ''a'') then MODE_ATTACH else if opt = opt_chr (CHR ''s'') then MODE_STATUS
     else if opt = opt_chr (CHR ''u'') then MODE_UNPIN else if opt = opt_chr (CHR ''k'') then MODE_CHECK else MODE_NONE)"

definition usage :: "event list" where
  "usage = [Ev_print ''usage: %s [--config <path>] --attach [--xdp-mode <native|generic>]'',
     Ev_print ''       %s [--config <path>] --status|--unpin'', Ev_print ''       %s [--config <path>] --check'', Ev_print ''       %s --help|--version'']"

text \<open>The body of the option loop: the settings, or the text of the usage error.\<close>

definition main_opt :: "int \<times> string option \<Rightarrow> main_opts \<Rightarrow> event list + main_opts" where
  "main_opt = (\<lambda>(opt, optarg) mo.
     if opt \<in> {opt_chr (CHR ''a''), opt_chr (CHR ''s''), opt_chr (CHR ''u''), opt_chr (CHR ''k'')} then
       if mo_mode mo \<noteq> MODE_NONE then Inl usage else Inr (mo\<lparr>mo_mode := mode_from_opt opt\<rparr>)
     else if opt = opt_chr (CHR ''c'') then Inr (mo\<lparr>mo_conf_path := optarg\<rparr>)
     else if opt = OPT_XDP_MODE then
       if optarg = Some ''native'' then Inr (mo\<lparr>mo_xdp_mode := XDP_ATTACH_NATIVE, mo_xdp_mode_set := True\<rparr>)
       else if optarg = Some ''generic'' then Inr (mo\<lparr>mo_xdp_mode := XDP_ATTACH_GENERIC, mo_xdp_mode_set := True\<rparr>)
       else Inl [Ev_print ''%s: --xdp-mode must be native or generic'']
     else if opt = opt_chr (CHR ''h'') then Inr (mo\<lparr>mo_want_help := True\<rparr>)
     else if opt = opt_chr (CHR ''V'') then Inr (mo\<lparr>mo_want_version := True\<rparr>)
     else Inl usage)"

fun main_opts_loop :: "(int \<times> string option) list \<Rightarrow> main_opts \<Rightarrow> event list + main_opts" where
  "main_opts_loop [] mo = Inr mo"
| "main_opts_loop (x # xs) mo = (case main_opt x mo of Inl e \<Rightarrow> Inl e | Inr mo \<Rightarrow> main_opts_loop xs mo)"

definition print_version :: "dhost \<Rightarrow> string option \<Rightarrow> unit dm" where
  "print_version dh conf_path =
    dthen (emit_all [Ev_print ''marlind %s'', Ev_print ''License: %s''])
   (case dh_open_object dh 0 (config_obj_path dh conf_path) of
      None \<Rightarrow> emit (Ev_print ''marlin.bpf.o: no object at %s'')
    | Some obj \<Rightarrow>
        (case (case marlin_build_from_object obj of
                 None \<Rightarrow> (''%s (no embedded build version) (%s)'', True)
               | Some build \<Rightarrow> (''%s %s (%s)'', marlind_bpf_object_supported (the (marlind_build_version build (MARLIN_VERSION_MAX + 1))) \<noteq> MARLIND_COMPAT_OK))
         of (line, below_floor) \<Rightarrow>
           emit_all ([Ev_print line, Ev_print ''License: %s''] @
             (if below_floor then [Ev_print ''marlind requires marlin.bpf.o %s or newer -- --attach will refuse this object''] else []))))"

definition main :: "'f::linorder fpu \<Rightarrow> dhost \<Rightarrow> string list \<Rightarrow> poll list \<Rightarrow> loop dm" where
  "main fp dh args polls =
    (case getopt_all [] args of (os, rest) \<Rightarrow>
     case main_opts_loop os \<lparr>mo_mode = MODE_NONE, mo_conf_path = None, mo_xdp_mode = XDP_ATTACH_NATIVE, mo_xdp_mode_set = False,
         mo_want_help = False, mo_want_version = False\<rparr> of
       Inl err \<Rightarrow> dthen (emit_all err) (dret (Returned EXIT_USAGE))
     | Inr mo \<Rightarrow>
         if rest = None then dthen (emit_all usage) (dret (Returned EXIT_USAGE))
         else if mo_want_help mo then dthen (emit_all usage) (dret (Returned 0))
         else if mo_want_version mo then dthen (print_version dh (mo_conf_path mo)) (dret (Returned 0))
         else if mo_mode mo = MODE_NONE \<or> rest \<noteq> Some [] then dthen (emit_all usage) (dret (Returned EXIT_USAGE))
         else if mo_xdp_mode_set mo \<and> mo_mode mo \<noteq> MODE_ATTACH
           then dthen (emit (Ev_print ''%s: --xdp-mode only applies to --attach'')) (dret (Returned EXIT_USAGE))
         else
           let conf_path = (if mo_mode mo = MODE_CHECK \<and> mo_conf_path mo = None then Some MARLIN_DEFAULT_CONF else mo_conf_path mo) in
           (case mo_mode mo of
              MODE_ATTACH \<Rightarrow> cmd_attach fp dh conf_path (mo_xdp_mode mo) polls
            | MODE_STATUS \<Rightarrow> dseq (cmd_status dh conf_path) (\<lambda>c. dret (Returned c))
            | MODE_UNPIN \<Rightarrow> dseq (cmd_unpin dh conf_path) (\<lambda>c. dret (Returned c))
            | MODE_CHECK \<Rightarrow> dseq (cmd_check dh conf_path) (\<lambda>c. dret (Returned c))
            | MODE_NONE \<Rightarrow> dthen (emit_all usage) (dret (Returned EXIT_USAGE))))"

end
