(* ===== verification/Marlind_Daemon.thy ===== *)
theory Marlind_Daemon
  imports Marlind_Commands
begin

text \<open>
  What the commands guarantee together: the daemon attaches only behind its checks and a complete
  reconciliation, and over its whole life, whatever signals and failures come, the settings it was
  started with and the source filter hold.
\<close>

section \<open>Running an operation that may exit\<close>

named_theorems dm_simps \<open>running the operations of the daemon\<close>

lemma run_dret [dm_simps]: "run_state (dret x) s = (Ret x, s)"
  by (simp add: dret_def)

lemma run_dseq [dm_simps]:
  "run_state (dseq m f) s = (case run_state m s of (Ret x, t) \<Rightarrow> run_state (f x) t | (Die c, t) \<Rightarrow> (Die c, t))"
  by (auto simp: dseq_def split: prod.splits outcome.splits)

lemma run_dthen [dm_simps]:
  "run_state (dthen m n) s = (case run_state m s of (Ret _, t) \<Rightarrow> run_state n t | (Die c, t) \<Rightarrow> (Die c, t))"
  by (simp add: dthen_def run_dseq)

lemma run_emit [dm_simps]: "run_state (emit e) s = (Ret (), s\<lparr>dm_events := dm_events s @ [e]\<rparr>)"
  by (simp add: emit_def)

lemma run_emit_all [dm_simps]: "run_state (emit_all es) s = (Ret (), s\<lparr>dm_events := dm_events s @ es\<rparr>)"
  by (induction es arbitrary: s) (simp_all add: dm_simps)

lemma run_logmsg [dm_simps]: "run_state (logmsg m) s = (Ret (), s\<lparr>dm_events := dm_events s @ [Ev_log m]\<rparr>)"
  by (simp add: logmsg_def dm_simps)

lemma run_die_with [dm_simps]: "run_state (die_with c m) s = (Die c, s\<lparr>dm_events := dm_events s @ [Ev_log m]\<rparr>)"
  by (simp add: die_with_def dm_simps)

lemma run_die [dm_simps]: "run_state (die m) s = (Die EXIT_USAGE, s\<lparr>dm_events := dm_events s @ [Ev_log m]\<rparr>)"
  by (simp add: die_def dm_simps)

text \<open>
  \<open>does A R m\<close>: whatever the operation returns, every action it takes is in \<open>A\<close>, and it changes what
  the maps have been through by \<open>R\<close>. The locale \<open>frame\<close> is what such a pair has to promise for the
  rules below: \<open>R\<close> composes, and logging is in \<open>A\<close>.
\<close>

definition does :: "(event \<Rightarrow> bool) \<Rightarrow> (rc \<Rightarrow> rc \<Rightarrow> bool) \<Rightarrow> 'a dm \<Rightarrow> bool" where
  "does A R m \<longleftrightarrow> (\<forall>s r t. run_state m s = (r, t) \<longrightarrow>
     (\<exists>es. dm_events t = dm_events s @ es \<and> list_all A es) \<and> R (dm_rc s) (dm_rc t))"

named_theorems does_intros \<open>what the operations of the daemon do\<close>

lemma doesD: "does A R m \<Longrightarrow> run_state m s = (r, t) \<Longrightarrow> (\<exists>es. dm_events t = dm_events s @ es \<and> list_all A es) \<and> R (dm_rc s) (dm_rc t)"
  unfolding does_def by blast

text \<open>Any action but attaching.\<close>

definition harmless :: "event \<Rightarrow> bool" where
  "harmless e \<longleftrightarrow> (\<forall>fl. e \<noteq> Ev_attach fl)"

locale frame =
  fixes A :: "event \<Rightarrow> bool" and R :: "rc \<Rightarrow> rc \<Rightarrow> bool"
  assumes refl: "R a a" and trans: "R a b \<Longrightarrow> R b c \<Longrightarrow> R a c" and logs: "A (Ev_log m)"
begin

lemma does_dret [does_intros]: "does A R (dret x)"
  by (simp add: does_def dm_simps refl)

lemma does_Die [does_intros]: "does A R (State_Monad.return (Die c))"
  by (simp add: does_def refl)

lemma does_emit_all: "list_all A es \<Longrightarrow> does A R (emit_all es)"
  by (auto simp: does_def dm_simps refl)

lemma does_emit: "A e \<Longrightarrow> does A R (emit e)"
  by (auto simp: does_def dm_simps refl)

lemma does_dseq [does_intros]:
  assumes "does A R m" "\<And>x. does A R (f x)"
  shows "does A R (dseq m f)"
  unfolding does_def
proof (intro allI impI)
  fix s r t
  assume run: "run_state (dseq m f) s = (r, t)"
  obtain r1 t1 where m: "run_state m s = (r1, t1)" by (metis surj_pair)
  obtain es where es: "dm_events t1 = dm_events s @ es" "list_all A es" "R (dm_rc s) (dm_rc t1)"
    using doesD [OF assms(1) m] by blast
  show "(\<exists>es. dm_events t = dm_events s @ es \<and> list_all A es) \<and> R (dm_rc s) (dm_rc t)"
  proof (cases r1)
    case (Ret x)
    then have "run_state (f x) t1 = (r, t)" using run m by (simp add: run_dseq)
    from doesD [OF assms(2) this] obtain es' where "dm_events t = dm_events t1 @ es'" "list_all A es'" "R (dm_rc t1) (dm_rc t)" by blast
    then show ?thesis using es trans by (auto intro!: exI [of _ "es @ es'"])
  qed (use run m es in \<open>auto simp: run_dseq\<close>)
qed

lemma does_dthen [does_intros]: "does A R m \<Longrightarrow> does A R n \<Longrightarrow> does A R (dthen m n)"
  unfolding dthen_def by (rule does_dseq)

lemma does_if [does_intros]: "does A R m \<Longrightarrow> does A R n \<Longrightarrow> does A R (if c then m else n)"
  by simp

lemma does_option [does_intros]: "does A R m \<Longrightarrow> (\<And>x. does A R (f x)) \<Longrightarrow> does A R (case v of None \<Rightarrow> m | Some x \<Rightarrow> f x)"
  by (cases v) simp_all

lemma does_prod [does_intros]: "(\<And>x y. does A R (f x y)) \<Longrightarrow> does A R (case p of (x, y) \<Rightarrow> f x y)"
  by (cases p) simp

lemma does_Let [does_intros]: "(\<And>x. does A R (f x)) \<Longrightarrow> does A R (Let v f)"
  by simp

lemma does_log [does_intros]: "does A R (logmsg m)" "does A R (die_with c m)" "does A R (die m)"
  by (auto simp: does_def dm_simps refl logs)

lemma does_diag_log [does_intros]: "does A R (conf_diag_log d)"
  unfolding conf_diag_log_def by (intro does_intros does_emit_all; simp add: list_all_iff logs)

lemma does_load_config [does_intros]: "does A R (load_config dh p mode)"
  unfolding load_config_def load_config_env_def load_config_file_def warn_ignored_env_def by (intro does_intros)

lemma does_preflight [does_intros]: "does A R (preflight dh cfg)"
  unfolding preflight_def check_root_def check_obj_readable_def check_object_version_def check_bpffs_mounted_def check_offload_off_def
  by (intro does_intros)

lemma does_setup_calls [does_intros]: "does A R (setup_calls dh cs)"
  by (induction dh cs rule: setup_calls.induct) (simp_all add: does_intros)

lemma does_setup [does_intros]: "does A R (open_signal_fd dh)" "does A R (open_link_monitor dh)" "does A R (open_event_loop dh)"
  unfolding open_signal_fd_def open_link_monitor_def open_event_loop_def by (rule does_setup_calls)+

lemma does_set_pin_paths [does_intros]: "does A R (set_pin_paths dh d ms)"
  by (induction dh d ms rule: set_pin_paths.induct) (simp_all add: does_intros Let_def)

end

text \<open>A frame that allows every harmless action.\<close>

locale harmless_frame = frame +
  assumes harmless: "harmless e \<Longrightarrow> A e"
begin

lemma does_harmless [does_intros]: "does A R (emit (Ev_pin p))" "does A R (emit (Ev_unlink p))" "does A R (emit Ev_detach)"
    "does A R (emit_all (map Ev_pin ps))"
  by (intro does_emit does_emit_all; simp add: harmless harmless_def list_all_iff)+

lemma does_notify [does_intros]: "does A R (notify dh m)"
  unfolding notify_def by (intro does_intros does_emit) (simp add: harmless harmless_def)

lemma does_stale_pin [does_intros]: "does A R (remove_stale_pin dh p)"
  unfolding remove_stale_pin_def by (intro does_intros)

lemma does_pins [does_intros]: "does A R (pin_version dh obj d)" "does A R (pin_program dh obj p)"
  unfolding pin_version_def pin_program_def by (intro does_intros)+

end

text \<open>A frame in which also a reconciliation, and the maps found when the object is loaded, are allowed on
  some hosts. Everything the daemon does before and after it attaches stays in such a frame.\<close>

definition poll_ok :: "(dhost \<Rightarrow> bool) \<Rightarrow> poll \<Rightarrow> bool" where
  "poll_ok host_ok p \<longleftrightarrow> (case p of Poll_error _ \<Rightarrow> True | Poll_ready dh _ \<Rightarrow> host_ok dh)"

locale daemon_frame = harmless_frame +
  fixes fp :: "'f::linorder fpu" and host_ok :: "dhost \<Rightarrow> bool"
  assumes install: "host_ok dh \<Longrightarrow> R a (a\<lparr>rc_maps := dh_loaded_maps dh\<rparr>)"
    and reconcile: "host_ok dh \<Longrightarrow> R a (snd (run_state (reconcile_apply fp (dh_host dh) (dh_sys dh) conf) (a\<lparr>rc_diag := d\<rparr>)))"
begin

lemma does_install [does_intros]: "host_ok dh \<Longrightarrow> does A R (install_maps dh)"
  by (auto simp: does_def install_maps_def install)

lemma does_load_maps [does_intros]: "host_ok dh \<Longrightarrow> does A R (load_and_pin_maps dh p d)"
  unfolding load_and_pin_maps_def by (intro does_intros)

lemma does_apply [does_intros]: "host_ok dh \<Longrightarrow> does A R (apply_conf fp dh conf d)"
  using reconcile [of dh _ conf d] by (auto simp: does_def apply_conf_def split: prod.splits) (metis snd_conv)

lemma does_startup [does_intros]: "host_ok dh \<Longrightarrow> does A R (reconcile_startup fp dh cfg)"
  unfolding reconcile_startup_def by (intro does_intros)

lemma does_reload [does_intros]: "host_ok dh \<Longrightarrow> does A R (handle_reload fp dh cfg)"
  unfolding handle_reload_def by (intro does_intros)

lemma does_prepare [does_intros]: "host_ok dh \<Longrightarrow> does A R (attach_prepare fp dh p)"
  unfolding attach_prepare_def by (intro does_intros)

lemma does_ready [does_intros]: "host_ok dh \<Longrightarrow> does A R (handle_ready fp dh cfg es)"
proof (induction es arbitrary: cfg)
  case (Cons e es)
  show ?case
  proof (cases e)
    case (Ready_signal r)
    then show ?thesis using Cons by (auto intro!: does_intros)
  next
    case (Ready_netlink msgs)
    then show ?thesis using Cons
      by (cases "link_monitor_saw_dellink msgs (dc_ifindex cfg)") (auto intro!: does_intros split: bool.splits)
  qed
qed (simp add: does_intros)

lemma does_loop [does_intros]: "list_all (poll_ok host_ok) ps \<Longrightarrow> does A R (attach_loop fp cfg ps)"
proof (induction ps arbitrary: cfg)
  case (Cons p ps)
  show ?case
  proof (cases p)
    case (Poll_error e)
    then show ?thesis using Cons by (auto intro!: does_intros)
  next
    case (Poll_ready dh es)
    then have ok: "host_ok dh" and IH: "does A R (attach_loop fp c ps)" for c using Cons by (simp_all add: poll_ok_def)
    have "does A R (case r of Waiting cfg \<Rightarrow> attach_loop fp cfg ps | Returned c \<Rightarrow> dret (Returned c))" for r
      by (cases r) (simp_all add: IH does_intros)
    then show ?thesis unfolding Poll_ready attach_loop.simps by (intro does_dseq does_ready ok)
  qed
qed (simp add: does_intros)

end

section \<open>Preflight\<close>

definition object_supported :: "dhost \<Rightarrow> string \<Rightarrow> bool" where
  "object_supported dh path \<longleftrightarrow> (\<exists>obj build. dh_open_object dh 0 path = Some obj \<and> marlin_build_from_object obj = Some build \<and>
     marlind_parse_semver (takeWhile (\<lambda>c. c \<noteq> NUL) (mb_version build)) \<noteq> None)"

definition feature_on :: "dhost \<Rightarrow> string \<Rightarrow> string \<Rightarrow> bool" where
  "feature_on dh iface f \<longleftrightarrow> (case ethtool_feature_active dh iface f of (active, found) \<Rightarrow> found \<and> active)"

definition preflight_ok :: "dhost \<Rightarrow> config \<Rightarrow> bool" where
  "preflight_ok dh cfg \<longleftrightarrow> dh_geteuid dh = 0 \<and> dh_readable dh (dc_obj_path cfg) \<and> object_supported dh (dc_obj_path cfg) \<and>
     dh_bpffs_mounted dh \<and> \<not> feature_on dh (dc_iface cfg) ''rx-lro'' \<and> \<not> feature_on dh (dc_iface cfg) ''rx-gro-hw''"

lemma build_version_whole:
  assumes "marlin_build_from_object obj = Some build"
  shows "the (marlind_build_version build (Suc MARLIN_VERSION_MAX)) = takeWhile (\<lambda>c. c \<noteq> NUL) (mb_version build)"
proof -
  have "length (mb_version build) \<le> MARLIN_VERSION_MAX"
    using assms by (auto simp: marlin_build_from_object_def build_of_def split: option.splits)
  moreover have "length (takeWhile (\<lambda>c. c \<noteq> NUL) (mb_version build)) \<le> length (mb_version build)" by (rule length_takeWhile_le)
  ultimately show ?thesis by (simp add: marlind_build_version_some)
qed

lemma check_object_version_run:
  "run_state (check_object_version dh path) s =
    (if object_supported dh path then (Ret (), s)
     else (Die (if dh_open_object dh 0 path = None then EXIT_USAGE else EXIT_INCOMPATIBLE), snd (run_state (check_object_version dh path) s)))"
  by (auto simp: check_object_version_def object_supported_def bpf_object_supported_iff build_version_whole dm_simps Let_def split: option.splits)

lemma preflight_run:
  "run_state (preflight dh cfg) s = (Ret u, t) \<longleftrightarrow> preflight_ok dh cfg \<and> t = s"
  using check_object_version_run [of dh "dc_obj_path cfg" s]
  by (auto simp: preflight_def preflight_ok_def check_root_def check_obj_readable_def check_bpffs_mounted_def check_offload_off_def
      feature_on_def dm_simps split: if_splits prod.splits outcome.splits)

section \<open>The instances\<close>

text \<open>Operations that only log; operations that leave the maps alone; anything but attaching.\<close>

interpretation logging: frame "\<lambda>e. \<exists>m. e = Ev_log m" "(=)"
  by unfold_locales auto

interpretation still: harmless_frame "\<lambda>_. True" "(=)"
  by unfold_locales auto

interpretation calm: daemon_frame harmless "\<lambda>_ _. True" fp "\<lambda>_. True" for fp :: "'f::linorder fpu"
  by unfold_locales (auto simp: harmless_def)

text \<open>Keeping the source filter closed: from maps that are right, through right contents, to right maps.\<close>

definition acl_kept :: "rc \<Rightarrow> rc \<Rightarrow> bool" where
  "acl_kept a b \<longleftrightarrow> (\<exists>new. rc_trace b = rc_trace a @ new \<and>
     (acl_safe (rc_maps a) \<longrightarrow> list_all acl_safe new \<and> acl_safe (rc_maps b)))"

definition acl_host :: "dhost \<Rightarrow> bool" where
  "acl_host dh \<longleftrightarrow> reads_ok (dh_sys dh) \<and> acl_safe (dh_loaded_maps dh)"

lemma acl_kept_reconcile:
  assumes "reads_ok sys"
  shows "acl_kept a (snd (run_state (reconcile_apply fp h sys conf) (a\<lparr>rc_diag := d\<rparr>)))"
proof -
  obtain ok conf' b where run: "run_state (reconcile_apply fp h sys conf) (a\<lparr>rc_diag := d\<rparr>) = ((ok, conf'), b)" by (metis surj_pair)
  obtain new where new: "rc_trace b = rc_trace a @ new"
    using grows_reconcile_apply [of fp h sys conf, unfolded grows_def, rule_format, of "a\<lparr>rc_diag := d\<rparr>"] run by auto
  show ?thesis
  proof (cases "acl_safe (rc_maps a)")
    case True
    then obtain new' where "rc_trace b = rc_trace a @ new'" "\<forall>m\<in>set new'. acl_safe m" "rc_maps b = last (rc_maps a # new')"
      using reconcile_apply_acl [OF assms _ run] by auto
    then show ?thesis using True run
      by (auto simp: acl_kept_def list_all_iff intro!: exI [of _ new'])
  qed (use new run in \<open>auto simp: acl_kept_def\<close>)
qed

interpretation filter: daemon_frame "\<lambda>_. True" acl_kept fp acl_host for fp :: "'f::linorder fpu"
proof unfold_locales
  fix a b c
  show "acl_kept a b \<Longrightarrow> acl_kept b c \<Longrightarrow> acl_kept a c" unfolding acl_kept_def by (fastforce simp: list_all_append)
qed (auto simp: acl_kept_reconcile acl_host_def, auto simp: acl_kept_def)

section \<open>What a successful preparation has established\<close>

lemma run_dseq_Ret [simp]:
  "run_state (dseq m f) s = (Ret y, t) \<longleftrightarrow> (\<exists>x u. run_state m s = (Ret x, u) \<and> run_state (f x) u = (Ret y, t))"
  by (auto simp: run_dseq split: prod.splits outcome.splits)

lemma run_dthen_Ret [simp]:
  "run_state (dthen m n) s = (Ret y, t) \<longleftrightarrow> (\<exists>u. run_state m s = (Ret (), u) \<and> run_state n u = (Ret y, t))"
  by (simp add: dthen_def)

lemma still_rc: "does (\<lambda>_. True) (=) m \<Longrightarrow> run_state m s = (r, t) \<Longrightarrow> dm_rc t = dm_rc s"
  using doesD by fastforce

lemma load_maps_rc:
  "run_state (load_and_pin_maps dh p d) s = (Ret obj, t) \<Longrightarrow> dm_rc t = (dm_rc s)\<lparr>rc_maps := dh_loaded_maps dh\<rparr>"
  by (auto simp: load_and_pin_maps_def install_maps_def dm_simps simp del: run_dseq run_dthen split: option.splits if_splits
      dest: still_rc [OF still.does_set_pin_paths])

lemma load_config_file_Ret:
  assumes "run_state (load_config_file dh cfg path CONF_LOAD_FULL) s = (Ret cfg', t)"
  shows "\<exists>conf d. conf_load (dh_host dh) path CONF_LOAD_FULL True conf_diag_reset = (Some conf, d) \<and> dc_file cfg' = Some conf \<and>
    dc_conf_path cfg' = dc_conf_path cfg \<and> dc_iface cfg' = ci_iface (mf_instance conf) \<and> dc_pin_dir cfg' = ci_pin_dir (mf_instance conf) \<and>
    dc_obj_path cfg' = ci_object (mf_instance conf) \<and> dc_prog_pin cfg' = join_path (dc_pin_dir cfg') MARLIN_PROG_NAME"
  using assms by (auto simp: load_config_file_def dm_simps Let_def simp del: run_dseq run_dthen split: prod.splits option.splits if_splits)

lemma load_config_env_Ret:
  assumes "run_state (load_config_env dh cfg) s = (Ret cfg', t)"
  shows "dc_file cfg' = dc_file cfg \<and> dc_conf_path cfg' = dc_conf_path cfg"
  using assms by (auto simp: load_config_env_def dm_simps Let_def split: option.splits if_splits)

text \<open>With a configuration file: the file was loaded, obeys every rule, and has been applied to the maps
  that the loaded object came with.\<close>

definition conf_applied :: "'f::linorder fpu \<Rightarrow> dhost \<Rightarrow> string \<Rightarrow> config \<Rightarrow> rc \<Rightarrow> rc \<Rightarrow> bool" where
  "conf_applied fp dh path cfg before after \<longleftrightarrow> (\<exists>conf conf' d.
     conf_load (dh_host dh) path CONF_LOAD_FULL True conf_diag_reset = (Some conf, d) \<and> conf_rule conf \<and>
     run_state (reconcile_apply fp (dh_host dh) (dh_sys dh) conf)
       (before\<lparr>rc_maps := dh_loaded_maps dh, rc_diag := conf_diag_reset\<rparr>) = ((True, conf'), after) \<and>
     dc_file cfg = Some conf')"

lemma conf_load_rule: "conf_load h path CONF_LOAD_FULL True conf_diag_reset = (Some conf, d) \<Longrightarrow> conf_rule conf \<and> conf_shape conf \<and> diag_count d = 0"
  using conf_load_loaded [of conf_diag_reset h path True conf d] by (simp add: conf_diag_reset_def MARLIN_CONF_DIAG_MAX_def)

lemma reconcile_startup_Ret:
  assumes "run_state (reconcile_startup fp dh cfg) s = (Ret cfg', t)"
  shows "(dc_file cfg = None \<and> cfg' = cfg \<and> t = s) \<or>
    (\<exists>conf conf'. dc_file cfg = Some conf \<and> cfg' = cfg\<lparr>dc_file := Some conf'\<rparr> \<and>
       run_state (reconcile_apply fp (dh_host dh) (dh_sys dh) conf) ((dm_rc s)\<lparr>rc_diag := conf_diag_reset\<rparr>) = ((True, conf'), dm_rc t))"
  using assms
  by (cases "dc_file cfg")
    (auto simp: reconcile_startup_def apply_conf_def dm_simps simp del: run_dseq run_dthen split: prod.splits if_splits
      dest!: still_rc [OF still.does_diag_log])

lemma attach_prepare_Ret:
  assumes "run_state (attach_prepare fp dh conf_path) s = (Ret cfg, t)"
  shows "preflight_ok dh cfg \<and>
    (case conf_path of
       None \<Rightarrow> dc_file cfg = None \<and> dm_rc t = (dm_rc s)\<lparr>rc_maps := dh_loaded_maps dh\<rparr>
     | Some path \<Rightarrow> conf_applied fp dh path cfg (dm_rc s) (dm_rc t))"
proof -
  from assms obtain c s1 s2 s3 s4 obj s5 s6 s7 where run:
    "run_state (load_config dh conf_path CONF_LOAD_FULL) s = (Ret c, s1)" "run_state (preflight dh c) s1 = (Ret (), s1)"
    "run_state (open_signal_fd dh) s1 = (Ret (), s2)" "run_state (open_link_monitor dh) s2 = (Ret (), s3)"
    "run_state (open_event_loop dh) s3 = (Ret (), s4)"
    "run_state (load_and_pin_maps dh (dc_obj_path c) (dc_pin_dir c)) s4 = (Ret obj, s5)"
    "run_state (pin_version dh obj (dc_pin_dir c)) s5 = (Ret (), s6)"
    "run_state (reconcile_startup fp dh c) s6 = (Ret cfg, s7)" "run_state (pin_program dh obj (dc_prog_pin cfg)) s7 = (Ret (), t)"
    by (auto simp: attach_prepare_def run_dret preflight_run)
  have rc: "dm_rc s6 = (dm_rc s)\<lparr>rc_maps := dh_loaded_maps dh\<rparr>" "dm_rc t = dm_rc s7"
    using run still_rc [OF still.does_load_config] still_rc [OF still.does_setup(1)] still_rc [OF still.does_setup(2)]
      still_rc [OF still.does_setup(3)] still_rc [OF still.does_pins(1)] still_rc [OF still.does_pins(2)] load_maps_rc by metis+
  have pre: "preflight_ok dh c" using run(2) by (simp add: preflight_run)
  show ?thesis
  proof (cases conf_path)
    case None
    then have "dc_file c = None" using run(1) load_config_env_Ret by (fastforce simp: load_config_def zero_cfg_def)
    then show ?thesis using None reconcile_startup_Ret [OF run(8)] rc pre by auto
  next
    case (Some path)
    then obtain conf d where conf: "conf_load (dh_host dh) path CONF_LOAD_FULL True conf_diag_reset = (Some conf, d)" "dc_file c = Some conf"
      using run(1) load_config_file_Ret by (fastforce simp: load_config_def)
    then obtain conf' where app: "cfg = c\<lparr>dc_file := Some conf'\<rparr>"
      "run_state (reconcile_apply fp (dh_host dh) (dh_sys dh) conf) ((dm_rc s6)\<lparr>rc_diag := conf_diag_reset\<rparr>) = ((True, conf'), dm_rc s7)"
      using reconcile_startup_Ret [OF run(8)] by auto
    then have "preflight_ok dh cfg" using pre by (simp add: preflight_ok_def)
    moreover have "conf_applied fp dh path cfg (dm_rc s) (dm_rc t)"
      using conf conf_load_rule [OF conf(1)] app unfolding conf_applied_def rc by auto
    ultimately show ?thesis using Some by simp
  qed
qed

section \<open>Attaching\<close>

definition attach_flags :: "xdp_attach_mode \<Rightarrow> u32" where
  "attach_flags mode = (if mode = XDP_ATTACH_GENERIC then XDP_FLAGS_SKB_MODE else XDP_FLAGS_DRV_MODE)"

lemma does_no_attach: "does harmless R m \<Longrightarrow> run_state m s = (r, t) \<Longrightarrow> Ev_attach fl \<in> set (dm_events t) \<longleftrightarrow> Ev_attach fl \<in> set (dm_events s)"
  using doesD by (fastforce simp: list_all_iff harmless_def)

lemma attach_link_cases:
  assumes "run_state (attach_link dh i mode) s = (r, t)" "Ev_attach fl \<in> set (dm_events t)" "Ev_attach fl \<notin> set (dm_events s)"
  shows "fl = attach_flags mode \<and> dh_link_create dh i fl \<ge> 0 \<and> (\<exists>fd. r = Ret fd) \<and> dm_rc t = dm_rc s"
  using assms by (auto simp: attach_link_def attach_flags_def Let_def dm_simps split: if_splits)

lemma announce_Ret: "\<exists>u. run_state (announce_attached dh mode cfg) s = (Ret cfg, u) \<and> dm_rc u = dm_rc s"
proof -
  have "\<exists>t. run_state (notify dh n) s = (Ret (), t)" for n s
    by (auto simp: notify_def dm_simps split: option.splits)
  then obtain u where u: "run_state (announce_attached dh mode cfg) s = (Ret cfg, u)"
    by (cases "mode = XDP_ATTACH_GENERIC") (fastforce simp: announce_attached_def run_logmsg run_dret)+
  have "does (\<lambda>_. True) (=) (announce_attached dh mode cfg)" unfolding announce_attached_def by (intro does_intros)
  then show ?thesis using u still_rc by blast
qed

lemma announce_no_attach: "does harmless (\<lambda>_ _. True) (announce_attached dh mode cfg)"
  unfolding announce_attached_def by (intro does_intros)


section \<open>Reloading\<close>

lemma notify_Ret: "\<exists>t. run_state (notify dh n) s = (Ret (), t) \<and> dm_rc t = dm_rc s"
proof -
  have "\<exists>t. run_state (notify dh n) s = (Ret (), t)" by (auto simp: notify_def dm_simps split: option.splits)
  then show ?thesis using still_rc [OF still.does_notify] by blast
qed

lemma diag_log_Ret: "\<exists>t. run_state (conf_diag_log d) s = (Ret (), t) \<and> dm_rc t = dm_rc s"
  by (simp add: conf_diag_log_def run_emit_all run_logmsg run_dret)

lemma refuse_run: "\<exists>t. run_state (dthen (conf_diag_log d) (dthen (logmsg m) (dret c))) s = (Ret c, t) \<and> dm_rc t = dm_rc s"
  using diag_log_Ret [of d s] by (fastforce simp: run_logmsg run_dret)

lemma handle_reload_applied:
  assumes "dc_conf_path cfg = Some path" "dc_file cfg = Some prev" "conf_load (dh_host dh) path CONF_LOAD_FULL True conf_diag_reset = (Some conf, d)"
    and "conf_check_against_previous conf prev d = (True, d1)"
    and "run_state (reconcile_apply fp (dh_host dh) (dh_sys dh) conf) ((dm_rc s)\<lparr>rc_diag := d1\<rparr>) = ((ok, conf'), rc)"
  shows "\<exists>t. run_state (handle_reload fp dh cfg) s = (Ret (if ok then cfg\<lparr>dc_file := Some conf'\<rparr> else cfg), t) \<and> dm_rc t = rc"
proof -
  obtain s1 where s1: "run_state (conf_diag_log d1) s = (Ret (), s1)" "dm_rc s1 = dm_rc s" using diag_log_Ret by blast
  let ?fin = "if \<not> ok then dthen (conf_diag_log (rc_diag rc))
      (dthen (logmsg ''SIGHUP: %s: reconcile failed partway through -- maps may be a mix of old and new; fix the underlying problem and send SIGHUP again'') (dret cfg))
    else dthen (logmsg ''SIGHUP: reloaded %s (%u backend(s), %u vip(s), %u address(es))'')
      (dthen (notify dh ''STATUS=attached %s to %s (ifindex %d); reloaded %s'') (dret (cfg\<lparr>dc_file := Some conf'\<rparr>)))"
  have "run_state (handle_reload fp dh cfg) s = run_state ?fin (s1\<lparr>dm_rc := rc\<rparr>)"
    using s1 assms(5) by (simp add: handle_reload_def assms(1-4) run_dthen run_dseq apply_conf_def del: run_dthen_Ret run_dseq_Ret)
  moreover have "\<exists>t. run_state ?fin (s1\<lparr>dm_rc := rc\<rparr>) = (Ret (if ok then cfg\<lparr>dc_file := Some conf'\<rparr> else cfg), t) \<and> dm_rc t = rc"
  proof (cases ok)
    case True
    then show ?thesis
      using notify_Ret [of dh "''STATUS=attached %s to %s (ifindex %d); reloaded %s''"
          "s1\<lparr>dm_rc := rc, dm_events := dm_events s1 @ [Ev_log ''SIGHUP: reloaded %s (%u backend(s), %u vip(s), %u address(es))'']\<rparr>"]
      by (auto simp: run_logmsg run_dret)
  next
    case False
    then show ?thesis using refuse_run [of "rc_diag rc" _ cfg "s1\<lparr>dm_rc := rc\<rparr>"] by simp
  qed
  ultimately show ?thesis by metis
qed

lemma handle_reload_run:
  assumes "dc_conf_path cfg = Some path" "dc_file cfg = Some prev"
  shows "\<exists>cfg' t. run_state (handle_reload fp dh cfg) s = (Ret cfg', t) \<and>
    (case conf_load (dh_host dh) path CONF_LOAD_FULL True conf_diag_reset of
       (None, _) \<Rightarrow> cfg' = cfg \<and> dm_rc t = dm_rc s
     | (Some conf, _) \<Rightarrow>
         if \<not> reload_rule conf prev then cfg' = cfg \<and> dm_rc t = dm_rc s
         else \<exists>d. (case run_state (reconcile_apply fp (dh_host dh) (dh_sys dh) conf) ((dm_rc s)\<lparr>rc_diag := d\<rparr>) of
            ((ok, conf'), rc) \<Rightarrow> dm_rc t = rc \<and> cfg' = (if ok then cfg\<lparr>dc_file := Some conf'\<rparr> else cfg)))"
proof -
  obtain loaded d where load: "conf_load (dh_host dh) path CONF_LOAD_FULL True conf_diag_reset = (loaded, d)" by (metis surj_pair)
  show ?thesis
  proof (cases loaded)
    case None
    then show ?thesis using refuse_run [of d] by (simp add: handle_reload_def assms(1) load)
  next
    case (Some conf)
    obtain acc d1 where chk: "conf_check_against_previous conf prev d = (acc, d1)" by (metis surj_pair)
    have "diag_count d < MARLIN_CONF_DIAG_MAX" using conf_load_rule [OF load [unfolded Some]] by (simp add: MARLIN_CONF_DIAG_MAX_def)
    then have acc: "acc \<longleftrightarrow> reload_rule conf prev"
      using previous_check.accepts [of d "(conf, prev)"] chk by (simp add: conf_check_against_previous_def Let_def)
    show ?thesis
    proof (cases acc)
      case False
      then show ?thesis using refuse_run [of d1] acc by (simp add: handle_reload_def assms load Some chk)
    next
      case True
      obtain ok conf' rc where app: "run_state (reconcile_apply fp (dh_host dh) (dh_sys dh) conf) ((dm_rc s)\<lparr>rc_diag := d1\<rparr>) = ((ok, conf'), rc)"
        by (metis surj_pair)
      obtain t where "run_state (handle_reload fp dh cfg) s = (Ret (if ok then cfg\<lparr>dc_file := Some conf'\<rparr> else cfg), t)" "dm_rc t = rc"
        using handle_reload_applied [OF assms load [unfolded Some] _ app] chk True by auto
      then show ?thesis
        using app True acc by (intro exI [of _ "if ok then cfg\<lparr>dc_file := Some conf'\<rparr> else cfg"] exI [of _ t]) (auto simp: load Some intro!: exI [of _ d1])
    qed
  qed
qed


section \<open>The life of the daemon\<close>

text \<open>Two generations of a configuration that a running daemon may go between, as far as what it cannot
  change is concerned.\<close>

definition same_instance :: "marlin_conf \<Rightarrow> marlin_conf \<Rightarrow> bool" where
  "same_instance f g \<longleftrightarrow> ifname_eq (ci_iface (mf_instance f)) (ci_iface (mf_instance g)) \<and>
     strneq PATH_MAX (ci_object (mf_instance f)) (ci_object (mf_instance g)) \<and>
     strneq PATH_MAX (ci_pin_dir (mf_instance f)) (ci_pin_dir (mf_instance g))"

lemma same_instance_refl: "same_instance f f"
  by (simp add: same_instance_def ifname_eq_def strneq_def)

lemma same_instance_trans: "same_instance f g \<Longrightarrow> same_instance g h \<Longrightarrow> same_instance f h"
  by (simp add: same_instance_def ifname_eq_def strneq_def)

definition same_settings :: "config \<Rightarrow> config \<Rightarrow> bool" where
  "same_settings c c' \<longleftrightarrow> c' = c\<lparr>dc_file := dc_file c'\<rparr> \<and>
     (case dc_file c of None \<Rightarrow> dc_file c' = None | Some f \<Rightarrow> \<exists>f'. dc_file c' = Some f' \<and> conf_rule f' \<and> same_instance f' f)"

definition settings_ok :: "config \<Rightarrow> bool" where
  "settings_ok c \<longleftrightarrow> (dc_conf_path c = None \<longleftrightarrow> dc_file c = None) \<and> (\<forall>f. dc_file c = Some f \<longrightarrow> conf_rule f)"

lemma same_settings_refl: "settings_ok c \<Longrightarrow> same_settings c c"
  by (simp add: same_settings_def settings_ok_def same_instance_refl split: option.splits)

lemma same_settings_trans: "same_settings a b \<Longrightarrow> same_settings b c \<Longrightarrow> same_settings a c"
  by (auto simp: same_settings_def split: option.splits dest: same_instance_trans)

lemma same_settings_ok: "settings_ok a \<Longrightarrow> same_settings a b \<Longrightarrow> settings_ok b"
  by (auto simp: same_settings_def settings_ok_def split: option.splits)

text \<open>Giving the VIPs their numbers keeps every rule.\<close>

lemma map2_keys: "map cv_keys (map2 (\<lambda>v e. v\<lparr>cv_meta := f v e\<rparr>) vs es) = take (length es) (map cv_keys vs)"
  by (induction vs es rule: list_induct2') simp_all

lemma conf_rule_vip_nums:
  assumes "conf_rule conf"
  shows "conf_rule (set_vip_nums conf es)"
proof -
  let ?vs = "mf_vips (set_vip_nums conf es)"
  have el: "\<exists>v\<in>set (mf_vips conf). cv_keys v' = cv_keys v \<and> cv_members v' = cv_members v \<and> vm_flags (cv_meta v') = vm_flags (cv_meta v)"
    if "v' \<in> set ?vs" for v'
    using that by (auto simp: set_vip_nums_def dest: set_zip_leftD)
  have keys: "concat (map cv_keys (mf_vips conf)) = concat (map cv_keys ?vs) @ concat (drop (length es) (map cv_keys (mf_vips conf)))"
  proof -
    have "map cv_keys ?vs = take (length es) (map cv_keys (mf_vips conf))" 
      using map2_keys [of "\<lambda>v e. (cv_meta v)\<lparr>vm_vip_num := word_of_nat (va_vip_num e)\<rparr>" "mf_vips conf" es] by (simp add: set_vip_nums_def)
    then show ?thesis by (metis append_take_drop_id concat_append)
  qed
  have "vip_rule bs v \<Longrightarrow> cv_keys v' = cv_keys v \<Longrightarrow> cv_members v' = cv_members v \<Longrightarrow> vm_flags (cv_meta v') = vm_flags (cv_meta v) \<Longrightarrow> vip_rule bs v'" for bs v v'
    by (simp add: vip_rule_def group_rule_def)
  then have "vips_rule (mf_backends conf) ?vs"
    using assms el keys unfolding conf_rule_def vips_rule_def by (fastforce simp: sorted_wrt_append)
  moreover have "ratelimit_rule (set_vip_nums conf es)"
    using assms el by (fastforce simp: conf_rule_def ratelimit_rule_def set_vip_nums_def)
  ultimately show ?thesis using assms by (simp add: conf_rule_def)
qed

lemma handle_reload_settings:
  assumes "settings_ok cfg"
  shows "\<exists>cfg' t. run_state (handle_reload fp dh cfg) s = (Ret cfg', t) \<and> same_settings cfg cfg'"
proof (cases "dc_conf_path cfg")
  case None
  then show ?thesis using same_settings_refl [OF assms] by (simp add: handle_reload_def run_dthen run_logmsg run_dret del: run_dthen_Ret)
next
  case (Some path)
  then obtain prev where prev: "dc_file cfg = Some prev" using assms by (auto simp: settings_ok_def)
  obtain loaded d where load: "conf_load (dh_host dh) path CONF_LOAD_FULL True conf_diag_reset = (loaded, d)" by (metis surj_pair)
  obtain cfg' t where run: "run_state (handle_reload fp dh cfg) s = (Ret cfg', t)" and
    out: "cfg' = cfg \<or> (\<exists>conf conf' rc rc'. loaded = Some conf \<and> reload_rule conf prev \<and> cfg' = cfg\<lparr>dc_file := Some conf'\<rparr> \<and>
       run_state (reconcile_apply fp (dh_host dh) (dh_sys dh) conf) rc = ((True, conf'), rc'))"
    using handle_reload_run [OF Some prev, of fp dh s] load by (fastforce split: option.splits if_splits prod.splits)
  from out have "same_settings cfg cfg'"
  proof (elim disjE exE conjE)
    fix conf conf' rc rc'
    assume new: "loaded = Some conf" "reload_rule conf prev" "cfg' = cfg\<lparr>dc_file := Some conf'\<rparr>"
      "run_state (reconcile_apply fp (dh_host dh) (dh_sys dh) conf) rc = ((True, conf'), rc')"
    from new(4) obtain es where "conf' = set_vip_nums conf es" by (cases rule: reconcile_apply_cases) auto
    moreover have "conf_rule conf" using conf_load_rule load new(1) by blast
    ultimately have "conf_rule conf'" "same_instance conf' prev"
      using conf_rule_vip_nums new(2) by (simp_all add: reload_rule_def same_instance_def)
    then show ?thesis using new(3) prev by (simp add: same_settings_def)
  qed (simp add: same_settings_refl [OF assms])
  then show ?thesis using run by blast
qed

lemma handle_ready_settings:
  "settings_ok cfg \<Longrightarrow> run_state (handle_ready fp dh cfg es) s = (Ret (Waiting cfg'), t) \<Longrightarrow> same_settings cfg cfg'"
proof (induction es arbitrary: cfg s)
  case (Cons e es)
  show ?case
  proof (cases e)
    case (Ready_signal r)
    obtain c u where c: "run_state (handle_reload fp dh cfg) s = (Ret c, u)" "same_settings cfg c"
      using handle_reload_settings [OF Cons(2)] by blast
    have "run_state (handle_ready fp dh c es) u = (Ret (Waiting cfg'), t)"
      using Cons(3) c(1) by (auto simp: Ready_signal run_dret split: if_splits)
    then show ?thesis using Cons(1) [OF same_settings_ok [OF Cons(2) c(2)]] c(2) same_settings_trans by blast
  next
    case (Ready_netlink msgs)
    then have "run_state (handle_ready fp dh cfg es) s = (Ret (Waiting cfg'), t)"
      using Cons(3) by (cases "link_monitor_saw_dellink msgs (dc_ifindex cfg)") (auto simp: run_dret split: bool.splits if_splits)
    then show ?thesis using Cons by blast
  qed
qed (simp add: run_dret same_settings_refl)

lemma attach_loop_settings:
  "settings_ok cfg \<Longrightarrow> run_state (attach_loop fp cfg ps) s = (Ret (Waiting cfg'), t) \<Longrightarrow> same_settings cfg cfg'"
proof (induction ps arbitrary: cfg s)
  case (Cons p ps)
  show ?case
  proof (cases p)
    case (Poll_error e)
    then show ?thesis using Cons by (auto simp: run_die split: if_splits)
  next
    case (Poll_ready dh es)
    then obtain r u where r: "run_state (handle_ready fp dh cfg es) s = (Ret r, u)"
      "run_state (case r of Waiting cfg \<Rightarrow> attach_loop fp cfg ps | Returned c \<Rightarrow> dret (Returned c)) u = (Ret (Waiting cfg'), t)"
      using Cons(3) by auto
    then obtain c where c: "r = Waiting c" "run_state (attach_loop fp c ps) u = (Ret (Waiting cfg'), t)"
      by (cases r) (auto simp: run_dret)
    have "same_settings cfg c" using handle_ready_settings [OF Cons(2)] r(1) c(1) by blast
    then show ?thesis using Cons(1) [OF same_settings_ok [OF Cons(2)] c(2)] same_settings_trans by blast
  qed
qed (simp add: run_dret same_settings_refl)

lemma attach_prepare_settings:
  assumes "run_state (attach_prepare fp dh conf_path) s = (Ret cfg, t)"
  shows "settings_ok cfg \<and> dc_conf_path cfg = conf_path"
proof -
  from assms obtain c s1 s6 s7 where run: "run_state (load_config dh conf_path CONF_LOAD_FULL) s = (Ret c, s1)"
    "run_state (reconcile_startup fp dh c) s6 = (Ret cfg, s7)"
    by (auto simp: attach_prepare_def run_dret)
  show ?thesis
  proof (cases conf_path)
    case None
    then have "dc_file c = None \<and> dc_conf_path c = None" using run(1) load_config_env_Ret by (fastforce simp: load_config_def zero_cfg_def)
    then show ?thesis using None reconcile_startup_Ret [OF run(2)] by (auto simp: settings_ok_def)
  next
    case (Some path)
    then obtain conf d where conf: "conf_load (dh_host dh) path CONF_LOAD_FULL True conf_diag_reset = (Some conf, d)"
        "dc_file c = Some conf" "dc_conf_path c = Some path"
      using run(1) load_config_file_Ret by (fastforce simp: load_config_def)
    then obtain conf' rc where app: "cfg = c\<lparr>dc_file := Some conf'\<rparr>"
      "run_state (reconcile_apply fp (dh_host dh) (dh_sys dh) conf) ((dm_rc s6)\<lparr>rc_diag := conf_diag_reset\<rparr>) = ((True, conf'), rc)"
      using reconcile_startup_Ret [OF run(2)] by auto
    from app(2) obtain es where "conf' = set_vip_nums conf es" by (cases rule: reconcile_apply_cases) auto
    then have "conf_rule conf'" using conf_rule_vip_nums conf_load_rule [OF conf(1)] by simp
    then show ?thesis using Some app(1) conf(3) by (simp add: settings_ok_def)
  qed
qed

lemma attach_start_settings:
  assumes "run_state (attach_start fp dh conf_path mode) s = (Ret cfg, t)"
  shows "settings_ok cfg \<and> dc_conf_path cfg = conf_path"
proof -
  from assms obtain c s1 s2 where prep: "run_state (attach_prepare fp dh conf_path) s = (Ret c, s1)"
    and "run_state (announce_attached dh mode c) s2 = (Ret cfg, t)"
    by (auto simp: attach_start_def)
  then have "cfg = c" using announce_Ret [of dh mode c s2] by auto
  then show ?thesis using attach_prepare_settings [OF prep] by simp
qed


text \<open>The source filter, over the whole life of the process.\<close>

lemma filter_attach_link: "does (\<lambda>_. True) acl_kept (attach_link dh i mode)"
  unfolding attach_link_def by (intro does_intros filter.does_emit TrueI)

lemma filter_cmd_attach:
  assumes "acl_host dh" "list_all (poll_ok acl_host) polls"
  shows "does (\<lambda>_. True) acl_kept (cmd_attach fp dh conf_path mode polls)"
  unfolding cmd_attach_def attach_start_def announce_attached_def
  by (intro does_intros filter_attach_link assms)


section \<open>The link monitor\<close>

text \<open>A message of the kernel carries its length, a removal also the index of the interface; messages are
  padded to four bytes and put one after the other.\<close>

definition nl_msg :: "bytes \<Rightarrow> bool" where
  "nl_msg m \<longleftrightarrow> 16 \<le> length m \<and> length m < 2 ^ 32 \<and> rd32 0 m = Some (of_nat (length m)) \<and>
     (rd16 4 m = Some RTM_DELLINK \<longrightarrow> 24 \<le> length m)"

definition nl_removes :: "int \<Rightarrow> bytes \<Rightarrow> bool" where
  "nl_removes ifindex m \<longleftrightarrow> rd16 4 m = Some RTM_DELLINK \<and> (\<exists>i. rd32 20 m = Some i \<and> sint i = ifindex)"

definition nl_pad :: "bytes \<Rightarrow> bytes" where
  "nl_pad m = m @ replicate (nlmsg_align (length m) - length m) 0"

lemma nlmsg_align_ge: "n \<le> nlmsg_align n"
  unfolding nlmsg_align_def by presburger

lemma length_nl_pad [simp]: "length (nl_pad m) = nlmsg_align (length m)"
  using nlmsg_align_ge by (simp add: nl_pad_def)

lemma rd_nl_pad:
  "off + 4 \<le> length m \<Longrightarrow> rd32 (length a + off) (a @ nl_pad m @ b) = rd32 off m"
  "off + 2 \<le> length m \<Longrightarrow> rd16 (length a + off) (a @ nl_pad m @ b) = rd16 off m"
  by (simp_all add: rd32_def rd16_def rd_def nl_pad_def)

lemma nl_scan_encoded:
  "list_all nl_msg ms \<Longrightarrow>
   nl_scan (a @ concat (map nl_pad ms) @ junk) (length a) (int (length (concat (map nl_pad ms)))) ifindex = Some (list_ex (nl_removes ifindex) ms)"
proof (induction ms arbitrary: a)
  case Nil
  then show ?case by (subst nl_scan.simps) simp
next
  case (Cons m ms)
  let ?buf = "a @ nl_pad m @ concat (map nl_pad ms) @ junk"
  let ?len = "int (nlmsg_align (length m)) + int (length (concat (map nl_pad ms)))"
  have m: "nl_msg m" and ms: "list_all nl_msg ms" using Cons(2) by simp_all
  have IH: "nl_scan ?buf (length a + nlmsg_align (length m)) (int (length (concat (map nl_pad ms)))) ifindex = Some (list_ex (nl_removes ifindex) ms)"
    using Cons(1) [OF ms, of "a @ nl_pad m"] by simp
  have len: "rd32 (length a) ?buf = Some (of_nat (length m))" "unat (of_nat (length m) :: u32) = length m"
    using m rd_nl_pad(1) [of 0 m a] by (auto simp: nl_msg_def unat_of_nat)
  obtain ty where ty: "rd16 4 m = Some ty" "rd16 (length a + 4) ?buf = Some ty"
    using m rd_nl_pad(2) [of 4 m a] by (auto simp: nl_msg_def mem_simps)
  have "\<exists>i. rd32 20 m = Some i \<and> rd32 (length a + 20) ?buf = Some i" if "ty = RTM_DELLINK"
    using that m ty(1) rd_nl_pad(1) [of 20 m a] by (auto simp: nl_msg_def mem_simps)
  then have hit: "(if ty = RTM_DELLINK then map_option (\<lambda>i. sint i = ifindex) (rd32 (length a + 20) ?buf) else Some False) = Some (nl_removes ifindex m)"
    using ty(1) by (auto simp: nl_removes_def)
  have big: "\<not> ?len < 16" "\<not> length m < 16" "\<not> int (length m) > ?len"
    using m nlmsg_align_ge [of "length m"] by (auto simp: nl_msg_def)
  have "nl_scan ?buf (length a) ?len ifindex = (if nl_removes ifindex m then Some True else Some (list_ex (nl_removes ifindex) ms))"
    by (subst nl_scan.simps) (simp add: len ty(2) hit big IH del: not_less)
  then show ?case by simp
qed

text \<open>C38: The link monitor reports exactly the removal of the attached interface: on any sequence of datagrams,
  each a sequence of complete netlink messages left in a larger buffer, the scan stays inside the
  received messages and answers whether one of them is a removal that names the interface index.\<close>

theorem saw_dellink_exact:
  assumes "list_all (list_all nl_msg) dgrams"
  shows "link_monitor_saw_dellink (map (\<lambda>ms. (concat (map nl_pad ms) @ junk, length (concat (map nl_pad ms)))) dgrams) ifindex =
    Some (list_ex (list_ex (nl_removes ifindex)) dgrams)"
  using assms
proof (induction dgrams)
  case (Cons ms dgrams)
  then show ?case
    using nl_scan_encoded [of ms "[]" junk ifindex] by (cases "list_ex (nl_removes ifindex) ms") simp_all
qed simp

section \<open>A running daemon\<close>

text \<open>A host on which everything succeeds, and one on which the configuration file cannot be opened.\<close>

definition build_bytes :: bytes where
  "build_bytes = [0x4e, 0x4c, 0x52, 0x4d] @ map (\<lambda>c. of_nat (of_char c)) ''1.2.3'' @ replicate 59 0"

definition sample_object :: bpf_object where
  "sample_object = \<lparr>bo_maps = [\<lparr>bm_name = ''.rodata'', bm_internal = True, bm_initial_value = Some build_bytes\<rparr>], bo_progs = [''xdp_main'']\<rparr>"

definition sample_dhost :: dhost where
  "sample_dhost = \<lparr>dh_host = sample_host, dh_sys = reload_sys, dh_getenv = [''IFACE'' \<mapsto> ''eth0''], dh_geteuid = 0, dh_readable = (\<lambda>_. True),
     dh_open_object = (\<lambda>_ _. Some sample_object), dh_bpffs_mounted = True, dh_ethtool = (\<lambda>_. None), dh_setup = (\<lambda>_. True),
     dh_set_pin_path = (\<lambda>_. True), dh_load = 0, dh_pin_maps = 0, dh_loaded_maps = reload_maps, dh_unlink = (\<lambda>_. ENOENT), dh_pin = (\<lambda>_. True),
     dh_link_create = (\<lambda>_ _. 7), dh_pinned_prog_id = (\<lambda>_. None), dh_links = [], dh_links_end = - ENOENT, dh_version_map = (\<lambda>_. None),
     dh_opendir = (\<lambda>_. Inl ENOENT), dh_rmdir = (\<lambda>_. 0)\<rparr>"

definition sample_start :: daemon where
  "sample_start = \<lparr>dm_rc = reload_state, dm_events = []\<rparr>"

definition sample_polls :: "poll list" where
  "sample_polls = [Poll_error True, Poll_ready sample_dhost [Ready_signal (Some SIGHUP)]]"

lemma sample_object_build:
  "marlin_find_build_map sample_object = Some \<lparr>bm_name = ''.rodata'', bm_internal = True, bm_initial_value = Some build_bytes\<rparr>"
  "marlind_bpf_object_supported (the (marlind_build_version (build_of build_bytes) (Suc MARLIN_VERSION_MAX))) = MARLIND_COMPAT_OK"
  by code_simp+

lemmas start_defs = attach_start_def attach_prepare_def load_config_def load_config_env_def preflight_def check_root_def check_obj_readable_def
  check_object_version_def marlin_build_from_object_def check_bpffs_mounted_def check_offload_off_def ethtool_feature_active_def
  open_signal_fd_def open_link_monitor_def open_event_loop_def load_and_pin_maps_def install_maps_def pin_version_def remove_stale_pin_def
  reconcile_startup_def pin_program_def attach_link_def announce_attached_def notify_def resolve_ifindex_def path_fits_def join_path_def
  config_obj_path_def zero_cfg_def MARLIN_DEFAULT_OBJ_def MARLIN_DEFAULT_PIN_DIR_def PATH_MAX_def MARLIN_PROG_NAME_def MARLIN_VERSION_PIN_def

lemma sample_attach:
  "\<exists>cfg t. run_state (attach_start int_fpu sample_dhost None XDP_ATTACH_NATIVE) sample_start = (Ret cfg, t) \<and>
     dc_conf_path cfg = None \<and> Ev_attach XDP_FLAGS_DRV_MODE \<in> set (dm_events t)"
  by (simp add: start_defs sample_dhost_def sample_start_def sample_host_def sample_object_build [unfolded sample_object_def] sample_object_def
      run_dret run_logmsg run_emit run_emit_all ENOENT_def)


text \<open>A reload while the file cannot be opened.\<close>

definition locked_dhost :: dhost where
  "locked_dhost = sample_dhost\<lparr>dh_host := sample_host\<lparr>h_open := (\<lambda>_. False)\<rparr>\<rparr>"




definition dellink_msg :: bytes where
  "dellink_msg = [25, 0, 0, 0, 17, 0, 0, 0] @ replicate 12 0 @ [2, 0, 0, 0, 9]"

theorem saw_dellink_exact_witness:
  "link_monitor_saw_dellink [(nl_pad dellink_msg @ [1, 2], 28)] 2 = Some True \<and>
   link_monitor_saw_dellink [(nl_pad dellink_msg @ [1, 2], 28)] 3 = Some False"
proof -
  have rd: "rd32 0 dellink_msg = Some 25" "rd16 4 dellink_msg = Some 17" "rd32 20 dellink_msg = Some 2" "length dellink_msg = 25"
    by code_simp+
  have m: "nl_msg dellink_msg" "nl_removes 2 dellink_msg" "\<not> nl_removes 3 dellink_msg"
    by (simp_all add: nl_msg_def nl_removes_def rd RTM_DELLINK_def)
  moreover have "nlmsg_align (length dellink_msg) = 28" by (simp add: nlmsg_align_def dellink_msg_def)
  ultimately show ?thesis
    using saw_dellink_exact [of "[[dellink_msg]]" "[1, 2]" 2] saw_dellink_exact [of "[[dellink_msg]]" "[1, 2]" 3] by simp
qed

end
