(* ===== verification/Spec2Isabelle.thy ===== *)
theory Spec2Isabelle
  imports Marlin_Pipeline Marlin_Verifier_Stats Marlin_Seed Marlind_Reconcile_Live Marlind_Daemon
begin

text \<open>
  MarlinLB, a stateless layer-4 load balancer. The BPF program (\<^verbatim>\<open>src/data-plane/bpf\<close>) runs for
  every received frame: it parses it, applies the source filter and the rate limiter, finds the VIP
  of the destination, picks a backend from a precomputed table or from a QUIC connection ID,
  encapsulates the packet if the backend asks for it and sends it out. The daemon
  (\<^verbatim>\<open>src/data-plane/marlind\<close>) reads a TOML file, checks it, loads and attaches the program and writes
  the maps the program reads; on SIGHUP it repeats this under traffic, one map update at a time. Two
  tools (\<^verbatim>\<open>src/data-plane/tools\<close>) seed a VIP by hand and report the stack use of the program. The parts
  interact through the BPF maps only: \<open>bpf_maps\<close> (\<open>Marlin_Abi\<close>) is the state shared by all of them.

  \<^bold>\<open>Theories and sources\<close> (paths below \<^verbatim>\<open>src/data-plane\<close>).

  \<^item> \<open>Marlin_Prelude\<close>: widths, byte strings, checked packet accesses, generic lemmas. \<open>Marlin_Abi\<close>:
    \<^verbatim>\<open>include/marlin/abi\<close>, \<^verbatim>\<open>marlin.h\<close>, \<^verbatim>\<open>maps.h\<close>, \<^verbatim>\<open>proto.h\<close>. \<open>Marlin_Kernel\<close>: the helpers of the kernel, as a
    record of functions. \<open>Marlin_Stats\<close>: \<^verbatim>\<open>stats.h\<close>.
  \<^item> Data plane: \<open>Marlin_Parser\<close> (\<^verbatim>\<open>bpf/parser.c\<close>), \<open>Marlin_Acl\<close> (\<^verbatim>\<open>bpf/acl.c\<close>), \<open>Marlin_Ratelimit\<close>
    (\<^verbatim>\<open>bpf/ratelimit.c\<close>), \<open>Marlin_Hash\<close> (\<^verbatim>\<open>siphash.h\<close>, \<^verbatim>\<open>entropy.h\<close>, \<^verbatim>\<open>marlind/hash.c\<close>), \<open>Marlin_Csum\<close> (\<^verbatim>\<open>csum.h\<close>,
    \<^verbatim>\<open>mtu.h\<close>), \<open>Marlin_Encap\<close> (\<^verbatim>\<open>bpf/ipip.c\<close>, \<^verbatim>\<open>gue.c\<close>, \<^verbatim>\<open>vxlan.c\<close>), \<open>Marlin_Nexthop\<close> (\<^verbatim>\<open>bpf/nexthop.c\<close>),
    \<open>Marlin_Lb\<close> (\<^verbatim>\<open>bpf/lb_core.c\<close>, \<^verbatim>\<open>bpf/main.c\<close>), \<open>Marlin_Pipeline\<close> (properties of the whole).
  \<^item> Configuration: \<open>Marlind_Conf_Value\<close> (\<^verbatim>\<open>marlind/conf_value.c\<close>, \<^verbatim>\<open>rl_scale.h\<close>), \<open>Marlind_Conf\<close> (\<^verbatim>\<open>conf.h\<close> and
    the diagnostics), \<open>Marlind_Conf_Parse\<close> (\<^verbatim>\<open>marlind/conf.c\<close>), \<open>Marlind_Conf_Check\<close>
    (\<^verbatim>\<open>marlind/conf_check.c\<close>), \<open>Marlind_Conf_Load\<close> (what loading guarantees).
  \<^item> Maps: \<open>Marlind_Vip_Alloc\<close> (\<^verbatim>\<open>marlind/vip_alloc.c\<close>), \<open>Marlind_Fwd_Gen\<close> (\<^verbatim>\<open>marlind/fwd_gen.c\<close>),
    \<open>Marlind_Reconcile\<close> (\<^verbatim>\<open>marlind/reconcile.c\<close>), and about it \<open>Marlind_Reconcile_Logic\<close>,
    \<open>Marlind_Reconcile_Acl\<close>, \<open>Marlind_Blocks\<close>, \<open>Marlind_Reconcile_Vip\<close>, \<open>Marlind_Reconcile_Live\<close>.
  \<^item> Daemon: \<open>Marlind_Compat\<close> (\<^verbatim>\<open>include/marlind/compat.h\<close>, \<^verbatim>\<open>build.h\<close>), \<open>Marlind_Loader\<close> (\<^verbatim>\<open>marlind/config.c\<close>,
    \<^verbatim>\<open>preflight.c\<close>, \<^verbatim>\<open>bpf_load.c\<close>, \<^verbatim>\<open>log.c\<close>), \<open>Marlind_Commands\<close> (\<^verbatim>\<open>marlind/main.c\<close> and the four \<^verbatim>\<open>cmd_*.c\<close>),
    \<open>Marlind_Daemon\<close> (properties of the whole).
  \<^item> Tools: \<open>Marlin_Seed\<close> (\<^verbatim>\<open>tools/marlin_seed.c\<close>), \<open>Marlin_Verifier_Stats\<close> (\<^verbatim>\<open>tools/verifier_stats.c\<close>).

  \<^bold>\<open>State and operations.\<close> A function of the code is a definition of the same name; a loop or a part of a
  long function that is stated apart has a name of its own. The data plane is explicit state passing
  over the packet (\<open>xdp_md\<close>), the per-packet context and the maps; an access outside the packet is
  \<open>None\<close>, so a run that has a result has made none. Integers keep their width; byte order is
  little-endian, as on the hosts the program supports. Loading a configuration threads the bounded
  list of diagnostics. Reconciliation and the seeding tool run in a state monad over the maps, the
  list of all contents they have gone through and a count of system calls; the answer of each call
  is the parameter \<open>sys\<close>, so every failure is a case. The daemon runs in a monad over that state and
  the events an observer sees (log lines, pins, the attach), in which a process may also die with a
  code.

  \<^bold>\<open>What is shown.\<close>

  \<^item> Packets. Every run of \<open>xdp_main\<close> is free of illegal accesses and ends in an action; each packet is
    counted once; an accepted packet leaves intact towards the chosen backend, in a well-formed
    tunnel with a checksum that verifies; errors of ICMP follow the flow they speak of; the fragments
    of a datagram stay together; QUIC connection IDs lead back to the backend that issued them; the
    filter decides by the rules alone; the rate limiter is linearizable under interference, bounded
    by burst and rate, and passes conforming traffic.
  \<^item> Configurations. \<open>conf_check\<close> accepts exactly the configurations that keep the written rules; a
    configuration that loads keeps them and its types; a rejected one has a message; addresses, keys
    and flags make round trips.
  \<^item> Tables. Rendezvous hashing changes only the rows it must; both copies of SipHash agree; numbers of
    surviving VIPs are kept; the order in which blocks and keys are written never leads a key to the
    block of another service.
  \<^item> Reloads. The writes of \<open>reconcile_apply\<close> refine that abstract publication step by step: in all
    contents of the maps, also when calls fail, each service has its own rows (\<open>Marlind_Reconcile_Vip\<close>);
    composed with the lookups of the data plane, every packet keeps to its service (below). No rule of
    the filter is hidden at any moment. On a host whose calls succeed and whose maps have room, a
    reload succeeds (\<open>Marlind_Reconcile_Live\<close>), and then the packets of every configured service get the
    backends configured for it (below). A backend with an egress interface can never be applied.
  \<^item> The daemon. It attaches only after every check has passed and a complete reconciliation; a failed
    reload keeps the previous configuration; over any sequence of signals, messages and failures the
    settings it started with and the filter hold; a removed interface is noticed exactly; versions
    are read and ordered as documented.
  \<^item> Tools. Seeding and removing a VIP publish and withdraw the key on the safe side of the block; the
    reported stack chain is the costliest of all chains without repetition.

  Interfaces are locales, interpreted on the definitions of the model: \<open>source_filter\<close>, \<open>encap_unit\<close>,
  \<open>nexthop_unit\<close>, \<open>token_bucket\<close>, \<open>rendezvous\<close>, \<open>checker\<close>, \<open>acl_trie\<close>, and \<open>frame\<close>, \<open>harmless_frame\<close>,
  \<open>daemon_frame\<close> for what a whole run of the daemon leaves alone.

  \<^bold>\<open>Parameters.\<close> \<open>kernel\<close>: BPF helpers and the tries. \<open>sys\<close>: answers of system calls, the order in which keys
  of a map are enumerated (hypothesis \<open>enumerates\<close>: each key once). \<open>host\<close> and \<open>dhost\<close>: files, interfaces,
  the TOML parser, libbpf, ethtool, environment. \<open>fpu\<close>: the floating-point operations of the weighted
  score. \<open>vs_host\<close>, \<open>elf_file\<close>: libelf and the verifier log. \<open>seed_host\<close>: the pinned maps. Library
  functions with a computation of their own (\<^verbatim>\<open>inet_pton\<close>, \<^verbatim>\<open>strtoul\<close>, \<^verbatim>\<open>getopt_long\<close>, the netlink macros) are written
  out.

  \<^bold>\<open>Bounds.\<close> The loops of the data plane have the constant bounds of the code; the compare-and-swap loop
  is recursion on its bound. The walk over the call graph ends because each call marks one more
  function of the graph as on the stack; scanning a netlink buffer ends because each message is at least a
  header long. The event loop is recursion on the list of results of \<^verbatim>\<open>epoll_wait\<close>: the statements are
  for every list, so for every finite prefix of a run that does not end.

  \<^bold>\<open>Not modelled.\<close> The vendored TOML parser, but for \<^verbatim>\<open>toml_get\<close>: it is third-party code, and a parameter.
  Release of memory and descriptors (\<^verbatim>\<open>conf_free\<close>, \<^verbatim>\<open>free_config\<close>, \<^verbatim>\<open>close\<close>), which no result depends on. The text
  of a message beyond its format string, and the printing of the tools. The kernel's and libbpf's own
  code. The tests and scripts of the repository.
\<close>

section \<open>From the configuration to the packets\<close>

text \<open>The row the data plane reads is a row of the VIP's block.\<close>

definition flow_row :: "marlin_ctx \<Rightarrow> vip_meta \<Rightarrow> nat" where
  "flow_row pkt meta = unat (lb_flow_hash (mc_tuple pkt) meta) mod table_size"

lemma flow_row_less: "flow_row pkt meta < table_size"
  by (simp add: flow_row_def)

lemma row_flow_row:
  assumes "vm_vip_num meta < MAX_VIPS"
  shows "vm_vip_num meta * TABLE_SIZE + ucast (lb_flow_hash (mc_tuple pkt) meta AND (ucast TABLE_SIZE - 1)) = row (vm_vip_num meta) (flow_row pkt meta)"
proof -
  have "unat (row (vm_vip_num meta) (flow_row pkt meta)) = unat (vm_vip_num meta) * 65536 + unat (lb_flow_hash (mc_tuple pkt) meta) mod 65536"
    using unat_row [OF assms flow_row_less] by (simp add: flow_row_def)
  then show ?thesis using unat_fkey [of "vm_vip_num meta" "lb_flow_hash (mc_tuple pkt) meta"] assms by (simp add: word_unat_eq_iff)
qed

lemma by_hash_row:
  "marlin_lb_select_backend_by_hash pkt meta m =
    (if MAX_VIPS \<le> vm_vip_num meta then None
     else (case m_fwd_table m (row (vm_vip_num meta) (flow_row pkt meta)) of
       None \<Rightarrow> None
     | Some bid \<Rightarrow> if bid = MARLIN_NO_BACKEND \<or> MAX_BACKENDS \<le> bid then None else m_backends m bid))"
  unfolding marlin_lb_select_backend_by_hash_def Let_def by (rule if_cong [OF refl refl]) (simp only: row_flow_row not_le)

definition pkt_keys :: "marlin_ctx \<Rightarrow> vip_key set" where
  "pkt_keys pkt = {marlin_lb_vip_key pkt, (marlin_lb_vip_key pkt)\<lparr>vk_port := 0\<rparr>}"

text \<open>Every packet that finds a VIP in the contents \<open>m\<close> and is given a backend by its flow hash is given one
  that a key of the packet led to in \<open>m0\<close>, for the same row, or a member of a VIP of the
  configuration that has a key of the packet.\<close>

definition packets_isolated :: "marlin_conf \<Rightarrow> bpf_maps \<Rightarrow> bpf_maps \<Rightarrow> bool" where
  "packets_isolated conf m0 m \<longleftrightarrow> (\<forall>pkt meta be. marlin_lb_select_vip m pkt = Some meta \<longrightarrow> marlin_lb_select_backend_by_hash pkt meta m = Some be \<longrightarrow>
     (\<exists>k\<in>pkt_keys pkt. \<exists>bid. m_backends m bid = Some be \<and>
       ((\<exists>meta0. m_vip_map m0 k = Some meta0 \<and> m_fwd_table m0 (row (vm_vip_num meta0) (flow_row pkt meta)) = Some bid) \<or>
        (\<exists>v\<in>set (mf_vips conf). k \<in> set (cv_keys v) \<and> bid \<in> (\<lambda>b. ucast (cm_backend_id b)) ` set (cv_members v)))))"

lemma isolated_packets:
  assumes "isolated fp conf m0 m"
  shows "packets_isolated conf m0 m"
  unfolding packets_isolated_def
proof (intro allI impI)
  fix pkt meta be
  assume vip: "marlin_lb_select_vip m pkt = Some meta" and be: "marlin_lb_select_backend_by_hash pkt meta m = Some be"
  obtain k where k: "k \<in> pkt_keys pkt" "m_vip_map m k = Some meta"
    using vip by (auto simp: marlin_lb_select_vip_def pkt_keys_def Let_def split: option.splits)
  obtain bid where bid: "m_fwd_table m (row (vm_vip_num meta) (flow_row pkt meta)) = Some bid" "bid \<noteq> 0" "m_backends m bid = Some be"
    using be by (auto simp: by_hash_row split: if_splits option.splits)
  have "row_ok fp conf m0 m k (vm_vip_num meta) (flow_row pkt meta)"
    using assms k(2) flow_row_less unfolding isolated_def by blast
  then have "(\<exists>meta0. m_vip_map m0 k = Some meta0 \<and> m_fwd_table m0 (row (vm_vip_num meta0) (flow_row pkt meta)) = Some bid) \<or>
      (\<exists>v\<in>set (mf_vips conf). k \<in> set (cv_keys v) \<and> bid \<in> (\<lambda>b. ucast (cm_backend_id b)) ` set (cv_members v))"
    unfolding row_ok_def using bid(1,2) vip_block_member [OF flow_row_less, of fp conf _ pkt meta] by fastforce
  then show "\<exists>k\<in>pkt_keys pkt. \<exists>bid. m_backends m bid = Some be \<and>
      ((\<exists>meta0. m_vip_map m0 k = Some meta0 \<and> m_fwd_table m0 (row (vm_vip_num meta0) (flow_row pkt meta)) = Some bid) \<or>
       (\<exists>v\<in>set (mf_vips conf). k \<in> set (cv_keys v) \<and> bid \<in> (\<lambda>b. ucast (cm_backend_id b)) ` set (cv_members v)))"
    using k(1) bid(3) by blast
qed



text \<open>A configuration is served: a packet whose address, port and protocol are a key of a VIP with members
  finds exactly that VIP's settings and is given, by its flow hash, the map entry made from one of the
  backends that the VIP names as its members, the one that rendezvous hashing over the members gives
  the row of the hash.\<close>

definition serves :: "'f::linorder fpu \<Rightarrow> host \<Rightarrow> marlin_conf \<Rightarrow> bpf_maps \<Rightarrow> bool" where
  "serves fp h conf m \<longleftrightarrow> (\<forall>v\<in>set (mf_vips conf). \<forall>pkt. marlin_lb_vip_key pkt \<in> set (cv_keys v) \<longrightarrow> cv_members v \<noteq> [] \<longrightarrow>
     marlin_lb_select_vip m pkt = Some (cv_meta v) \<and>
     (\<exists>mb\<in>set (cv_members v). \<exists>b. find_backend (mf_backends conf) (cm_backend_name mb) = Some b \<and>
        ucast (cb_id b) = vip_block fp conf v ! flow_row pkt (cv_meta v) \<and>
        marlin_lb_select_backend_by_hash pkt (cv_meta v) m = Some (backend_value h b)))"

lemma published_serves:
  assumes "services_published fp conf m" "backends_published h conf m" "members_resolved conf"
    and "\<forall>b\<in>set (mf_backends conf). cb_id b \<noteq> 0 \<and> (ucast (cb_id b) :: u32) < MAX_BACKENDS"
  shows "serves fp h conf m"
  unfolding serves_def
proof (intro ballI allI impI)
  fix v pkt assume v: "v \<in> set (mf_vips conf)" "marlin_lb_vip_key pkt \<in> set (cv_keys v)" "cv_members v \<noteq> []"
  have s: "m_vip_map m (marlin_lb_vip_key pkt) = Some (cv_meta v)" "vm_vip_num (cv_meta v) < MAX_VIPS"
    "holds_block (vm_vip_num (cv_meta v)) (vip_block fp conf v) m"
    using assms(1) v(1,2) unfolding services_published_def by blast+
  obtain mb b where b: "mb \<in> set (cv_members v)" "find_backend (mf_backends conf) (cm_backend_name mb) = Some b"
    "vip_block fp conf v ! flow_row pkt (cv_meta v) = ucast (cb_id b)"
    using vip_block_backend [OF flow_row_less v(3) assms(3) v(1)] by blast
  then have mem: "b \<in> set (mf_backends conf)" by (auto simp: find_backend_def dest: find_SomeD)
  have "m_fwd_table m (row (vm_vip_num (cv_meta v)) (flow_row pkt (cv_meta v))) = Some (ucast (cb_id b))"
    using s(3) flow_row_less b(3) unfolding holds_block_def by metis
  moreover have "(ucast (cb_id b) :: u32) \<noteq> 0" using assms(4) mem by (intro low_neq) force
  moreover have "m_backends m (ucast (cb_id b)) = Some (backend_value h b)" "(ucast (cb_id b) :: u32) < MAX_BACKENDS"
    using assms(2,4) mem unfolding backends_published_def by blast+
  ultimately have "marlin_lb_select_backend_by_hash pkt (cv_meta v) m = Some (backend_value h b)"
    using s(2) by (simp add: by_hash_row not_le [symmetric])
  moreover have "marlin_lb_select_vip m pkt = Some (cv_meta v)" using s(1) by (simp add: marlin_lb_select_vip_def)
  ultimately show "marlin_lb_select_vip m pkt = Some (cv_meta v) \<and>
     (\<exists>mb\<in>set (cv_members v). \<exists>b. find_backend (mf_backends conf) (cm_backend_name mb) = Some b \<and>
        ucast (cb_id b) = vip_block fp conf v ! flow_row pkt (cv_meta v) \<and>
        marlin_lb_select_backend_by_hash pkt (cv_meta v) m = Some (backend_value h b))"
    using b by metis
qed


text \<open>A packet for the first address of the sample configuration.\<close>

definition live_pkt :: marlin_ctx where
  "live_pkt = zero_ctx\<lparr>mc_tuple := zero_tuple\<lparr>pt_src := (77, 0, 0, 0), pt_dst := (1, 0, 0, 0), pt_sport := 4242, pt_dport := bswap16 80,
     pt_proto := IPPROTO_TCP, pt_family := AF_INET\<rparr>\<rparr>"


end
